(* ===== verification/Prelude.thy ===== *)
theory Prelude
  imports Main "HOL-Library.Word" "HOL-Library.Char_ord" "HOL-Library.List_Lexorder"
    "HOL-Library.Sublist"
begin

text \<open>
  Shared base of the development: the machine types of the Go code, byte strings and their
  lexicographic order, and generic facts about lists, maps and words that several components use.

  A Go \<open>string\<close> and a Go \<open>[]byte\<close> are both sequences of bytes and the code converts
  between them freely, so both are \<open>char list\<close> here (a HOL \<open>char\<close> is exactly one byte).
  Badger and \<open>bytes.Compare\<close> order keys lexicographically by unsigned byte; that is the
  order \<open>(<)\<close> that \<open>Char_ord\<close> and \<open>List_Lexorder\<close> give to \<open>char list\<close>.
\<close>

section \<open>Types\<close>

type_synonym bytes = "char list"
type_synonym u8 = "8 word"
type_synonym u32 = "32 word"
type_synonym u64 = "64 word"

section \<open>Automation collections\<close>

named_theorems kv_simps \<open>laws of the ordered key-value store\<close>
named_theorems raft_simps \<open>frame and lookup facts of the raft node state\<close>
named_theorems raft_inv \<open>preservation of the raft node invariants\<close>

section \<open>Bytes\<close>

abbreviation byte_val :: "char \<Rightarrow> nat" where
  "byte_val c \<equiv> of_char c"

lemma byte_val_less [simp]: "byte_val c < 256"
  by (rule nat_of_char_less_256)

lemma byte_val_le [simp]: "byte_val c \<le> 255"
  using byte_val_less [of c] by linarith

lemma byte_val_inject: "byte_val c = byte_val d \<longleftrightarrow> c = d"
  by (simp add: of_char_eq_iff)

lemma byte_val_char_of: "n < 256 \<Longrightarrow> byte_val (char_of n) = n"
  by simp

lemma char_less_iff: "c < d \<longleftrightarrow> byte_val c < byte_val d"
  by (simp add: less_char_def)

lemma char_le_iff: "c \<le> d \<longleftrightarrow> byte_val c \<le> byte_val d"
  by (simp add: less_eq_char_def)

lemma byte_val_255_iff: "byte_val c = 255 \<longleftrightarrow> c = CHR 0xFF"
proof -
  have "byte_val (CHR 0xFF) = 255" by simp
  then show ?thesis by (metis byte_val_inject)
qed

lemma byte_val_not_less_255: "\<not> byte_val c < 255 \<longleftrightarrow> c = CHR 0xFF"
proof -
  have "\<not> byte_val c < 255 \<longleftrightarrow> byte_val c = 255" using byte_val_le [of c] by linarith
  then show ?thesis by (simp only: byte_val_255_iff)
qed

section \<open>Lexicographic order of byte strings\<close>

lemma lex_append_same [simp]:
  "xs @ ys < xs @ zs \<longleftrightarrow> ys < (zs :: 'a :: linorder list)"
  by (induction xs) auto

lemma lex_append_same_le [simp]:
  "xs @ ys \<le> xs @ zs \<longleftrightarrow> ys \<le> (zs :: 'a :: linorder list)"
  by (induction xs) auto

lemma lex_le_append [simp]: "xs \<le> xs @ (ys :: 'a :: linorder list)"
  using lex_append_same_le [of xs "[]" ys] by simp

lemma prefix_imp_lex_le: "prefix xs ys \<Longrightarrow> xs \<le> (ys :: 'a :: linorder list)"
  by (auto simp: prefix_def)

lemma lex_between_prefix:
  "q @ xs \<le> k \<Longrightarrow> k < q @ zs \<Longrightarrow> prefix q (k :: 'a :: linorder list)"
proof (induction q arbitrary: k)
  case Nil
  then show ?case by simp
next
  case (Cons a q)
  then show ?case by (cases k) (auto simp: less_le_not_le)
qed

lemma lex_replicate_top:
  "(\<And>x. x \<le> hi) \<Longrightarrow> replicate n hi \<le> k \<longleftrightarrow> prefix (replicate n hi) (k :: 'a :: linorder list)"
proof (induction n arbitrary: k)
  case 0
  then show ?case by simp
next
  case (Suc n)
  show ?case
  proof (cases k)
    case Nil
    then show ?thesis by simp
  next
    case (Cons x xs)
    have "hi < x \<longleftrightarrow> False" using Suc.prems [of x] by auto
    with Cons Suc show ?thesis by auto
  qed
qed

lemma lex_le_replicate:
  "(\<And>x. x \<le> hi) \<Longrightarrow> (xs :: 'a :: linorder list) \<le> replicate (length xs) hi"
  by (induction xs) (auto simp: le_less)

lemma lex_less_replicate_bot:
  "(\<And>x. lo \<le> x) \<Longrightarrow>
     k < replicate n lo \<longleftrightarrow> (\<exists>m < n. (k :: 'a :: linorder list) = replicate m lo)"
proof (induction n arbitrary: k)
  case 0
  then show ?case by simp
next
  case (Suc n)
  show ?case
  proof (cases k)
    case Nil
    then show ?thesis by (auto intro: exI [of _ 0])
  next
    case (Cons x xs)
    have "x < lo \<longleftrightarrow> False" using Suc.prems [of x] by auto
    then have "k < replicate (Suc n) lo \<longleftrightarrow> x = lo \<and> (\<exists>m < n. xs = replicate m lo)"
      using Cons Suc by auto
    also have "\<dots> \<longleftrightarrow> (\<exists>m < Suc n. k = replicate m lo)"
      using Cons by (auto simp: less_Suc_eq_0_disj Bex_def)
    finally show ?thesis .
  qed
qed

section \<open>Lists\<close>

text \<open>Splitting a list at the first occurrence of an element.\<close>

fun split_first :: "'a \<Rightarrow> 'a list \<Rightarrow> ('a list \<times> 'a list) option" where
  "split_first a [] = None"
| "split_first a (x # xs) =
     (if x = a then Some ([], xs)
      else map_option (\<lambda>(l, r). (x # l, r)) (split_first a xs))"

lemma split_first_Some:
  "split_first a xs = Some (l, r) \<longleftrightarrow> xs = l @ a # r \<and> a \<notin> set l"
  by (induction xs arbitrary: l r) (auto simp: Cons_eq_append_conv)

lemma split_first_None: "split_first a xs = None \<longleftrightarrow> a \<notin> set xs"
  by (induction xs) auto

lemma split_first_append [simp]: "a \<notin> set l \<Longrightarrow> split_first a (l @ a # r) = Some (l, r)"
  by (simp add: split_first_Some)

lemma append_sep_inject:
  "a \<notin> set l \<Longrightarrow> a \<notin> set l' \<Longrightarrow> l @ a # r = l' @ a # r' \<longleftrightarrow> l = l' \<and> r = r'"
  by (metis split_first_append option.inject prod.inject)

lemma prefix_sep_iff:
  "a \<notin> set l \<Longrightarrow> a \<notin> set l' \<Longrightarrow> prefix (l @ [a]) (l' @ a # r) \<longleftrightarrow> l = l'"
  by (auto simp: prefix_def append_sep_inject)

lemma take_if_limit: "set (if n = 0 then xs else take n xs) \<subseteq> set xs"
  by (auto dest: in_set_takeD)

section \<open>Association lists\<close>

lemma map_of_filter_neq [simp]:
  "map_of (filter (\<lambda>(a, _). a \<noteq> k) xs) = (map_of xs)(k := None)"
  by (induction xs) (auto simp: fun_eq_iff)

lemma sorted_wrt_map_fst_filter:
  "sorted_wrt R (map fst xs) \<Longrightarrow> sorted_wrt R (map fst (filter P xs))"
  by (induction xs) auto

section \<open>Machine words\<close>

lemma unat_bound: "unat (w :: 'a :: len word) < 2 ^ LENGTH('a)"
  by (rule unsigned_less)

lemma unat_less_256 [simp]: "unat (w :: u8) < 256"
  using unat_bound [of w] by simp

lemma u64_inc_unat: "unat (w :: u64) < 2 ^ 64 - 1 \<Longrightarrow> unat (w + 1) = unat w + 1"
  by (simp add: unat_word_ariths)

lemma u64_inc_less: "(w :: u64) < v \<Longrightarrow> unat (w + 1) = unat w + 1"
proof -
  assume "w < v"
  then have "unat w < unat v" by (simp add: word_less_nat_alt)
  moreover have "unat v < 2 ^ 64" using unat_bound [of v] by simp
  ultimately show ?thesis by (intro u64_inc_unat) simp
qed

lemma u64_inc_le: "(w :: u64) < v \<Longrightarrow> w + 1 \<le> v"
  using u64_inc_less [of w v] by (simp add: word_less_nat_alt word_le_nat_alt)

lemma u64_less_inc: "(w :: u64) < v \<Longrightarrow> w < w + 1"
  using u64_inc_less [of w v] by (simp add: word_less_nat_alt)

lemma u64_le_dec: "0 < (w :: u64) \<Longrightarrow> i \<le> w - 1 \<longleftrightarrow> i < w"
  using unat_minus_one [of w] by (cases "w = 0") (auto simp: word_less_nat_alt word_le_nat_alt)

text \<open>The byte that stands for an 8-bit word.\<close>

definition byte_of :: "u8 \<Rightarrow> char" where
  "byte_of w = char_of (unat w)"

lemma byte_val_byte_of [simp]: "byte_val (byte_of w) = unat w"
  by (simp add: byte_of_def)

lemma byte_of_inject [simp]: "byte_of v = byte_of w \<longleftrightarrow> v = w"
  by (metis byte_val_byte_of word_unat_eq_iff)

section \<open>Big-endian byte strings\<close>

text \<open>
  \<open>be_bytes n v\<close> is the \<open>n\<close>-byte big-endian form of \<open>v\<close> (\<open>encoding/binary\<close>'s
  \<open>PutUint16\<close>, \<open>PutUint32\<close> and \<open>PutUint64\<close> for 2, 4 and 8), \<open>be_val\<close> reads it back.
\<close>

fun be_bytes :: "nat \<Rightarrow> nat \<Rightarrow> bytes" where
  "be_bytes 0 v = []"
| "be_bytes (Suc n) v = be_bytes n (v div 256) @ [char_of v]"

definition be_val :: "bytes \<Rightarrow> nat" where
  "be_val bs = foldl (\<lambda>acc c. acc * 256 + byte_val c) 0 bs"

lemma length_be_bytes [simp]: "length (be_bytes n v) = n"
  by (induction n arbitrary: v) auto

lemma be_val_simps [simp]:
  "be_val [] = 0"
  "be_val (bs @ [c]) = be_val bs * 256 + byte_val c"
  by (simp_all add: be_val_def)

lemma be_val_be_bytes: "be_val (be_bytes n v) = v mod 256 ^ n"
proof (induction n arbitrary: v)
  case 0
  then show ?case by simp
next
  case (Suc n)
  have "v div 256 mod 256 ^ n * 256 + v mod 256 = v mod (256 * 256 ^ n)"
    by (simp add: mod_mult2_eq)
  with Suc show ?case by simp
qed

lemma be_val_be_bytes_id: "v < 256 ^ n \<Longrightarrow> be_val (be_bytes n v) = v"
  by (simp add: be_val_be_bytes)

lemma be_bytes_be_val: "be_bytes (length bs) (be_val bs) = bs"
proof (induction bs rule: rev_induct)
  case Nil
  then show ?case by simp
next
  case (snoc c bs)
  have "(be_val bs * 256 + byte_val c) div 256 = be_val bs"
    using byte_val_less [of c] by linarith
  moreover have "char_of (be_val bs * 256 + byte_val c) = c"
    by (rule of_char_eqI [where ?'a = nat]) (simp add: mod_add_eq [symmetric] del: mod_add_eq)
  ultimately show ?case using snoc by simp
qed

lemma be_val_bound: "be_val bs < 256 ^ length bs"
proof -
  have "be_val bs = be_val (be_bytes (length bs) (be_val bs))" by (simp add: be_bytes_be_val)
  also have "\<dots> = be_val bs mod 256 ^ length bs" by (rule be_val_be_bytes)
  finally show ?thesis by (metis mod_less_divisor zero_less_numeral zero_less_power)
qed

lemma be_bytes_small:
  assumes "v < 256 ^ 3"
  shows "be_bytes 4 v = CHR 0x00 # be_bytes 3 v"
proof -
  have "be_val (CHR 0x00 # be_bytes 3 v) = be_val (be_bytes 3 v)" by (simp add: be_val_def)
  also have "\<dots> = v" by (rule be_val_be_bytes_id [OF assms])
  finally show ?thesis using be_bytes_be_val [of "CHR 0x00 # be_bytes 3 v"] by simp
qed

lemma lex_snoc_same_length:
  "length xs = length ys \<Longrightarrow>
     xs @ [a] < ys @ [b :: 'a :: linorder] \<longleftrightarrow> xs < ys \<or> (xs = ys \<and> a < b)"
  by (induction xs ys rule: list_induct2) auto

text \<open>The big-endian form orders byte strings as the numbers are ordered.\<close>

lemma be_bytes_less_iff:
  "v < 256 ^ n \<Longrightarrow> w < 256 ^ n \<Longrightarrow> be_bytes n v < be_bytes n w \<longleftrightarrow> v < w"
proof (induction n arbitrary: v w)
  case 0
  then show ?case by simp
next
  case (Suc n)
  then have bounds: "v div 256 < 256 ^ n" "w div 256 < 256 ^ n"
    by (simp_all add: less_mult_imp_div_less mult.commute)
  have eq: "be_bytes n (v div 256) = be_bytes n (w div 256) \<longleftrightarrow> v div 256 = w div 256"
    using bounds be_val_be_bytes_id by metis
  have aux: "256 * a + r < 256 * b + s \<longleftrightarrow> a < b \<or> (a = b \<and> r < s)"
    if "r < 256" "s < 256" for a b r s :: nat
    using that by (cases "a < b"; cases "a = b") auto
  have "v < w \<longleftrightarrow> v div 256 < w div 256 \<or> (v div 256 = w div 256 \<and> v mod 256 < w mod 256)"
    using aux [of "v mod 256" "w mod 256" "v div 256" "w div 256"] by simp
  then show ?case
    using Suc.IH [OF bounds] eq by (simp add: lex_snoc_same_length char_less_iff)
qed

lemma be_bytes_inject:
  "v < 256 ^ n \<Longrightarrow> w < 256 ^ n \<Longrightarrow> be_bytes n v = be_bytes n w \<longleftrightarrow> v = w"
  by (metis be_val_be_bytes_id)

section \<open>Letter case\<close>

text \<open>
  \<open>strings.ToUpper\<close>, \<open>strings.ToLower\<close> and \<open>strings.EqualFold\<close> on ASCII text; bytes from
  0x80 on are left as they are.
\<close>

definition lower_byte :: "char \<Rightarrow> char" where
  "lower_byte c = (if 65 \<le> byte_val c \<and> byte_val c \<le> 90 then char_of (byte_val c + 32) else c)"

definition upper_byte :: "char \<Rightarrow> char" where
  "upper_byte c = (if 97 \<le> byte_val c \<and> byte_val c \<le> 122 then char_of (byte_val c - 32) else c)"

definition to_lower :: "bytes \<Rightarrow> bytes" where
  "to_lower s = map lower_byte s"

definition to_upper :: "bytes \<Rightarrow> bytes" where
  "to_upper s = map upper_byte s"

definition equal_fold :: "bytes \<Rightarrow> bytes \<Rightarrow> bool" where
  "equal_fold s t \<longleftrightarrow> to_lower s = to_lower t"

lemma equal_fold_refl [simp]: "equal_fold s s"
  by (simp add: equal_fold_def)

section \<open>Values\<close>

text \<open>
  The dynamic values (\<open>any\<close>) that SQL literals, column defaults and rows hold; lists and objects
  come from JSON. A \<open>float64\<close> is its IEEE-754 bit pattern.
\<close>

type_synonym f64 = "64 word"

datatype val = VNil | VBool bool | VInt int | VFloat f64 | VStr bytes
  | VList "val list" | VObj "(bytes \<times> val) list"

lemma set_map_filter: "set (List.map_filter f xs) = {y. \<exists>x \<in> set xs. f x = Some y}"
  by (force simp: List.map_filter_def)

end
