(* ===== verification/Cache.thy ===== *)
theory Cache
  imports Prelude
begin

text \<open>
  Model of \<^verbatim>\<open>internal/storage/cache.go\<close>: the LRU cache that the session manager puts in front
  of the engine. The Go code keeps a map from keys to pointers into a doubly linked list, so the
  model has the heap of list elements (\<open>elems\<close>), the list as the sequence of element addresses
  from front to back (\<open>order\<close>) and the map (\<open>items\<close>). The abstract cache is the list of
  key-value pairs, most recently used first; the operations below are shown to implement it.
\<close>

section \<open>State\<close>

record cache =
  max_size :: int
  items :: "bytes \<rightharpoonup> nat"
  order :: "nat list"
  elems :: "nat \<rightharpoonup> bytes \<times> bytes"
  next_elem :: nat
  hits :: int
  misses :: int

record cache_stats =
  stat_hits :: int
  stat_misses :: int
  stat_size :: nat
  stat_max :: int

definition NewCache :: "int \<Rightarrow> cache" where
  "NewCache n =
     \<lparr>max_size = n, items = Map.empty, order = [], elems = Map.empty, next_elem = 0,
      hits = 0, misses = 0\<rparr>"

section \<open>Operations\<close>

definition move_to_front :: "nat \<Rightarrow> nat list \<Rightarrow> nat list" where
  "move_to_front e xs = (if e \<in> set xs then e # filter (\<lambda>x. x \<noteq> e) xs else xs)"

definition remove_element :: "cache \<Rightarrow> nat \<Rightarrow> cache" where
  "remove_element c e =
     (case elems c e of
        None \<Rightarrow> c
      | Some (k, _) \<Rightarrow>
          c\<lparr>order := filter (\<lambda>x. x \<noteq> e) (order c), items := (items c)(k := None)\<rparr>)"

definition cache_evict :: "cache \<Rightarrow> cache" where
  "cache_evict c = (if order c = [] then c else remove_element c (last (order c)))"

definition cache_get :: "cache \<Rightarrow> bytes \<Rightarrow> bytes option \<times> cache" where
  "cache_get c k =
     (case items c k of
        Some e \<Rightarrow>
          (map_option snd (elems c e),
           c\<lparr>order := move_to_front e (order c), hits := hits c + 1\<rparr>)
      | None \<Rightarrow> (None, c\<lparr>misses := misses c + 1\<rparr>))"

definition cache_set :: "cache \<Rightarrow> bytes \<Rightarrow> bytes \<Rightarrow> cache" where
  "cache_set c k v =
     (case items c k of
        Some e \<Rightarrow> c\<lparr>order := move_to_front e (order c), elems := (elems c)(e \<mapsto> (k, v))\<rparr>
      | None \<Rightarrow>
          let c = (if int (length (order c)) \<ge> max_size c then cache_evict c else c);
              e = next_elem c
          in c\<lparr>order := e # order c, elems := (elems c)(e \<mapsto> (k, v)),
               items := (items c)(k \<mapsto> e), next_elem := Suc e\<rparr>)"

definition cache_delete :: "cache \<Rightarrow> bytes \<Rightarrow> cache" where
  "cache_delete c k = (case items c k of Some e \<Rightarrow> remove_element c e | None \<Rightarrow> c)"

definition cache_len :: "cache \<Rightarrow> nat" where
  "cache_len c = length (order c)"

definition cache_Stats :: "cache \<Rightarrow> cache_stats" where
  "cache_Stats c =
     \<lparr>stat_hits = hits c, stat_misses = misses c, stat_size = length (order c),
      stat_max = max_size c\<rparr>"

definition cache_clear :: "cache \<Rightarrow> cache" where
  "cache_clear c = c\<lparr>items := Map.empty, order := [], hits := 0, misses := 0\<rparr>"

section \<open>Abstract cache\<close>

type_synonym lru = "(bytes \<times> bytes) list"

definition lru_forget :: "bytes \<Rightarrow> lru \<Rightarrow> lru" where
  "lru_forget k l = filter (\<lambda>(a, _). a \<noteq> k) l"

definition lru_get :: "lru \<Rightarrow> bytes \<Rightarrow> bytes option \<times> lru" where
  "lru_get l k =
     (case map_of l k of None \<Rightarrow> (None, l) | Some v \<Rightarrow> (Some v, (k, v) # lru_forget k l))"

definition lru_set :: "int \<Rightarrow> lru \<Rightarrow> bytes \<Rightarrow> bytes \<Rightarrow> lru" where
  "lru_set n l k v =
     (if map_of l k \<noteq> None then (k, v) # lru_forget k l
      else (k, v) # (if int (length l) \<ge> n then butlast l else l))"

definition cache_abs :: "cache \<Rightarrow> lru" where
  "cache_abs c = map (\<lambda>e. the (elems c e)) (order c)"

definition cache_inv :: "cache \<Rightarrow> bool" where
  "cache_inv c \<longleftrightarrow>
     distinct (order c) \<and>
     (\<forall>e \<in> set (order c). e < next_elem c \<and> (\<exists>k v. elems c e = Some (k, v) \<and> items c k = Some e)) \<and>
     (\<forall>k e. items c k = Some e \<longrightarrow> e \<in> set (order c) \<and> (\<exists>v. elems c e = Some (k, v)))"

section \<open>Correctness\<close>

lemma cache_inv_items:
  "cache_inv c \<Longrightarrow> items c k = Some e \<Longrightarrow> e \<in> set (order c) \<and> (\<exists>v. elems c e = Some (k, v))"
  by (simp add: cache_inv_def)

lemma cache_inv_order:
  "cache_inv c \<Longrightarrow> e \<in> set (order c) \<Longrightarrow>
     e < next_elem c \<and> (\<exists>k v. elems c e = Some (k, v) \<and> items c k = Some e)"
  by (simp add: cache_inv_def)

lemma set_move_to_front [simp]: "set (move_to_front e xs) = set xs"
  by (auto simp: move_to_front_def)

lemma distinct_move_to_front [simp]: "distinct xs \<Longrightarrow> distinct (move_to_front e xs)"
  by (auto simp: move_to_front_def)

lemma cache_inv_new [simp]: "cache_inv (NewCache n)"
  by (simp add: cache_inv_def NewCache_def)

lemma cache_inv_distinct: "cache_inv c \<Longrightarrow> distinct (order c)"
  by (simp add: cache_inv_def)

lemma cache_inv_cong:
  "cache_inv c \<Longrightarrow> distinct (order d) \<Longrightarrow> set (order d) = set (order c) \<Longrightarrow> items d = items c \<Longrightarrow>
     elems d = elems c \<Longrightarrow> next_elem d = next_elem c \<Longrightarrow> cache_inv d"
  by (simp add: cache_inv_def)

lemma cache_inv_items_key:
  "cache_inv c \<Longrightarrow> items c k = Some e \<Longrightarrow> elems c e = Some (k', v) \<Longrightarrow> k' = k"
  using cache_inv_items by fastforce

lemma cache_inv_get: "cache_inv c \<Longrightarrow> cache_inv (snd (cache_get c k))"
  by (rule cache_inv_cong [of c])
    (auto simp: cache_get_def cache_inv_distinct split: option.split)

lemma cache_inv_remove:
  assumes "cache_inv c" "e \<in> set (order c)"
  shows "cache_inv (remove_element c e)"
proof -
  obtain k v where kv: "elems c e = Some (k, v)" "items c k = Some e"
    using cache_inv_order [OF assms] by blast
  have other: "items c j = Some e \<Longrightarrow> j = k" for j
    using cache_inv_items_key [OF assms(1) _ kv(1)] by auto
  let ?d = "c\<lparr>order := filter (\<lambda>x. x \<noteq> e) (order c), items := (items c)(k := None)\<rparr>"
  have "cache_inv ?d"
    unfolding cache_inv_def
  proof (intro conjI ballI allI impI)
    show "distinct (order ?d)" using cache_inv_distinct [OF assms(1)] by simp
  next
    fix x assume x: "x \<in> set (order ?d)"
    then have "x \<in> set (order c)" "x \<noteq> e" by auto
    then obtain k' v' where "x < next_elem c" "elems c x = Some (k', v')" "items c k' = Some x"
      using cache_inv_order [OF assms(1)] by blast
    moreover from this \<open>x \<noteq> e\<close> kv have "k' \<noteq> k" by auto
    ultimately show "x < next_elem ?d" "\<exists>k v. elems ?d x = Some (k, v) \<and> items ?d k = Some x"
      by auto
  next
    fix j x assume "items ?d j = Some x"
    then have j: "items c j = Some x" "j \<noteq> k" by (auto split: if_splits)
    then have "x \<noteq> e" using other by auto
    with j show "x \<in> set (order ?d)" "\<exists>v. elems ?d x = Some (j, v)"
      using cache_inv_items [OF assms(1) j(1)] by auto
  qed
  then show ?thesis using kv(1) by (simp add: remove_element_def)
qed

lemma cache_inv_evict: "cache_inv c \<Longrightarrow> cache_inv (cache_evict c)"
  by (simp add: cache_evict_def cache_inv_remove)

lemma cache_inv_delete: "cache_inv c \<Longrightarrow> cache_inv (cache_delete c k)"
  using cache_inv_items [of c k] by (auto simp: cache_delete_def cache_inv_remove split: option.split)

lemma items_remove_None: "items c k = None \<Longrightarrow> items (remove_element c e) k = None"
  by (auto simp: remove_element_def split: option.split)

lemma items_evict_None: "items c k = None \<Longrightarrow> items (cache_evict c) k = None"
  by (simp add: cache_evict_def items_remove_None)

lemma cache_inv_push:
  assumes "cache_inv c" "items c k = None"
  shows "cache_inv (c\<lparr>order := next_elem c # order c, elems := (elems c)(next_elem c \<mapsto> (k, v)),
    items := (items c)(k \<mapsto> next_elem c), next_elem := Suc (next_elem c)\<rparr>)"
proof -
  have fresh: "next_elem c \<notin> set (order c)"
    using cache_inv_order [OF assms(1)] by blast
  let ?d = "c\<lparr>order := next_elem c # order c, elems := (elems c)(next_elem c \<mapsto> (k, v)),
    items := (items c)(k \<mapsto> next_elem c), next_elem := Suc (next_elem c)\<rparr>"
  show ?thesis
    unfolding cache_inv_def
  proof (intro conjI ballI allI impI)
    show "distinct (order ?d)" using fresh cache_inv_distinct [OF assms(1)] by simp
  next
    fix x assume "x \<in> set (order ?d)"
    then consider "x = next_elem c" | "x \<in> set (order c)" "x \<noteq> next_elem c" using fresh by auto
    then have "x < next_elem ?d \<and> (\<exists>k v. elems ?d x = Some (k, v) \<and> items ?d k = Some x)" (is "?g")
    proof cases
      case 1
      then show ?g by auto
    next
      case 2
      then obtain j w where "x < next_elem c" "elems c x = Some (j, w)" "items c j = Some x"
        using cache_inv_order [OF assms(1)] by blast
      moreover from this assms(2) have "j \<noteq> k" by auto
      ultimately show ?g using 2 by auto
    qed
    then show "x < next_elem ?d" "\<exists>k v. elems ?d x = Some (k, v) \<and> items ?d k = Some x"
      by blast+
  next
    fix j x assume j: "items ?d j = Some x"
    show "x \<in> set (order ?d)" "\<exists>v. elems ?d x = Some (j, v)"
      using j fresh cache_inv_items [OF assms(1), of j x] by (auto split: if_splits)
  qed
qed

lemma cache_inv_set: "cache_inv c \<Longrightarrow> cache_inv (cache_set c k v)"
proof (cases "items c k")
  case None
  assume "cache_inv c"
  with None show ?thesis
    by (simp add: cache_set_def Let_def cache_inv_push cache_inv_evict items_evict_None)
next
  case (Some e)
  assume c: "cache_inv c"
  obtain w where e: "e \<in> set (order c)" "elems c e = Some (k, w)"
    using cache_inv_items [OF c Some] by blast
  let ?d = "c\<lparr>order := move_to_front e (order c), elems := (elems c)(e \<mapsto> (k, v))\<rparr>"
  have "cache_inv ?d"
    unfolding cache_inv_def
  proof (intro conjI ballI allI impI)
    show "distinct (order ?d)" using cache_inv_distinct [OF c] by simp
  next
    fix x assume "x \<in> set (order ?d)"
    then have "x \<in> set (order c)" by simp
    then show "x < next_elem ?d" "\<exists>k v. elems ?d x = Some (k, v) \<and> items ?d k = Some x"
      using cache_inv_order [OF c, of x] Some by auto
  next
    fix j x assume j: "items ?d j = Some x"
    then show "x \<in> set (order ?d)" "\<exists>v. elems ?d x = Some (j, v)"
      using cache_inv_items [OF c, of j x] cache_inv_items_key [OF c, of j e k w] e by auto
  qed
  with Some show ?thesis by (simp add: cache_set_def)
qed

lemma cache_inv_clear: "cache_inv (cache_clear c)"
  by (simp add: cache_inv_def cache_clear_def)

text \<open>Looking a key up in the map and in the abstract list agree.\<close>

lemma map_of_cache_abs:
  assumes "cache_inv c"
  shows "map_of (cache_abs c) k = Option.bind (items c k) (\<lambda>e. map_option snd (elems c e))"
proof (cases "items c k")
  case None
  then have "k \<notin> fst ` set (cache_abs c)"
    using cache_inv_order [OF assms] by (force simp: cache_abs_def)
  then show ?thesis by (simp add: None map_of_eq_None_iff)
next
  case (Some e)
  then obtain v where e: "e \<in> set (order c)" "elems c e = Some (k, v)"
    using cache_inv_items [OF assms Some] by blast
  have "inj_on (\<lambda>e. fst (the (elems c e))) (set (order c))"
  proof (rule inj_onI)
    fix x y assume "x \<in> set (order c)" "y \<in> set (order c)" "fst (the (elems c x)) = fst (the (elems c y))"
    then show "x = y"
      using cache_inv_order [OF assms, of x] cache_inv_order [OF assms, of y] by auto
  qed
  then have "distinct (map fst (cache_abs c))"
    using assms by (simp add: cache_abs_def o_def distinct_map cache_inv_def)
  moreover have "(k, v) \<in> set (cache_abs c)"
    using e by (force simp: cache_abs_def)
  ultimately show ?thesis using Some e(2) by (simp add: map_of_is_SomeI)
qed

lemma cache_abs_forget:
  assumes "cache_inv c" "items c k = Some e"
  shows "map (\<lambda>e. the (elems c e)) (filter (\<lambda>x. x \<noteq> e) (order c)) = lru_forget k (cache_abs c)"
proof -
  have "x \<noteq> e \<longleftrightarrow> fst (the (elems c x)) \<noteq> k" if "x \<in> set (order c)" for x
    using cache_inv_order [OF assms(1) that] cache_inv_items [OF assms] assms(2) by auto
  then have "filter (\<lambda>x. x \<noteq> e) (order c) = filter (\<lambda>x. fst (the (elems c x)) \<noteq> k) (order c)"
    by (rule filter_cong [OF refl])
  then show ?thesis
    by (simp add: lru_forget_def cache_abs_def filter_map o_def case_prod_unfold)
qed

lemma cache_get_abs:
  assumes "cache_inv c"
  shows "fst (cache_get c k) = fst (lru_get (cache_abs c) k)"
    "cache_abs (snd (cache_get c k)) = snd (lru_get (cache_abs c) k)"
proof -
  show "fst (cache_get c k) = fst (lru_get (cache_abs c) k)"
    using map_of_cache_abs [OF assms, of k] cache_inv_items [OF assms, of k]
    by (auto simp: cache_get_def lru_get_def split: option.splits)
  show "cache_abs (snd (cache_get c k)) = snd (lru_get (cache_abs c) k)"
  proof (cases "items c k")
    case None
    then show ?thesis
      using map_of_cache_abs [OF assms, of k] by (simp add: cache_get_def lru_get_def cache_abs_def)
  next
    case (Some e)
    then obtain v where "e \<in> set (order c)" "elems c e = Some (k, v)"
      using cache_inv_items [OF assms Some] by blast
    with Some show ?thesis
      using map_of_cache_abs [OF assms, of k] cache_abs_forget [OF assms Some]
      by (simp add: cache_get_def lru_get_def cache_abs_def move_to_front_def)
  qed
qed

lemma filter_neq_last: "distinct xs \<Longrightarrow> xs \<noteq> [] \<Longrightarrow> filter (\<lambda>x. x \<noteq> last xs) xs = butlast xs"
  by (induction xs rule: rev_induct) (auto simp: filter_id_conv)

lemma cache_abs_evict:
  assumes "cache_inv c"
  shows "cache_abs (cache_evict c) = butlast (cache_abs c)"
proof (cases "order c = []")
  case True
  then show ?thesis by (simp add: cache_evict_def cache_abs_def)
next
  case False
  have d: "distinct (order c)" using assms by (simp add: cache_inv_def)
  obtain k v where "elems c (last (order c)) = Some (k, v)"
    using cache_inv_order [OF assms last_in_set [OF False]] by blast
  then show ?thesis
    using False filter_neq_last [OF d False]
    by (simp add: cache_evict_def remove_element_def cache_abs_def map_butlast)
qed

lemma cache_set_abs:
  assumes "cache_inv c"
  shows "cache_abs (cache_set c k v) = lru_set (max_size c) (cache_abs c) k v"
proof (cases "items c k")
  case (Some e)
  then obtain w where e: "e \<in> set (order c)" "elems c e = Some (k, w)"
    using cache_inv_items [OF assms Some] by blast
  have "map (\<lambda>x. the (((elems c)(e \<mapsto> (k, v))) x)) (filter (\<lambda>x. x \<noteq> e) (order c)) =
      map (\<lambda>e. the (elems c e)) (filter (\<lambda>x. x \<noteq> e) (order c))"
    by (rule map_cong) auto
  with Some e show ?thesis
    using map_of_cache_abs [OF assms, of k] cache_abs_forget [OF assms Some]
    by (simp add: cache_set_def lru_set_def cache_abs_def move_to_front_def)
next
  case None
  define d where "d = (if int (length (order c)) \<ge> max_size c then cache_evict c else c)"
  have inv: "cache_inv d" using assms by (simp add: d_def cache_inv_evict)
  have "next_elem d \<notin> set (order d)" using cache_inv_order [OF inv] by blast
  then have upd: "map (\<lambda>x. the (((elems d)(next_elem d \<mapsto> (k, v))) x)) (order d) = cache_abs d"
    by (auto simp: cache_abs_def)
  have "cache_abs d =
      (if int (length (cache_abs c)) \<ge> max_size c then butlast (cache_abs c) else cache_abs c)"
    using cache_abs_evict [OF assms] by (simp add: d_def cache_abs_def)
  moreover have "cache_abs (cache_set c k v) = (k, v) # cache_abs d"
    using upd unfolding cache_set_def None Let_def option.case d_def [symmetric] cache_abs_def
    by simp
  moreover have "map_of (cache_abs c) k = None"
    using None map_of_cache_abs [OF assms, of k] by simp
  ultimately show ?thesis by (simp add: lru_set_def)
qed

lemma cache_delete_abs:
  assumes "cache_inv c"
  shows "cache_abs (cache_delete c k) = lru_forget k (cache_abs c)"
proof (cases "items c k")
  case None
  then have "k \<notin> fst ` set (cache_abs c)"
    using map_of_cache_abs [OF assms, of k] by (simp add: map_of_eq_None_iff)
  then have "lru_forget k (cache_abs c) = cache_abs c"
    by (auto simp: lru_forget_def filter_id_conv image_iff)
  then show ?thesis by (simp add: None cache_delete_def)
next
  case (Some e)
  then show ?thesis
    using cache_inv_items [OF assms Some] cache_abs_forget [OF assms Some]
    by (auto simp: cache_delete_def remove_element_def cache_abs_def)
qed

lemma max_size_cache_set [simp]: "max_size (cache_set c k v) = max_size c"
  by (auto simp: cache_set_def cache_evict_def remove_element_def Let_def split: option.split)

lemma length_cache_abs [simp]: "length (cache_abs c) = cache_len c"
  by (simp add: cache_abs_def cache_len_def)

section \<open>Properties\<close>

text \<open>The operations of a cache as data, with the runs of the pointer structure and of the list.\<close>

datatype cache_op = CGet bytes | CSet bytes bytes | CDelete bytes | CClear

fun cache_step :: "cache_op \<Rightarrow> cache \<Rightarrow> bytes option \<times> cache" where
  "cache_step (CGet k) c = cache_get c k"
| "cache_step (CSet k v) c = (None, cache_set c k v)"
| "cache_step (CDelete k) c = (None, cache_delete c k)"
| "cache_step CClear c = (None, cache_clear c)"

fun lru_step :: "int \<Rightarrow> cache_op \<Rightarrow> lru \<Rightarrow> bytes option \<times> lru" where
  "lru_step n (CGet k) l = lru_get l k"
| "lru_step n (CSet k v) l = (None, lru_set n l k v)"
| "lru_step n (CDelete k) l = (None, lru_forget k l)"
| "lru_step n CClear l = (None, [])"

fun cache_run :: "cache_op list \<Rightarrow> cache \<Rightarrow> bytes option list \<times> cache" where
  "cache_run [] c = ([], c)"
| "cache_run (p # ps) c =
     (let (r, c') = cache_step p c; (rs, c'') = cache_run ps c' in (r # rs, c''))"

fun lru_run :: "int \<Rightarrow> cache_op list \<Rightarrow> lru \<Rightarrow> bytes option list \<times> lru" where
  "lru_run n [] l = ([], l)"
| "lru_run n (p # ps) l =
     (let (r, l') = lru_step n p l; (rs, l'') = lru_run n ps l' in (r # rs, l''))"

lemma cache_step_inv: "cache_inv c \<Longrightarrow> cache_inv (snd (cache_step p c))"
  by (cases p) (simp_all add: cache_inv_get cache_inv_set cache_inv_delete cache_inv_clear)

lemma cache_step_abs:
  assumes "cache_inv c"
  shows "fst (cache_step p c) = fst (lru_step (max_size c) p (cache_abs c))"
    "cache_abs (snd (cache_step p c)) = snd (lru_step (max_size c) p (cache_abs c))"
proof -
  have clear: "cache_abs (cache_clear c) = []" by (simp add: cache_abs_def cache_clear_def)
  show "fst (cache_step p c) = fst (lru_step (max_size c) p (cache_abs c))"
    using cache_get_abs(1) [OF assms] by (cases p) simp_all
  show "cache_abs (snd (cache_step p c)) = snd (lru_step (max_size c) p (cache_abs c))"
    using cache_get_abs(2) [OF assms] cache_set_abs [OF assms] cache_delete_abs [OF assms] clear
    by (cases p) simp_all
qed

lemma max_size_cache_step: "max_size (snd (cache_step p c)) = max_size c"
  by (cases p) (auto simp: cache_get_def cache_delete_def cache_clear_def remove_element_def
      split: option.split)

lemma cache_run_refines:
  assumes "cache_inv c"
  shows "cache_inv (snd (cache_run ps c)) \<and> max_size (snd (cache_run ps c)) = max_size c \<and>
    fst (cache_run ps c) = fst (lru_run (max_size c) ps (cache_abs c)) \<and>
    cache_abs (snd (cache_run ps c)) = snd (lru_run (max_size c) ps (cache_abs c))"
  using assms
proof (induction ps arbitrary: c)
  case Nil
  then show ?case by simp
next
  case (Cons p ps)
  have "cache_inv (snd (cache_step p c))" by (rule cache_step_inv [OF Cons.prems])
  from Cons.IH [OF this] show ?case
    using cache_step_abs [OF Cons.prems, of p]
    by (simp add: max_size_cache_step Let_def case_prod_unfold)
qed

lemma new_cache_sel: "cache_abs (NewCache n) = []" "max_size (NewCache n) = n"
  by (simp_all add: cache_abs_def NewCache_def)

lemma lru_forget_shrinks: "length (lru_forget k l) \<le> length l"
  by (simp add: lru_forget_def)

lemma lru_forget_drops: "map_of l k \<noteq> None \<Longrightarrow> length (lru_forget k l) < length l"
  by (induction l) (auto simp: lru_forget_def le_imp_less_Suc split: if_splits)

lemma lru_step_bound:
  assumes "0 < n" "int (length l) \<le> n"
  shows "int (length (snd (lru_step n p l))) \<le> n"
proof (cases p)
  case (CGet k)
  then show ?thesis using assms lru_forget_drops [of l k]
    by (cases "map_of l k") (auto simp: lru_get_def)
next
  case (CSet k v)
  then show ?thesis using assms lru_forget_drops [of l k]
    by (cases "map_of l k") (auto simp: lru_set_def)
next
  case (CDelete k)
  then show ?thesis using assms lru_forget_shrinks [of k l] by simp
next
  case CClear
  then show ?thesis using assms by simp
qed

lemma lru_run_bound:
  "0 < n \<Longrightarrow> int (length l) \<le> n \<Longrightarrow> int (length (snd (lru_run n ps l))) \<le> n"
proof (induction ps arbitrary: l)
  case Nil
  then show ?case by simp
next
  case (Cons p ps)
  then show ?case using lru_step_bound [OF Cons.prems, of p] by (simp add: case_prod_unfold Let_def)
qed

text \<open>
  C11: for every sequence of operations on a new cache, the linked list with its index map answers as
  the plain recency list does (a hit moves to the front, a full cache drops its oldest entry) and
  holds the same entries in the same order.
\<close>

theorem cache_refines_lru:
  "fst (cache_run ps (NewCache n)) = fst (lru_run n ps []) \<and>
   cache_abs (snd (cache_run ps (NewCache n))) = snd (lru_run n ps [])"
  using cache_run_refines [OF cache_inv_new, of ps n] new_cache_sel by metis

text \<open>
  A cache of positive size never holds more entries than its size, and its list and its index map
  stay consistent, after any sequence of operations.
\<close>

lemma cache_capacity:
  assumes "0 < n"
  shows "cache_inv (snd (cache_run ps (NewCache n))) \<and> int (cache_len (snd (cache_run ps (NewCache n)))) \<le> n"
proof
  let ?c = "snd (cache_run ps (NewCache n))"
  note r = cache_run_refines [OF cache_inv_new, of ps n]
  show "cache_inv ?c" using r by blast
  have "cache_abs ?c = snd (lru_run n ps [])" using r new_cache_sel by metis
  then have "cache_len ?c = length (snd (lru_run n ps []))" by (simp only: length_cache_abs [symmetric])
  then show "int (cache_len ?c) \<le> n" using lru_run_bound [of n "[]" ps] assms by simp
qed

end
