(* ===== verification/KeyEncode.thy ===== *)
theory KeyEncode
  imports Prelude
begin

text \<open>
  Model of \<^verbatim>\<open>internal/storage/keyencode.go\<close>: primary and index keys, the half-open range
  that a prefix scan uses, and the byte form of float32 vectors. A float32 is its bit pattern
  (\<open>math.Float32bits\<close> and \<open>math.Float32frombits\<close> are reinterpretations), so the vector
  functions work on 32-bit words.
\<close>

section \<open>Prefixes\<close>

definition PrefixSession :: char where "PrefixSession = CHR 0x01"
definition PrefixMemory :: char where "PrefixMemory = CHR 0x02"
definition PrefixDecision :: char where "PrefixDecision = CHR 0x03"
definition PrefixEntity :: char where "PrefixEntity = CHR 0x04"
definition PrefixRelation :: char where "PrefixRelation = CHR 0x05"
definition PrefixLineage :: char where "PrefixLineage = CHR 0x06"
definition PrefixVector :: char where "PrefixVector = CHR 0x10"
definition PrefixIndex :: char where "PrefixIndex = CHR 0x11"
definition PrefixVectorPayload :: char where "PrefixVectorPayload = CHR 0x12"
definition PrefixGraph :: char where "PrefixGraph = CHR 0x20"
definition PrefixSystem :: char where "PrefixSystem = CHR 0xFF"

lemmas prefix_defs = PrefixSession_def PrefixMemory_def PrefixDecision_def PrefixEntity_def
  PrefixRelation_def PrefixLineage_def PrefixVector_def PrefixIndex_def PrefixVectorPayload_def
  PrefixGraph_def PrefixSystem_def

section \<open>Keys\<close>

abbreviation NUL :: char where
  "NUL \<equiv> CHR 0x00"

definition EncodeKey :: "char \<Rightarrow> bytes \<Rightarrow> bytes" where
  "EncodeKey p i = p # i"

definition EncodeIndexKey :: "char \<Rightarrow> bytes \<Rightarrow> bytes \<Rightarrow> bytes" where
  "EncodeIndexKey p field i = p # field @ [NUL] @ i"

text \<open>The loops of both decoders start at position 1 and stop at the first zero byte.\<close>

definition DecodeIndexField :: "bytes \<Rightarrow> bytes" where
  "DecodeIndexField key =
     (if length key < 2 then []
      else case split_first NUL (tl key) of
          Some (f, _) \<Rightarrow> f
        | None \<Rightarrow> tl key)"

definition DecodeIndexID :: "bytes \<Rightarrow> bytes" where
  "DecodeIndexID key =
     (if length key < 3 then []
      else case split_first NUL (tl key) of
          Some (_, i) \<Rightarrow> i
        | None \<Rightarrow> [])"

definition EncodeVectorKey :: "bytes \<Rightarrow> bytes \<Rightarrow> bytes" where
  "EncodeVectorKey indexName i = EncodeIndexKey PrefixVector indexName i"

definition EncodeVectorPayloadKey :: "bytes \<Rightarrow> bytes \<Rightarrow> bytes" where
  "EncodeVectorPayloadKey indexName i = EncodeIndexKey PrefixVectorPayload indexName i"

section \<open>Prefix ranges\<close>

text \<open>
  \<open>PrefixRange\<close> adds one to the prefix read as a big-endian number. The carry runs from the
  last byte: a byte below 0xFF is incremented and ends the loop, a byte 0xFF becomes 0. When every
  byte is 0xFF there is no upper bound (\<open>nil\<close> in Go, \<open>None\<close> here).
\<close>

fun carry_rev :: "bytes \<Rightarrow> bytes option" where
  "carry_rev [] = None"
| "carry_rev (b # bs) =
     (if byte_val b < 0xFF then Some (char_of (byte_val b + 1) # bs)
      else map_option (\<lambda>r. NUL # r) (carry_rev bs))"

definition PrefixRange :: "bytes \<Rightarrow> bytes \<times> bytes option" where
  "PrefixRange p = (p, map_option rev (carry_rev (rev p)))"

text \<open>Membership in a half-open scan range, as every scan of the code tests it.\<close>

definition in_range :: "bytes \<Rightarrow> bytes option \<Rightarrow> bytes \<Rightarrow> bool" where
  "in_range start en k \<longleftrightarrow> start \<le> k \<and> (case en of None \<Rightarrow> True | Some e \<Rightarrow> k < e)"

definition in_prefix_range :: "bytes \<Rightarrow> bytes \<Rightarrow> bool" where
  "in_prefix_range p k = (case PrefixRange p of (s, e) \<Rightarrow> in_range s e k)"

section \<open>float32 vectors\<close>

definition put_u32_le :: "u32 \<Rightarrow> bytes" where
  "put_u32_le w = rev (be_bytes 4 (unat w))"

definition get_u32_le :: "bytes \<Rightarrow> u32" where
  "get_u32_le b = word_of_nat (be_val (rev (take 4 b)))"

definition Float32sToBytes :: "u32 list \<Rightarrow> bytes" where
  "Float32sToBytes fs = concat (map put_u32_le fs)"

definition BytesToFloat32s :: "bytes \<Rightarrow> u32 list" where
  "BytesToFloat32s data = map (\<lambda>i. get_u32_le (drop (i * 4) data)) [0..<length data div 4]"

section \<open>Facts about keys\<close>

lemma EncodeKey_inject [simp]: "EncodeKey p i = EncodeKey q j \<longleftrightarrow> p = q \<and> i = j"
  by (simp add: EncodeKey_def)

lemma EncodeIndexKey_inject:
  "NUL \<notin> set f \<Longrightarrow> NUL \<notin> set g \<Longrightarrow>
     EncodeIndexKey p f i = EncodeIndexKey q g j \<longleftrightarrow> p = q \<and> f = g \<and> i = j"
  by (auto simp: EncodeIndexKey_def append_sep_inject)

lemma EncodeIndexKey_neq_EncodeKey: "NUL \<notin> set j \<Longrightarrow> EncodeIndexKey p f i \<noteq> EncodeKey q j"
  by (auto simp: EncodeIndexKey_def EncodeKey_def)

lemma index_key_prefix_iff:
  "NUL \<notin> set f \<Longrightarrow> NUL \<notin> set g \<Longrightarrow>
     prefix (EncodeIndexKey p f []) (EncodeIndexKey q g i) \<longleftrightarrow> p = q \<and> f = g"
  by (auto simp: EncodeIndexKey_def prefix_sep_iff)

section \<open>Facts about prefix ranges\<close>

lemma carry_rev_replicate:
  "carry_rev (replicate n (CHR 0xFF) @ bs) =
     map_option (\<lambda>r. replicate n NUL @ r) (carry_rev bs)"
  by (induction n) (simp_all add: option.map_comp o_def option.map_ident)

lemma PrefixRange_all_FF: "PrefixRange (replicate n (CHR 0xFF)) = (replicate n (CHR 0xFF), None)"
  using carry_rev_replicate [of n "[]"] by (simp add: PrefixRange_def)

lemma PrefixRange_carry:
  assumes "b \<noteq> CHR 0xFF"
  shows "PrefixRange (q @ b # replicate n (CHR 0xFF)) =
     (q @ b # replicate n (CHR 0xFF), Some (q @ char_of (byte_val b + 1) # replicate n NUL))"
proof -
  have "byte_val b < 255" using assms byte_val_not_less_255 [of b] by blast
  then show ?thesis
    by (simp add: PrefixRange_def carry_rev_replicate)
qed

lemma prefix_split_FF:
  "(\<exists>n. p = replicate n (CHR 0xFF)) \<or> (\<exists>q b n. b \<noteq> CHR 0xFF \<and> p = q @ b # replicate n (CHR 0xFF))"
proof (induction p rule: rev_induct)
  case Nil
  then show ?case by (auto intro: exI [of _ 0])
next
  case (snoc x xs)
  show ?case
  proof (cases "x = CHR 0xFF")
    case False
    then show ?thesis by (metis append_Cons append_Nil replicate_0)
  next
    case True
    from snoc.IH show ?thesis
    proof
      assume "\<exists>n. xs = replicate n (CHR 0xFF)"
      with True show ?thesis by (metis replicate_append_same replicate_Suc)
    next
      assume "\<exists>q b n. b \<noteq> CHR 0xFF \<and> xs = q @ b # replicate n (CHR 0xFF)"
      then obtain q b n where "b \<noteq> CHR 0xFF" "xs = q @ b # replicate n (CHR 0xFF)" by blast
      with True have "xs @ [x] = q @ b # replicate (Suc n) (CHR 0xFF)"
        by (simp add: replicate_append_same)
      with \<open>b \<noteq> CHR 0xFF\<close> show ?thesis by blast
    qed
  qed
qed

lemma char_le_FF: "c \<le> CHR 0xFF"
  by (simp add: char_le_iff)

lemma NUL_le_char: "NUL \<le> c"
  by (simp add: char_le_iff)

lemma char_between_succ:
  "b \<noteq> CHR 0xFF \<Longrightarrow> b \<le> c \<Longrightarrow> c \<le> char_of (byte_val b + 1) \<Longrightarrow>
     c = b \<or> c = char_of (byte_val b + 1)"
proof -
  assume "b \<noteq> CHR 0xFF" "b \<le> c" "c \<le> char_of (byte_val b + 1)"
  then have "byte_val b < 255" using byte_val_not_less_255 [of b] by blast
  with \<open>b \<le> c\<close> \<open>c \<le> char_of (byte_val b + 1)\<close>
  have "byte_val b \<le> byte_val c" and "byte_val c \<le> byte_val b + 1"
    by (simp_all add: char_le_iff)
  then have "byte_val c = byte_val b \<or> byte_val c = byte_val b + 1"
    by linarith
  then show ?thesis by (metis byte_val_inject char_of_char)
qed

lemma in_prefix_range_all_FF:
  "in_prefix_range (replicate n (CHR 0xFF)) k \<longleftrightarrow> prefix (replicate n (CHR 0xFF)) k"
  using lex_replicate_top [of "CHR 0xFF" n k] char_le_FF
  by (simp add: in_prefix_range_def PrefixRange_all_FF in_range_def)

text \<open>
  What the range of a prefix holds in general: the keys with that prefix and, when the carry went
  over \<open>n\<close> trailing 0xFF bytes, the at most \<open>n\<close> strings made of the incremented part and
  fewer than \<open>n\<close> zero bytes.
\<close>

lemma in_prefix_range_carry:
  assumes "b \<noteq> CHR 0xFF"
  shows "in_prefix_range (q @ b # replicate n (CHR 0xFF)) k \<longleftrightarrow>
    prefix (q @ b # replicate n (CHR 0xFF)) k \<or>
    (\<exists>m < n. k = q @ char_of (byte_val b + 1) # replicate m NUL)"
    (is "?L \<longleftrightarrow> ?R")
proof -
  let ?c = "char_of (byte_val b + 1) :: char"
  have b: "byte_val b < 255" using assms byte_val_not_less_255 [of b] by blast
  then have bc: "b < ?c" by (simp add: char_less_iff)
  have L: "?L \<longleftrightarrow> q @ b # replicate n (CHR 0xFF) \<le> k \<and> k < q @ ?c # replicate n NUL"
    by (simp add: in_prefix_range_def PrefixRange_carry [OF assms] in_range_def)
  show ?thesis
  proof (cases "prefix q k")
    case False
    have "\<not> ?L"
      using False lex_between_prefix [of q _ k] unfolding L by blast
    moreover have "\<not> ?R" using False by (auto simp: prefix_def)
    ultimately show ?thesis by blast
  next
    case True
    then obtain k' where k: "k = q @ k'" by (auto simp: prefix_def)
    show ?thesis
    proof (cases k')
      case Nil
      have "\<not> q @ b # replicate n (CHR 0xFF) \<le> q @ []"
        unfolding lex_append_same_le by simp
      with k L Nil show ?thesis by (auto simp: prefix_def)
    next
      case (Cons c ks)
      have mid: "\<not> (b < c \<and> c < ?c)"
      proof
        assume *: "b < c \<and> c < ?c"
        then have "c = b \<or> c = ?c" by (intro char_between_succ assms) auto
        with * show False by auto
      qed
      have "?L \<longleftrightarrow> (c = b \<and> replicate n (CHR 0xFF) \<le> ks) \<or> (c = ?c \<and> ks < replicate n NUL)"
        unfolding L unfolding k Cons using bc mid by auto
      also have "\<dots> \<longleftrightarrow> (c = b \<and> prefix (replicate n (CHR 0xFF)) ks) \<or>
          (c = ?c \<and> (\<exists>m < n. ks = replicate m NUL))"
        using lex_replicate_top [OF char_le_FF] lex_less_replicate_bot [OF NUL_le_char] by simp
      also have "\<dots> \<longleftrightarrow> ?R" unfolding k Cons by auto
      finally show ?thesis .
    qed
  qed
qed

lemma in_prefix_range_complete: "prefix p k \<Longrightarrow> in_prefix_range p k"
  using prefix_split_FF [of p] by (auto simp: in_prefix_range_all_FF in_prefix_range_carry)

lemma in_prefix_range_exact:
  assumes "p = [] \<or> last p \<noteq> CHR 0xFF"
  shows "in_prefix_range p k \<longleftrightarrow> prefix p k"
proof (cases "p = []")
  case True
  then show ?thesis using in_prefix_range_all_FF [of 0 k] by simp
next
  case False
  then obtain q b where "p = q @ [b]" by (metis rev_exhaust)
  with assms show ?thesis using in_prefix_range_carry [of b q 0 k] by simp
qed

lemma in_prefix_range_single: "in_prefix_range [p] k \<longleftrightarrow> prefix [p] k"
  using in_prefix_range_exact [of "[p]" k] in_prefix_range_all_FF [of 1 k] by (cases "p = CHR 0xFF") auto

lemma in_index_range_iff: "in_prefix_range (EncodeIndexKey p f []) k \<longleftrightarrow> prefix (EncodeIndexKey p f []) k"
  by (rule in_prefix_range_exact) (simp add: EncodeIndexKey_def)

section \<open>Facts about vectors\<close>

lemma length_put_u32_le [simp]: "length (put_u32_le w) = 4"
  by (simp add: put_u32_le_def)

lemma get_put_u32_le [simp]: "get_u32_le (put_u32_le w @ bs) = w"
  using unat_bound [of w] by (simp add: get_u32_le_def put_u32_le_def be_val_be_bytes_id)

lemma length_Float32sToBytes [simp]: "length (Float32sToBytes fs) = 4 * length fs"
  by (induction fs) (auto simp: Float32sToBytes_def)

lemma drop_Float32sToBytes: "drop (i * 4) (Float32sToBytes fs) = Float32sToBytes (drop i fs)"
proof (induction fs arbitrary: i)
  case Nil
  then show ?case by (simp add: Float32sToBytes_def)
next
  case (Cons f fs)
  then show ?case by (cases i) (simp_all add: Float32sToBytes_def)
qed

lemma BytesToFloat32s_Float32sToBytes: "BytesToFloat32s (Float32sToBytes fs) = fs"
proof (rule nth_equalityI)
  show "length (BytesToFloat32s (Float32sToBytes fs)) = length fs"
    by (simp add: BytesToFloat32s_def)
next
  fix i assume "i < length (BytesToFloat32s (Float32sToBytes fs))"
  then have i: "i < length fs" by (simp add: BytesToFloat32s_def)
  then have "drop i fs = fs ! i # drop (Suc i) fs" by (simp add: Cons_nth_drop_Suc)
  then have "Float32sToBytes (drop i fs) = put_u32_le (fs ! i) @ Float32sToBytes (drop (Suc i) fs)"
    by (simp add: Float32sToBytes_def)
  then show "BytesToFloat32s (Float32sToBytes fs) ! i = fs ! i"
    using i by (simp add: BytesToFloat32s_def drop_Float32sToBytes)
qed

section \<open>Properties\<close>

text \<open>
  A scan of the keys of one index field returns the entries of that field of that component and
  of no other, for every field name without a zero byte.
\<close>

lemma index_field_scan_isolated:
  assumes "NUL \<notin> set f" "NUL \<notin> set g"
  shows "in_prefix_range (EncodeIndexKey p f []) (EncodeIndexKey q g i) \<longleftrightarrow> p = q \<and> f = g"
  by (simp only: in_index_range_iff index_key_prefix_iff [OF assms])

text \<open>
  The decoders give back the field and the identifier of an index key, for every field without a
  zero byte; the identifier may hold any bytes.
\<close>

lemma decode_index_key:
  assumes "NUL \<notin> set f"
  shows "DecodeIndexField (EncodeIndexKey p f i) = f \<and> DecodeIndexID (EncodeIndexKey p f i) = i"
  using assms by (cases "f = [] \<and> i = []") (auto simp: DecodeIndexField_def DecodeIndexID_def EncodeIndexKey_def)

text \<open>
  The range that \<open>PrefixRange\<close> computes holds exactly the keys with the prefix if and only if
  the prefix does not end in 0xFF or consists of 0xFF bytes only. Otherwise the carry leaves zero
  bytes behind the incremented byte and the range takes in keys without the prefix.
\<close>

lemma prefix_range_exact_iff:
  "(\<forall>k. in_prefix_range p k \<longleftrightarrow> prefix p k) \<longleftrightarrow>
     p = [] \<or> last p \<noteq> CHR 0xFF \<or> set p = {CHR 0xFF}"
proof (cases "p = [] \<or> last p \<noteq> CHR 0xFF \<or> set p = {CHR 0xFF}")
  case True
  then consider "p = [] \<or> last p \<noteq> CHR 0xFF" | "p = replicate (length p) (CHR 0xFF)"
    by (metis replicate_length_same singletonD)
  then have "in_prefix_range p k \<longleftrightarrow> prefix p k" for k
    by cases (use in_prefix_range_exact in_prefix_range_all_FF in metis)+
  then show ?thesis using True by blast
next
  case False
  then obtain q b n where p: "b \<noteq> CHR 0xFF" "p = q @ b # replicate n (CHR 0xFF)"
    using prefix_split_FF [of p] by (metis empty_replicate set_replicate)
  have "n \<noteq> 0"
  proof
    assume "n = 0"
    then have "last p = b" using p(2) by simp
    then show False using False p(1) by simp
  qed
  let ?k = "q @ [char_of (byte_val b + 1)]"
  have "byte_val b < 255" using p(1) byte_val_not_less_255 by blast
  then have "byte_val (char_of (byte_val b + 1) :: char) = byte_val b + 1"
    by (intro byte_val_char_of) simp
  then have "b \<noteq> char_of (byte_val b + 1)" by (metis n_not_Suc_n Suc_eq_plus1)
  then have "\<not> prefix p ?k" using p(2) by simp
  moreover have "in_prefix_range p ?k"
    unfolding p(2) in_prefix_range_carry [OF p(1)] using \<open>n \<noteq> 0\<close> by (auto intro: exI [of _ 0])
  ultimately show ?thesis using False by blast
qed

text \<open>A vector of float32 values survives the round trip through its stored bytes.\<close>

lemma float32_roundtrip: "BytesToFloat32s (Float32sToBytes fs) = fs"
  by (rule BytesToFloat32s_Float32sToBytes)

end
