(* ===== verification/Engine.thy ===== *)
theory Engine
  imports KeyEncode
begin

text \<open>
  Model of \<^verbatim>\<open>internal/storage/engine.go\<close> (the \<open>Engine\<close> interface, scan options, batch
  writes, the engine registry) and of the iterator of \<^verbatim>\<open>internal/storage/badger/iterator.go\<close>.

  BadgerDB itself is third-party code. What the repository relies on is the contract of the
  \<open>Engine\<close> interface: the content of an engine is an ordered map from byte strings to byte
  strings. The state \<open>kv\<close> is that content, as the association list in strictly increasing key
  order. The operations are the interface's; input/output failures of the disk are outside the
  model, a missing key is not (\<open>ErrKeyNotFound\<close> is the result \<open>None\<close>). The laws that the
  other components use are the locale \<open>kv_engine\<close>, which the operations interpret.
\<close>

section \<open>Content of an engine\<close>

type_synonym kv = "(bytes \<times> bytes) list"

definition kv_ok :: "kv \<Rightarrow> bool" where
  "kv_ok s \<longleftrightarrow> sorted_wrt (<) (map fst s)"

definition kv_empty :: kv where
  "kv_empty = []"

definition engine_get :: "kv \<Rightarrow> bytes \<Rightarrow> bytes option" where
  "engine_get s k = map_of s k"

fun engine_set :: "kv \<Rightarrow> bytes \<Rightarrow> bytes \<Rightarrow> kv" where
  "engine_set [] k v = [(k, v)]"
| "engine_set ((a, b) # s) k v =
     (if k < a then (k, v) # (a, b) # s
      else if k = a then (k, v) # s
      else (a, b) # engine_set s k v)"

definition engine_delete :: "kv \<Rightarrow> bytes \<Rightarrow> kv" where
  "engine_delete s k = filter (\<lambda>(a, _). a \<noteq> k) s"

section \<open>Batch writes\<close>

datatype op_type = OpPut | OpDelete

record write_op =
  op_type :: op_type
  op_key :: bytes
  op_value :: bytes

definition apply_write_op :: "write_op \<Rightarrow> kv \<Rightarrow> kv" where
  "apply_write_op w s =
     (case op_type w of
        OpPut \<Rightarrow> engine_set s (op_key w) (op_value w)
      | OpDelete \<Rightarrow> engine_delete s (op_key w))"

definition engine_batch_write :: "kv \<Rightarrow> write_op list \<Rightarrow> kv" where
  "engine_batch_write s ops = fold apply_write_op ops s"

section \<open>Scans\<close>

record scan_options =
  so_limit :: int
  so_reverse :: bool

definition no_options :: scan_options where
  "no_options = \<lparr>so_limit = 0, so_reverse = False\<rparr>"

text \<open>
  Badger's own iterator over a snapshot: what is left of the key sequence, in the direction of the
  iteration. \<open>Seek\<close> moves to the first key at or after the target (at or before it when the
  iterator is reversed), and an empty target rewinds; \<open>Next\<close> drops one item.
\<close>

definition badger_seek :: "bool \<Rightarrow> kv \<Rightarrow> bytes \<Rightarrow> kv" where
  "badger_seek rv s k =
     (if k = [] then (if rv then rev s else s)
      else if rv then dropWhile (\<lambda>(a, _). k < a) (rev s)
      else dropWhile (\<lambda>(a, _). a < k) s)"

record badger_iterator =
  it_snapshot :: kv
  it_rest :: kv
  it_start :: bytes
  it_end :: "bytes option"
  it_limit :: int
  it_count :: int
  it_started :: bool
  it_reverse :: bool

definition engine_scan :: "kv \<Rightarrow> bytes \<Rightarrow> bytes option \<Rightarrow> scan_options \<Rightarrow> badger_iterator" where
  "engine_scan s start en opts =
     \<lparr>it_snapshot = s, it_rest = [], it_start = start, it_end = en, it_limit = so_limit opts,
      it_count = 0, it_started = False, it_reverse = so_reverse opts\<rparr>"

definition engine_prefix_scan :: "kv \<Rightarrow> bytes \<Rightarrow> scan_options \<Rightarrow> badger_iterator" where
  "engine_prefix_scan s p opts =
     (case PrefixRange p of (start, en) \<Rightarrow> engine_scan s start en opts)"

text \<open>
  The key before a given key, as the reverse scan computes it: the last non-zero byte is
  decremented and the bytes after it become 0xFF; a key of zero bytes is returned as it is.
\<close>

fun prevKey_rev :: "bytes \<Rightarrow> bytes option" where
  "prevKey_rev [] = None"
| "prevKey_rev (b # bs) =
     (if byte_val b > 0 then Some (char_of (byte_val b - 1) # bs)
      else map_option (\<lambda>r. CHR 0xFF # r) (prevKey_rev bs))"

definition prevKey :: "bytes \<Rightarrow> bytes" where
  "prevKey key = (case prevKey_rev (rev key) of None \<Rightarrow> key | Some r \<Rightarrow> rev r)"

definition iter_move :: "badger_iterator \<Rightarrow> badger_iterator" where
  "iter_move it =
     (if \<not> it_started it then
        it\<lparr>it_started := True,
           it_rest := badger_seek (it_reverse it) (it_snapshot it)
             (case it_end it of
                Some e \<Rightarrow> if it_reverse it then prevKey e else it_start it
              | None \<Rightarrow> it_start it)\<rparr>
      else it\<lparr>it_rest := tl (it_rest it)\<rparr>)"

definition iter_next :: "badger_iterator \<Rightarrow> bool \<times> badger_iterator" where
  "iter_next it0 =
     (let it = iter_move it0 in
      case it_rest it of
        [] \<Rightarrow> (False, it)
      | (key, _) # _ \<Rightarrow>
          if (if it_reverse it then key < it_start it
              else case it_end it of Some e \<Rightarrow> e \<le> key | None \<Rightarrow> False)
          then (False, it)
          else let it' = it\<lparr>it_count := it_count it + 1\<rparr> in
               (\<not> (it_limit it' > 0 \<and> it_count it' > it_limit it'), it'))"

definition iter_item :: "badger_iterator \<Rightarrow> (bytes \<times> bytes) option" where
  "iter_item it = (case it_rest it of [] \<Rightarrow> None | x # _ \<Rightarrow> Some x)"

text \<open>
  The loop \<open>for iter.Next() { ... iter.Item() ... }\<close> that every client runs. Each further
  round drops an item of the snapshot, so as much fuel as the snapshot is long, plus one, is
  enough.
\<close>

fun iter_loop :: "nat \<Rightarrow> badger_iterator \<Rightarrow> (bytes \<times> bytes) list" where
  "iter_loop 0 it = []"
| "iter_loop (Suc n) it =
     (case iter_next it of
        (False, _) \<Rightarrow> []
      | (True, it') \<Rightarrow>
          (case iter_item it' of
             None \<Rightarrow> []
           | Some x \<Rightarrow> x # iter_loop n it'))"

definition iter_collect :: "badger_iterator \<Rightarrow> (bytes \<times> bytes) list" where
  "iter_collect it = iter_loop (Suc (length (it_snapshot it))) it"

text \<open>The content of a forward range scan as the interface documents it.\<close>

definition scan_limit :: "int \<Rightarrow> 'a list \<Rightarrow> 'a list" where
  "scan_limit n xs = (if n > 0 then take (nat n) xs else xs)"

definition range_items :: "kv \<Rightarrow> bytes \<Rightarrow> bytes option \<Rightarrow> kv" where
  "range_items s start en = filter (\<lambda>(k, _). in_range start en k) s"

definition scan_items :: "kv \<Rightarrow> bytes \<Rightarrow> bytes option \<Rightarrow> int \<Rightarrow> kv" where
  "scan_items s start en n = scan_limit n (range_items s start en)"

definition prefix_items :: "kv \<Rightarrow> bytes \<Rightarrow> int \<Rightarrow> kv" where
  "prefix_items s p n = (case PrefixRange p of (start, en) \<Rightarrow> scan_items s start en n)"

section \<open>Engine registry\<close>

text \<open>
  \<open>Register\<close> panics on a second registration of a name (\<open>None\<close>); \<open>CreateEngine\<close> falls back
  to the default backend for an empty name and fails for an unknown one. A factory is a function of
  the options, of which the registry reads the backend name.
\<close>

record engine_options =
  Backend :: string
  DataDir :: string
  SyncWrites :: bool
  CacheSizeMB :: int

datatype create_error = UnknownBackend string | FactoryError string

type_synonym 'e factory = "engine_options \<Rightarrow> create_error + 'e"
type_synonym 'e registry = "string \<rightharpoonup> 'e factory"

definition BackendBadger :: string where
  "BackendBadger = ''badger''"

definition DefaultOptions :: engine_options where
  "DefaultOptions =
     \<lparr>Backend = BackendBadger, DataDir = ''./data'', SyncWrites = True, CacheSizeMB = 256\<rparr>"

definition Register :: "string \<Rightarrow> 'e factory \<Rightarrow> 'e registry \<Rightarrow> 'e registry option" where
  "Register name f r = (if r name \<noteq> None then None else Some (r(name \<mapsto> f)))"

definition CreateEngine :: "'e registry \<Rightarrow> engine_options \<Rightarrow> create_error + 'e" where
  "CreateEngine r opts =
     (let opts' = (if Backend opts = [] then opts\<lparr>Backend := BackendBadger\<rparr> else opts) in
      case r (Backend opts') of
        None \<Rightarrow> Inl (UnknownBackend (Backend opts'))
      | Some f \<Rightarrow> f opts')"

section \<open>The engine contract\<close>

text \<open>
  What the components above rely on: a lookup sees the last write of its key and no other write,
  and the content is in strict key order, so that a range holds exactly the stored keys in it.
\<close>

locale kv_engine =
  fixes get :: "'s \<Rightarrow> bytes \<Rightarrow> bytes option"
    and put :: "'s \<Rightarrow> bytes \<Rightarrow> bytes \<Rightarrow> 's"
    and del :: "'s \<Rightarrow> bytes \<Rightarrow> 's"
    and items :: "'s \<Rightarrow> (bytes \<times> bytes) list"
    and inv :: "'s \<Rightarrow> bool"
  assumes get_put: "get (put s k v) j = (if j = k then Some v else get s j)"
    and get_del: "get (del s k) j = (if j = k then None else get s j)"
    and inv_put: "inv s \<Longrightarrow> inv (put s k v)"
    and inv_del: "inv s \<Longrightarrow> inv (del s k)"
    and items_get: "inv s \<Longrightarrow> (k, v) \<in> set (items s) \<longleftrightarrow> get s k = Some v"
    and items_sorted: "inv s \<Longrightarrow> sorted_wrt (<) (map fst (items s))"
begin

lemma put_get_same: "get (put s k v) k = Some v"
  by (simp add: get_put)

lemma put_get_other: "j \<noteq> k \<Longrightarrow> get (put s k v) j = get s j"
  by (simp add: get_put)

lemma range_get:
  "inv s \<Longrightarrow> (k, v) \<in> set (filter (\<lambda>(k, _). in_range start en k) (items s)) \<longleftrightarrow>
     in_range start en k \<and> get s k = Some v"
  by (auto simp: items_get)

lemma range_sorted:
  "inv s \<Longrightarrow> sorted_wrt (<) (map fst (filter (\<lambda>(k, _). in_range start en k) (items s)))"
  by (simp add: items_sorted sorted_wrt_map_fst_filter)

lemma dels_get: "get (fold (\<lambda>k s. del s k) ks s) j = (if j \<in> set ks then None else get s j)"
  by (induction ks arbitrary: s) (auto simp: get_del)

lemma dels_inv: "inv s \<Longrightarrow> inv (fold (\<lambda>k s. del s k) ks s)"
  by (induction ks arbitrary: s) (auto simp: inv_del)

lemma content_ext:
  assumes "inv s" "inv t" "\<And>k. get s k = get t k"
  shows "items s = items t"
proof -
  have eq: "set (items s) = set (items t)"
    using assms by (auto simp: items_get)
  have "sorted (map fst (items s))" "distinct (map fst (items s))"
       "sorted (map fst (items t))" "distinct (map fst (items t))"
    using items_sorted assms(1,2) by (simp_all add: strict_sorted_iff)
  then show ?thesis
    using eq by (intro map_sorted_distinct_set_unique [where f = fst])
      (auto simp: distinct_map)
qed

end

lemma map_of_engine_set: "map_of (engine_set s k v) = (map_of s)(k \<mapsto> v)"
  by (induction s k v rule: engine_set.induct) auto

lemma set_engine_setD: "x \<in> set (engine_set s k v) \<Longrightarrow> x = (k, v) \<or> x \<in> set s"
  by (induction s k v rule: engine_set.induct) (auto split: if_splits)

lemma kv_ok_engine_set: "kv_ok s \<Longrightarrow> kv_ok (engine_set s k v)"
  unfolding kv_ok_def
  by (induction s k v rule: engine_set.induct)
    (auto dest!: set_engine_setD intro: less_trans)

lemma kv_ok_distinct: "kv_ok s \<Longrightarrow> distinct (map fst s)"
  by (simp add: kv_ok_def strict_sorted_iff)

interpretation eng: kv_engine engine_get engine_set engine_delete "\<lambda>s. s" kv_ok
proof
  fix s :: kv and k v j
  show "engine_get (engine_set s k v) j = (if j = k then Some v else engine_get s j)"
    by (simp add: engine_get_def map_of_engine_set)
  show "engine_get (engine_delete s k) j = (if j = k then None else engine_get s j)"
    by (simp add: engine_get_def engine_delete_def)
  show "kv_ok s \<Longrightarrow> kv_ok (engine_set s k v)"
    by (rule kv_ok_engine_set)
  show "kv_ok s \<Longrightarrow> kv_ok (engine_delete s k)"
    by (simp add: kv_ok_def engine_delete_def sorted_wrt_map_fst_filter)
  show "kv_ok s \<Longrightarrow> (k, v) \<in> set s \<longleftrightarrow> engine_get s k = Some v"
    by (simp add: engine_get_def kv_ok_distinct)
  show "kv_ok s \<Longrightarrow> sorted_wrt (<) (map fst s)"
    by (simp add: kv_ok_def)
qed

lemmas engine_laws [kv_simps] = eng.get_put eng.get_del eng.inv_put eng.inv_del

lemma kv_ok_empty [simp]: "kv_ok kv_empty"
  by (simp add: kv_ok_def kv_empty_def)

lemma engine_get_empty [simp]: "engine_get kv_empty k = None"
  by (simp add: engine_get_def kv_empty_def)

lemma kv_ok_apply_write_op [kv_simps]: "kv_ok s \<Longrightarrow> kv_ok (apply_write_op w s)"
  by (simp add: apply_write_op_def kv_simps split: op_type.split)

lemma kv_ok_batch [kv_simps]: "kv_ok s \<Longrightarrow> kv_ok (engine_batch_write s ops)"
  unfolding engine_batch_write_def
  by (induction ops arbitrary: s) (simp_all add: kv_simps)

definition write_op_result :: "write_op \<Rightarrow> bytes option" where
  "write_op_result w = (case op_type w of OpPut \<Rightarrow> Some (op_value w) | OpDelete \<Rightarrow> None)"

lemma engine_get_apply_write_op [kv_simps]:
  "engine_get (apply_write_op w s) k = (if k = op_key w then write_op_result w else engine_get s k)"
  by (simp add: apply_write_op_def write_op_result_def kv_simps split: op_type.split)

text \<open>A batch acts like its operations in order: the last operation on a key decides.\<close>

lemma engine_get_batch:
  "engine_get (engine_batch_write s ops) k =
     (case filter (\<lambda>w. op_key w = k) (rev ops) of
        [] \<Rightarrow> engine_get s k
      | w # _ \<Rightarrow> write_op_result w)"
  unfolding engine_batch_write_def
proof (induction ops rule: rev_induct)
  case Nil
  then show ?case by simp
next
  case (snoc w ops)
  then show ?case by (auto simp: kv_simps)
qed

lemma batch_write_append:
  "engine_batch_write s (xs @ ys) = engine_batch_write (engine_batch_write s xs) ys"
  by (simp add: engine_batch_write_def)

section \<open>Forward scans return the documented range\<close>

lemma filter_range_sorted:
  assumes "sorted_wrt (<) (map fst (s :: kv))"
  shows "filter (\<lambda>(k, _). in_range start en k) s =
     takeWhile (\<lambda>(k, _). case en of None \<Rightarrow> True | Some e \<Rightarrow> k < e)
       (dropWhile (\<lambda>(k, _). k < start) s)"
  using assms
proof (induction s)
  case Nil
  then show ?case by simp
next
  case (Cons a s)
  obtain k v where a: "a = (k, v)" by force
  have later: "k < k'" if "(k', v') \<in> set s" for k' v'
    using Cons.prems that by (force simp: a)
  have sorted: "sorted_wrt (<) (map fst s)" using Cons.prems by simp
  show ?case
  proof (cases "k < start")
    case True
    then have "\<not> start \<le> k" by simp
    then show ?thesis using True Cons.IH [OF sorted] by (simp add: a in_range_def)
  next
    case False
    have "dropWhile (\<lambda>(k, _). k < start) s = s"
      using later False by (cases s) (force simp: dropWhile_eq_self_iff)+
    moreover have "filter (\<lambda>(k, _). in_range start en k) s = []" if "\<not> (case en of None \<Rightarrow> True | Some e \<Rightarrow> k < e)"
      using that later
      by (force simp: filter_empty_conv in_range_def split: option.splits)
    ultimately show ?thesis
      using False Cons.IH [OF sorted] by (auto simp: a in_range_def)
  qed
qed

text \<open>What the loop stops at, and what it returns of the items left.\<close>

definition iter_within :: "badger_iterator \<Rightarrow> bytes \<Rightarrow> bool" where
  "iter_within it k \<longleftrightarrow>
     (if it_reverse it then it_start it \<le> k
      else case it_end it of None \<Rightarrow> True | Some e \<Rightarrow> k < e)"

definition cut_items :: "(bytes \<Rightarrow> bool) \<Rightarrow> int \<Rightarrow> int \<Rightarrow> kv \<Rightarrow> kv" where
  "cut_items P l c xs =
     (let ys = takeWhile (\<lambda>(k, _). P k) xs in if l > 0 then take (nat (l - c)) ys else ys)"

lemma iter_within_iff:
  "(if it_reverse it then k < it_start it
    else case it_end it of Some e \<Rightarrow> e \<le> k | None \<Rightarrow> False) \<longleftrightarrow> \<not> iter_within it k"
  by (auto simp: iter_within_def split: option.splits)

lemma iter_next_started:
  "it_started it \<Longrightarrow> tl (it_rest it) = (k, v) # xs \<Longrightarrow>
     iter_next it =
       (if iter_within it k \<and> \<not> (it_limit it > 0 \<and> it_count it + 1 > it_limit it)
        then (True, it\<lparr>it_rest := (k, v) # xs, it_count := it_count it + 1\<rparr>)
        else (False, snd (iter_next it)))"
  using iter_within_iff [of it k] by (auto simp: iter_next_def iter_move_def Let_def)

lemma iter_loop_started:
  assumes "it_started it" "length (tl (it_rest it)) < n"
    "it_limit it > 0 \<longrightarrow> it_count it \<le> it_limit it"
  shows "iter_loop n it = cut_items (iter_within it) (it_limit it) (it_count it) (tl (it_rest it))"
  using assms
proof (induction n arbitrary: it)
  case 0
  then show ?case by simp
next
  case (Suc n)
  show ?case
  proof (cases "tl (it_rest it)")
    case Nil
    then show ?thesis
      using Suc.prems by (simp add: iter_next_def iter_move_def cut_items_def)
  next
    case (Cons x xs)
    obtain k v where x: "x = (k, v)" by force
    let ?it = "it\<lparr>it_rest := (k, v) # xs, it_count := it_count it + 1\<rparr>"
    have within: "iter_within ?it = iter_within it"
      by (simp add: iter_within_def fun_eq_iff)
    note nx = iter_next_started [OF Suc.prems(1) Cons [unfolded x]]
    show ?thesis
    proof (cases "iter_within it k \<and> \<not> (it_limit it > 0 \<and> it_count it + 1 > it_limit it)")
      case False
      then have "iter_loop (Suc n) it = []" by (subst iter_loop.simps, subst nx) auto
      then show ?thesis using False Cons x Suc.prems(3) by (auto simp: cut_items_def)
    next
      case True
      then have lim: "it_limit it > 0 \<longrightarrow> it_count it + 1 \<le> it_limit it" by linarith
      have "iter_loop (Suc n) it = x # iter_loop n ?it"
        using True by (subst iter_loop.simps, subst nx) (simp add: iter_item_def x)
      also have "iter_loop n ?it = cut_items (iter_within it) (it_limit it) (it_count it + 1) xs"
        using Suc.IH [of ?it] Suc.prems Cons lim by (simp add: within)
      also have "x # \<dots> = cut_items (iter_within it) (it_limit it) (it_count it) (tl (it_rest it))"
      proof -
        have "nat (it_limit it - it_count it) = Suc (nat (it_limit it - (it_count it + 1)))"
          if "it_limit it > 0" using that True by linarith
        then show ?thesis
          using Cons x True by (simp add: cut_items_def Let_def)
      qed
      finally show ?thesis .
    qed
  qed
qed

lemma iter_loop_fresh:
  "iter_collect (engine_scan s start en opts) =
     cut_items (iter_within (engine_scan s start en opts)) (so_limit opts) 0
       (badger_seek (so_reverse opts) s
         (case en of Some e \<Rightarrow> if so_reverse opts then prevKey e else start | None \<Rightarrow> start))"
proof -
  let ?it = "engine_scan s start en opts"
  define xs where "xs = badger_seek (so_reverse opts) s
    (case en of Some e \<Rightarrow> if so_reverse opts then prevKey e else start | None \<Rightarrow> start)"
  have len: "length xs \<le> length s"
    using length_dropWhile_le [of _ s] length_dropWhile_le [of _ "rev s"]
    by (auto simp: xs_def badger_seek_def)
  let ?st = "?it\<lparr>it_started := True, it_rest := (([], []) # xs)\<rparr>"
  have "iter_next ?it = iter_next ?st"
    by (cases en) (simp_all add: iter_next_def iter_move_def engine_scan_def xs_def)
  then have "iter_loop (Suc (length s)) ?it = iter_loop (Suc (length s)) ?st" by simp
  also have "\<dots> = cut_items (iter_within ?st) (so_limit opts) 0 xs"
    using iter_loop_started [of ?st "Suc (length s)"] len
    by (simp add: engine_scan_def)
  also have "iter_within ?st = iter_within ?it" by (simp add: iter_within_def fun_eq_iff)
  finally show ?thesis
    by (simp add: iter_collect_def engine_scan_def xs_def)
qed

lemma badger_seek_forward: "badger_seek False s start = dropWhile (\<lambda>(k, _). k < start) s"
  by (cases "start = []") (simp_all add: badger_seek_def case_prod_unfold)

lemma scan_collects_range:
  assumes "kv_ok s" "\<not> so_reverse opts"
  shows "iter_collect (engine_scan s start en opts) = scan_items s start en (so_limit opts)"
proof -
  have "iter_within (engine_scan s start en opts) =
      (\<lambda>k. case en of None \<Rightarrow> True | Some e \<Rightarrow> k < e)"
    using assms(2) by (simp add: iter_within_def engine_scan_def fun_eq_iff)
  moreover have "(case en of Some e \<Rightarrow> if so_reverse opts then prevKey e else start | None \<Rightarrow> start) = start"
    using assms(2) by (cases en) simp_all
  ultimately show ?thesis
    using assms filter_range_sorted [of s start en]
    by (simp add: iter_loop_fresh badger_seek_forward kv_ok_def scan_items_def scan_limit_def
        range_items_def cut_items_def Let_def)
qed

lemma prefix_scan_collects:
  assumes "kv_ok s" "\<not> so_reverse opts"
  shows "iter_collect (engine_prefix_scan s p opts) = prefix_items s p (so_limit opts)"
  using assms
  by (simp add: engine_prefix_scan_def prefix_items_def scan_collects_range split: prod.split)

lemma set_prefix_items_0:
  "kv_ok s \<Longrightarrow> (k, v) \<in> set (prefix_items s p 0) \<longleftrightarrow> in_prefix_range p k \<and> engine_get s k = Some v"
  by (auto simp: prefix_items_def scan_items_def scan_limit_def range_items_def in_prefix_range_def
      eng.items_get split: prod.splits)

text \<open>The identifiers that an index holds under a field.\<close>

lemma set_index_ids:
  assumes "kv_ok s" "NUL \<notin> set f"
  shows "set (map (\<lambda>(k, _). DecodeIndexID k)
      (iter_collect (engine_prefix_scan s (EncodeIndexKey p f []) \<lparr>so_limit = 0, so_reverse = False\<rparr>))) =
    {i. engine_get s (EncodeIndexKey p f i) \<noteq> None}" (is "set ?ids = _")
proof -
  have key: "EncodeIndexKey p f [] @ i = EncodeIndexKey p f i" "DecodeIndexID (EncodeIndexKey p f i) = i" for i
    using assms(2) by (simp_all add: EncodeIndexKey_def decode_index_key [unfolded EncodeIndexKey_def, simplified])
  have "set ?ids = DecodeIndexID ` {k. prefix (EncodeIndexKey p f []) k \<and> engine_get s k \<noteq> None}"
    using assms(1) by (force simp: prefix_scan_collects set_prefix_items_0 in_index_range_iff)
  also have "\<dots> = {i. engine_get s (EncodeIndexKey p f i) \<noteq> None}"
  proof (intro set_eqI iffI)
    fix i assume "i \<in> DecodeIndexID ` {k. prefix (EncodeIndexKey p f []) k \<and> engine_get s k \<noteq> None}"
    then obtain k where "i = DecodeIndexID k" "prefix (EncodeIndexKey p f []) k" "engine_get s k \<noteq> None" by blast
    then show "i \<in> {i. engine_get s (EncodeIndexKey p f i) \<noteq> None}" using key by (auto elim: prefixE)
  next
    fix i assume i: "i \<in> {i. engine_get s (EncodeIndexKey p f i) \<noteq> None}"
    have "prefix (EncodeIndexKey p f []) (EncodeIndexKey p f i)" by (metis key(1) prefixI)
    then show "i \<in> DecodeIndexID ` {k. prefix (EncodeIndexKey p f []) k \<and> engine_get s k \<noteq> None}"
      using i key(2) by (intro image_eqI [of _ _ "EncodeIndexKey p f i"]) auto
  qed
  finally show ?thesis .
qed

lemma range_items_prefix:
  "PrefixRange p = (st, en) \<Longrightarrow> range_items s st en = filter (\<lambda>(k, _). in_prefix_range p k) s"
  by (simp add: range_items_def in_prefix_range_def)

section \<open>Reverse scans\<close>

lemma filter_reverse_sorted:
  assumes "sorted_wrt (<) (map fst (s :: kv))"
  shows "takeWhile (\<lambda>(k, _). a \<le> k) (dropWhile (\<lambda>(k, _). b < k) (rev s)) =
     filter (\<lambda>(k, _). a \<le> k \<and> k \<le> b) (rev s)"
  using assms
proof (induction s rule: rev_induct)
  case Nil
  then show ?case by simp
next
  case (snoc x s)
  obtain k v where x: "x = (k, v)" by force
  have earlier: "k' < k" if "(k', v') \<in> set s" for k' v'
    using snoc.prems that by (force simp: x sorted_wrt_append)
  have sorted: "sorted_wrt (<) (map fst s)" using snoc.prems by (simp add: sorted_wrt_append)
  show ?case
  proof (cases "b < k")
    case True
    then have "\<not> k \<le> b" by simp
    then show ?thesis using True snoc.IH [OF sorted] by (simp add: x)
  next
    case False
    have "\<not> b < fst y" if "y \<in> set (rev s)" for y
      using earlier [of "fst y" "snd y"] that False by (auto simp: not_less)
    then have "dropWhile (\<lambda>(k, _). b < k) (rev s) = rev s"
      by (cases "rev s") (auto simp: case_prod_unfold)
    moreover have "filter (\<lambda>(k, _). a \<le> k \<and> k \<le> b) (rev s) = []" if "\<not> a \<le> k"
      using that earlier by (force simp: filter_empty_conv)
    ultimately show ?thesis
      using False snoc.IH [OF sorted] by (auto simp: x)
  qed
qed

lemma reverse_scan_collects:
  assumes "kv_ok s" "so_reverse opts" "prevKey e \<noteq> []"
  shows "iter_collect (engine_scan s start (Some e) opts) =
    scan_limit (so_limit opts) (rev (filter (\<lambda>(k, _). start \<le> k \<and> k \<le> prevKey e) s))"
proof -
  have "iter_within (engine_scan s start (Some e) opts) = (\<lambda>k. start \<le> k)"
    using assms(2) by (simp add: iter_within_def engine_scan_def fun_eq_iff)
  then show ?thesis
    using assms filter_reverse_sorted [of s start "prevKey e"]
    by (simp add: iter_loop_fresh badger_seek_def kv_ok_def scan_limit_def cut_items_def Let_def
        rev_filter)
qed

section \<open>Properties\<close>

text \<open>
  C12: running the iterator of a forward scan to its end returns exactly the stored items of the
  range in key order, cut at the limit.
\<close>

theorem forward_scan_refines_range:
  assumes "kv_ok s" "\<not> so_reverse opts"
  shows "iter_collect (engine_scan s start en opts) =
    scan_limit (so_limit opts) (filter (\<lambda>(k, _). in_range start en k) s)"
  using scan_collects_range [OF assms] by (simp add: scan_items_def range_items_def)

theorem forward_scan_refines_range_witness:
  "iter_collect (engine_scan [(''a'', ''1''), (''b'', ''2''), (''c'', ''3'')] ''b'' None
     \<lparr>so_limit = 1, so_reverse = False\<rparr>) = [(''b'', ''2'')]"
  using forward_scan_refines_range [of "[(''a'', ''1''), (''b'', ''2''), (''c'', ''3'')]"
      "\<lparr>so_limit = 1, so_reverse = False\<rparr>" "''b''" None]
  by (simp add: kv_ok_def in_range_def scan_limit_def less_char_def less_eq_char_def)

text \<open>
  A reverse scan with an end key returns, from the top down, the items from the start up to the
  \<^emph>\<open>predecessor\<close> \<open>prevKey\<close> of the end. The keys between that predecessor and the end are
  in the range and are not returned.
\<close>

lemma reverse_scan_stops_at_prevKey:
  assumes "kv_ok s" "so_reverse opts" "prevKey e \<noteq> []"
  shows "iter_collect (engine_scan s start (Some e) opts) =
    scan_limit (so_limit opts) (rev (filter (\<lambda>(k, _). start \<le> k \<and> k \<le> prevKey e) s))"
  by (rule reverse_scan_collects [OF assms])

text \<open>
  After a batch every key has the value of the last operation on it, or its old value when no
  operation names it; the content stays in key order.
\<close>

lemma batch_last_write_wins:
  assumes "kv_ok s"
  shows "kv_ok (engine_batch_write s ops) \<and>
    engine_get (engine_batch_write s ops) k =
      (case filter (\<lambda>w. op_key w = k) (rev ops) of
         [] \<Rightarrow> engine_get s k
       | w # _ \<Rightarrow> (case op_type w of OpPut \<Rightarrow> Some (op_value w) | OpDelete \<Rightarrow> None))"
  using assms engine_get_batch [of s ops k] by (simp add: kv_ok_batch write_op_result_def split: list.split)

end
