(* ===== verification/TableManager.thy ===== *)
theory TableManager
  imports Engine "HOL-Library.AList"
begin

text \<open>
  Model of \<^verbatim>\<open>internal/storage/table_manager.go\<close>: the catalogue of SQL tables. Every user table
  gets a one-byte key prefix; its metadata is kept in memory and stored as JSON under the system
  prefix, from where \<open>Init\<close> reloads it.

  \<open>encoding/json\<close> enters as the two arguments \<open>enc\<close> and \<open>dec\<close> of the operations that marshal
  and unmarshal a table's metadata. The Go map of tables is an association list with distinct
  names; the order in which Go iterates it is unspecified. The engine state is passed explicitly.
\<close>

section \<open>Data\<close>

record column_meta =
  col_name :: bytes
  col_type :: bytes
  col_length :: int
  col_nullable :: bool
  col_primary :: bool
  col_default :: val

record table_meta =
  tbl_name :: bytes
  tbl_columns :: "column_meta list"
  tbl_prefix :: u8

record table_manager =
  tm_tables :: "(bytes \<times> table_meta) list"
  tm_next :: u8

datatype tm_error =
  TableExists bytes
| NoPrefixAvailable
| NoSuchTable bytes
| BuiltinTable bytes
| ColumnExists bytes
| NoSuchColumn bytes
| DropPrimaryKey bytes
| ChangePrimaryKeyType bytes
| MarshalError

datatype alter_action =
  AddColumn column_meta
| DropColumn bytes
| ModifyColumn column_meta

definition tableMetaKeyPrefix :: bytes where
  "tableMetaKeyPrefix = ''table:''"

definition userTablePrefixStart :: u8 where
  "userTablePrefixStart = 0x30"

definition userTablePrefixEnd :: u8 where
  "userTablePrefixEnd = 0xFE"

definition NewTableManager :: table_manager where
  "NewTableManager = \<lparr>tm_tables = [], tm_next = userTablePrefixStart\<rparr>"

definition table_meta_key :: "bytes \<Rightarrow> bytes" where
  "table_meta_key name = EncodeKey PrefixSystem (tableMetaKeyPrefix @ name)"

section \<open>Built-in tables\<close>

definition column :: "bytes \<Rightarrow> bytes \<Rightarrow> int \<Rightarrow> bool \<Rightarrow> bool \<Rightarrow> column_meta" where
  "column n t l nullable pk =
     \<lparr>col_name = n, col_type = t, col_length = l, col_nullable = nullable, col_primary = pk,
      col_default = VNil\<rparr>"

definition builtin :: "bytes \<Rightarrow> u8 \<Rightarrow> column_meta list \<Rightarrow> table_meta" where
  "builtin n p cs = \<lparr>tbl_name = n, tbl_columns = cs, tbl_prefix = p\<rparr>"

definition builtin_tables :: "table_meta list" where
  "builtin_tables =
    [builtin ''agent_sessions'' 1
       [column ''id'' ''VARCHAR'' 64 False True,
        column ''agent_id'' ''VARCHAR'' 64 False False,
        column ''created_at'' ''VARCHAR'' 32 False False,
        column ''updated_at'' ''VARCHAR'' 32 False False,
        column ''state'' ''VARCHAR'' 16 False False,
        column ''context'' ''TEXT'' 0 True False,
        column ''metadata'' ''TEXT'' 0 True False],
     builtin ''agent_memories'' 2
       [column ''id'' ''VARCHAR'' 64 False True,
        column ''session_id'' ''VARCHAR'' 64 True False,
        column ''type'' ''VARCHAR'' 32 False False,
        column ''content'' ''TEXT'' 0 False False,
        column ''importance'' ''FLOAT'' 0 False False,
        column ''access_count'' ''INT'' 0 False False,
        column ''associations'' ''TEXT'' 0 True False,
        column ''created_at'' ''VARCHAR'' 32 False False,
        column ''accessed_at'' ''VARCHAR'' 32 False False],
     builtin ''agent_decisions'' 3
       [column ''id'' ''VARCHAR'' 64 False True,
        column ''session_id'' ''VARCHAR'' 64 True False,
        column ''parent_id'' ''VARCHAR'' 64 True False,
        column ''type'' ''VARCHAR'' 32 False False,
        column ''input'' ''TEXT'' 0 True False,
        column ''output'' ''TEXT'' 0 True False,
        column ''reasoning'' ''TEXT'' 0 True False,
        column ''tools_used'' ''TEXT'' 0 True False,
        column ''duration_ms'' ''INT'' 0 False False,
        column ''token_usage'' ''TEXT'' 0 True False,
        column ''created_at'' ''VARCHAR'' 32 False False],
     builtin ''knowledge_entities'' 4
       [column ''id'' ''VARCHAR'' 64 False True,
        column ''name'' ''VARCHAR'' 256 False False,
        column ''type'' ''VARCHAR'' 64 False False,
        column ''properties'' ''TEXT'' 0 True False,
        column ''created_at'' ''VARCHAR'' 32 False False,
        column ''updated_at'' ''VARCHAR'' 32 False False],
     builtin ''knowledge_relations'' 5
       [column ''id'' ''VARCHAR'' 64 False True,
        column ''source_id'' ''VARCHAR'' 64 False False,
        column ''target_id'' ''VARCHAR'' 64 False False,
        column ''relation_type'' ''VARCHAR'' 64 False False,
        column ''properties'' ''TEXT'' 0 True False,
        column ''weight'' ''FLOAT'' 0 False False,
        column ''created_at'' ''VARCHAR'' 32 False False],
     builtin ''data_lineage'' 6
       [column ''id'' ''VARCHAR'' 64 False True,
        column ''source_type'' ''VARCHAR'' 32 False False,
        column ''source_id'' ''VARCHAR'' 64 False False,
        column ''target_type'' ''VARCHAR'' 32 False False,
        column ''target_id'' ''VARCHAR'' 64 False False,
        column ''operation'' ''VARCHAR'' 32 False False,
        column ''metadata'' ''TEXT'' 0 True False,
        column ''created_at'' ''VARCHAR'' 32 False False]]"

definition isBuiltinTable :: "bytes \<Rightarrow> bool" where
  "isBuiltinTable name \<longleftrightarrow>
     to_lower name \<in> set [''agent_sessions'', ''sessions'', ''agent_memories'', ''memories'',
       ''agent_decisions'', ''decisions'', ''knowledge_entities'', ''entities'',
       ''knowledge_relations'', ''relations'', ''data_lineage'', ''lineage'']"

section \<open>Loading\<close>

definition register_builtin :: "table_meta \<Rightarrow> table_manager \<Rightarrow> table_manager" where
  "register_builtin m tm =
     (if map_of (tm_tables tm) (tbl_name m) = None
      then tm\<lparr>tm_tables := AList.update (tbl_name m) m (tm_tables tm)\<rparr> else tm)"

definition registerBuiltinTables :: "table_manager \<Rightarrow> table_manager" where
  "registerBuiltinTables tm = fold register_builtin builtin_tables tm"

definition load_table :: "(bytes \<Rightarrow> table_meta option) \<Rightarrow> bytes \<times> bytes \<Rightarrow> table_manager \<Rightarrow> table_manager" where
  "load_table dec item tm =
     (case dec (snd item) of
        None \<Rightarrow> tm
      | Some m \<Rightarrow>
          if tbl_name m = [] \<or> tbl_prefix m < userTablePrefixStart then tm
          else
            let tm = tm\<lparr>tm_tables := AList.update (tbl_name m) m (tm_tables tm)\<rparr> in
            if tbl_prefix m \<ge> tm_next tm \<and> tbl_prefix m \<le> userTablePrefixEnd
            then tm\<lparr>tm_next := tbl_prefix m + 1\<rparr> else tm)"

definition tm_init :: "(bytes \<Rightarrow> table_meta option) \<Rightarrow> kv \<Rightarrow> table_manager \<Rightarrow> table_manager" where
  "tm_init dec s tm =
     registerBuiltinTables
       (fold (load_table dec)
         (iter_collect (engine_prefix_scan s (EncodeKey PrefixSystem tableMetaKeyPrefix) no_options))
         tm)"

section \<open>Statements\<close>

text \<open>
  \<open>CreateTable\<close> takes the prefix before it marshals, and \<open>AlterTable\<close> changes the
  metadata in place before it marshals: an error of \<open>json.Marshal\<close> leaves both changes behind.
\<close>

type_synonym tm_result = "(tm_error + unit) \<times> table_manager \<times> kv"

definition tm_create ::
    "(table_meta \<Rightarrow> bytes option) \<Rightarrow> bytes \<Rightarrow> column_meta list \<Rightarrow> bool \<Rightarrow> table_manager \<Rightarrow> kv \<Rightarrow> tm_result" where
  "tm_create enc name columns ifNotExists tm s =
     (if map_of (tm_tables tm) name \<noteq> None then
        ((if ifNotExists then Inr () else Inl (TableExists name)), tm, s)
      else if tm_next tm > userTablePrefixEnd then (Inl NoPrefixAvailable, tm, s)
      else
        let p = tm_next tm;
            m = \<lparr>tbl_name = name, tbl_columns = columns, tbl_prefix = p\<rparr>;
            tm1 = tm\<lparr>tm_next := p + 1\<rparr>
        in (case enc m of
              None \<Rightarrow> (Inl MarshalError, tm1, s)
            | Some v \<Rightarrow>
                (Inr (), tm1\<lparr>tm_tables := AList.update name m (tm_tables tm1)\<rparr>,
                 engine_set s (table_meta_key name) v)))"

definition tm_drop :: "bytes \<Rightarrow> bool \<Rightarrow> table_manager \<Rightarrow> kv \<Rightarrow> tm_result" where
  "tm_drop name ifExists tm s =
     (case map_of (tm_tables tm) name of
        None \<Rightarrow> ((if ifExists then Inr () else Inl (NoSuchTable name)), tm, s)
      | Some m \<Rightarrow>
          if isBuiltinTable name then (Inl (BuiltinTable name), tm, s)
          else
            let (start, en) = PrefixRange [byte_of (tbl_prefix m)];
                keys = map fst (iter_collect (engine_scan s start en no_options));
                ops = map (\<lambda>k. \<lparr>op_type = OpDelete, op_key = k, op_value = []\<rparr>) keys;
                s' = engine_delete (engine_batch_write s ops) (table_meta_key name)
            in (Inr (), tm\<lparr>tm_tables := AList.delete name (tm_tables tm)\<rparr>, s'))"

text \<open>The loops of \<open>DropColumn\<close> and \<open>ModifyColumn\<close> act on the first column of that name.\<close>

fun drop_column :: "bytes \<Rightarrow> column_meta list \<Rightarrow> tm_error + column_meta list" where
  "drop_column c [] = Inl (NoSuchColumn c)"
| "drop_column c (x # xs) =
     (if col_name x = c then (if col_primary x then Inl (DropPrimaryKey c) else Inr xs)
      else map_sum id (\<lambda>ys. x # ys) (drop_column c xs))"

fun modify_column :: "column_meta \<Rightarrow> column_meta list \<Rightarrow> tm_error + column_meta list" where
  "modify_column c [] = Inl (NoSuchColumn (col_name c))"
| "modify_column c (x # xs) =
     (if col_name x = col_name c then
        (if col_primary x \<and> col_type x \<noteq> col_type c then Inl (ChangePrimaryKeyType (col_name c))
         else Inr (c # xs))
      else map_sum id (\<lambda>ys. x # ys) (modify_column c xs))"

definition alter_columns :: "alter_action \<Rightarrow> column_meta list \<Rightarrow> tm_error + column_meta list" where
  "alter_columns a cs =
     (case a of
        AddColumn c \<Rightarrow>
          if col_name c \<in> set (map col_name cs) then Inl (ColumnExists (col_name c))
          else Inr (cs @ [c])
      | DropColumn c \<Rightarrow> drop_column c cs
      | ModifyColumn c \<Rightarrow> modify_column c cs)"

definition tm_alter ::
    "(table_meta \<Rightarrow> bytes option) \<Rightarrow> bytes \<Rightarrow> alter_action \<Rightarrow> table_manager \<Rightarrow> kv \<Rightarrow> tm_result" where
  "tm_alter enc name a tm s =
     (case map_of (tm_tables tm) name of
        None \<Rightarrow> (Inl (NoSuchTable name), tm, s)
      | Some m \<Rightarrow>
          if isBuiltinTable name then (Inl (BuiltinTable name), tm, s)
          else
            (case alter_columns a (tbl_columns m) of
               Inl e \<Rightarrow> (Inl e, tm, s)
             | Inr cs \<Rightarrow>
                 let m' = m\<lparr>tbl_columns := cs\<rparr>;
                     tm' = tm\<lparr>tm_tables := AList.update name m' (tm_tables tm)\<rparr>
                 in (case enc m' of
                       None \<Rightarrow> (Inl MarshalError, tm', s)
                     | Some v \<Rightarrow> (Inr (), tm', engine_set s (table_meta_key name) v))))"

definition tm_get :: "table_manager \<Rightarrow> bytes \<Rightarrow> table_meta option" where
  "tm_get tm name = map_of (tm_tables tm) name"

definition tm_list :: "table_manager \<Rightarrow> bytes list" where
  "tm_list tm = map fst (tm_tables tm)"

definition tm_prefix :: "table_manager \<Rightarrow> bytes \<Rightarrow> u8 option" where
  "tm_prefix tm name = map_option tbl_prefix (map_of (tm_tables tm) name)"

section \<open>Invariant of the catalogue\<close>

definition is_user :: "table_meta \<Rightarrow> bool" where
  "is_user m \<longleftrightarrow> userTablePrefixStart \<le> tbl_prefix m"

text \<open>
  Every entry is stored under its own name; the built-in tables are there with their fixed
  metadata; every other table has a prefix of the user range below the next one to hand out; no two
  tables share a prefix.
\<close>

definition tm_inv :: "table_manager \<Rightarrow> bool" where
  "tm_inv tm \<longleftrightarrow>
     distinct (map fst (tm_tables tm)) \<and> userTablePrefixStart \<le> tm_next tm \<and>
     (\<forall>b \<in> set builtin_tables. map_of (tm_tables tm) (tbl_name b) = Some b) \<and>
     (\<forall>n m. map_of (tm_tables tm) n = Some m \<longrightarrow>
        tbl_name m = n \<and> (if is_user m then tbl_prefix m < tm_next tm else m \<in> set builtin_tables)) \<and>
     (\<forall>n m n' m'. map_of (tm_tables tm) n = Some m \<longrightarrow> map_of (tm_tables tm) n' = Some m' \<longrightarrow>
        tbl_prefix m = tbl_prefix m' \<longrightarrow> n = n')"

lemma tm_inv_distinct: "tm_inv tm \<Longrightarrow> distinct (map fst (tm_tables tm))"
  by (simp add: tm_inv_def)

lemma tm_inv_builtin:
  "tm_inv tm \<Longrightarrow> b \<in> set builtin_tables \<Longrightarrow> map_of (tm_tables tm) (tbl_name b) = Some b"
  by (simp add: tm_inv_def)

lemma tm_inv_entry:
  "tm_inv tm \<Longrightarrow> map_of (tm_tables tm) n = Some m \<Longrightarrow>
     tbl_name m = n \<and> (if is_user m then tbl_prefix m < tm_next tm else m \<in> set builtin_tables)"
  unfolding tm_inv_def by blast

lemma tm_inv_prefix_inj:
  "tm_inv tm \<Longrightarrow> map_of (tm_tables tm) n = Some m \<Longrightarrow> map_of (tm_tables tm) n' = Some m' \<Longrightarrow>
     tbl_prefix m = tbl_prefix m' \<Longrightarrow> n = n'"
  unfolding tm_inv_def by blast

lemma builtin_name: "b \<in> set builtin_tables \<Longrightarrow> isBuiltinTable (tbl_name b)"
proof -
  have "\<forall>b \<in> set builtin_tables. isBuiltinTable (tbl_name b)" by code_simp
  then show "b \<in> set builtin_tables \<Longrightarrow> isBuiltinTable (tbl_name b)" by blast
qed

lemma builtin_not_user: "b \<in> set builtin_tables \<Longrightarrow> \<not> is_user b"
proof -
  have "\<forall>b \<in> set builtin_tables. \<not> is_user b" by code_simp
  then show "b \<in> set builtin_tables \<Longrightarrow> \<not> is_user b" by blast
qed

lemma builtin_names_distinct: "distinct (map tbl_name builtin_tables)"
  by code_simp

lemma builtin_prefixes_distinct: "distinct (map tbl_prefix builtin_tables)"
  by code_simp

lemma builtin_same_prefix:
  "b \<in> set builtin_tables \<Longrightarrow> c \<in> set builtin_tables \<Longrightarrow> tbl_prefix b = tbl_prefix c \<Longrightarrow> b = c"
  using builtin_prefixes_distinct by (simp add: distinct_map inj_on_def)

lemma builtin_same_name:
  "b \<in> set builtin_tables \<Longrightarrow> c \<in> set builtin_tables \<Longrightarrow> tbl_name b = tbl_name c \<Longrightarrow> b = c"
  using builtin_names_distinct by (simp add: distinct_map inj_on_def)

lemma user_not_builtin_name:
  "tm_inv tm \<Longrightarrow> map_of (tm_tables tm) n = Some m \<Longrightarrow> \<not> isBuiltinTable n \<Longrightarrow> is_user m"
  using tm_inv_entry [of tm n m] builtin_name [of m] by (auto split: if_splits)

lemma next_prefix_fresh:
  "tm_inv tm \<Longrightarrow> map_of (tm_tables tm) n = Some m \<Longrightarrow> tbl_prefix m < tm_next tm"
  using tm_inv_entry [of tm n m] builtin_not_user [of m]
  by (auto simp: tm_inv_def is_user_def not_le split: if_splits intro: less_le_trans)

lemma tm_next_inc: "tm_next tm \<le> userTablePrefixEnd \<Longrightarrow> tm_next tm < tm_next tm + 1"
proof -
  assume "tm_next tm \<le> userTablePrefixEnd"
  then have "unat (tm_next tm) \<le> 254"
    by (simp add: userTablePrefixEnd_def word_le_nat_alt)
  then show ?thesis by (simp add: word_less_nat_alt unat_word_ariths)
qed

lemma tm_inv_raise_next:
  assumes inv: "tm_inv tm" and nx: "tm_next tm \<le> nx"
  shows "tm_inv (tm\<lparr>tm_next := nx\<rparr>)"
proof -
  have "tbl_name m = n \<and> (if is_user m then tbl_prefix m < nx else m \<in> set builtin_tables)"
    if "map_of (tm_tables tm) n = Some m" for n m
    using tm_inv_entry [OF inv that] nx by (auto split: if_splits)
  moreover have "userTablePrefixStart \<le> nx"
    using inv nx by (auto simp: tm_inv_def)
  ultimately show ?thesis
    using tm_inv_distinct [OF inv] tm_inv_builtin [OF inv] tm_inv_prefix_inj [OF inv]
    unfolding tm_inv_def by simp
qed

text \<open>Replacing or adding one user entry keeps the invariant.\<close>

lemma tm_inv_update:
  assumes inv: "tm_inv tm"
    and m: "tbl_name m = n" "is_user m" "tbl_prefix m < nx" "tm_next tm \<le> nx"
    and own: "\<And>n' m'. map_of (tm_tables tm) n' = Some m' \<Longrightarrow> tbl_prefix m' = tbl_prefix m \<Longrightarrow> n' = n"
    and nb: "\<And>b. b \<in> set builtin_tables \<Longrightarrow> tbl_name b \<noteq> n"
  shows "tm_inv (tm\<lparr>tm_next := nx, tm_tables := AList.update n m (tm_tables tm)\<rparr>)"
proof -
  have "userTablePrefixStart \<le> nx" using inv m(4) by (auto simp: tm_inv_def)
  then show ?thesis
    using tm_inv_distinct [OF inv] tm_inv_builtin [OF inv] tm_inv_entry [OF inv]
      tm_inv_prefix_inj [OF inv] m own nb
    unfolding tm_inv_def
    by (auto simp: AList.update_conv' distinct_update intro: less_le_trans) (metis less_le_trans)+
qed

lemma tm_create_inv:
  assumes "tm_inv tm" "tm_create enc name cs ine tm s = (r, tm', s')"
  shows "tm_inv tm'"
proof (cases "map_of (tm_tables tm) name = None \<and> tm_next tm \<le> userTablePrefixEnd")
  case False
  then show ?thesis using assms by (auto simp: tm_create_def split: if_splits)
next
  case True
  let ?m = "\<lparr>tbl_name = name, tbl_columns = cs, tbl_prefix = tm_next tm\<rparr>"
  have "tm_inv (tm\<lparr>tm_next := tm_next tm + 1, tm_tables := AList.update name ?m (tm_tables tm)\<rparr>)"
  proof (rule tm_inv_update [OF assms(1)])
    show "is_user ?m" using assms(1) by (simp add: is_user_def tm_inv_def)
    show "tbl_prefix ?m < tm_next tm + 1" "tm_next tm \<le> tm_next tm + 1"
      using tm_next_inc [of tm] True by (auto intro: less_imp_le)
  next
    fix n' m' assume "map_of (tm_tables tm) n' = Some m'" "tbl_prefix m' = tbl_prefix ?m"
    then show "n' = name" using next_prefix_fresh [OF assms(1)] by fastforce
  next
    fix b assume "b \<in> set builtin_tables"
    then show "tbl_name b \<noteq> name" using True tm_inv_builtin [OF assms(1)] by auto
  qed simp
  moreover have "tm_inv (tm\<lparr>tm_next := tm_next tm + 1\<rparr>)"
    using tm_inv_raise_next [OF assms(1) less_imp_le [OF tm_next_inc]] True by blast
  ultimately show ?thesis
    using assms(2) True by (auto simp: tm_create_def Let_def split: if_splits option.splits)
qed

lemma tm_alter_inv:
  assumes "tm_inv tm" "tm_alter enc name a tm s = (r, tm', s')"
  shows "tm_inv tm'"
proof (cases "tm' = tm")
  case True
  then show ?thesis using assms(1) by simp
next
  case False
  then obtain m cs where m: "map_of (tm_tables tm) name = Some m" "\<not> isBuiltinTable name"
    and tm': "tm' = tm\<lparr>tm_tables := AList.update name (m\<lparr>tbl_columns := cs\<rparr>) (tm_tables tm)\<rparr>"
    using assms(2) by (auto simp: tm_alter_def Let_def split: option.splits if_splits sum.splits)
  have "tm_inv (tm\<lparr>tm_next := tm_next tm,
      tm_tables := AList.update name (m\<lparr>tbl_columns := cs\<rparr>) (tm_tables tm)\<rparr>)"
  proof (rule tm_inv_update [OF assms(1)])
    show "tbl_name (m\<lparr>tbl_columns := cs\<rparr>) = name" using tm_inv_entry [OF assms(1) m(1)] by simp
    show "is_user (m\<lparr>tbl_columns := cs\<rparr>)"
      using user_not_builtin_name [OF assms(1) m] by (simp add: is_user_def)
    show "tbl_prefix (m\<lparr>tbl_columns := cs\<rparr>) < tm_next tm"
      using next_prefix_fresh [OF assms(1) m(1)] by simp
  next
    fix n' m' assume "map_of (tm_tables tm) n' = Some m'"
      "tbl_prefix m' = tbl_prefix (m\<lparr>tbl_columns := cs\<rparr>)"
    then show "n' = name" using tm_inv_prefix_inj [OF assms(1) _ m(1)] by simp
  next
    fix b assume "b \<in> set builtin_tables"
    then show "tbl_name b \<noteq> name" using m(2) builtin_name by auto
  qed simp
  then show ?thesis by (simp add: tm')
qed

lemma tm_inv_delete:
  assumes inv: "tm_inv tm" and nb: "\<And>b. b \<in> set builtin_tables \<Longrightarrow> tbl_name b \<noteq> n"
  shows "tm_inv (tm\<lparr>tm_tables := AList.delete n (tm_tables tm)\<rparr>)"
proof -
  let ?tm = "tm\<lparr>tm_tables := AList.delete n (tm_tables tm)\<rparr>"
  have look: "map_of (tm_tables ?tm) k = (if k = n then None else map_of (tm_tables tm) k)" for k
    by (simp add: AList.delete_conv')
  have 1: "distinct (map fst (tm_tables ?tm))"
    using inv by (simp add: tm_inv_def distinct_delete)
  have 2: "userTablePrefixStart \<le> tm_next ?tm"
    using inv by (simp add: tm_inv_def)
  have 3: "\<forall>b \<in> set builtin_tables. map_of (tm_tables ?tm) (tbl_name b) = Some b"
    using tm_inv_builtin [OF inv] nb unfolding look by simp
  have 4: "tbl_name m = k \<and> (if is_user m then tbl_prefix m < tm_next ?tm else m \<in> set builtin_tables)"
    if "map_of (tm_tables ?tm) k = Some m" for k m
    using that tm_inv_entry [OF inv, of k m] unfolding look by (simp split: if_splits)
  have 5: "k = k'" if "map_of (tm_tables ?tm) k = Some m" "map_of (tm_tables ?tm) k' = Some m'"
      "tbl_prefix m = tbl_prefix m'" for k m k' m'
    using that tm_inv_prefix_inj [OF inv, of k m k' m'] unfolding look by (simp split: if_splits)
  show ?thesis
    unfolding tm_inv_def using 1 2 3 4 5 by blast
qed

lemma tm_drop_inv:
  assumes inv: "tm_inv tm" and d: "tm_drop name ie tm s = (r, tm', s')"
  shows "tm_inv tm'"
proof (cases "tm' = tm")
  case True
  then show ?thesis using inv by simp
next
  case False
  then have nb: "\<not> isBuiltinTable name"
    and tm': "tm' = tm\<lparr>tm_tables := AList.delete name (tm_tables tm)\<rparr>"
    using d by (auto simp: tm_drop_def Let_def split: option.splits if_splits prod.splits)
  have "tbl_name b \<noteq> name" if "b \<in> set builtin_tables" for b
    using that nb builtin_name by auto
  then show ?thesis unfolding tm' by (rule tm_inv_delete [OF inv])
qed


section \<open>Effect of DROP TABLE on the data\<close>

lemma delete_keys_batch:
  "engine_batch_write s (map (\<lambda>k. \<lparr>op_type = OpDelete, op_key = k, op_value = []\<rparr>) ks) =
     fold (\<lambda>k s. engine_delete s k) ks s"
  unfolding engine_batch_write_def
  by (induction ks arbitrary: s) (simp_all add: apply_write_op_def)

lemma table_data_keys:
  assumes "kv_ok s"
  shows "set (map fst (iter_collect (engine_scan s (fst (PrefixRange [p])) (snd (PrefixRange [p])) no_options))) =
    {k. prefix [p] k \<and> engine_get s k \<noteq> None}"
proof -
  have "iter_collect (engine_scan s (fst (PrefixRange [p])) (snd (PrefixRange [p])) no_options) =
      prefix_items s [p] 0"
    using assms
    by (simp add: scan_collects_range no_options_def prefix_items_def split: prod.split)
  moreover have "k \<in> set (map fst (prefix_items s [p] 0)) \<longleftrightarrow> prefix [p] k \<and> engine_get s k \<noteq> None" for k
  proof -
    have "k \<in> set (map fst (prefix_items s [p] 0)) \<longleftrightarrow> (\<exists>v. (k, v) \<in> set (prefix_items s [p] 0))"
      by force
    then show ?thesis
      by (simp only: set_prefix_items_0 [OF assms] in_prefix_range_single) blast
  qed
  ultimately show ?thesis by (simp only: set_eq_iff mem_Collect_eq) blast
qed

lemma tm_drop_user:
  assumes "kv_ok s" "map_of (tm_tables tm) name = Some m" "\<not> isBuiltinTable name"
  obtains s' where
    "tm_drop name ie tm s = (Inr (), tm\<lparr>tm_tables := AList.delete name (tm_tables tm)\<rparr>, s')"
    "kv_ok s'"
    "\<And>k. engine_get s' k =
       (if prefix [byte_of (tbl_prefix m)] k \<or> k = table_meta_key name then None else engine_get s k)"
proof -
  let ?p = "byte_of (tbl_prefix m)"
  let ?ks = "map fst (iter_collect
    (engine_scan s (fst (PrefixRange [?p])) (snd (PrefixRange [?p])) no_options))"
  let ?s = "engine_delete (fold (\<lambda>k s. engine_delete s k) ?ks s) (table_meta_key name)"
  have "engine_get ?s k =
      (if prefix [?p] k \<or> k = table_meta_key name then None else engine_get s k)" for k
    using table_data_keys [OF assms(1), of ?p] by (auto simp: kv_simps eng.dels_get)
  moreover have "kv_ok ?s"
    using assms(1) by (simp add: kv_simps eng.dels_inv)
  moreover have "tm_drop name ie tm s = (Inr (), tm\<lparr>tm_tables := AList.delete name (tm_tables tm)\<rparr>, ?s)"
    using assms(2,3)
    by (simp add: tm_drop_def delete_keys_batch Let_def comp_def split: prod.split)
  ultimately show thesis using that by blast
qed

section \<open>The stored catalogue\<close>

text \<open>
  The engine holds exactly the metadata of the user tables, each under its key; a marshalled record
  decodes to itself (\<open>codec\<close>, the round trip that \<open>encoding/json\<close> documents).
\<close>

definition stored_meta :: "(table_meta \<Rightarrow> bytes option) \<Rightarrow> table_manager \<Rightarrow> bytes \<Rightarrow> bytes option" where
  "stored_meta enc tm n =
     (case map_of (tm_tables tm) n of
        Some m \<Rightarrow> if is_user m then enc m else None
      | None \<Rightarrow> None)"

definition persisted :: "(table_meta \<Rightarrow> bytes option) \<Rightarrow> table_manager \<Rightarrow> kv \<Rightarrow> bool" where
  "persisted enc tm s \<longleftrightarrow>
     kv_ok s \<and>
     (\<forall>n m. map_of (tm_tables tm) n = Some m \<longrightarrow> is_user m \<longrightarrow> enc m \<noteq> None) \<and>
     (\<forall>n. engine_get s (table_meta_key n) = stored_meta enc tm n)"

definition codec :: "(table_meta \<Rightarrow> bytes option) \<Rightarrow> (bytes \<Rightarrow> table_meta option) \<Rightarrow> bool" where
  "codec enc dec \<longleftrightarrow> (\<forall>m v. enc m = Some v \<longrightarrow> dec v = Some m)"

lemma table_meta_key_inject [simp]: "table_meta_key a = table_meta_key b \<longleftrightarrow> a = b"
  by (simp add: table_meta_key_def)

lemma persisted_set:
  assumes "persisted enc tm s" "is_user m" "enc m = Some v"
    "\<And>k. map_of ts k = (if k = n then Some m else map_of (tm_tables tm) k)"
  shows "persisted enc (tm\<lparr>tm_next := nx, tm_tables := ts\<rparr>) (engine_set s (table_meta_key n) v)"
  using assms unfolding persisted_def stored_meta_def by (auto simp: kv_simps)

lemma tm_create_persisted:
  assumes inv: "tm_inv tm" and p: "persisted enc tm s"
    and c: "tm_create enc name cs ine tm s = (r, tm', s')"
  shows "persisted enc tm' s'"
proof (cases "map_of (tm_tables tm) name = None \<and> \<not> tm_next tm > userTablePrefixEnd")
  case False
  then show ?thesis using p c by (auto simp: tm_create_def split: if_splits)
next
  case True
  let ?m = "\<lparr>tbl_name = name, tbl_columns = cs, tbl_prefix = tm_next tm\<rparr>"
  show ?thesis
  proof (cases "enc ?m")
    case None
    then have "tm' = tm\<lparr>tm_next := tm_next tm + 1\<rparr>" "s' = s"
      using c True by (simp_all add: tm_create_def Let_def)
    then show ?thesis using p by (simp add: persisted_def stored_meta_def)
  next
    case (Some v)
    then have tm': "tm' = tm\<lparr>tm_next := tm_next tm + 1,
        tm_tables := AList.update name ?m (tm_tables tm)\<rparr>"
      and s': "s' = engine_set s (table_meta_key name) v"
      using c True by (simp_all add: tm_create_def Let_def)
    have "is_user ?m" using inv by (simp add: is_user_def tm_inv_def)
    then show ?thesis
      unfolding tm' s' using Some by (intro persisted_set [OF p]) (simp_all add: AList.update_conv')
  qed
qed

lemma tm_alter_persisted:
  assumes inv: "tm_inv tm" and p: "persisted enc tm s"
    and c: "tm_alter enc name a tm s = (r, tm', s')" and ok: "r \<noteq> Inl MarshalError"
  shows "persisted enc tm' s'"
proof (cases "tm' = tm \<and> s' = s")
  case True
  then show ?thesis using p by simp
next
  case False
  then obtain m cs v where m: "map_of (tm_tables tm) name = Some m" "\<not> isBuiltinTable name"
    and v: "enc (m\<lparr>tbl_columns := cs\<rparr>) = Some v"
    and tm': "tm' = tm\<lparr>tm_next := tm_next tm,
      tm_tables := AList.update name (m\<lparr>tbl_columns := cs\<rparr>) (tm_tables tm)\<rparr>"
    and s': "s' = engine_set s (table_meta_key name) v"
    using c ok by (auto simp: tm_alter_def Let_def split: if_splits option.splits sum.splits)
  have "is_user (m\<lparr>tbl_columns := cs\<rparr>)"
    using user_not_builtin_name [OF inv m] by (simp add: is_user_def)
  then show ?thesis
    unfolding tm' s' using v by (intro persisted_set [OF p]) (auto simp: AList.update_conv')
qed

lemma prefix_less_255:
  "tm_inv tm \<Longrightarrow> map_of (tm_tables tm) n = Some m \<Longrightarrow> unat (tbl_prefix m) < 255"
  using next_prefix_fresh [of tm n m] unat_less_256 [of "tm_next tm"]
  unfolding word_less_nat_alt by linarith

lemma prefix_le_end:
  "tm_inv tm \<Longrightarrow> map_of (tm_tables tm) n = Some m \<Longrightarrow> tbl_prefix m \<le> userTablePrefixEnd"
  using prefix_less_255 [of tm n m] by (simp add: userTablePrefixEnd_def word_le_nat_alt)

lemma user_prefix_not_system:
  assumes "tm_inv tm" "map_of (tm_tables tm) n = Some m"
  shows "byte_of (tbl_prefix m) \<noteq> PrefixSystem"
proof -
  have "unat (tbl_prefix m) < 255" by (rule prefix_less_255 [OF assms])
  moreover have "byte_val PrefixSystem = 255" by (simp add: PrefixSystem_def)
  ultimately show ?thesis by (metis byte_val_byte_of less_irrefl)
qed

lemma tm_drop_persisted:
  assumes inv: "tm_inv tm" and p: "persisted enc tm s"
    and c: "tm_drop name ie tm s = (r, tm', s')"
  shows "persisted enc tm' s'"
proof (cases "tm' = tm \<and> s' = s")
  case True
  then show ?thesis using p by simp
next
  case False
  then obtain m where m: "map_of (tm_tables tm) name = Some m" "\<not> isBuiltinTable name"
    using c by (auto simp: tm_drop_def split: if_splits option.splits)
  have "kv_ok s" using p by (simp add: persisted_def)
  then obtain s'' where s'': "tm_drop name ie tm s =
      (Inr (), tm\<lparr>tm_tables := AList.delete name (tm_tables tm)\<rparr>, s'')" "kv_ok s''"
    "\<And>k. engine_get s'' k =
       (if prefix [byte_of (tbl_prefix m)] k \<or> k = table_meta_key name then None else engine_get s k)"
    by (rule tm_drop_user [OF _ m]) blast
  have "\<not> prefix [byte_of (tbl_prefix m)] (table_meta_key n)" for n
    using user_prefix_not_system [OF inv m(1)] by (simp add: table_meta_key_def EncodeKey_def)
  then show ?thesis
    using p c s'' unfolding persisted_def stored_meta_def
    by (auto simp: AList.delete_conv' split: if_splits)
qed

section \<open>Reloading the catalogue\<close>

lemma map_of_register_builtins:
  "map_of (tm_tables (fold register_builtin bs tm)) n =
     (case map_of (tm_tables tm) n of
        Some m \<Rightarrow> Some m | None \<Rightarrow> map_of (map (\<lambda>b. (tbl_name b, b)) bs) n)"
  by (induction bs arbitrary: tm)
    (auto simp: register_builtin_def AList.update_conv' split: option.splits)

lemma register_builtins_frame:
  "tm_next (fold register_builtin bs tm) = tm_next tm"
  "distinct (map fst (tm_tables tm)) \<Longrightarrow> distinct (map fst (tm_tables (fold register_builtin bs tm)))"
  by (induction bs arbitrary: tm) (auto simp: register_builtin_def distinct_update)

text \<open>Loading items that all decode to named user tables of one catalogue \<open>f\<close>.\<close>

definition loadable :: "(bytes \<Rightarrow> table_meta option) \<Rightarrow> (bytes \<Rightarrow> table_meta option) \<Rightarrow> bytes \<times> bytes \<Rightarrow> bool" where
  "loadable dec f x \<longleftrightarrow>
     (\<exists>m. dec (snd x) = Some m \<and> is_user m \<and> f (tbl_name m) = Some m \<and> tbl_prefix m \<le> userTablePrefixEnd)"

lemma load_tables:
  assumes "\<forall>x \<in> set xs. loadable dec f x" "distinct (map fst (tm_tables tm))"
  shows "map_of (tm_tables (fold (load_table dec) xs tm)) n =
      (if n \<noteq> [] \<and> n \<in> tbl_name ` (the \<circ> dec \<circ> snd) ` set xs then f n else map_of (tm_tables tm) n)"
    and "distinct (map fst (tm_tables (fold (load_table dec) xs tm)))"
    and "tm_next tm \<le> tm_next (fold (load_table dec) xs tm)"
    and "\<forall>x \<in> set xs. tbl_name (the (dec (snd x))) \<noteq> [] \<longrightarrow>
      tbl_prefix (the (dec (snd x))) < tm_next (fold (load_table dec) xs tm)"
proof -
  have "(\<forall>n. map_of (tm_tables (fold (load_table dec) xs tm)) n =
      (if n \<noteq> [] \<and> n \<in> tbl_name ` (the \<circ> dec \<circ> snd) ` set xs then f n else map_of (tm_tables tm) n)) \<and>
    distinct (map fst (tm_tables (fold (load_table dec) xs tm))) \<and>
    tm_next tm \<le> tm_next (fold (load_table dec) xs tm) \<and>
    (\<forall>x \<in> set xs. tbl_name (the (dec (snd x))) \<noteq> [] \<longrightarrow>
      tbl_prefix (the (dec (snd x))) < tm_next (fold (load_table dec) xs tm))"
    using assms
  proof (induction xs rule: rev_induct)
    case Nil
    then show ?case by simp
  next
    case (snoc x xs)
    define t where "t = fold (load_table dec) xs tm"
    obtain m where m: "dec (snd x) = Some m" "is_user m" "f (tbl_name m) = Some m"
      "tbl_prefix m \<le> userTablePrefixEnd"
      using snoc.prems by (auto simp: loadable_def)
    have IH: "\<And>n. map_of (tm_tables t) n =
      (if n \<noteq> [] \<and> n \<in> tbl_name ` (the \<circ> dec \<circ> snd) ` set xs then f n else map_of (tm_tables tm) n)"
      "distinct (map fst (tm_tables t))" "tm_next tm \<le> tm_next t"
      "\<And>x. x \<in> set xs \<Longrightarrow> tbl_name (the (dec (snd x))) \<noteq> [] \<Longrightarrow>
         tbl_prefix (the (dec (snd x))) < tm_next t"
      using snoc by (auto simp: t_def)
    show ?case
    proof (cases "tbl_name m = []")
      case True
      then have "load_table dec x t = t" using m by (simp add: load_table_def)
      then show ?thesis using IH m True by (auto simp: t_def [symmetric])
    next
      case False
      have up: "tm_tables (load_table dec x t) = AList.update (tbl_name m) m (tm_tables t)"
        using m False by (auto simp: load_table_def is_user_def Let_def)
      have nx: "tm_next (load_table dec x t) =
          (if tm_next t \<le> tbl_prefix m then tbl_prefix m + 1 else tm_next t)"
        using m False by (auto simp: load_table_def is_user_def Let_def)
      have inc: "tbl_prefix m < tbl_prefix m + 1"
        using tm_next_inc [of "\<lparr>tm_tables = [], tm_next = tbl_prefix m\<rparr>"] m(4) by simp
      have grow: "tm_next t \<le> tm_next (load_table dec x t)"
        using inc unfolding nx by auto
      have own: "tbl_prefix m < tm_next (load_table dec x t)"
        using inc unfolding nx by auto
      have 1: "\<forall>n. map_of (tm_tables (load_table dec x t)) n =
          (if n \<noteq> [] \<and> n \<in> tbl_name ` (the \<circ> dec \<circ> snd) ` set (xs @ [x]) then f n
           else map_of (tm_tables tm) n)"
        using IH(1) m False by (auto simp: up AList.update_conv')
      have 2: "distinct (map fst (tm_tables (load_table dec x t)))"
        using IH(2) by (simp add: up distinct_update)
      have 4: "\<forall>x' \<in> set (xs @ [x]). tbl_name (the (dec (snd x'))) \<noteq> [] \<longrightarrow>
          tbl_prefix (the (dec (snd x'))) < tm_next (load_table dec x t)"
        using IH(4) own grow m(1) by (auto intro: less_le_trans)
      show ?thesis
        using 1 2 order_trans [OF IH(3) grow] 4 by (simp add: t_def [symmetric])
    qed
  qed
  then show "map_of (tm_tables (fold (load_table dec) xs tm)) n =
      (if n \<noteq> [] \<and> n \<in> tbl_name ` (the \<circ> dec \<circ> snd) ` set xs then f n else map_of (tm_tables tm) n)"
    "distinct (map fst (tm_tables (fold (load_table dec) xs tm)))"
    "tm_next tm \<le> tm_next (fold (load_table dec) xs tm)"
    "\<forall>x \<in> set xs. tbl_name (the (dec (snd x))) \<noteq> [] \<longrightarrow>
      tbl_prefix (the (dec (snd x))) < tm_next (fold (load_table dec) xs tm)"
    by blast+
qed

text \<open>The stored items under the metadata prefix are the metadata of the user tables.\<close>

definition meta_items :: "kv \<Rightarrow> (bytes \<times> bytes) list" where
  "meta_items s =
     iter_collect (engine_prefix_scan s (EncodeKey PrefixSystem tableMetaKeyPrefix) no_options)"

lemma set_meta_items:
  assumes "kv_ok s"
  shows "(k, v) \<in> set (meta_items s) \<longleftrightarrow> (\<exists>n. k = table_meta_key n \<and> engine_get s k = Some v)"
proof -
  have "in_prefix_range (EncodeKey PrefixSystem tableMetaKeyPrefix) k \<longleftrightarrow>
      prefix (EncodeKey PrefixSystem tableMetaKeyPrefix) k"
    by (rule in_prefix_range_exact) (simp add: EncodeKey_def tableMetaKeyPrefix_def)
  also have "\<dots> \<longleftrightarrow> (\<exists>n. k = table_meta_key n)"
    by (auto simp: prefix_def table_meta_key_def EncodeKey_def)
  finally show ?thesis
    using assms
    by (auto simp: meta_items_def prefix_scan_collects no_options_def set_prefix_items_0)
qed

lemma persisted_loadable:
  assumes inv: "tm_inv tm" and p: "persisted enc tm s" and c: "codec enc dec"
  shows "\<forall>x \<in> set (meta_items s). loadable dec (map_of (tm_tables tm)) x"
    and "tbl_name ` (the \<circ> dec \<circ> snd) ` set (meta_items s) =
      {n. \<exists>m. map_of (tm_tables tm) n = Some m \<and> is_user m}"
proof -
  have ok: "kv_ok s" using p by (simp add: persisted_def)
  have item: "\<exists>n m. k = table_meta_key n \<and> map_of (tm_tables tm) n = Some m \<and> is_user m \<and>
      tbl_name m = n \<and> dec v = Some m"
    if x: "(k, v) \<in> set (meta_items s)" for k v
  proof -
    obtain n where n: "k = table_meta_key n" "stored_meta enc tm n = Some v"
      using x p unfolding set_meta_items [OF ok] persisted_def by auto
    then obtain m where m: "map_of (tm_tables tm) n = Some m" "is_user m" "enc m = Some v"
      by (auto simp: stored_meta_def split: option.splits if_splits)
    then show ?thesis
      using n c tm_inv_entry [OF inv m(1)] by (auto simp: codec_def)
  qed
  have bound: "tbl_prefix m \<le> userTablePrefixEnd" if "map_of (tm_tables tm) n = Some m" for n m
    by (rule prefix_le_end [OF inv that])
  show "\<forall>x \<in> set (meta_items s). loadable dec (map_of (tm_tables tm)) x"
    using item bound by (fastforce simp: loadable_def)
  show "tbl_name ` (the \<circ> dec \<circ> snd) ` set (meta_items s) =
      {n. \<exists>m. map_of (tm_tables tm) n = Some m \<and> is_user m}"
  proof (intro set_eqI iffI)
    fix n assume "n \<in> tbl_name ` (the \<circ> dec \<circ> snd) ` set (meta_items s)"
    then show "n \<in> {n. \<exists>m. map_of (tm_tables tm) n = Some m \<and> is_user m}"
      using item by fastforce
  next
    fix n assume "n \<in> {n. \<exists>m. map_of (tm_tables tm) n = Some m \<and> is_user m}"
    then obtain m where m: "map_of (tm_tables tm) n = Some m" "is_user m" by auto
    then obtain v where v: "enc m = Some v" using p unfolding persisted_def by blast
    then have "(table_meta_key n, v) \<in> set (meta_items s)"
      using p m by (auto simp: set_meta_items [OF ok] persisted_def stored_meta_def)
    moreover have "tbl_name ((the \<circ> dec \<circ> snd) (table_meta_key n, v)) = n"
      using c v tm_inv_entry [OF inv m(1)] by (simp add: codec_def)
    ultimately show "n \<in> tbl_name ` (the \<circ> dec \<circ> snd) ` set (meta_items s)"
      by (metis image_eqI)
  qed
qed

lemma tm_init_tables:
  assumes inv: "tm_inv tm" and p: "persisted enc tm s" and c: "codec enc dec" and n: "n \<noteq> []"
  shows "map_of (tm_tables (tm_init dec s NewTableManager)) n = map_of (tm_tables tm) n"
proof -
  let ?t = "fold (load_table dec) (meta_items s) NewTableManager"
  have [simp]: "map_of (tm_tables NewTableManager) n = None" by (simp add: NewTableManager_def)
  have t: "map_of (tm_tables ?t) n =
      (if \<exists>m. map_of (tm_tables tm) n = Some m \<and> is_user m then map_of (tm_tables tm) n else None)"
    using load_tables(1) [OF persisted_loadable(1) [OF inv p c], of NewTableManager n]
      persisted_loadable(2) [OF inv p c] n
    by (auto simp: NewTableManager_def)
  have b: "map_of (map (\<lambda>b. (tbl_name b, b)) builtin_tables) n = Some b \<longleftrightarrow>
      b \<in> set builtin_tables \<and> tbl_name b = n" for b
  proof -
    have "map fst (map (\<lambda>b. (tbl_name b, b)) builtin_tables) = map tbl_name builtin_tables"
      by (simp add: comp_def)
    then have "distinct (map fst (map (\<lambda>b. (tbl_name b, b)) builtin_tables))"
      using builtin_names_distinct by (simp only:)
    then show ?thesis by (auto simp only: map_of_eq_Some_iff set_map image_iff prod.inject)
  qed
  have "map_of (map (\<lambda>b. (tbl_name b, b)) builtin_tables) n = map_of (tm_tables tm) n"
    if "\<not> (\<exists>m. map_of (tm_tables tm) n = Some m \<and> is_user m)"
  proof (cases "map_of (tm_tables tm) n")
    case None
    then show ?thesis using b tm_inv_builtin [OF inv] by (metis not_None_eq)
  next
    case (Some m)
    then show ?thesis using b tm_inv_entry [OF inv Some] that by (auto split: if_splits)
  qed
  then show ?thesis
    using t by (auto simp: tm_init_def registerBuiltinTables_def map_of_register_builtins
        meta_items_def [symmetric] split: option.splits)
qed


text \<open>The reloaded catalogue satisfies the invariant again.\<close>

lemma tm_init_inv:
  assumes inv: "tm_inv tm" and p: "persisted enc tm s" and c: "codec enc dec"
  shows "tm_inv (tm_init dec s NewTableManager)"
proof -
  let ?l = "fold (load_table dec) (meta_items s) NewTableManager"
  let ?t = "tm_init dec s NewTableManager"
  note load = load_tables [OF persisted_loadable(1) [OF inv p c], of NewTableManager]
  have d0: "distinct (map fst (tm_tables NewTableManager))" by (simp add: NewTableManager_def)
  have t: "?t = fold register_builtin builtin_tables ?l"
    by (simp add: tm_init_def registerBuiltinTables_def meta_items_def)
  have nx: "tm_next ?t = tm_next ?l" by (simp add: t register_builtins_frame)
  have empty: "map_of (tm_tables ?t) [] = None"
  proof -
    have "map_of (tm_tables ?l) [] = None" using load(1) d0 by (simp add: NewTableManager_def)
    moreover have "map_of (map (\<lambda>b. (tbl_name b, b)) builtin_tables) [] = None" by code_simp
    ultimately show ?thesis by (simp add: t map_of_register_builtins)
  qed
  have look: "map_of (tm_tables tm) n = Some m \<and> n \<noteq> []" if "map_of (tm_tables ?t) n = Some m" for n m
    using that empty tm_init_tables [OF inv p c, of n] by (cases "n = []") simp_all
  have 1: "distinct (map fst (tm_tables ?t))"
    unfolding t using load(2) d0 by (simp add: register_builtins_frame)
  have 2: "userTablePrefixStart \<le> tm_next ?t"
    unfolding nx using load(3) d0 by (simp add: NewTableManager_def)
  have 3: "\<forall>b \<in> set builtin_tables. map_of (tm_tables ?t) (tbl_name b) = Some b"
  proof
    fix b assume b: "b \<in> set builtin_tables"
    have "\<forall>b \<in> set builtin_tables. tbl_name b \<noteq> []" by code_simp
    then have "tbl_name b \<noteq> []" using b by blast
    then show "map_of (tm_tables ?t) (tbl_name b) = Some b"
      using tm_init_tables [OF inv p c] tm_inv_builtin [OF inv b] by simp
  qed
  have 4: "tbl_name m = n \<and> (if is_user m then tbl_prefix m < tm_next ?t else m \<in> set builtin_tables)"
    if n: "map_of (tm_tables ?t) n = Some m" for n m
  proof -
    have m: "map_of (tm_tables tm) n = Some m" "n \<noteq> []" using look [OF n] by auto
    note e = tm_inv_entry [OF inv m(1)]
    have "tbl_prefix m < tm_next ?l" if u: "is_user m"
    proof -
      have "n \<in> tbl_name ` (the \<circ> dec \<circ> snd) ` set (meta_items s)"
        unfolding persisted_loadable(2) [OF inv p c] using m(1) u by blast
      then obtain x where x: "x \<in> set (meta_items s)" "tbl_name (the (dec (snd x))) = n" by auto
      then obtain m' where "dec (snd x) = Some m'" "map_of (tm_tables tm) (tbl_name m') = Some m'"
        using persisted_loadable(1) [OF inv p c] by (auto simp: loadable_def)
      then have "the (dec (snd x)) = m" using x m(1) by simp
      then show ?thesis using load(4) d0 x m(2) by auto
    qed
    then show ?thesis using e unfolding nx by (auto split: if_splits)
  qed
  have 5: "n = n'" if "map_of (tm_tables ?t) n = Some m" "map_of (tm_tables ?t) n' = Some m'"
      "tbl_prefix m = tbl_prefix m'" for n m n' m'
    using look [OF that(1)] look [OF that(2)] tm_inv_prefix_inj [OF inv _ _ that(3)] by blast
  show ?thesis
    unfolding tm_inv_def using 1 2 3 4 5 by blast
qed

text \<open>A fresh database: the built-in tables only.\<close>

lemma tm_init_empty:
  "tm_init dec kv_empty NewTableManager = registerBuiltinTables NewTableManager"
  by (simp add: tm_init_def kv_empty_def iter_collect_def engine_prefix_scan_def engine_scan_def
      iter_next_def iter_move_def badger_seek_def no_options_def split: prod.split option.split)

lemma fresh_inv: "tm_inv (registerBuiltinTables NewTableManager)"
proof -
  let ?t = "registerBuiltinTables NewTableManager"
  have ts: "tm_tables ?t = map (\<lambda>b. (tbl_name b, b)) builtin_tables"
    "tm_next ?t = userTablePrefixStart" by code_simp+
  have d: "distinct (map fst (tm_tables ?t))"
    unfolding ts using builtin_names_distinct by (simp add: comp_def)
  have look: "map_of (tm_tables ?t) n = Some m \<longleftrightarrow> m \<in> set builtin_tables \<and> tbl_name m = n" for n m
    using d unfolding ts by (auto simp only: map_of_eq_Some_iff set_map image_iff prod.inject)
  show ?thesis
    unfolding tm_inv_def look
    using d builtin_not_user builtin_same_prefix by (auto simp: ts)
qed

section \<open>Properties\<close>

text \<open>The statements that change the catalogue, and a run of them. A run stops at nothing: a failed
  statement leaves its error and the next one follows.\<close>

datatype ddl =
  CreateTable bytes "column_meta list" bool
| DropTable bytes bool
| AlterTable bytes alter_action

definition ddl_step ::
    "(table_meta \<Rightarrow> bytes option) \<Rightarrow> ddl \<Rightarrow> table_manager \<times> kv \<Rightarrow> (tm_error + unit) \<times> table_manager \<times> kv" where
  "ddl_step enc d st =
     (case d of
        CreateTable n cs ine \<Rightarrow> tm_create enc n cs ine (fst st) (snd st)
      | DropTable n ie \<Rightarrow> tm_drop n ie (fst st) (snd st)
      | AlterTable n a \<Rightarrow> tm_alter enc n a (fst st) (snd st))"

fun ddl_run ::
    "(table_meta \<Rightarrow> bytes option) \<Rightarrow> ddl list \<Rightarrow> table_manager \<times> kv \<Rightarrow>
       (tm_error + unit) list \<times> table_manager \<times> kv" where
  "ddl_run enc [] st = ([], st)"
| "ddl_run enc (d # ds) st =
     (let (r, st') = ddl_step enc d st; (rs, st'') = ddl_run enc ds st' in (r # rs, st''))"

definition fresh_catalogue :: "table_manager \<times> kv" where
  "fresh_catalogue = (registerBuiltinTables NewTableManager, kv_empty)"

lemma fresh_persisted: "persisted enc (registerBuiltinTables NewTableManager) kv_empty"
proof -
  have "\<not> is_user m" if "map_of (tm_tables (registerBuiltinTables NewTableManager)) n = Some m" for n m
  proof -
    have "map_of (map (\<lambda>b. (tbl_name b, b)) builtin_tables) n = Some m"
      using that by (simp add: registerBuiltinTables_def map_of_register_builtins NewTableManager_def)
    then have "m \<in> set builtin_tables" by (auto dest: map_of_SomeD)
    then show ?thesis by (rule builtin_not_user)
  qed
  then show ?thesis
    by (auto simp: persisted_def stored_meta_def split: option.splits)
qed

lemma ddl_step_inv:
  assumes "ddl_step enc d st = (r, st')" "tm_inv (fst st)"
  shows "tm_inv (fst st')"
proof (cases d)
  case (CreateTable n cs ine)
  then show ?thesis using assms by (cases st') (simp add: ddl_step_def tm_create_inv)
next
  case (DropTable n ie)
  then show ?thesis using assms by (cases st') (simp add: ddl_step_def tm_drop_inv)
next
  case (AlterTable n a)
  then show ?thesis using assms by (cases st') (simp add: ddl_step_def tm_alter_inv)
qed

lemma ddl_step_persisted:
  assumes "ddl_step enc d st = (r, st')" "tm_inv (fst st)" "persisted enc (fst st) (snd st)"
    "r \<noteq> Inl MarshalError"
  shows "persisted enc (fst st') (snd st')"
proof (cases d)
  case (CreateTable n cs ine)
  then show ?thesis using assms tm_create_persisted [OF assms(2,3)]
    by (cases st') (simp add: ddl_step_def)
next
  case (DropTable n ie)
  then show ?thesis using assms tm_drop_persisted [OF assms(2,3)]
    by (cases st') (simp add: ddl_step_def)
next
  case (AlterTable n a)
  then show ?thesis using assms tm_alter_persisted [OF assms(2,3)]
    by (cases st') (simp add: ddl_step_def)
qed

lemma ddl_run_inv: "ddl_run enc ds st = (rs, st') \<Longrightarrow> tm_inv (fst st) \<Longrightarrow> tm_inv (fst st')"
proof (induction ds arbitrary: st rs)
  case Nil
  then show ?case by simp
next
  case (Cons d ds)
  obtain r st1 where d: "ddl_step enc d st = (r, st1)" by (cases "ddl_step enc d st")
  obtain rs1 where "ddl_run enc ds st1 = (rs1, st')"
    using Cons.prems(1) d by (auto split: prod.splits)
  then show ?case using Cons.IH ddl_step_inv [OF d Cons.prems(2)] by blast
qed

lemma ddl_run_persisted:
  "ddl_run enc ds st = (rs, st') \<Longrightarrow> tm_inv (fst st) \<Longrightarrow> persisted enc (fst st) (snd st) \<Longrightarrow>
     Inl MarshalError \<notin> set rs \<Longrightarrow> persisted enc (fst st') (snd st')"
proof (induction ds arbitrary: st rs)
  case Nil
  then show ?case by simp
next
  case (Cons d ds)
  obtain r st1 where d: "ddl_step enc d st = (r, st1)" by (cases "ddl_step enc d st")
  obtain rs1 where rs1: "ddl_run enc ds st1 = (rs1, st')" "rs = r # rs1"
    using Cons.prems(1) d by (auto split: prod.splits)
  then have "r \<noteq> Inl MarshalError" "Inl MarshalError \<notin> set rs1" using Cons.prems(4) by auto
  then show ?case
    using Cons.IH [OF rs1(1) ddl_step_inv [OF d Cons.prems(2)]] ddl_step_persisted [OF d Cons.prems(2,3)]
    by blast
qed

text \<open>
  C8: after any sequence of CREATE, DROP and ALTER TABLE statements on a fresh database, failed ones
  included, no two tables share a key prefix, so the rows of one are never those of another; the
  built-in tables are there with their fixed prefixes and every other table lies in the user range
  below the next prefix to hand out.
\<close>

theorem catalogue_invariant:
  "tm_inv (fst (snd (ddl_run enc ds fresh_catalogue)))"
  using ddl_run_inv [of enc ds fresh_catalogue] fresh_inv
  by (cases "ddl_run enc ds fresh_catalogue") (simp add: fresh_catalogue_def)

text \<open>
  C10: dropping a user table removes exactly the keys under its prefix and its metadata record; every
  other key of the engine, those of the other tables among them, keeps its value.
\<close>

theorem drop_table_isolated:
  assumes "kv_ok s" "map_of (tm_tables tm) name = Some m" "\<not> isBuiltinTable name"
    "tm_drop name ie tm s = (r, tm', s')"
  shows "r = Inr () \<and> map_of (tm_tables tm') name = None \<and>
    engine_get s' k =
      (if prefix [byte_of (tbl_prefix m)] k \<or> k = table_meta_key name then None else engine_get s k)"
proof -
  obtain t where t: "tm_drop name ie tm s = (Inr (), tm\<lparr>tm_tables := AList.delete name (tm_tables tm)\<rparr>, t)"
    "\<And>k. engine_get t k =
       (if prefix [byte_of (tbl_prefix m)] k \<or> k = table_meta_key name then None else engine_get s k)"
    using tm_drop_user [OF assms(1-3)] by metis
  then show ?thesis using assms(4) by (simp add: AList.delete_conv')
qed

theorem drop_table_isolated_witness:
  "engine_get (snd (snd (tm_drop ''t'' False
      \<lparr>tm_tables = [(''t'', \<lparr>tbl_name = ''t'', tbl_columns = [], tbl_prefix = 0x30\<rparr>)], tm_next = 0x31\<rparr>
      [(''0a'', ''row''), (''1a'', ''other'')]))) ''1a'' = Some ''other''"
proof -
  let ?tm = "\<lparr>tm_tables = [(''t'', \<lparr>tbl_name = ''t'', tbl_columns = [], tbl_prefix = 0x30\<rparr>)],
    tm_next = 0x31\<rparr>"
  let ?s = "[(''0a'', ''row''), (''1a'', ''other'')]"
  obtain r tm' s' where d: "tm_drop ''t'' False ?tm ?s = (r, tm', s')" by (metis prod.collapse)
  have nb: "\<not> isBuiltinTable ''t''" by code_simp
  have b: "byte_of 0x30 = CHR ''0''" by code_simp
  have k: "''1a'' \<noteq> table_meta_key ''t''" by code_simp
  show ?thesis
    using drop_table_isolated [of ?s ?tm "''t''" _ False r tm' s' "''1a''", OF _ _ nb d] d k
    by (simp add: kv_ok_def less_char_def b engine_get_def)
qed


text \<open>A concrete codec for the witness: prefix byte and name, for tables without columns.\<close>

definition tiny_enc :: "table_meta \<Rightarrow> bytes option" where
  "tiny_enc m = (if tbl_columns m = [] then Some (byte_of (tbl_prefix m) # tbl_name m) else None)"

definition tiny_dec :: "bytes \<Rightarrow> table_meta option" where
  "tiny_dec v =
     (case v of
        [] \<Rightarrow> None
      | b # n \<Rightarrow> Some \<lparr>tbl_name = n, tbl_columns = [], tbl_prefix = word_of_nat (byte_val b)\<rparr>)"

lemma tiny_codec: "codec tiny_enc tiny_dec"
  by (auto simp: codec_def tiny_enc_def tiny_dec_def)


text \<open>
  A table whose name is one of the short aliases of the built-in tables can be created like any
  other, but neither DROP TABLE nor ALTER TABLE accepts it afterwards.
\<close>

lemma alias_table_is_permanent:
  assumes "isBuiltinTable name" "map_of (tm_tables tm) name = None" "tm_next tm \<le> userTablePrefixEnd"
    "enc \<lparr>tbl_name = name, tbl_columns = cs, tbl_prefix = tm_next tm\<rparr> \<noteq> None"
    "tm_create enc name cs False tm s = (r, tm', s')"
  shows "r = Inr () \<and> tm_drop name ie tm' s' = (Inl (BuiltinTable name), tm', s') \<and>
    tm_alter enc name a tm' s' = (Inl (BuiltinTable name), tm', s')"
proof -
  let ?m = "\<lparr>tbl_name = name, tbl_columns = cs, tbl_prefix = tm_next tm\<rparr>"
  obtain v where "enc ?m = Some v" using assms(4) by blast
  then have "r = Inr ()" "tm_tables tm' = AList.update name ?m (tm_tables tm)"
    using assms(2,3,5) by (auto simp: tm_create_def Let_def not_less [symmetric])
  then show ?thesis
    using assms(1) by (simp add: tm_drop_def tm_alter_def AList.update_conv')
qed

end
