(* ===== verification/RaftStorage.thy ===== *)
theory RaftStorage
  imports Engine "HOL-Library.AList"
begin

text \<open>
  Model of \<^verbatim>\<open>internal/raft/storage.go\<close>: the Raft log and the stable state of a node in a
  Badger database of its own. Log entry \<open>i\<close> is stored under the byte 0xF0 and the big-endian
  form of \<open>i\<close>, a stable value under the byte 0xF1 and its name. The database is the ordered map
  \<open>kv\<close> of \<open>Engine\<close>. The laws the node relies on are the locale \<open>raft_log\<close>, which the
  functions of this file interpret.
\<close>

section \<open>Data\<close>

text \<open>\<open>LogType\<close> is a byte type whose constants are the numbers from 0 on.\<close>

type_synonym log_type = u8

definition LogCommand :: log_type where "LogCommand = 0"
definition LogNoOp :: log_type where "LogNoOp = 1"
definition LogAddPeer :: log_type where "LogAddPeer = 2"
definition LogRemovePeer :: log_type where "LogRemovePeer = 3"
definition LogConfiguration :: log_type where "LogConfiguration = 4"

record log_entry =
  le_index :: u64
  le_term :: u64
  le_type :: log_type
  le_data :: bytes

datatype log_error = LogNotFound u64 | LogTooShort nat

type_synonym peers = "(bytes \<times> bytes) list"

definition raftLogPrefix :: char where "raftLogPrefix = CHR 0xF0"
definition raftStablePrefix :: char where "raftStablePrefix = CHR 0xF1"

definition KeyCurrentTerm :: bytes where "KeyCurrentTerm = ''current_term''"
definition KeyVotedFor :: bytes where "KeyVotedFor = ''voted_for''"
definition KeyCommitIndex :: bytes where "KeyCommitIndex = ''commit_index''"
definition KeyLastApplied :: bytes where "KeyLastApplied = ''last_applied''"
definition KeyClusterConfig :: bytes where "KeyClusterConfig = ''cluster_config''"

lemmas stable_key_defs = KeyCurrentTerm_def KeyVotedFor_def KeyCommitIndex_def KeyLastApplied_def
  KeyClusterConfig_def

section \<open>Encodings\<close>

definition u64tob :: "u64 \<Rightarrow> bytes" where
  "u64tob v = be_bytes 8 (unat v)"

definition btou64 :: "bytes \<Rightarrow> u64" where
  "btou64 b = word_of_nat (be_val (take 8 b))"

definition stableKey :: "bytes \<Rightarrow> bytes" where
  "stableKey key = raftStablePrefix # key"

definition logKey :: "u64 \<Rightarrow> bytes" where
  "logKey index = raftLogPrefix # u64tob index"

definition encodeLogEntry :: "log_entry \<Rightarrow> bytes" where
  "encodeLogEntry e = u64tob (le_term e) @ u64tob (le_index e) @ [byte_of (le_type e)] @ le_data e"

definition decodeLogEntry :: "bytes \<Rightarrow> log_error + log_entry" where
  "decodeLogEntry data =
     (if length data < 17 then Inl (LogTooShort (length data))
      else Inr \<lparr>le_index = btou64 (take 8 (drop 8 data)), le_term = btou64 (take 8 data),
                le_type = word_of_nat (byte_val (data ! 16)), le_data = drop 17 data\<rparr>)"

section \<open>Stable state\<close>

text \<open>A stored value of another length than 8 reads as 0 without an error.\<close>

definition GetUint64 :: "kv \<Rightarrow> bytes \<Rightarrow> u64 option" where
  "GetUint64 s key =
     (case engine_get s (stableKey key) of
        None \<Rightarrow> None
      | Some v \<Rightarrow> Some (if length v = 8 then btou64 v else 0))"

definition SetUint64 :: "kv \<Rightarrow> bytes \<Rightarrow> u64 \<Rightarrow> kv" where
  "SetUint64 s key v = engine_set s (stableKey key) (u64tob v)"

definition GetString :: "kv \<Rightarrow> bytes \<Rightarrow> bytes option" where
  "GetString s key = engine_get s (stableKey key)"

definition SetString :: "kv \<Rightarrow> bytes \<Rightarrow> bytes \<Rightarrow> kv" where
  "SetString s key v = engine_set s (stableKey key) v"

text \<open>
  \<open>GetCluster\<close>: no stored configuration is the nil map without an error, text that does not
  unmarshal is an error (\<open>None\<close>). \<open>encoding/json\<close> on a \<open>map[string]string\<close> is the pair of
  parameters \<open>encp\<close>, \<open>decp\<close>.
\<close>

definition GetCluster :: "(bytes \<Rightarrow> peers option) \<Rightarrow> kv \<Rightarrow> peers option" where
  "GetCluster decp s =
     (case engine_get s (stableKey KeyClusterConfig) of None \<Rightarrow> Some [] | Some v \<Rightarrow> decp v)"

definition SetCluster :: "(peers \<Rightarrow> bytes) \<Rightarrow> kv \<Rightarrow> peers \<Rightarrow> kv" where
  "SetCluster encp s ps = engine_set s (stableKey KeyClusterConfig) (encp ps)"

section \<open>Log\<close>

definition StoreLog :: "kv \<Rightarrow> log_entry \<Rightarrow> kv" where
  "StoreLog s e = engine_set s (logKey (le_index e)) (encodeLogEntry e)"

definition StoreLogs :: "kv \<Rightarrow> log_entry list \<Rightarrow> kv" where
  "StoreLogs s es =
     engine_batch_write s
       (map (\<lambda>e. \<lparr>op_type = OpPut, op_key = logKey (le_index e), op_value = encodeLogEntry e\<rparr>) es)"

definition GetLog :: "kv \<Rightarrow> u64 \<Rightarrow> log_error + log_entry" where
  "GetLog s i =
     (case engine_get s (logKey i) of
        None \<Rightarrow> Inl (LogNotFound i)
      | Some v \<Rightarrow> decodeLogEntry v)"

text \<open>
  The loop of \<open>DeleteRange\<close>. With \<open>max\<close> the largest \<open>uint64\<close> the test \<open>i <= max\<close> always
  holds and the loop never ends, which is the value \<open>None\<close>.
\<close>

partial_function (option) delete_range_loop :: "u64 \<Rightarrow> u64 \<Rightarrow> kv \<Rightarrow> kv option" where
  [code]: "delete_range_loop i mx s =
     (if i \<le> mx then delete_range_loop (i + 1) mx (engine_delete s (logKey i)) else Some s)"

definition DeleteRange :: "kv \<Rightarrow> u64 \<Rightarrow> u64 \<Rightarrow> kv option" where
  "DeleteRange s mn mx = delete_range_loop mn mx s"

definition log_items :: "kv \<Rightarrow> kv" where
  "log_items s = filter (\<lambda>(k, _). prefix [raftLogPrefix] k) s"

definition FirstIndex :: "kv \<Rightarrow> u64" where
  "FirstIndex s = (case log_items s of [] \<Rightarrow> 0 | (k, _) # _ \<Rightarrow> btou64 (tl k))"

definition LastIndex :: "kv \<Rightarrow> u64" where
  "LastIndex s =
     (case rev (filter (\<lambda>(k, _). k \<le> raftLogPrefix # replicate 8 (CHR 0xFF)) (log_items s)) of
        [] \<Rightarrow> 0
      | (k, _) # _ \<Rightarrow> btou64 (tl k))"

text \<open>
  \<open>LogEntries\<close>: the entries of \<open>[i, en)\<close> up to the first missing one; a batch ends with the
  entry that takes its size over \<open>maxSize\<close>. A record that does not decode ends it with an error.
  \<open>en - i\<close> rounds are enough.
\<close>

fun log_entries_loop :: "nat \<Rightarrow> kv \<Rightarrow> u64 \<Rightarrow> u64 \<Rightarrow> u64 \<Rightarrow> u64 \<Rightarrow> log_error + log_entry list" where
  "log_entries_loop 0 s i en maxSize sz = Inr []"
| "log_entries_loop (Suc f) s i en maxSize sz =
     (if \<not> i < en then Inr []
      else case engine_get s (logKey i) of
          None \<Rightarrow> Inr []
        | Some v \<Rightarrow>
            (case decodeLogEntry v of
               Inl e \<Rightarrow> Inl e
             | Inr e \<Rightarrow>
                 let sz' = sz + word_of_nat (length v) in
                 if maxSize > 0 \<and> sz' > maxSize then Inr [e]
                 else map_sum id (\<lambda>es. e # es) (log_entries_loop f s (i + 1) en maxSize sz')))"

definition LogEntries :: "kv \<Rightarrow> u64 \<Rightarrow> u64 \<Rightarrow> u64 \<Rightarrow> log_error + log_entry list" where
  "LogEntries s start en maxSize = log_entries_loop (unat en - unat start) s start en maxSize 0"

section \<open>Facts about the encodings\<close>

lemma length_u64tob [simp]: "length (u64tob v) = 8"
  by (simp add: u64tob_def)

lemma u64_less_256_8: "unat (v :: u64) < 256 ^ 8"
  using unat_bound [of v] by simp

lemma btou64_u64tob [simp]: "btou64 (u64tob v) = v"
  using u64_less_256_8 [of v] by (simp add: btou64_def u64tob_def be_val_be_bytes_id)

lemma btou64_u64tob_append [simp]: "btou64 (u64tob v @ x) = v"
  using btou64_u64tob [of v] by (simp add: btou64_def)

lemma u64tob_inject [simp]: "u64tob v = u64tob w \<longleftrightarrow> v = w"
  by (metis btou64_u64tob)

lemma u64tob_less_iff [simp]: "u64tob v < u64tob w \<longleftrightarrow> v < w"
  unfolding u64tob_def word_less_nat_alt
  by (rule be_bytes_less_iff [OF u64_less_256_8 u64_less_256_8])

lemma logKey_inject [simp]: "logKey i = logKey j \<longleftrightarrow> i = j"
  by (simp add: logKey_def)

lemma logKey_less_iff [simp]: "logKey i < logKey j \<longleftrightarrow> i < j"
  by (simp add: logKey_def)

lemma logKey_neq_stableKey [simp]: "logKey i \<noteq> stableKey k" "stableKey k \<noteq> logKey i"
  by (simp_all add: logKey_def stableKey_def raftLogPrefix_def raftStablePrefix_def)

lemma stableKey_inject [simp]: "stableKey j = stableKey k \<longleftrightarrow> j = k"
  by (simp add: stableKey_def)

lemma decode_encode_log [simp]: "decodeLogEntry (encodeLogEntry e) = Inr e"
proof -
  have "(u64tob t @ u64tob i @ [c] @ d) ! 16 = c" for t i c d
    by (simp add: nth_append)
  moreover have "drop 17 (u64tob t @ u64tob i @ [c] @ d) = d" for t i c d
    by simp
  moreover have "take 8 (drop 8 (u64tob t @ u64tob i @ d)) = u64tob i" for t i d
    by simp
  moreover have "take 8 (u64tob t @ d) = u64tob t" for t d
    by simp
  ultimately show ?thesis
    by (cases e) (simp add: decodeLogEntry_def encodeLogEntry_def del: append.simps take_append drop_append)
qed

lemma encode_decode_log: "decodeLogEntry b = Inr e \<Longrightarrow> encodeLogEntry e = b"
proof -
  assume "decodeLogEntry b = Inr e"
  then have len: "17 \<le> length b"
    and e: "e = \<lparr>le_index = btou64 (take 8 (drop 8 b)), le_term = btou64 (take 8 b),
      le_type = word_of_nat (byte_val (b ! 16)), le_data = drop 17 b\<rparr>"
    by (auto simp: decodeLogEntry_def split: if_splits)
  have word: "u64tob (btou64 c) = c" if "length c = 8" for c
    using that be_val_bound [of c] be_bytes_be_val [of c]
    by (simp add: u64tob_def btou64_def unat_of_nat)
  have "byte_of (word_of_nat (byte_val c)) = c" for c
    using byte_val_less [of c] by (simp add: byte_of_def unat_of_nat)
  moreover have "b = take 8 b @ take 8 (drop 8 b) @ [b ! 16] @ drop 17 b"
  proof -
    have "drop 16 b = b ! 16 # drop 17 b" using len Cons_nth_drop_Suc [of 16 b] by simp
    moreover have "drop 8 b = take 8 (drop 8 b) @ drop 16 b"
      using append_take_drop_id [of 8 "drop 8 b"] by simp
    ultimately show ?thesis using append_take_drop_id [of 8 b] by simp
  qed
  ultimately show ?thesis using len e word [of "take 8 b"] word [of "take 8 (drop 8 b)"]
    by (simp add: encodeLogEntry_def)
qed


section \<open>The log contract\<close>

text \<open>
  What the node relies on. \<open>get\<close> reads an entry, \<open>store\<close> writes one at its own index,
  \<open>delr\<close> deletes an inclusive range of indexes, \<open>last\<close> is the greatest index in use and 0
  for the empty log.
\<close>

locale raft_log =
  fixes get :: "'s \<Rightarrow> u64 \<Rightarrow> log_entry option"
    and store :: "'s \<Rightarrow> log_entry \<Rightarrow> 's"
    and delr :: "'s \<Rightarrow> u64 \<Rightarrow> u64 \<Rightarrow> 's option"
    and last_ix :: "'s \<Rightarrow> u64"
    and inv :: "'s \<Rightarrow> bool"
  assumes inv_store: "inv s \<Longrightarrow> inv (store s e)"
    and get_store: "inv s \<Longrightarrow> get (store s e) i = (if i = le_index e then Some e else get s i)"
    and delr_some: "inv s \<Longrightarrow> mx < - 1 \<Longrightarrow> \<exists>s'. delr s mn mx = Some s'"
    and inv_delr: "inv s \<Longrightarrow> delr s mn mx = Some s' \<Longrightarrow> inv s'"
    and get_delr: "inv s \<Longrightarrow> delr s mn mx = Some s' \<Longrightarrow>
          get s' i = (if mn \<le> i \<and> i \<le> mx then None else get s i)"
    and get_index: "inv s \<Longrightarrow> get s i = Some e \<Longrightarrow> le_index e = i"
    and last_upper: "inv s \<Longrightarrow> get s i = Some e \<Longrightarrow> i \<le> last_ix s"
    and last_mem: "inv s \<Longrightarrow> last_ix s \<noteq> 0 \<Longrightarrow> get s (last_ix s) \<noteq> None"
begin

lemma last_eqI:
  assumes "inv s" "\<And>i e. get s i = Some e \<Longrightarrow> i \<le> m" "m \<noteq> 0 \<Longrightarrow> get s m \<noteq> None"
  shows "last_ix s = m"
proof (rule antisym)
  show "last_ix s \<le> m"
    using assms last_mem [OF assms(1)] by (cases "last_ix s = 0") auto
  show "m \<le> last_ix s"
    using assms last_upper [OF assms(1)] by (cases "m = 0") auto
qed

lemma last_store: "inv s \<Longrightarrow> last_ix (store s e) = max (last_ix s) (le_index e)"
proof -
  assume s: "inv s"
  show ?thesis
  proof (rule last_eqI [OF inv_store [OF s]])
    fix i e' assume "get (store s e) i = Some e'"
    then show "i \<le> max (last_ix s) (le_index e)"
      using s by (auto simp: get_store le_max_iff_disj split: if_splits dest: last_upper)
  next
    assume "max (last_ix s) (le_index e) \<noteq> 0"
    then show "get (store s e) (max (last_ix s) (le_index e)) \<noteq> None"
      using s last_mem by (cases "le_index e \<le> last_ix s") (auto simp: get_store max_def)
  qed
qed

text \<open>A log without gaps: exactly the indexes from 1 to the last one are in use.\<close>

definition contig :: "'s \<Rightarrow> bool" where
  "contig s \<longleftrightarrow> (\<forall>i. get s i \<noteq> None \<longleftrightarrow> 0 < i \<and> i \<le> last_ix s)"

lemma contig_get: "contig s \<Longrightarrow> 0 < i \<Longrightarrow> i \<le> last_ix s \<Longrightarrow> \<exists>e. get s i = Some e"
  by (auto simp: contig_def)

lemma contig_store_next:
  assumes "inv s" "contig s" "le_index e = last_ix s + 1" "last_ix s < - 1"
  shows "contig (store s e)" "last_ix (store s e) = last_ix s + 1"
proof -
  have less: "last_ix s < last_ix s + 1" using assms(4) by (rule u64_less_inc)
  then show l: "last_ix (store s e) = last_ix s + 1"
    using assms by (simp add: last_store)
  have "i \<le> last_ix s + 1 \<longleftrightarrow> i \<le> last_ix s \<or> i = last_ix s + 1" for i
    using less u64_inc_le [of "last_ix s" i] by force
  moreover have "0 < last_ix s + 1" using less by (metis word_gt_0 word_zero_le not_le)
  ultimately show "contig (store s e)"
    unfolding contig_def l using assms by (auto simp: get_store contig_def)
qed

lemma contig_truncate:
  assumes "inv s" "contig s" "0 < mn" "mn \<le> last_ix s" "delr s mn (last_ix s) = Some s'"
  shows "contig s'" "last_ix s' = mn - 1"
proof -
  have pred: "i \<le> mn - 1 \<longleftrightarrow> i < mn" for i
    by (rule u64_le_dec [OF assms(3)])
  have get: "get s' i = (if mn \<le> i then None else get s i)" for i
    using assms contig_def [of s] get_delr [OF assms(1,5), of i] by auto
  have inv': "inv s'" by (rule inv_delr [OF assms(1,5)])
  show l: "last_ix s' = mn - 1"
  proof (rule last_eqI [OF inv'])
    fix i e assume "get s' i = Some e"
    then show "i \<le> mn - 1" using get by (auto simp: pred split: if_splits)
  next
    assume "mn - 1 \<noteq> 0"
    moreover have "mn - 1 < mn" using pred by blast
    ultimately show "get s' (mn - 1) \<noteq> None"
      using get assms(2,4) by (auto simp: contig_def word_gt_0 intro: less_imp_le less_le_trans)
  qed
  show "contig s'"
    unfolding contig_def l pred using get assms(2,4) by (auto simp: contig_def)
qed

end


section \<open>The stored log satisfies the contract\<close>

definition log_at :: "kv \<Rightarrow> u64 \<Rightarrow> log_entry option" where
  "log_at s i = (case GetLog s i of Inr e \<Rightarrow> Some e | Inl _ \<Rightarrow> None)"

text \<open>Every record under the log prefix is an encoded entry under its own index.\<close>

definition log_ok :: "kv \<Rightarrow> bool" where
  "log_ok s \<longleftrightarrow>
     kv_ok s \<and>
     (\<forall>k v. engine_get s k = Some v \<longrightarrow> prefix [raftLogPrefix] k \<longrightarrow>
        (\<exists>e. k = logKey (le_index e) \<and> v = encodeLogEntry e))"

lemma log_ok_kv: "log_ok s \<Longrightarrow> kv_ok s"
  by (simp add: log_ok_def)

lemma log_ok_entry:
  "log_ok s \<Longrightarrow> engine_get s (logKey i) = Some v \<Longrightarrow> \<exists>e. i = le_index e \<and> v = encodeLogEntry e"
  unfolding log_ok_def by (fastforce simp: logKey_def)

lemma log_at_entry:
  assumes "log_ok s"
  obtains "engine_get s (logKey i) = None" "log_at s i = None" "GetLog s i = Inl (LogNotFound i)"
  | e where "engine_get s (logKey i) = Some (encodeLogEntry e)" "le_index e = i"
    "log_at s i = Some e" "GetLog s i = Inr e"
proof (cases "engine_get s (logKey i)")
  case None
  then show ?thesis using that(1) by (simp add: log_at_def GetLog_def)
next
  case (Some v)
  obtain e where e: "i = le_index e" "v = encodeLogEntry e"
    using log_ok_entry [OF assms Some] by blast
  have g: "GetLog s i = Inr e" using Some e(2) by (simp add: GetLog_def)
  show ?thesis
    by (rule that(2) [of e]) (use Some e g in \<open>simp_all add: log_at_def\<close>)
qed

lemma encodeLogEntry_inject [simp]: "encodeLogEntry d = encodeLogEntry e \<longleftrightarrow> d = e"
  by (metis decode_encode_log sum.inject(2))

lemma log_at_Some_iff:
  assumes "log_ok s"
  shows "log_at s i = Some e \<longleftrightarrow> engine_get s (logKey i) = Some (encodeLogEntry e) \<and> le_index e = i"
  by (rule log_at_entry [OF assms, of i]) auto

lemma GetLog_log_at:
  assumes "log_ok s"
  shows "GetLog s i = (case log_at s i of Some e \<Rightarrow> Inr e | None \<Rightarrow> Inl (LogNotFound i))"
  by (rule log_at_entry [OF assms, of i]) simp_all

lemma log_ok_StoreLog: "log_ok s \<Longrightarrow> log_ok (StoreLog s e)"
  by (auto simp: log_ok_def StoreLog_def kv_simps)

lemma GetLog_StoreLog: "GetLog (StoreLog s e) i = (if i = le_index e then Inr e else GetLog s i)"
  by (simp add: GetLog_def StoreLog_def kv_simps)

lemma log_at_StoreLog: "log_at (StoreLog s e) i = (if i = le_index e then Some e else log_at s i)"
  by (simp add: log_at_def GetLog_StoreLog)

lemma delete_range_loop_done: "\<not> i \<le> mx \<Longrightarrow> delete_range_loop i mx s = Some s"
  by (subst delete_range_loop.simps) simp

lemma delete_range_loop_step:
  "i \<le> mx \<Longrightarrow> delete_range_loop i mx s = delete_range_loop (i + 1) mx (engine_delete s (logKey i))"
  by (subst delete_range_loop.simps) simp

lemma if_nested_or: "(if P then a else if Q then a else b) = (if Q \<or> P then a else b)"
  by simp

lemma delete_range_loop_result:
  "mx < - 1 \<Longrightarrow> \<exists>s'. delete_range_loop i mx s = Some s' \<and> (kv_ok s \<longrightarrow> kv_ok s') \<and>
     (\<forall>k. engine_get s' k = (if \<exists>j. i \<le> j \<and> j \<le> mx \<and> k = logKey j then None else engine_get s k))"
proof (induction "Suc (unat mx) - unat i" arbitrary: i s)
  case 0
  then have "\<not> i \<le> mx" by (simp add: word_le_nat_alt)
  then show ?case by (auto simp: delete_range_loop_done)
next
  case (Suc d)
  then have le: "i \<le> mx" by (simp add: word_le_nat_alt)
  then have less: "i < - 1" using Suc.prems by simp
  note inc = u64_inc_less [OF less]
  have "d = Suc (unat mx) - unat (i + 1)" using Suc.hyps(2) inc by simp
  from Suc.hyps(1) [OF this Suc.prems, of "engine_delete s (logKey i)"] obtain s' where
    s': "delete_range_loop (i + 1) mx (engine_delete s (logKey i)) = Some s'"
    "kv_ok (engine_delete s (logKey i)) \<longrightarrow> kv_ok s'"
    "\<forall>k. engine_get s' k = (if \<exists>j. i + 1 \<le> j \<and> j \<le> mx \<and> k = logKey j then None
       else engine_get (engine_delete s (logKey i)) k)" by blast
  have split: "i \<le> j \<longleftrightarrow> j = i \<or> i + 1 \<le> j" for j
    using inc by (auto simp: word_le_nat_alt word_unat_eq_iff)
  have ex: "(\<exists>j. i \<le> j \<and> j \<le> mx \<and> k = logKey j) \<longleftrightarrow>
      k = logKey i \<or> (\<exists>j. i + 1 \<le> j \<and> j \<le> mx \<and> k = logKey j)" for k
    unfolding split using le by blast
  have "engine_get s' k =
      (if \<exists>j. i \<le> j \<and> j \<le> mx \<and> k = logKey j then None else engine_get s k)" for k
    unfolding s'(3) [rule_format] eng.get_del ex by (rule if_nested_or)
  moreover have "kv_ok s \<longrightarrow> kv_ok s'" using s'(2) by (simp add: kv_simps)
  ultimately show ?case
    using s'(1) le by (intro exI [of _ s']) (simp add: delete_range_loop_step)
qed

text \<open>With the largest index as its end the loop does not end.\<close>

lemma DeleteRange_result:
  assumes "mx < - 1"
  obtains s' where "DeleteRange s mn mx = Some s'" "kv_ok s \<Longrightarrow> kv_ok s'"
    "\<And>k. engine_get s' k = (if \<exists>j. mn \<le> j \<and> j \<le> mx \<and> k = logKey j then None else engine_get s k)"
proof -
  from delete_range_loop_result [OF assms, of mn s] obtain s' where
    "delete_range_loop mn mx s = Some s'" "kv_ok s \<longrightarrow> kv_ok s'"
    "\<forall>k. engine_get s' k = (if \<exists>j. mn \<le> j \<and> j \<le> mx \<and> k = logKey j then None else engine_get s k)"
    by blast
  then show thesis using that [of s'] unfolding DeleteRange_def by simp
qed

lemma DeleteRange_get:
  assumes "mx < - 1" "DeleteRange s mn mx = Some s'"
  shows "engine_get s' k = (if \<exists>j. mn \<le> j \<and> j \<le> mx \<and> k = logKey j then None else engine_get s k)"
    and "kv_ok s \<Longrightarrow> kv_ok s'"
  using DeleteRange_result [OF assms(1), of s mn] assms(2) by (metis option.inject)+

lemma log_at_DeleteRange:
  assumes "mx < - 1" "DeleteRange s mn mx = Some s'"
  shows "log_at s' i = (if mn \<le> i \<and> i \<le> mx then None else log_at s i)"
proof -
  have "(\<exists>j. mn \<le> j \<and> j \<le> mx \<and> logKey i = logKey j) \<longleftrightarrow> mn \<le> i \<and> i \<le> mx" by auto
  then have "engine_get s' (logKey i) = (if mn \<le> i \<and> i \<le> mx then None else engine_get s (logKey i))"
    unfolding DeleteRange_get(1) [OF assms] by simp
  then show ?thesis by (simp add: log_at_def GetLog_def)
qed

lemma log_ok_DeleteRange:
  assumes "log_ok s" "mx < - 1" "DeleteRange s mn mx = Some s'"
  shows "log_ok s'"
proof -
  have "engine_get s k = Some v" if "engine_get s' k = Some v" for k v
    using that unfolding DeleteRange_get(1) [OF assms(2,3)] by (simp split: if_splits)
  moreover have "kv_ok s'" using DeleteRange_get(2) [OF assms(2,3)] log_ok_kv [OF assms(1)] by blast
  ultimately show ?thesis using assms(1) unfolding log_ok_def by blast
qed

lemma logKey_le_top: "logKey i \<le> raftLogPrefix # replicate 8 (CHR 0xFF)"
  using lex_le_replicate [of "CHR 0xFF" "u64tob i"] char_le_FF by (simp add: logKey_def)

lemma log_items_sorted: "kv_ok s \<Longrightarrow> sorted_wrt (<) (map fst (log_items s))"
  by (simp add: log_items_def kv_ok_def sorted_wrt_map_fst_filter)

lemma set_log_items:
  assumes "log_ok s"
  shows "(k, v) \<in> set (log_items s) \<longleftrightarrow>
    (\<exists>e. k = logKey (le_index e) \<and> v = encodeLogEntry e \<and> log_at s (le_index e) = Some e)"
proof -
  have "(k, v) \<in> set (log_items s) \<longleftrightarrow> engine_get s k = Some v \<and> prefix [raftLogPrefix] k"
    using assms by (auto simp: log_items_def eng.items_get [OF log_ok_kv])
  also have "\<dots> \<longleftrightarrow>
    (\<exists>e. k = logKey (le_index e) \<and> v = encodeLogEntry e \<and> log_at s (le_index e) = Some e)"
    using assms by (auto simp: log_at_Some_iff log_ok_def) (simp add: logKey_def)
  finally show ?thesis .
qed

lemma log_items_bounded:
  assumes "log_ok s"
  shows "filter (\<lambda>(k, _). k \<le> raftLogPrefix # replicate 8 (CHR 0xFF)) (log_items s) = log_items s"
  using set_log_items [OF assms] logKey_le_top by (intro filter_True) auto

lemma LastIndex_cases:
  assumes "log_ok s"
  shows "(LastIndex s = 0 \<and> (\<forall>i. log_at s i = None)) \<or>
    (log_at s (LastIndex s) \<noteq> None \<and> (\<forall>i. log_at s i \<noteq> None \<longrightarrow> i \<le> LastIndex s))"
proof (cases "log_items s" rule: rev_cases)
  case Nil
  have "log_at s i = None" for i
  proof (rule ccontr)
    assume "log_at s i \<noteq> None"
    then obtain e where e: "log_at s i = Some e" by auto
    then have "le_index e = i" using assms by (simp add: log_at_Some_iff)
    then show False using set_log_items [OF assms, of "logKey i" "encodeLogEntry e"] e Nil by auto
  qed
  then show ?thesis using Nil by (simp add: LastIndex_def)
next
  case (snoc xs x)
  obtain k v where x: "x = (k, v)" by force
  have "(k, v) \<in> set (log_items s)" using snoc x by simp
  then obtain e where e: "k = logKey (le_index e)" "log_at s (le_index e) = Some e"
    using set_log_items [OF assms] by blast
  have last: "LastIndex s = le_index e"
    unfolding LastIndex_def log_items_bounded [OF assms] using snoc x e by (simp add: logKey_def)
  have "i \<le> le_index e" if i: "log_at s i = Some e'" for i e'
  proof -
    have "le_index e' = i" using i assms by (simp add: log_at_Some_iff)
    then have "(logKey i, encodeLogEntry e') \<in> set (log_items s)"
      using set_log_items [OF assms] i by blast
    then have "logKey i = k \<or> logKey i < k"
      using log_items_sorted [OF log_ok_kv [OF assms]] unfolding snoc x
      by (auto simp: sorted_wrt_append)
    then show ?thesis using e by auto
  qed
  then show ?thesis using last e by auto
qed

interpretation rl: raft_log log_at StoreLog
  "\<lambda>s mn mx. if mx < - 1 then DeleteRange s mn mx else None" LastIndex log_ok
proof
  fix s :: kv and e :: log_entry and i mn mx :: u64 and s'
  assume s: "log_ok s"
  show "log_ok (StoreLog s e)" by (rule log_ok_StoreLog [OF s])
  show "log_at (StoreLog s e) i = (if i = le_index e then Some e else log_at s i)"
    by (rule log_at_StoreLog)
  show "\<exists>s'. (if mx < - 1 then DeleteRange s mn mx else None) = Some s'" if "mx < - 1"
    using that DeleteRange_result [OF that, of s mn] by auto
  show "log_ok s'" if "(if mx < - 1 then DeleteRange s mn mx else None) = Some s'"
    using that log_ok_DeleteRange [OF s] by (auto split: if_splits)
  show "log_at s' i = (if mn \<le> i \<and> i \<le> mx then None else log_at s i)"
    if "(if mx < - 1 then DeleteRange s mn mx else None) = Some s'"
    using that by (auto simp: log_at_DeleteRange split: if_splits)
  show "le_index e = i" if "log_at s i = Some e"
    using that log_at_Some_iff [OF s] by simp
  show "i \<le> LastIndex s" if "log_at s i = Some e"
    using that LastIndex_cases [OF s] by auto
  show "log_at s (LastIndex s) \<noteq> None" if "LastIndex s \<noteq> 0"
    using that LastIndex_cases [OF s] by auto
qed

section \<open>Stable values and the log do not interfere\<close>

lemma stable_frame [raft_simps]:
  "GetLog (SetUint64 s k v) i = GetLog s i"
  "GetLog (SetString s k w) i = GetLog s i"
  "log_at (SetUint64 s k v) i = log_at s i"
  "log_at (SetString s k w) i = log_at s i"
  "GetUint64 (StoreLog s e) k = GetUint64 s k"
  "GetString (StoreLog s e) k = GetString s k"
  by (simp_all add: GetLog_def log_at_def SetUint64_def SetString_def GetUint64_def GetString_def
      StoreLog_def kv_simps)

lemma stable_get_set [raft_simps]:
  "GetUint64 (SetUint64 s k v) j = (if j = k then Some v else GetUint64 s j)"
  "GetString (SetString s k w) j = (if j = k then Some w else GetString s j)"
  "j \<noteq> k \<Longrightarrow> GetUint64 (SetString s k w) j = GetUint64 s j"
  "j \<noteq> k \<Longrightarrow> GetString (SetUint64 s k v) j = GetString s j"
  by (simp_all add: SetUint64_def SetString_def GetUint64_def GetString_def kv_simps)

lemma log_ok_stable [raft_simps]:
  "log_ok s \<Longrightarrow> log_ok (SetUint64 s k v)"
  "log_ok s \<Longrightarrow> log_ok (SetString s k w)"
  by (auto simp: log_ok_def SetUint64_def SetString_def kv_simps)
    (auto simp: stableKey_def raftLogPrefix_def raftStablePrefix_def split: if_splits)

lemma LastIndex_cong:
  assumes "log_ok s" "log_ok t" "\<And>i. log_at s i = log_at t i"
  shows "LastIndex s = LastIndex t"
  using assms rl.last_upper rl.last_mem by (intro rl.last_eqI) auto

lemma filter_engine_set:
  "\<not> P k \<Longrightarrow> filter (\<lambda>(k, _). P k) (engine_set s k v) = filter (\<lambda>(k, _). P k) s"
  by (induction s k v rule: engine_set.induct) auto

lemma LastIndex_stable [raft_simps]:
  "LastIndex (SetUint64 s k v) = LastIndex s"
  "LastIndex (SetString s k w) = LastIndex s"
  "LastIndex (SetCluster encp s ps) = LastIndex s"
  by (simp_all add: LastIndex_def log_items_def SetUint64_def SetString_def SetCluster_def
      filter_engine_set stableKey_def raftLogPrefix_def raftStablePrefix_def)

section \<open>Properties\<close>

text \<open>
  The stored form of a log entry and the entry determine each other: decoding gives back what was
  encoded, and every record that decodes is the encoding of its entry.
\<close>

lemma log_entry_codec:
  "decodeLogEntry b = Inr e \<longleftrightarrow> b = encodeLogEntry e"
  using encode_decode_log [of b e] by auto

text \<open>
  Storing an entry makes it readable at its index, leaves every other index alone, and moves the
  last index to the larger of the two.
\<close>

lemma store_log_spec:
  assumes "log_ok s"
  shows "log_ok (StoreLog s e) \<and>
    GetLog (StoreLog s e) i = (if i = le_index e then Inr e else GetLog s i) \<and>
    LastIndex (StoreLog s e) = max (LastIndex s) (le_index e)"
  using assms log_ok_StoreLog rl.last_store by (simp add: GetLog_StoreLog)

text \<open>
  Truncating a log without gaps at an index of it returns, leaves a log without gaps that ends
  just before that index, and keeps every entry below it.
\<close>

lemma truncate_log_spec:
  assumes "log_ok s" "rl.contig s" "0 < mn" "mn \<le> LastIndex s" "LastIndex s < - 1"
  shows "\<exists>s'. DeleteRange s mn (LastIndex s) = Some s' \<and> log_ok s' \<and> rl.contig s' \<and>
    LastIndex s' = mn - 1 \<and> (\<forall>i < mn. log_at s' i = log_at s i)"
proof -
  obtain s' where s': "DeleteRange s mn (LastIndex s) = Some s'"
    using DeleteRange_result [OF assms(5)] by metis
  have "log_at s' i = log_at s i" if "i < mn" for i
    using log_at_DeleteRange [OF assms(5) s', of i] that [folded not_le] by simp
  then show ?thesis
    using s' log_ok_DeleteRange [OF assms(1,5) s'] rl.contig_truncate [OF assms(1-4), of s'] assms(5)
    by simp
qed

definition sample_entry :: "u64 \<Rightarrow> u64 \<Rightarrow> log_entry" where
  "sample_entry t i = \<lparr>le_index = i, le_term = t, le_type = LogCommand, le_data = []\<rparr>"

definition sample_log :: kv where
  "sample_log = StoreLog (StoreLog kv_empty (sample_entry 1 1)) (sample_entry 1 2)"

lemma log_ok_empty: "log_ok kv_empty" "LastIndex kv_empty = 0" "rl.contig kv_empty"
  by (auto simp: log_ok_def LastIndex_def log_items_def rl.contig_def log_at_def GetLog_def)
    (auto simp: kv_empty_def)

lemma small_indexes: "(0 :: u64) < - 1" "(1 :: u64) < - 1" "(2 :: u64) < - 1"
  by code_simp+

lemma sample_log_facts:
  "log_ok sample_log" "rl.contig sample_log" "LastIndex sample_log = 2"
  "log_at sample_log 2 = Some (sample_entry 1 2)" "log_at sample_log 1 = Some (sample_entry 1 1)"
proof -
  let ?s1 = "StoreLog kv_empty (sample_entry 1 1)"
  have 1: "log_ok ?s1" "rl.contig ?s1" "LastIndex ?s1 = 1"
    using rl.contig_store_next [OF log_ok_empty(1,3), of "sample_entry 1 1"] log_ok_empty small_indexes
    by (simp_all add: log_ok_StoreLog sample_entry_def)
  have "rl.contig sample_log" "LastIndex sample_log = 1 + 1"
    using rl.contig_store_next [OF 1(1,2), of "sample_entry 1 2"] 1(3) small_indexes
    by (simp_all add: sample_log_def sample_entry_def)
  then show "log_ok sample_log" "rl.contig sample_log" "LastIndex sample_log = 2"
    "log_at sample_log 2 = Some (sample_entry 1 2)" "log_at sample_log 1 = Some (sample_entry 1 1)"
    using 1(1) by (simp_all add: sample_log_def log_ok_StoreLog log_at_StoreLog sample_entry_def)
qed

end
