(* ===== verification/RaftNode.thy ===== *)
theory RaftNode
  imports RaftStorage
begin

text \<open>
  Model of \<^verbatim>\<open>internal/raft/node.go\<close> and of the request handlers of
  \<^verbatim>\<open>internal/raft/transport.go\<close>: the state of one Raft node, its start, its configuration
  changes, and the vote and append requests it answers.

  Every handler runs under the node's mutex, so one call is one step of the state. The state keeps
  the fields of \<open>Node\<close>; a timer is the number of times it was reset, the heartbeat ticker is
  whether it runs, a proposal is a number that stands for the channel a client waits on. The
  callback \<open>cfg.Apply\<close> is the argument \<open>app\<close>: it acts on the node and on a state machine
  of any type. A call that does not return is \<open>None\<close>.
\<close>

section \<open>State\<close>

datatype raft_state = Follower | PreCandidate | Candidate | Leader

record raft_node =
  rn_id :: bytes
  rn_state :: raft_state
  rn_term :: u64
  rn_voted :: bytes
  rn_commit :: u64
  rn_applied :: u64
  rn_leader :: bytes
  rn_next :: "bytes \<Rightarrow> u64 option"
  rn_match :: "bytes \<Rightarrow> u64 option"
  rn_ticker :: bool
  rn_timer :: nat
  rn_proposals :: "u64 \<Rightarrow> nat option"
  rn_peers :: peers
  rn_store :: kv

text \<open>A Go map answers the zero value for a missing key.\<close>

definition index_of :: "(bytes \<Rightarrow> u64 option) \<Rightarrow> bytes \<Rightarrow> u64" where
  "index_of m p = (case m p of Some i \<Rightarrow> i | None \<Rightarrow> 0)"

record RequestVoteRequest =
  rv_term :: u64
  rv_candidate :: bytes
  rv_last_index :: u64
  rv_last_term :: u64
  rv_prevote :: bool

record RequestVoteResponse =
  rv_resp_term :: u64
  rv_granted :: bool

record AppendEntriesRequest =
  ae_term :: u64
  ae_leader :: bytes
  ae_prev_index :: u64
  ae_prev_term :: u64
  ae_entries :: "log_entry list"
  ae_commit :: u64

record AppendEntriesResponse =
  ae_resp_term :: u64
  ae_success :: bool
  ae_conflict :: u64

section \<open>Small operations\<close>

definition resetElectionTimer :: "raft_node \<Rightarrow> raft_node" where
  "resetElectionTimer n = n\<lparr>rn_timer := rn_timer n + 1\<rparr>"

definition getLastLogIndex :: "raft_node \<Rightarrow> u64" where
  "getLastLogIndex n = LastIndex (rn_store n)"

definition getLastLogTerm :: "raft_node \<Rightarrow> u64" where
  "getLastLogTerm n =
     (let idx = getLastLogIndex n in
      if idx = 0 then 0
      else case GetLog (rn_store n) idx of Inl _ \<Rightarrow> 0 | Inr e \<Rightarrow> le_term e)"

definition set_term :: "u64 \<Rightarrow> raft_node \<Rightarrow> raft_node" where
  "set_term t n = n\<lparr>rn_term := t, rn_store := SetUint64 (rn_store n) KeyCurrentTerm t\<rparr>"

definition set_vote :: "bytes \<Rightarrow> raft_node \<Rightarrow> raft_node" where
  "set_vote c n = n\<lparr>rn_voted := c, rn_store := SetString (rn_store n) KeyVotedFor c\<rparr>"

definition set_commit :: "u64 \<Rightarrow> raft_node \<Rightarrow> raft_node" where
  "set_commit i n = n\<lparr>rn_commit := i, rn_store := SetUint64 (rn_store n) KeyCommitIndex i\<rparr>"

definition set_applied :: "u64 \<Rightarrow> raft_node \<Rightarrow> raft_node" where
  "set_applied i n = n\<lparr>rn_applied := i, rn_store := SetUint64 (rn_store n) KeyLastApplied i\<rparr>"

section \<open>Applying committed entries\<close>

record apply_op =
  ao_entry :: log_entry
  ao_proposal :: "nat option"

type_synonym 'm apply_fun =
  "u64 \<Rightarrow> u64 \<Rightarrow> bytes \<Rightarrow> raft_node \<times> 'm \<Rightarrow> bytes option \<times> raft_node \<times> 'm"

type_synonym answers = "(nat \<times> bytes option) list"

function collectApplyOps :: "raft_node \<Rightarrow> apply_op list \<times> raft_node" where
  "collectApplyOps n =
     (if rn_applied n < rn_commit n then
        (let idx = rn_applied n + 1 in
         case GetLog (rn_store n) idx of
           Inl _ \<Rightarrow> ([], n)
         | Inr e \<Rightarrow>
             let op = \<lparr>ao_entry = e, ao_proposal = rn_proposals n idx\<rparr>;
                 n' = (set_applied idx n)\<lparr>rn_proposals := (rn_proposals n)(idx := None)\<rparr>;
                 (ops, n'') = collectApplyOps n'
             in (op # ops, n''))
      else ([], n))"
  by pat_completeness auto
termination
proof (relation "measure (\<lambda>n. unat (rn_commit n) - unat (rn_applied n))", goal_cases)
  case 1
  then show ?case by simp
next
  case (2 n idx e op n')
  then show ?case
    using u64_inc_less [of "rn_applied n" "rn_commit n"]
    by (simp add: set_applied_def word_less_nat_alt)
qed

declare collectApplyOps.simps [simp del]

fun doApply :: "'m apply_fun \<Rightarrow> apply_op list \<Rightarrow> raft_node \<times> 'm \<Rightarrow> answers \<times> raft_node \<times> 'm" where
  "doApply app [] st = ([], st)"
| "doApply app (op # ops) st =
     (let e = ao_entry op;
          (err, st') =
            (if le_type e = LogCommand then app (le_term e) (le_index e) (le_data e) st
             else (None, st));
          (as, st'') = doApply app ops st'
      in ((case ao_proposal op of None \<Rightarrow> as | Some p \<Rightarrow> (p, err) # as), st''))"

section \<open>Vote requests\<close>

definition log_up_to_date :: "RequestVoteRequest \<Rightarrow> raft_node \<Rightarrow> bool" where
  "log_up_to_date req n \<longleftrightarrow>
     rv_last_term req > getLastLogTerm n \<or>
     (rv_last_term req = getLastLogTerm n \<and> rv_last_index req \<ge> getLastLogIndex n)"

definition HandleRequestVote :: "RequestVoteRequest \<Rightarrow> raft_node \<Rightarrow> RequestVoteResponse \<times> raft_node" where
  "HandleRequestVote req n =
     (if rv_term req < rn_term n then
        (\<lparr>rv_resp_term = rn_term n, rv_granted = False\<rparr>, resetElectionTimer n)
      else if rv_prevote req then
        (\<lparr>rv_resp_term = rn_term n, rv_granted = log_up_to_date req n\<rparr>, n)
      else
        let n1 = (if rv_term req > rn_term n
                  then (set_vote [] (set_term (rv_term req) n))\<lparr>rn_state := Follower, rn_leader := []\<rparr>
                  else n);
            t = rn_term n1
        in
        if \<not> (rn_voted n1 = [] \<or> rn_voted n1 = rv_candidate req) then
          (\<lparr>rv_resp_term = t, rv_granted = False\<rparr>, resetElectionTimer n1)
        else if \<not> log_up_to_date req n1 then
          (\<lparr>rv_resp_term = t, rv_granted = False\<rparr>, resetElectionTimer n1)
        else
          (\<lparr>rv_resp_term = t, rv_granted = True\<rparr>,
           resetElectionTimer ((set_vote (rv_candidate req) n1)\<lparr>rn_state := Follower\<rparr>)))"

section \<open>Append requests\<close>

text \<open>The search for the first entry of the conflicting term, downwards from \<open>PrevLogIndex\<close>.\<close>

fun conflict_scan :: "kv \<Rightarrow> u64 \<Rightarrow> nat \<Rightarrow> nat" where
  "conflict_scan s t 0 = 0"
| "conflict_scan s t (Suc i) =
     (case GetLog s (word_of_nat i) of
        Inl _ \<Rightarrow> Suc i
      | Inr e \<Rightarrow> if le_term e \<noteq> t then Suc i else conflict_scan s t i)"

text \<open>
  A record that does not decode is an error with the zero entry, a missing one an error with the
  nil entry.
\<close>

definition conflict_index :: "kv \<Rightarrow> u64 \<Rightarrow> u64" where
  "conflict_index s i =
     (case GetLog s i of
        Inr e \<Rightarrow> word_of_nat (conflict_scan s (le_term e) (unat i))
      | Inl (LogTooShort _) \<Rightarrow> word_of_nat (conflict_scan s 0 (unat i))
      | Inl (LogNotFound _) \<Rightarrow> 1)"

text \<open>
  One round of the loop over the new entries. After a conflict the old entry and its successors are
  deleted; the new entry is stored only when the lookup \<^emph>\<open>before\<close> had failed.
\<close>

definition append_entry :: "kv \<Rightarrow> log_entry \<Rightarrow> kv option" where
  "append_entry s e =
     (case GetLog s (le_index e) of
        Inr old \<Rightarrow>
          if le_term old \<noteq> le_term e \<and> le_index e \<le> LastIndex s
          then DeleteRange s (le_index e) (LastIndex s) else Some s
      | Inl _ \<Rightarrow> Some (StoreLog s e))"

fun append_entries :: "kv \<Rightarrow> log_entry list \<Rightarrow> kv option" where
  "append_entries s [] = Some s"
| "append_entries s (e # es) =
     (case append_entry s e of None \<Rightarrow> None | Some s' \<Rightarrow> append_entries s' es)"

definition adopt_leader :: "AppendEntriesRequest \<Rightarrow> raft_node \<Rightarrow> raft_node" where
  "adopt_leader req n =
     (let n1 = (if ae_term req > rn_term n then set_vote [] (set_term (ae_term req) n) else n)
      in n1\<lparr>rn_state := Follower, rn_leader := ae_leader req, rn_ticker := False\<rparr>)"

definition follow_commit :: "u64 \<Rightarrow> raft_node \<Rightarrow> apply_op list \<times> raft_node" where
  "follow_commit leaderCommit n =
     (if leaderCommit > rn_commit n
      then collectApplyOps (set_commit (min leaderCommit (getLastLogIndex n)) n)
      else ([], n))"

definition HandleAppendEntries ::
    "'m apply_fun \<Rightarrow> AppendEntriesRequest \<Rightarrow> raft_node \<times> 'm \<Rightarrow>
       (AppendEntriesResponse \<times> answers \<times> raft_node \<times> 'm) option" where
  "HandleAppendEntries app req st =
     (let (n, m) = st in
      if ae_term req < rn_term n then
        Some (\<lparr>ae_resp_term = rn_term n, ae_success = False, ae_conflict = 0\<rparr>, [],
              resetElectionTimer n, m)
      else
        let n1 = adopt_leader req n;
            s = rn_store n1;
            prev = ae_prev_index req;
            reject = (\<lambda>c. Some (\<lparr>ae_resp_term = ae_term req, ae_success = False, ae_conflict = c\<rparr>,
                                [], resetElectionTimer n1, m))
        in
        if prev > 0 \<and> LastIndex s < prev then reject (LastIndex s + 1)
        else if prev > 0 \<and> (case GetLog s prev of Inl _ \<Rightarrow> True | Inr e \<Rightarrow> le_term e \<noteq> ae_prev_term req)
        then reject (conflict_index s prev)
        else
          (case append_entries s (ae_entries req) of
             None \<Rightarrow> None
           | Some s' \<Rightarrow>
               let (ops, n2) = follow_commit (ae_commit req) (n1\<lparr>rn_store := s'\<rparr>);
                   (as, n3, m') = doApply app ops (n2, m)
               in Some (\<lparr>ae_resp_term = ae_term req, ae_success = True, ae_conflict = 0\<rparr>, as,
                        resetElectionTimer n3, m')))"

section \<open>Start and configuration\<close>

text \<open>
  \<open>NewNode\<close> on the fields of \<open>Config\<close> that the node keeps. The persisted commit and applied
  indexes are read by \<open>applyCommitted\<close>, later.
\<close>

datatype new_node_error = NodeIDRequired | RaftAddrRequired | ApplyRequired

definition merge_peers :: "peers \<Rightarrow> peers \<Rightarrow> peers" where
  "merge_peers ps qs = fold (\<lambda>(i, a) ps. AList.update i a ps) qs ps"

definition NewNode ::
    "(bytes \<Rightarrow> peers option) \<Rightarrow> bytes \<Rightarrow> bytes \<Rightarrow> bool \<Rightarrow> peers \<Rightarrow> kv \<Rightarrow> new_node_error + raft_node" where
  "NewNode decp nodeID addr hasApply cfgPeers s =
     (if nodeID = [] then Inl NodeIDRequired
      else if addr = [] then Inl RaftAddrRequired
      else if \<not> hasApply then Inl ApplyRequired
      else
        Inr \<lparr>rn_id = nodeID, rn_state = Follower,
             rn_term = (case GetUint64 s KeyCurrentTerm of Some t \<Rightarrow> t | None \<Rightarrow> 0),
             rn_voted = (case GetString s KeyVotedFor of Some v \<Rightarrow> v | None \<Rightarrow> []),
             rn_commit = 0, rn_applied = 0, rn_leader = [],
             rn_next = (\<lambda>_. None), rn_match = (\<lambda>_. None),
             rn_ticker = False, rn_timer = 0, rn_proposals = (\<lambda>_. None),
             rn_peers =
               (case GetCluster decp s of
                  Some c \<Rightarrow> merge_peers (merge_peers [] cfgPeers) c
                | None \<Rightarrow> merge_peers [] cfgPeers),
             rn_store = s\<rparr>)"

text \<open>\<open>None\<close> is \<open>ErrClusterExists\<close>.\<close>

definition BootstrapCluster ::
    "(peers \<Rightarrow> bytes) \<Rightarrow> (bytes \<Rightarrow> peers option) \<Rightarrow> peers \<Rightarrow> raft_node \<Rightarrow> raft_node option" where
  "BootstrapCluster encp decp ps n =
     (case GetCluster decp (rn_store n) of
        Some (_ # _) \<Rightarrow> None
      | _ \<Rightarrow> Some (n\<lparr>rn_store := SetCluster encp (rn_store n) ps,
                     rn_peers := merge_peers (rn_peers n) ps\<rparr>))"

record peer_change =
  pc_op :: bytes
  pc_node :: bytes
  pc_addr :: bytes

text \<open>
  \<open>decc\<close> is \<open>json.Unmarshal\<close> into \<open>peerChange\<close>. The first byte decides, the \<open>op\<close>
  field is not read.
\<close>

definition applyConfigChange ::
    "(peers \<Rightarrow> bytes) \<Rightarrow> (bytes \<Rightarrow> peer_change option) \<Rightarrow> log_entry \<Rightarrow> raft_node \<Rightarrow>
       bytes option \<times> raft_node" where
  "applyConfigChange encp decc e n =
     (case le_data e of
        [] \<Rightarrow> (Some ''empty config change entry'', n)
      | op # data \<Rightarrow>
          (case decc data of
             None \<Rightarrow> (Some ''unmarshal'', n)
           | Some c \<Rightarrow>
               let p = pc_node c;
                   n' =
                     (if op = byte_of LogAddPeer then
                        let n1 = n\<lparr>rn_peers := AList.update p (pc_addr c) (rn_peers n)\<rparr> in
                        (if rn_next n1 p = None
                         then n1\<lparr>rn_next := (rn_next n1)(p \<mapsto> getLastLogIndex n1 + 1),
                                 rn_match := (rn_match n1)(p \<mapsto> 0)\<rparr>
                         else n1)
                      else if op = byte_of LogRemovePeer then
                        n\<lparr>rn_peers := AList.delete p (rn_peers n),
                          rn_next := (rn_next n)(p := None),
                          rn_match := (rn_match n)(p := None)\<rparr>
                      else n)
               in (None, n'\<lparr>rn_store := SetCluster encp (rn_store n') (rn_peers n')\<rparr>)))"

text \<open>
  \<open>AddPeer\<close> and \<open>RemovePeer\<close> up to the call of \<open>Propose\<close>: the bytes proposed, or the error.
\<close>

datatype raft_error = ErrNotLeader | CannotRemoveSelf | MarshalFailed

definition AddPeer ::
    "(peer_change \<Rightarrow> bytes option) \<Rightarrow> bytes \<Rightarrow> bytes \<Rightarrow> raft_node \<Rightarrow> raft_error + bytes" where
  "AddPeer encc nodeID addr n =
     (if rn_state n \<noteq> Leader then Inl ErrNotLeader
      else case encc \<lparr>pc_op = ''add'', pc_node = nodeID, pc_addr = addr\<rparr> of
          None \<Rightarrow> Inl MarshalFailed
        | Some data \<Rightarrow> Inr (byte_of LogAddPeer # data))"

definition RemovePeer ::
    "(peer_change \<Rightarrow> bytes option) \<Rightarrow> bytes \<Rightarrow> raft_node \<Rightarrow> raft_error + bytes" where
  "RemovePeer encc nodeID n =
     (if rn_state n \<noteq> Leader then Inl ErrNotLeader
      else if nodeID = rn_id n then Inl CannotRemoveSelf
      else case encc \<lparr>pc_op = ''remove'', pc_node = nodeID, pc_addr = []\<rparr> of
          None \<Rightarrow> Inl MarshalFailed
        | Some data \<Rightarrow> Inr (byte_of LogRemovePeer # data))"

text \<open>
  \<open>applyCommitted\<close> at start: the loop \<open>for i := applied + 1; i <= commitIdx; i++\<close>. With
  the largest \<open>uint64\<close> as commit index the counter wraps and the loop goes on from 0, hence
  the option.
\<close>

datatype start_error = StartGetLog u64 | StartApply u64 bytes

partial_function (option) apply_loop ::
    "'m apply_fun \<Rightarrow> u64 \<Rightarrow> u64 \<Rightarrow> raft_node \<times> 'm \<Rightarrow> (start_error option \<times> raft_node \<times> 'm) option" where
  [code]: "apply_loop app i commit st =
     (if i \<le> commit then
        (case GetLog (rn_store (fst st)) i of
           Inl _ \<Rightarrow> Some (Some (StartGetLog i), st)
         | Inr e \<Rightarrow>
             (case (if le_type e = LogCommand then app (le_term e) (le_index e) (le_data e) st
                    else (None, st)) of
                (Some err, st') \<Rightarrow> Some (Some (StartApply i err), st')
              | (None, st') \<Rightarrow> apply_loop app (i + 1) commit ((fst st')\<lparr>rn_applied := i\<rparr>, snd st')))
      else Some (None, st))"

definition applyCommitted ::
    "'m apply_fun \<Rightarrow> raft_node \<times> 'm \<Rightarrow> (start_error option \<times> raft_node \<times> 'm) option" where
  "applyCommitted app st =
     (let (n, m) = st;
          n1 = (case GetUint64 (rn_store n) KeyCommitIndex of Some i \<Rightarrow> n\<lparr>rn_commit := i\<rparr> | None \<Rightarrow> n);
          n2 = (case GetUint64 (rn_store n1) KeyLastApplied of Some i \<Rightarrow> n1\<lparr>rn_applied := i\<rparr> | None \<Rightarrow> n1)
      in case apply_loop app (rn_applied n2 + 1) (rn_commit n2) (n2, m) of
           None \<Rightarrow> None
         | Some (Some e, st') \<Rightarrow> Some (Some e, st')
         | Some (None, (n3, m')) \<Rightarrow> Some (None, set_applied (rn_applied n3) n3, m'))"

text \<open>\<open>Status\<close> and its parts.\<close>

definition LeaderAddr :: "raft_node \<Rightarrow> bytes" where
  "LeaderAddr n =
     (if rn_leader n = [] then []
      else case map_of (rn_peers n) (rn_leader n) of Some a \<Rightarrow> a | None \<Rightarrow> [])"

record raft_status =
  rs_node :: bytes
  rs_state :: bytes
  rs_term :: u64
  rs_commit :: u64
  rs_applied :: u64
  rs_leader :: bytes
  rs_leader_addr :: bytes
  rs_peers :: peers

definition raft_Status :: "raft_node \<Rightarrow> raft_status" where
  "raft_Status n =
     \<lparr>rs_node = rn_id n,
      rs_state =
        (case rn_state n of
           Follower \<Rightarrow> ''follower''
         | PreCandidate \<Rightarrow> ''pre-candidate''
         | Candidate \<Rightarrow> ''candidate''
         | Leader \<Rightarrow> ''leader''),
      rs_term = rn_term n, rs_commit = rn_commit n, rs_applied = rn_applied n,
      rs_leader = rn_leader n, rs_leader_addr = LeaderAddr n, rs_peers = rn_peers n\<rparr>"

section \<open>Persistence of term and vote\<close>

definition stable_term :: "kv \<Rightarrow> u64" where
  "stable_term s = (case GetUint64 s KeyCurrentTerm of Some t \<Rightarrow> t | None \<Rightarrow> 0)"

definition stable_vote :: "kv \<Rightarrow> bytes" where
  "stable_vote s = (case GetString s KeyVotedFor of Some v \<Rightarrow> v | None \<Rightarrow> [])"

definition persist_ok :: "raft_node \<Rightarrow> bool" where
  "persist_ok n \<longleftrightarrow> stable_term (rn_store n) = rn_term n \<and> stable_vote (rn_store n) = rn_voted n"

lemma stable_keys_distinct [simp]:
  "KeyCurrentTerm \<noteq> KeyVotedFor" "KeyVotedFor \<noteq> KeyCurrentTerm"
  "KeyCommitIndex \<noteq> KeyCurrentTerm" "KeyLastApplied \<noteq> KeyCurrentTerm"
  "KeyCurrentTerm \<noteq> KeyCommitIndex" "KeyCurrentTerm \<noteq> KeyLastApplied"
  "KeyCommitIndex \<noteq> KeyVotedFor" "KeyLastApplied \<noteq> KeyVotedFor"
  "KeyVotedFor \<noteq> KeyCommitIndex" "KeyVotedFor \<noteq> KeyLastApplied"
  "KeyClusterConfig \<noteq> KeyCurrentTerm" "KeyClusterConfig \<noteq> KeyVotedFor"
  "KeyCurrentTerm \<noteq> KeyClusterConfig" "KeyVotedFor \<noteq> KeyClusterConfig"
  by (simp_all add: stable_key_defs)

lemma stable_term_simps [raft_simps]:
  "stable_term (SetUint64 s KeyCurrentTerm t) = t"
  "stable_term (SetUint64 s KeyCommitIndex t) = stable_term s"
  "stable_term (SetUint64 s KeyLastApplied t) = stable_term s"
  "stable_term (SetString s KeyVotedFor c) = stable_term s"
  "stable_term (StoreLog s e) = stable_term s"
  by (simp_all add: stable_term_def raft_simps)

lemma stable_vote_simps [raft_simps]:
  "stable_vote (SetString s KeyVotedFor c) = c"
  "k \<noteq> KeyVotedFor \<Longrightarrow> stable_vote (SetUint64 s k t) = stable_vote s"
  by (simp_all add: stable_vote_def raft_simps)

lemma stable_vote_StoreLog [raft_simps]: "stable_vote (StoreLog s e) = stable_vote s"
  by (simp add: stable_vote_def raft_simps)

lemma stable_cluster [raft_simps]:
  "stable_term (SetCluster encp s ps) = stable_term s"
  "stable_vote (SetCluster encp s ps) = stable_vote s"
  "GetLog (SetCluster encp s ps) i = GetLog s i"
  "log_ok s \<Longrightarrow> log_ok (SetCluster encp s ps)"
  by (auto simp: stable_term_def stable_vote_def GetUint64_def GetString_def SetCluster_def GetLog_def
      log_ok_def kv_simps)
    (auto simp: stableKey_def raftLogPrefix_def raftStablePrefix_def split: if_splits)

lemma stable_DeleteRange:
  assumes "mx < - 1" "DeleteRange s mn mx = Some s'"
  shows "stable_term s' = stable_term s" "stable_vote s' = stable_vote s"
proof -
  have "engine_get s' (stableKey k) = engine_get s (stableKey k)" for k
    unfolding DeleteRange_get(1) [OF assms] by simp
  then show "stable_term s' = stable_term s" "stable_vote s' = stable_vote s"
    by (simp_all add: stable_term_def stable_vote_def GetUint64_def GetString_def)
qed

section \<open>The vote handler\<close>

lemma set_term_sel [raft_simps]:
  "rn_term (set_term t n) = t" "rn_voted (set_term t n) = rn_voted n"
  "rn_commit (set_term t n) = rn_commit n" "rn_applied (set_term t n) = rn_applied n"
  "rn_store (set_term t n) = SetUint64 (rn_store n) KeyCurrentTerm t"
  "rn_id (set_term t n) = rn_id n" "rn_state (set_term t n) = rn_state n"
  "rn_peers (set_term t n) = rn_peers n" "rn_timer (set_term t n) = rn_timer n"
  by (simp_all add: set_term_def)

lemma set_vote_sel [raft_simps]:
  "rn_term (set_vote c n) = rn_term n" "rn_voted (set_vote c n) = c"
  "rn_commit (set_vote c n) = rn_commit n" "rn_applied (set_vote c n) = rn_applied n"
  "rn_store (set_vote c n) = SetString (rn_store n) KeyVotedFor c"
  "rn_id (set_vote c n) = rn_id n" "rn_state (set_vote c n) = rn_state n"
  "rn_peers (set_vote c n) = rn_peers n" "rn_timer (set_vote c n) = rn_timer n"
  by (simp_all add: set_vote_def)

lemma set_commit_sel [raft_simps]:
  "rn_term (set_commit i n) = rn_term n" "rn_voted (set_commit i n) = rn_voted n"
  "rn_commit (set_commit i n) = i" "rn_applied (set_commit i n) = rn_applied n"
  "rn_store (set_commit i n) = SetUint64 (rn_store n) KeyCommitIndex i"
  "rn_id (set_commit i n) = rn_id n" "rn_state (set_commit i n) = rn_state n"
  "rn_peers (set_commit i n) = rn_peers n" "rn_proposals (set_commit i n) = rn_proposals n"
  by (simp_all add: set_commit_def)

lemma set_applied_sel [raft_simps]:
  "rn_term (set_applied i n) = rn_term n" "rn_voted (set_applied i n) = rn_voted n"
  "rn_commit (set_applied i n) = rn_commit n" "rn_applied (set_applied i n) = i"
  "rn_store (set_applied i n) = SetUint64 (rn_store n) KeyLastApplied i"
  "rn_id (set_applied i n) = rn_id n" "rn_state (set_applied i n) = rn_state n"
  "rn_peers (set_applied i n) = rn_peers n" "rn_proposals (set_applied i n) = rn_proposals n"
  by (simp_all add: set_applied_def)

lemma resetElectionTimer_sel [raft_simps]:
  "rn_term (resetElectionTimer n) = rn_term n" "rn_voted (resetElectionTimer n) = rn_voted n"
  "rn_commit (resetElectionTimer n) = rn_commit n" "rn_applied (resetElectionTimer n) = rn_applied n"
  "rn_store (resetElectionTimer n) = rn_store n" "rn_id (resetElectionTimer n) = rn_id n"
  "rn_state (resetElectionTimer n) = rn_state n" "rn_peers (resetElectionTimer n) = rn_peers n"
  by (simp_all add: resetElectionTimer_def)

text \<open>
  One step keeps the voting promise: the term does not go back, a vote given in a term is kept for
  that term, and term and vote stay equal to their persisted copies.
\<close>

definition vote_step :: "raft_node \<Rightarrow> raft_node \<Rightarrow> bool" where
  "vote_step n n' \<longleftrightarrow>
     rn_term n \<le> rn_term n' \<and>
     (rn_term n' = rn_term n \<longrightarrow> rn_voted n \<noteq> [] \<longrightarrow> rn_voted n' = rn_voted n) \<and>
     (persist_ok n \<longrightarrow> persist_ok n')"

lemma vote_step_refl [raft_inv]: "vote_step n n"
  by (simp add: vote_step_def)

lemma vote_step_trans [trans]: "vote_step a b \<Longrightarrow> vote_step b c \<Longrightarrow> vote_step a c"
  unfolding vote_step_def by (metis order_antisym order_trans)

lemma vote_step_same [raft_inv]:
  "rn_term n' = rn_term n \<Longrightarrow> rn_voted n' = rn_voted n \<Longrightarrow>
     stable_term (rn_store n') = stable_term (rn_store n) \<Longrightarrow>
     stable_vote (rn_store n') = stable_vote (rn_store n) \<Longrightarrow> vote_step n n'"
  by (simp add: vote_step_def persist_ok_def)

lemma log_up_to_date_cong:
  "LastIndex (rn_store n') = LastIndex (rn_store n) \<Longrightarrow>
     GetLog (rn_store n') (LastIndex (rn_store n)) = GetLog (rn_store n) (LastIndex (rn_store n)) \<Longrightarrow>
     log_up_to_date req n' = log_up_to_date req n"
  by (simp add: log_up_to_date_def getLastLogTerm_def getLastLogIndex_def Let_def)

lemma vote_step_HandleRequestVote [raft_inv]:
  "HandleRequestVote req n = (resp, n') \<Longrightarrow> vote_step n n'"
  by (auto simp: HandleRequestVote_def vote_step_def persist_ok_def raft_simps Let_def
      split: if_splits)

lemma HandleRequestVote_grant:
  "HandleRequestVote req n = (resp, n') \<Longrightarrow> rv_granted resp \<Longrightarrow> \<not> rv_prevote req \<Longrightarrow>
     rn_voted n' = rv_candidate req \<and> rn_term n' = rv_term req \<and> rv_resp_term resp = rv_term req \<and>
     rn_state n' = Follower \<and> stable_vote (rn_store n') = rv_candidate req \<and> log_up_to_date req n"
  using log_up_to_date_cong [of "(set_vote [] (set_term (rv_term req) n))\<lparr>rn_state := Follower, rn_leader := []\<rparr>" n req]
  by (auto simp: HandleRequestVote_def raft_simps Let_def not_less split: if_splits)

lemma HandleRequestVote_frame [raft_simps]:
  "HandleRequestVote req n = (resp, n') \<Longrightarrow>
     rn_commit n' = rn_commit n \<and> rn_applied n' = rn_applied n \<and>
     LastIndex (rn_store n') = LastIndex (rn_store n) \<and>
     (\<forall>i. log_at (rn_store n') i = log_at (rn_store n) i)"
  by (auto simp: HandleRequestVote_def raft_simps Let_def split: if_splits)

section \<open>Collecting committed entries\<close>

text \<open>What a step that touches only the applied index, the proposals and the peers leaves alone.\<close>

definition same_raft :: "raft_node \<Rightarrow> raft_node \<Rightarrow> bool" where
  "same_raft n n' \<longleftrightarrow>
     rn_id n' = rn_id n \<and> rn_term n' = rn_term n \<and> rn_voted n' = rn_voted n \<and> rn_state n' = rn_state n \<and>
     rn_commit n' = rn_commit n \<and>
     stable_term (rn_store n') = stable_term (rn_store n) \<and>
     stable_vote (rn_store n') = stable_vote (rn_store n) \<and>
     LastIndex (rn_store n') = LastIndex (rn_store n) \<and>
     (\<forall>i. GetLog (rn_store n') i = GetLog (rn_store n) i) \<and>
     (log_ok (rn_store n) \<longrightarrow> log_ok (rn_store n'))"

lemma same_raft_refl [raft_inv]: "same_raft n n"
  by (simp add: same_raft_def)

lemma same_raft_trans: "same_raft a b \<Longrightarrow> same_raft b c \<Longrightarrow> same_raft a c"
  by (simp add: same_raft_def)

lemma same_raft_vote_step: "same_raft n n' \<Longrightarrow> vote_step n n'"
  by (simp add: same_raft_def vote_step_def persist_ok_def)

lemma collect_frame:
  "same_raft n (snd (collectApplyOps n))"
proof (induction n rule: collectApplyOps.induct)
  case (1 n)
  show ?case
  proof (cases "rn_applied n < rn_commit n")
    case False
    then show ?thesis by (subst collectApplyOps.simps) (simp add: same_raft_refl)
  next
    case True
    show ?thesis
    proof (cases "GetLog (rn_store n) (rn_applied n + 1)")
      case (Inl a)
      then show ?thesis using True by (subst collectApplyOps.simps) (simp add: same_raft_refl)
    next
      case (Inr e)
      let ?n = "(set_applied (rn_applied n + 1) n)
        \<lparr>rn_proposals := (rn_proposals n)(rn_applied n + 1 := None)\<rparr>"
      have "same_raft n ?n" by (simp add: same_raft_def raft_simps)
      moreover have "same_raft ?n (snd (collectApplyOps ?n))"
        using 1 True Inr by simp
      ultimately show ?thesis
        using True Inr same_raft_trans
        by (subst collectApplyOps.simps) (auto simp: Let_def split: prod.splits)
    qed
  qed
qed

text \<open>
  The collected entries are those from \<open>lastApplied + 1\<close> on, each once and in order, up to the
  commit index or the first entry that cannot be read.
\<close>

lemma collect_entries:
  assumes "collectApplyOps n = (ops, n')" "rn_applied n \<le> rn_commit n"
  shows "rn_applied n \<le> rn_applied n' \<and> rn_applied n' \<le> rn_commit n \<and>
    unat (rn_applied n') = unat (rn_applied n) + length ops \<and>
    (\<forall>k < length ops. GetLog (rn_store n) (rn_applied n + 1 + word_of_nat k) = Inr (ao_entry (ops ! k))) \<and>
    (rn_applied n' = rn_commit n \<or> (\<exists>e. GetLog (rn_store n) (rn_applied n' + 1) = Inl e))"
  using assms
proof (induction n arbitrary: ops n' rule: collectApplyOps.induct)
  case (1 n)
  show ?case
  proof (cases "rn_applied n < rn_commit n")
    case False
    then show ?thesis using 1(2,3) by (subst (asm) collectApplyOps.simps) auto
  next
    case True
    show ?thesis
    proof (cases "GetLog (rn_store n) (rn_applied n + 1)")
      case (Inl a)
      then show ?thesis using True 1(2,3) by (subst (asm) collectApplyOps.simps) auto
    next
      case (Inr e)
      let ?n = "(set_applied (rn_applied n + 1) n)
        \<lparr>rn_proposals := (rn_proposals n)(rn_applied n + 1 := None)\<rparr>"
      let ?op = "\<lparr>ao_entry = e, ao_proposal = rn_proposals n (rn_applied n + 1)\<rparr>"
      obtain ops' where ops': "collectApplyOps ?n = (ops', n')" "ops = ?op # ops'"
        using True Inr 1(2) by (subst (asm) collectApplyOps.simps) (auto simp: Let_def split: prod.splits)
      have IH: "rn_applied n + 1 \<le> rn_applied n' \<and> rn_applied n' \<le> rn_commit n \<and>
          unat (rn_applied n') = unat (rn_applied n + 1) + length ops' \<and>
          (\<forall>k < length ops'. GetLog (rn_store n) (rn_applied n + 1 + 1 + word_of_nat k) =
             Inr (ao_entry (ops' ! k))) \<and>
          (rn_applied n' = rn_commit n \<or> (\<exists>e. GetLog (rn_store n) (rn_applied n' + 1) = Inl e))"
        using 1(1) [OF True _ Inr _ _ ops'(1)] u64_inc_le [OF True] by (simp add: raft_simps)
      have "GetLog (rn_store n) (rn_applied n + 1 + word_of_nat k) = Inr (ao_entry (ops ! k))"
        if "k < length ops" for k
        using that IH Inr ops'(2) by (cases k) (auto simp: add.assoc)
      moreover have "rn_applied n \<le> rn_applied n'"
        using IH u64_less_inc [OF True] by (meson less_imp_le order_trans)
      ultimately show ?thesis
        using IH ops'(2) u64_inc_less [OF True] by simp
    qed
  qed
qed

section \<open>Appending entries\<close>

text \<open>Entries numbered one after the other from \<open>p + 1\<close> on, as a leader sends them.\<close>

fun consecutive :: "u64 \<Rightarrow> log_entry list \<Rightarrow> bool" where
  "consecutive p [] \<longleftrightarrow> True"
| "consecutive p (e # es) \<longleftrightarrow> le_index e = p + 1 \<and> consecutive (p + 1) es"

lemma consecutive_index:
  "consecutive p es \<Longrightarrow> unat p + length es < 2 ^ 64 \<Longrightarrow> e \<in> set es \<Longrightarrow>
     unat p < unat (le_index e) \<and> unat (le_index e) \<le> unat p + length es"
proof (induction es arbitrary: p)
  case Nil
  then show ?case by simp
next
  case (Cons a es)
  have "unat (p + 1) = unat p + 1" using Cons.prems(2) by (intro u64_inc_unat) simp
  then show ?case using Cons.IH [of "p + 1"] Cons.prems by auto
qed

lemma append_entry_known:
  "log_ok s \<Longrightarrow> log_at s (le_index e) = Some old \<Longrightarrow> le_term old = le_term e \<Longrightarrow>
     append_entry s e = Some s"
  by (simp add: append_entry_def GetLog_log_at)

lemma append_entry_new:
  "log_ok s \<Longrightarrow> log_at s (le_index e) = None \<Longrightarrow> append_entry s e = Some (StoreLog s e)"
  by (simp add: append_entry_def GetLog_log_at)

text \<open>The conflict branch: the old entry and everything after it go, the new entry is not stored.\<close>

lemma append_entry_conflict:
  assumes s: "log_ok s" "rl.contig s" "LastIndex s < - 1"
    and old: "log_at s (le_index e) = Some old" "le_term old \<noteq> le_term e"
  obtains s' where "append_entry s e = Some s'" "log_ok s'" "rl.contig s'"
    "LastIndex s' = le_index e - 1" "log_at s' (le_index e) = None"
    "\<And>i. i < le_index e \<Longrightarrow> log_at s' i = log_at s i"
    "stable_term s' = stable_term s" "stable_vote s' = stable_vote s"
proof -
  have le: "le_index e \<le> LastIndex s" and pos: "0 < le_index e"
    using rl.last_upper [OF s(1) old(1)] old(1) s(2) by (auto simp: rl.contig_def)
  obtain s' where s': "DeleteRange s (le_index e) (LastIndex s) = Some s'"
    using DeleteRange_result [OF s(3)] by metis
  note trunc = rl.contig_truncate [OF s(1,2) pos le, of s']
  note at = log_at_DeleteRange [OF s(3) s']
  show thesis
  proof (rule that [of s'])
    show "append_entry s e = Some s'"
      using s(1) old le s' by (simp add: append_entry_def GetLog_log_at)
    show "log_ok s'" by (rule log_ok_DeleteRange [OF s(1,3) s'])
    show "rl.contig s'" "LastIndex s' = le_index e - 1"
      using trunc s(3) s' by simp_all
    show "log_at s' (le_index e) = None" using at [of "le_index e"] le by simp
    show "log_at s' i = log_at s i" if "i < le_index e" for i
      using at [of i] that [folded not_le] by simp
  qed (rule stable_DeleteRange [OF s(3) s'])+
qed

lemma append_entries_agree:
  assumes "log_ok s" "rl.contig s" "p \<le> LastIndex s" "consecutive p es"
    "unat p + length es < 2 ^ 64"
    "\<And>e old. e \<in> set es \<Longrightarrow> log_at s (le_index e) = Some old \<Longrightarrow> old = e"
  shows "\<exists>s'. append_entries s es = Some s' \<and> log_ok s' \<and> rl.contig s' \<and>
    (\<forall>e \<in> set es. log_at s' (le_index e) = Some e) \<and>
    (\<forall>i. i \<notin> le_index ` set es \<longrightarrow> log_at s' i = log_at s i) \<and>
    LastIndex s' = max (LastIndex s) (p + word_of_nat (length es)) \<and>
    stable_term s' = stable_term s \<and> stable_vote s' = stable_vote s"
  using assms
proof (induction es arbitrary: p s)
  case Nil
  then show ?case by (simp add: max_def)
next
  case (Cons e es)
  have inc: "unat (p + 1) = unat p + 1" using Cons.prems(5) by (intro u64_inc_unat) simp
  then have less: "p < p + 1" by (simp add: word_less_nat_alt)
  have e: "le_index e = p + 1" "consecutive (p + 1) es" using Cons.prems(4) by simp_all
  have bound: "unat (p + 1) + length es < 2 ^ 64" using Cons.prems(5) inc by simp
  have other: "le_index e \<noteq> le_index e'" if "e' \<in> set es" for e'
    using consecutive_index [OF e(2) bound that] e(1) by auto
  have sum: "p + word_of_nat (length (e # es)) = p + 1 + word_of_nat (length es)" by simp
  show ?case
  proof (cases "log_at s (le_index e)")
    case (Some old)
    then have old: "old = e" using Cons.prems(6) [of e old] by simp
    have "p + 1 \<le> LastIndex s" using rl.last_upper [OF Cons.prems(1) Some] e(1) by simp
    then obtain s' where s': "append_entries s es = Some s'" "log_ok s'" "rl.contig s'"
      "\<forall>e \<in> set es. log_at s' (le_index e) = Some e"
      "\<forall>i. i \<notin> le_index ` set es \<longrightarrow> log_at s' i = log_at s i"
      "LastIndex s' = max (LastIndex s) (p + 1 + word_of_nat (length es))"
      "stable_term s' = stable_term s" "stable_vote s' = stable_vote s"
      using Cons.IH [OF Cons.prems(1,2) _ e(2) bound] Cons.prems(6) by (metis list.set_intros(2))
    have "log_at s' (le_index e) = Some e"
      using s'(5) other Some old by (metis (no_types, lifting) imageE)
    then show ?thesis
      using s' append_entry_known [OF Cons.prems(1) Some] old unfolding sum
      by (intro exI [of _ s']) auto
  next
    case None
    have "\<not> p + 1 \<le> LastIndex s"
      using None e(1) less rl.contig_get [OF Cons.prems(2), of "p + 1"]
      by (metis not_less option.distinct(1) word_gt_0 word_zero_le)
    then have last: "LastIndex s = p"
      using Cons.prems(3) u64_inc_le [of p "LastIndex s"] by force
    have max: "LastIndex s < - 1" using less last by (simp add: word_less_nat_alt) (metis less_le less last word_order.extremum_strict word_less_nat_alt not_less)
    let ?s = "StoreLog s e"
    have store: "rl.contig ?s" "LastIndex ?s = p + 1"
      using rl.contig_store_next [OF Cons.prems(1,2) _ max] e(1) last by simp_all
    have ok: "log_ok ?s" by (rule log_ok_StoreLog [OF Cons.prems(1)])
    have agree: "old = e'" if "e' \<in> set es" "log_at ?s (le_index e') = Some old" for e' old
      using that other [OF that(1)] Cons.prems(6) [of e' old] by (simp add: log_at_StoreLog)
    obtain s' where s': "append_entries ?s es = Some s'" "log_ok s'" "rl.contig s'"
      "\<forall>e \<in> set es. log_at s' (le_index e) = Some e"
      "\<forall>i. i \<notin> le_index ` set es \<longrightarrow> log_at s' i = log_at ?s i"
      "LastIndex s' = max (p + 1) (p + 1 + word_of_nat (length es))"
      "stable_term s' = stable_term ?s" "stable_vote s' = stable_vote ?s"
      using Cons.IH [OF ok store(1) _ e(2) bound agree] store(2) by (metis order_refl)
    have "p + 1 \<le> p + 1 + word_of_nat (length es)"
      using bound by (simp add: word_le_nat_alt unat_word_ariths unat_of_nat)
    then have "LastIndex s' = max (LastIndex s) (p + word_of_nat (length (e # es)))"
      unfolding s'(6) sum last using less by (auto simp: max_def)
    moreover have "log_at s' (le_index e) = Some e"
      using s'(5) other by (metis (no_types, lifting) imageE log_at_StoreLog)
    ultimately show ?thesis
      using s' append_entry_new [OF Cons.prems(1) None] by (intro exI [of _ s']) (auto simp: log_at_StoreLog raft_simps)
  qed
qed

section \<open>Properties\<close>

text \<open>
  A granted vote (not a pre-vote) is for the term of the request, is in the node's memory and on
  its disk before the reply is sent, and goes only to a candidate whose last log entry is at least as
  up to date as the voter's own.
\<close>

lemma granted_vote_is_recorded:
  assumes "HandleRequestVote req n = (resp, n')" "rv_granted resp" "\<not> rv_prevote req"
  shows "rn_voted n' = rv_candidate req \<and> rn_term n' = rv_term req \<and> rv_resp_term resp = rv_term req \<and>
    stable_vote (rn_store n') = rv_candidate req \<and> rn_state n' = Follower \<and>
    (rv_last_term req > getLastLogTerm n \<or>
     rv_last_term req = getLastLogTerm n \<and> rv_last_index req \<ge> getLastLogIndex n)"
  using HandleRequestVote_grant [OF assms] by (simp add: log_up_to_date_def)

definition sample_node :: raft_node where
  "sample_node =
     \<lparr>rn_id = ''n1'', rn_state = Follower, rn_term = 0, rn_voted = [], rn_commit = 0, rn_applied = 0,
      rn_leader = [], rn_next = (\<lambda>_. None), rn_match = (\<lambda>_. None), rn_ticker = False, rn_timer = 0,
      rn_proposals = (\<lambda>_. None), rn_peers = [(''n1'', ''a1''), (''n2'', ''a2''), (''n3'', ''a3'')],
      rn_store = kv_empty\<rparr>"

definition vote_request :: "bytes \<Rightarrow> u64 \<Rightarrow> RequestVoteRequest" where
  "vote_request c t =
     \<lparr>rv_term = t, rv_candidate = c, rv_last_index = 0, rv_last_term = 0, rv_prevote = False\<rparr>"

lemma vote_request_sel [simp]:
  "rv_term (vote_request c t) = t" "rv_candidate (vote_request c t) = c"
  "rv_last_index (vote_request c t) = 0" "rv_last_term (vote_request c t) = 0"
  "\<not> rv_prevote (vote_request c t)"
  by (simp_all add: vote_request_def)

text \<open>On an empty log a vote request of a new term is granted.\<close>

lemma vote_on_empty_log:
  assumes "LastIndex (rn_store n) = 0" "rn_term n < t \<or> rn_term n = t \<and> rn_voted n = []"
  shows "rv_granted (fst (HandleRequestVote (vote_request c t) n))"
    "rn_term (snd (HandleRequestVote (vote_request c t) n)) = t"
    "rn_voted (snd (HandleRequestVote (vote_request c t) n)) = c"
    "LastIndex (rn_store (snd (HandleRequestVote (vote_request c t) n))) = 0"
proof -
  have up: "log_up_to_date (vote_request c t) x" if "LastIndex (rn_store x) = 0" for x
    using that by (simp add: log_up_to_date_def getLastLogTerm_def getLastLogIndex_def)
  have le: "\<not> t < rn_term n" using assms(2) by auto
  show "rv_granted (fst (HandleRequestVote (vote_request c t) n))"
    "rn_term (snd (HandleRequestVote (vote_request c t) n)) = t"
    "rn_voted (snd (HandleRequestVote (vote_request c t) n)) = c"
    "LastIndex (rn_store (snd (HandleRequestVote (vote_request c t) n))) = 0"
    using assms(2) le
    by (elim disjE; simp add: HandleRequestVote_def Let_def up assms(1) raft_simps)+
qed

text \<open>Answering a pre-vote changes nothing on the node, whatever the answer is.\<close>

lemma prevote_changes_nothing:
  assumes "rv_prevote req" "rn_term n \<le> rv_term req"
  shows "snd (HandleRequestVote req n) = n"
  using assms by (auto simp: HandleRequestVote_def)

text \<open>
  The entries handed to the state machine are those from \<open>lastApplied + 1\<close> on, each exactly
  once and in log order; on a log without gaps that holds the commit index, all committed entries are
  handed out.
\<close>

lemma collect_applies_committed_once:
  assumes "log_ok (rn_store n)" "rl.contig (rn_store n)" "rn_applied n \<le> rn_commit n"
    "rn_commit n \<le> LastIndex (rn_store n)" "collectApplyOps n = (ops, n')"
  shows "rn_applied n' = rn_commit n \<and> length ops = unat (rn_commit n) - unat (rn_applied n) \<and>
    (\<forall>k < length ops. GetLog (rn_store n) (rn_applied n + 1 + word_of_nat k) = Inr (ao_entry (ops ! k)))"
proof -
  note c = collect_entries [OF assms(5,3)]
  have "rn_applied n' = rn_commit n"
  proof (rule ccontr)
    assume ne: "rn_applied n' \<noteq> rn_commit n"
    then have lt: "rn_applied n' < rn_commit n" using c by (metis order.not_eq_order_implies_strict)
    have "0 < rn_applied n' + 1" using u64_less_inc [OF lt] by (metis word_gt_0 word_zero_le not_le)
    moreover have "rn_applied n' + 1 \<le> LastIndex (rn_store n)"
      using u64_inc_le [OF lt] assms(4) by (rule order_trans)
    ultimately obtain e where "log_at (rn_store n) (rn_applied n' + 1) = Some e"
      using rl.contig_get [OF assms(2)] by blast
    then show False using c ne GetLog_log_at [OF assms(1)] by auto
  qed
  then show ?thesis using c by auto
qed

text \<open>
  A node that crashes and starts again on its storage has the term and the vote it had, so it
  cannot vote twice in a term by restarting; what it knew of leader, commit and peers' progress is
  reset.
\<close>

lemma restart_keeps_term_and_vote:
  assumes "persist_ok n" "NewNode decp i a hasApply ps (rn_store n) = Inr n'"
  shows "rn_term n' = rn_term n \<and> rn_voted n' = rn_voted n \<and> persist_ok n' \<and> rn_state n' = Follower \<and>
    rn_commit n' = 0 \<and> rn_applied n' = 0"
  using assms by (auto simp: NewNode_def persist_ok_def stable_term_def stable_vote_def split: if_splits)

end
