(* ===== verification/RaftAppend.thy ===== *)
theory RaftAppend
  imports RaftNode
begin

text \<open>
  What \<open>HandleAppendEntries\<close> (\<^verbatim>\<open>internal/raft/transport.go\<close>) does to the node. The
  contract of the callback \<open>cfg.Apply\<close> is the locale \<open>apply_callback\<close>: applying a command
  may change the state machine and the cluster configuration, and leaves term, vote, log and
  commit index alone.
\<close>

locale apply_callback =
  fixes app :: "'m apply_fun"
  assumes app_frame: "app t i d st = (err, st') \<Longrightarrow>
      same_raft (fst st) (fst st') \<and> rn_applied (fst st') = rn_applied (fst st)"
begin

lemma doApply_frame:
  "doApply app ops st = (as, st') \<Longrightarrow>
     same_raft (fst st) (fst st') \<and> rn_applied (fst st') = rn_applied (fst st)"
proof (induction ops arbitrary: st as)
  case Nil
  then show ?case by (simp add: same_raft_refl)
next
  case (Cons op ops)
  obtain err st1 as1 where step: "doApply app ops st1 = (as1, st')"
    "(if le_type (ao_entry op) = LogCommand
      then app (le_term (ao_entry op)) (le_index (ao_entry op)) (le_data (ao_entry op)) st
      else (None, st)) = (err, st1)"
    using Cons.prems by (auto simp: Let_def split: prod.splits)
  have "same_raft (fst st) (fst st1) \<and> rn_applied (fst st1) = rn_applied (fst st)"
    using step(2) app_frame by (auto simp: same_raft_refl split: if_splits)
  then show ?case using Cons.IH [OF step(1)] same_raft_trans by metis
qed

text \<open>An accepted request, after the consistency check: append, commit, apply.\<close>

lemma accepted_frame:
  assumes "HandleAppendEntries app req (n, m) = Some (resp, as, n', m')" "ae_success resp"
  obtains s' n2 where
    "append_entries (rn_store (adopt_leader req n)) (ae_entries req) = Some s'"
    "n2 = snd (follow_commit (ae_commit req) ((adopt_leader req n)\<lparr>rn_store := s'\<rparr>))"
    "same_raft n2 n'" "rn_applied n' = rn_applied n2"
    "\<not> ae_term req < rn_term n" "ae_resp_term resp = ae_term req"
proof -
  let ?n1 = "adopt_leader req n"
  obtain s' where s': "append_entries (rn_store ?n1) (ae_entries req) = Some s'"
    and t: "\<not> ae_term req < rn_term n" "ae_resp_term resp = ae_term req"
    and n': "(case follow_commit (ae_commit req) (?n1\<lparr>rn_store := s'\<rparr>) of (ops, n2) \<Rightarrow>
        case doApply app ops (n2, m) of (as, n3, m') \<Rightarrow> (as, resetElectionTimer n3, m')) = (as, n', m')"
    using assms
    by (auto simp: HandleAppendEntries_def Let_def split: if_splits option.splits prod.splits)
  obtain ops n2 where n2: "follow_commit (ae_commit req) (?n1\<lparr>rn_store := s'\<rparr>) = (ops, n2)" by force
  obtain as3 n3 m3 where n3: "doApply app ops (n2, m) = (as3, n3, m3)" by (metis prod.exhaust)
  have "n' = resetElectionTimer n3" using n' n2 n3 by simp
  then have "same_raft n2 n'" "rn_applied n' = rn_applied n2"
    using doApply_frame [OF n3] by (auto simp: same_raft_def raft_simps)
  then show thesis using that s' n2 t by simp
qed

end

section \<open>The parts of the handler\<close>

lemma adopt_leader_frame:
  assumes "\<not> ae_term req < rn_term n"
  shows "vote_step n (adopt_leader req n)"
    and "rn_term (adopt_leader req n) = ae_term req" "rn_state (adopt_leader req n) = Follower"
    and "rn_leader (adopt_leader req n) = ae_leader req"
    and "rn_commit (adopt_leader req n) = rn_commit n" "rn_applied (adopt_leader req n) = rn_applied n"
    and "LastIndex (rn_store (adopt_leader req n)) = LastIndex (rn_store n)"
    and "GetLog (rn_store (adopt_leader req n)) i = GetLog (rn_store n) i"
    and "log_at (rn_store (adopt_leader req n)) i = log_at (rn_store n) i"
    and "log_ok (rn_store n) \<Longrightarrow> log_ok (rn_store (adopt_leader req n))"
  using assms
  by (auto simp: adopt_leader_def vote_step_def persist_ok_def Let_def raft_simps not_less)

lemma follow_commit_frame:
  assumes "follow_commit c n = (ops, n')"
  shows "rn_term n' = rn_term n" "rn_voted n' = rn_voted n" "rn_state n' = rn_state n"
    "stable_term (rn_store n') = stable_term (rn_store n)"
    "stable_vote (rn_store n') = stable_vote (rn_store n)"
    "LastIndex (rn_store n') = LastIndex (rn_store n)"
    "GetLog (rn_store n') i = GetLog (rn_store n) i"
    "rn_commit n' = (if c > rn_commit n then min c (LastIndex (rn_store n)) else rn_commit n)"
    "log_ok (rn_store n) \<Longrightarrow> log_ok (rn_store n')"
proof -
  let ?c = "set_commit (min c (getLastLogIndex n)) n"
  have "same_raft ?c n' \<or> \<not> c > rn_commit n \<and> n' = n"
    using assms collect_frame [of ?c] by (auto simp: follow_commit_def split: if_splits)
  then show "rn_term n' = rn_term n" "rn_voted n' = rn_voted n" "rn_state n' = rn_state n"
    "stable_term (rn_store n') = stable_term (rn_store n)"
    "stable_vote (rn_store n') = stable_vote (rn_store n)"
    "LastIndex (rn_store n') = LastIndex (rn_store n)"
    "GetLog (rn_store n') i = GetLog (rn_store n) i"
    "log_ok (rn_store n) \<Longrightarrow> log_ok (rn_store n')"
    by (auto simp: same_raft_def raft_simps)
  show "rn_commit n' = (if c > rn_commit n then min c (LastIndex (rn_store n)) else rn_commit n)"
    using assms collect_frame [of ?c]
    by (auto simp: follow_commit_def same_raft_def raft_simps getLastLogIndex_def split: if_splits)
qed

lemma follow_commit_applied:
  assumes "follow_commit c n = (ops, n')" "rn_applied n \<le> rn_commit n" "rn_commit n \<le> LastIndex (rn_store n)"
    "log_ok (rn_store n)" "rl.contig (rn_store n)"
  shows "rn_applied n' = (if c > rn_commit n then rn_commit n' else rn_applied n)"
proof (cases "c > rn_commit n")
  case False
  then show ?thesis using assms(1) by (simp add: follow_commit_def)
next
  case True
  let ?c = "set_commit (min c (getLastLogIndex n)) n"
  have c: "collectApplyOps ?c = (ops, n')" using assms(1) True by (simp add: follow_commit_def)
  have last: "getLastLogIndex n = LastIndex (rn_store n)" by (simp add: getLastLogIndex_def)
  have "rn_applied ?c \<le> rn_commit ?c"
    using assms(2,3) True unfolding raft_simps last min.bounded_iff
    by (meson le_less_trans less_imp_le order_trans)
  from collect_entries [OF c this] have e: "rn_applied n' \<le> rn_commit ?c"
    "rn_applied n' = rn_commit ?c \<or> (\<exists>e. GetLog (rn_store ?c) (rn_applied n' + 1) = Inl e)" by auto
  have "rn_applied n' = rn_commit ?c"
  proof (rule ccontr)
    assume ne: "rn_applied n' \<noteq> rn_commit ?c"
    then have lt: "rn_applied n' < rn_commit ?c" using e(1) by simp
    have "rn_applied n' + 1 \<le> LastIndex (rn_store n)"
      using u64_inc_le [OF lt] last by (simp add: raft_simps)
    moreover have "0 < rn_applied n' + 1"
      using u64_less_inc [OF lt] by (metis word_gt_0 word_zero_le not_le)
    ultimately have "\<exists>e. log_at (rn_store n) (rn_applied n' + 1) = Some e"
      using rl.contig_get [OF assms(5)] by blast
    then show False
      using e(2) ne GetLog_log_at [OF assms(4)] by (auto simp: raft_simps)
  qed
  moreover have "rn_commit n' = rn_commit ?c"
    using collect_frame [of ?c] c by (simp add: same_raft_def)
  ultimately show ?thesis using True by simp
qed

section \<open>The node invariant\<close>

text \<open>
  The log has no gaps, applied entries are committed, committed entries are in the log, and term and
  vote are persisted.
\<close>

definition node_inv :: "raft_node \<Rightarrow> bool" where
  "node_inv n \<longleftrightarrow>
     log_ok (rn_store n) \<and> rl.contig (rn_store n) \<and> rn_applied n \<le> rn_commit n \<and>
     rn_commit n \<le> LastIndex (rn_store n) \<and> persist_ok n"

lemma contig_cong:
  "LastIndex t = LastIndex s \<Longrightarrow> (\<And>i. log_at t i = log_at s i) \<Longrightarrow> rl.contig s \<Longrightarrow> rl.contig t"
  by (simp add: rl.contig_def)

lemma log_at_GetLog_cong: "GetLog t i = GetLog s i \<Longrightarrow> log_at t i = log_at s i"
  by (simp add: log_at_def)

lemma node_inv_same_raft:
  "node_inv n \<Longrightarrow> same_raft n n' \<Longrightarrow> rn_applied n' = rn_applied n \<Longrightarrow> node_inv n'"
  unfolding node_inv_def same_raft_def persist_ok_def
  by (auto intro: contig_cong log_at_GetLog_cong)

text \<open>
  A request whose entries follow \<open>PrevLogIndex\<close> one after the other and agree with the log where
  the log already has an entry.
\<close>

definition agrees :: "AppendEntriesRequest \<Rightarrow> kv \<Rightarrow> bool" where
  "agrees req s \<longleftrightarrow>
     consecutive (ae_prev_index req) (ae_entries req) \<and>
     unat (ae_prev_index req) + length (ae_entries req) < 2 ^ 64 \<and>
     (\<forall>e \<in> set (ae_entries req). \<forall>old. log_at s (le_index e) = Some old \<longrightarrow> old = e)"

context apply_callback begin

lemma accepted_agreeing:
  assumes inv: "node_inv n" and ag: "agrees req (rn_store n)"
    and prev: "ae_prev_index req \<le> LastIndex (rn_store n)"
    and h: "HandleAppendEntries app req (n, m) = Some (resp, as, n', m')" "ae_success resp"
  shows "node_inv n'"
    and "\<forall>e \<in> set (ae_entries req). log_at (rn_store n') (le_index e) = Some e"
    and "\<forall>i. i \<notin> le_index ` set (ae_entries req) \<longrightarrow> log_at (rn_store n') i = log_at (rn_store n) i"
    and "LastIndex (rn_store n') =
      max (LastIndex (rn_store n)) (ae_prev_index req + word_of_nat (length (ae_entries req)))"
    and "rn_commit n' = max (rn_commit n) (min (ae_commit req) (LastIndex (rn_store n')))"
    and "rn_commit n < ae_commit req \<longrightarrow> rn_applied n' = rn_commit n'"
proof -
  let ?n1 = "adopt_leader req n"
  obtain s' n2 where f: "append_entries (rn_store ?n1) (ae_entries req) = Some s'"
    "n2 = snd (follow_commit (ae_commit req) (?n1\<lparr>rn_store := s'\<rparr>))"
    "same_raft n2 n'" "rn_applied n' = rn_applied n2" "\<not> ae_term req < rn_term n"
    using accepted_frame [OF h] by metis
  note ad = adopt_leader_frame [OF f(5)]
  have n: "log_ok (rn_store n)" "rl.contig (rn_store n)" "rn_applied n \<le> rn_commit n"
    "rn_commit n \<le> LastIndex (rn_store n)" "persist_ok n"
    using inv by (auto simp: node_inv_def)
  have c1: "rl.contig (rn_store ?n1)" by (rule contig_cong [OF ad(7) ad(9) n(2)])
  have "\<exists>t. append_entries (rn_store ?n1) (ae_entries req) = Some t \<and> log_ok t \<and> rl.contig t \<and>
      (\<forall>e \<in> set (ae_entries req). log_at t (le_index e) = Some e) \<and>
      (\<forall>i. i \<notin> le_index ` set (ae_entries req) \<longrightarrow> log_at t i = log_at (rn_store ?n1) i) \<and>
      LastIndex t = max (LastIndex (rn_store ?n1)) (ae_prev_index req + word_of_nat (length (ae_entries req))) \<and>
      stable_term t = stable_term (rn_store ?n1) \<and> stable_vote t = stable_vote (rn_store ?n1)"
    using ag prev unfolding agrees_def
    by (intro append_entries_agree [OF ad(10) [OF n(1)] c1]) (auto simp: ad)
  then have s': "log_ok s'" "rl.contig s'"
      "\<forall>e \<in> set (ae_entries req). log_at s' (le_index e) = Some e"
      "\<forall>i. i \<notin> le_index ` set (ae_entries req) \<longrightarrow> log_at s' i = log_at (rn_store n) i"
      "LastIndex s' = max (LastIndex (rn_store n)) (ae_prev_index req + word_of_nat (length (ae_entries req)))"
      "stable_term s' = stable_term (rn_store ?n1)" "stable_vote s' = stable_vote (rn_store ?n1)"
    using f(1) by (simp_all add: ad)
  let ?n = "?n1\<lparr>rn_store := s'\<rparr>"
  obtain ops where fc: "follow_commit (ae_commit req) ?n = (ops, n2)" using f(2) by (metis prod.collapse)
  note fr = follow_commit_frame [OF fc]
  have le: "LastIndex (rn_store n) \<le> LastIndex s'" using s'(5) by simp
  have ap: "rn_applied n2 = (if ae_commit req > rn_commit ?n then rn_commit n2 else rn_applied ?n)"
    using follow_commit_applied [OF fc] s'(1,2) n(3,4) le by (simp add: ad)
  have cm: "rn_commit n2 = (if ae_commit req > rn_commit n then min (ae_commit req) (LastIndex s') else rn_commit n)"
    using fr(8) by (simp add: ad)
  have cle: "rn_commit n \<le> LastIndex s'" using n(4) le by simp
  have "persist_ok ?n1" using ad(1) n(5) by (simp add: vote_step_def)
  then have "persist_ok n2" using fr s'(6,7) by (simp add: persist_ok_def)
  moreover have "rl.contig (rn_store n2)"
    by (rule contig_cong [OF _ _ s'(2)]) (simp_all add: fr log_at_def)
  ultimately have inv2: "node_inv n2"
    using fr(9) s'(1) fr(6) ap cm n(3) cle by (auto simp: node_inv_def ad min_def)
  then show "node_inv n'" by (rule node_inv_same_raft [OF _ f(3,4)])
  have at: "log_at (rn_store n') i = log_at s' i" for i
    using f(3) fr(7) by (simp add: same_raft_def log_at_def)
  have last: "LastIndex (rn_store n') = LastIndex s'"
    using f(3) fr(6) by (simp add: same_raft_def)
  show "\<forall>e \<in> set (ae_entries req). log_at (rn_store n') (le_index e) = Some e"
    "\<forall>i. i \<notin> le_index ` set (ae_entries req) \<longrightarrow> log_at (rn_store n') i = log_at (rn_store n) i"
    "LastIndex (rn_store n') =
      max (LastIndex (rn_store n)) (ae_prev_index req + word_of_nat (length (ae_entries req)))"
    using s'(3-5) by (simp_all add: at last)
  have c': "rn_commit n' = rn_commit n2" using f(3) by (simp add: same_raft_def)
  show "rn_commit n' = max (rn_commit n) (min (ae_commit req) (LastIndex (rn_store n')))"
    unfolding c' cm last using cle by (auto simp: max_def min_def)
  show "rn_commit n < ae_commit req \<longrightarrow> rn_applied n' = rn_commit n'"
    using f(4) ap by (simp add: c' ad)
qed

text \<open>A request that passes both checks is answered with success.\<close>

lemma accepted_exists:
  assumes "\<not> ae_term req < rn_term n"
    "ae_prev_index req = 0 \<or> (\<exists>e. GetLog (rn_store n) (ae_prev_index req) = Inr e \<and>
       le_term e = ae_prev_term req \<and> ae_prev_index req \<le> LastIndex (rn_store n))"
    "append_entries (rn_store (adopt_leader req n)) (ae_entries req) = Some s'"
  obtains resp as n' m' where
    "HandleAppendEntries app req (n, m) = Some (resp, as, n', m')" "ae_success resp"
proof -
  note ad = adopt_leader_frame [OF assms(1)]
  let ?n1 = "adopt_leader req n"
  obtain ops n2 where 2: "follow_commit (ae_commit req) (?n1\<lparr>rn_store := s'\<rparr>) = (ops, n2)" by force
  obtain as n3 m3 where 3: "doApply app ops (n2, m) = (as, n3, m3)" by (metis prod.exhaust)
  have c1: "\<not> (ae_prev_index req > 0 \<and> LastIndex (rn_store ?n1) < ae_prev_index req)"
    using assms(2) ad(7) by (auto simp: not_less)
  have c2: "\<not> (ae_prev_index req > 0 \<and>
      (case GetLog (rn_store ?n1) (ae_prev_index req) of Inl _ \<Rightarrow> True | Inr e \<Rightarrow> le_term e \<noteq> ae_prev_term req))"
    using assms(2) ad(8) by auto
  have "HandleAppendEntries app req (n, m) =
      Some (\<lparr>ae_resp_term = ae_term req, ae_success = True, ae_conflict = 0\<rparr>, as, resetElectionTimer n3, m3)"
    unfolding HandleAppendEntries_def Let_def prod.case if_not_P [OF assms(1)] if_not_P [OF c1]
      if_not_P [OF c2] assms(3) option.case 2 3 by (rule refl)
  then show thesis using that by simp
qed

end

end
