(* ===== verification/RaftRun.thy ===== *)
theory RaftRun
  imports RaftAppend
begin

text \<open>
  Model of \<^verbatim>\<open>internal/raft/run.go\<close>: elections, leadership, replication and commit.

  The main loop of \<open>run\<close> picks one of four events; each is a function here. A remote call is
  split at the network: the part before it builds the request, the part after it takes the reply
  (\<open>None\<close> for a failed call). The goroutines of an election deliver their replies in any order,
  so a reply handler is a function of its own that may also run late, when the node has moved on;
  it compares with the term its goroutine \<^emph>\<open>captured\<close>, as the code does.
\<close>

section \<open>Leadership\<close>

text \<open>
  \<open>becomeLeader\<close> releases the mutex in the middle, so it is two steps; the second one appends the
  no-op entry at the index the first one has read.
\<close>

definition becomeLeader_init :: "raft_node \<Rightarrow> (u64 \<times> raft_node) option" where
  "becomeLeader_init n =
     (if rn_state n = Leader then None
      else
        let lastLogIdx = getLastLogIndex n;
            other = (\<lambda>p. p \<in> set (map fst (rn_peers n)) \<and> p \<noteq> rn_id n)
        in Some (lastLogIdx,
             n\<lparr>rn_state := Leader, rn_leader := rn_id n, rn_ticker := True,
               rn_next := (\<lambda>p. if other p then Some (lastLogIdx + 1) else rn_next n p),
               rn_match := (\<lambda>p. if other p then Some 0 else rn_match n p)(rn_id n \<mapsto> lastLogIdx)\<rparr>))"

text \<open>A single node commits at once; this is the same code after a new entry in both callers.\<close>

definition commit_single :: "u64 \<Rightarrow> raft_node \<Rightarrow> apply_op list \<times> raft_node" where
  "commit_single i n =
     (if length (rn_peers n) = 1 then collectApplyOps (set_commit i n) else ([], n))"

definition becomeLeader_noop ::
    "'m apply_fun \<Rightarrow> u64 \<Rightarrow> raft_node \<times> 'm \<Rightarrow> answers \<times> raft_node \<times> 'm" where
  "becomeLeader_noop app lastLogIdx st =
     (let (n, m) = st;
          i = lastLogIdx + 1;
          e = \<lparr>le_index = i, le_term = rn_term n, le_type = LogNoOp, le_data = []\<rparr>;
          n1 = n\<lparr>rn_store := StoreLog (rn_store n) e, rn_match := (rn_match n)(rn_id n \<mapsto> i)\<rparr>;
          (ops, n2) = commit_single i n1
      in doApply app ops (n2, m))"

definition becomeLeader :: "'m apply_fun \<Rightarrow> raft_node \<times> 'm \<Rightarrow> answers \<times> raft_node \<times> 'm" where
  "becomeLeader app st =
     (case becomeLeader_init (fst st) of
        None \<Rightarrow> ([], st)
      | Some (i, n) \<Rightarrow> becomeLeader_noop app i (n, snd st))"

definition stepDown :: "u64 \<Rightarrow> raft_node \<Rightarrow> raft_node" where
  "stepDown t n =
     (let n1 = (if t > rn_term n then set_vote [] (set_term t n) else n)
      in resetElectionTimer (n1\<lparr>rn_ticker := False, rn_state := Follower, rn_leader := []\<rparr>))"

section \<open>Elections\<close>

text \<open>What \<open>startElection\<close> reads before it talks to the peers.\<close>

record election =
  el_term :: u64
  el_last_index :: u64
  el_last_term :: u64
  el_peers :: peers

definition election_begin :: "raft_node \<Rightarrow> election" where
  "election_begin n =
     \<lparr>el_term = rn_term n, el_last_index = getLastLogIndex n, el_last_term = getLastLogTerm n,
      el_peers = rn_peers n\<rparr>"

definition other_peers :: "bytes \<Rightarrow> peers \<Rightarrow> peers" where
  "other_peers me ps = filter (\<lambda>(i, _). i \<noteq> me) ps"

definition prevote_request :: "election \<Rightarrow> raft_node \<Rightarrow> RequestVoteRequest" where
  "prevote_request el n =
     \<lparr>rv_term = el_term el + 1, rv_candidate = rn_id n, rv_last_index = el_last_index el,
      rv_last_term = el_last_term el, rv_prevote = True\<rparr>"

text \<open>
  A reply of a higher term than the captured one overwrites the current term, whatever it is by now.
\<close>

definition adopt_reply :: "u64 \<Rightarrow> raft_node \<Rightarrow> raft_node" where
  "adopt_reply t n = (set_vote [] (set_term t n))\<lparr>rn_state := Follower\<rparr>"

definition on_prevote_reply ::
    "u64 \<Rightarrow> RequestVoteResponse option \<Rightarrow> raft_node \<Rightarrow> bool \<times> raft_node" where
  "on_prevote_reply captured reply n =
     (case reply of
        None \<Rightarrow> (False, n)
      | Some r \<Rightarrow>
          if rv_resp_term r > captured then (False, adopt_reply (rv_resp_term r) n)
          else (rv_granted r, n))"

definition on_vote_reply ::
    "u64 \<Rightarrow> RequestVoteResponse option \<Rightarrow> raft_node \<Rightarrow> bool \<times> raft_node" where
  "on_vote_reply newTerm reply n =
     (case reply of
        None \<Rightarrow> (False, n)
      | Some r \<Rightarrow>
          if rv_resp_term r > newTerm then (False, adopt_reply (rv_resp_term r) n)
          else (rv_granted r \<and> rv_resp_term r = newTerm, n))"

text \<open>The loop that collects replies: it stops at a majority of all peers, its own vote counted.\<close>

fun gather ::
    "nat \<Rightarrow> nat \<Rightarrow> (RequestVoteResponse option \<Rightarrow> raft_node \<Rightarrow> bool \<times> raft_node) \<Rightarrow>
       RequestVoteResponse option list \<Rightarrow> raft_node \<Rightarrow> bool \<times> raft_node" where
  "gather npeers votes h [] n = (False, n)"
| "gather npeers votes h (r # rs) n =
     (let (granted, n') = h r n;
          votes' = (if granted then votes + 1 else votes)
      in if votes' * 2 > npeers then (True, n') else gather npeers votes' h rs n')"

definition candidate_begin :: "raft_node \<Rightarrow> RequestVoteRequest \<times> raft_node" where
  "candidate_begin n =
     (let n1 = (set_vote (rn_id n) (set_term (rn_term n + 1) n))\<lparr>rn_state := Candidate, rn_leader := []\<rparr>
      in (\<lparr>rv_term = rn_term n1, rv_candidate = rn_id n, rv_last_index = getLastLogIndex n1,
           rv_last_term = getLastLogTerm n1, rv_prevote = False\<rparr>, n1))"

definition election_lost :: "raft_node \<Rightarrow> raft_node" where
  "election_lost n =
     resetElectionTimer (if rn_state n = Candidate then n\<lparr>rn_state := Follower\<rparr> else n)"

definition elect_single :: "'m apply_fun \<Rightarrow> raft_node \<times> 'm \<Rightarrow> answers \<times> raft_node \<times> 'm" where
  "elect_single app st =
     (let (n, m) = st;
          n1 = (set_vote (rn_id n) (set_term (rn_term n + 1) n))\<lparr>rn_state := Candidate\<rparr>
      in becomeLeader app (n1, m))"

text \<open>
  The whole of \<open>startElection\<close>, for the replies of the two rounds in the order in which they
  arrive.
\<close>

definition startElection ::
    "'m apply_fun \<Rightarrow> RequestVoteResponse option list \<Rightarrow> RequestVoteResponse option list \<Rightarrow>
       raft_node \<times> 'm \<Rightarrow> answers \<times> raft_node \<times> 'm" where
  "startElection app preReplies replies st =
     (let (n, m) = st;
          el = election_begin n;
          npeers = length (el_peers el);
          k = length (other_peers (rn_id n) (el_peers el))
      in if k = 0 then elect_single app st
         else
           (case gather npeers 1 (on_prevote_reply (el_term el)) (take k preReplies) n of
              (False, n1) \<Rightarrow> ([], resetElectionTimer n1, m)
            | (True, n1) \<Rightarrow>
                let (req, n2) = candidate_begin n1 in
                (case gather npeers 1 (on_vote_reply (rv_term req)) (take k replies) n2 of
                   (True, n3) \<Rightarrow> becomeLeader app (n3, m)
                 | (False, n3) \<Rightarrow> ([], election_lost n3, m))))"

section \<open>Commit\<close>

definition replicated_count :: "raft_node \<Rightarrow> u64 \<Rightarrow> nat" where
  "replicated_count n i =
     1 + length (filter (\<lambda>(p, _). p \<noteq> rn_id n \<and> index_of (rn_match n) p \<ge> i) (rn_peers n))"

function advance_loop :: "raft_node \<Rightarrow> raft_node" where
  "advance_loop n =
     (if rn_commit n < getLastLogIndex n then
        (case GetLog (rn_store n) (rn_commit n + 1) of
           Inl _ \<Rightarrow> n
         | Inr e \<Rightarrow>
             if le_term e \<noteq> rn_term n then n
             else if replicated_count n (rn_commit n + 1) * 2 > length (rn_peers n)
             then advance_loop (set_commit (rn_commit n + 1) n)
             else n)
      else n)"
  by pat_completeness auto
termination
proof (relation "measure (\<lambda>n. unat (getLastLogIndex n) - unat (rn_commit n))", goal_cases)
  case 1
  then show ?case by simp
next
  case (2 n e)
  then show ?case
    using u64_inc_less [of "rn_commit n" "getLastLogIndex n"]
    by (simp add: getLastLogIndex_def raft_simps word_less_nat_alt)
qed

declare advance_loop.simps [simp del]

definition advanceCommitIndex :: "'m apply_fun \<Rightarrow> raft_node \<times> 'm \<Rightarrow> answers \<times> raft_node \<times> 'm" where
  "advanceCommitIndex app st =
     (let (n, m) = st;
          (ops, n') = collectApplyOps (advance_loop n)
      in doApply app ops (n', m))"

section \<open>Replication\<close>

definition sendHeartbeats :: "raft_node \<Rightarrow> (bytes \<times> bytes \<times> u64 \<times> u64) list" where
  "sendHeartbeats n =
     (if rn_state n \<noteq> Leader then []
      else map (\<lambda>(p, a). (p, a, rn_term n, rn_commit n)) (other_peers (rn_id n) (rn_peers n)))"

text \<open>
  \<open>replicateToPeer\<close> up to the call: the next index it worked with and the request. For a peer
  without a next index the zero value is used and \<open>prevLogIndex\<close> wraps around.
\<close>

definition replicate_request ::
    "bytes \<Rightarrow> u64 \<Rightarrow> u64 \<Rightarrow> raft_node \<Rightarrow> (u64 \<times> AppendEntriesRequest) option" where
  "replicate_request peer term commitIdx n =
     (let nextIdx = index_of (rn_next n) peer;
          prev = nextIdx - 1;
          prevTerm =
            (if prev > 0 then (case GetLog (rn_store n) prev of Inr e \<Rightarrow> le_term e | Inl _ \<Rightarrow> 0) else 0);
          last = getLastLogIndex n
      in case (if nextIdx \<le> last then LogEntries (rn_store n) nextIdx (last + 1) (1024 * 1024)
               else Inr []) of
           Inl _ \<Rightarrow> None
         | Inr es \<Rightarrow>
             Some (nextIdx,
                   \<lparr>ae_term = term, ae_leader = rn_id n, ae_prev_index = prev, ae_prev_term = prevTerm,
                    ae_entries = es, ae_commit = commitIdx\<rparr>))"

definition replicate_reply ::
    "'m apply_fun \<Rightarrow> bytes \<Rightarrow> u64 \<Rightarrow> AppendEntriesRequest \<Rightarrow> AppendEntriesResponse option \<Rightarrow>
       raft_node \<times> 'm \<Rightarrow> answers \<times> raft_node \<times> 'm" where
  "replicate_reply app peer nextIdx req reply st =
     (let (n, m) = st in
      case reply of
        None \<Rightarrow> ([], st)
      | Some r \<Rightarrow>
          if ae_resp_term r > ae_term req then ([], stepDown (ae_resp_term r) n, m)
          else if rn_state n \<noteq> Leader \<or> ae_resp_term r \<noteq> ae_term req then ([], st)
          else if ae_success r then
            let n1 =
              (if ae_entries req \<noteq> []
               then (let i = le_index (last (ae_entries req))
                     in n\<lparr>rn_next := (rn_next n)(peer \<mapsto> i + 1), rn_match := (rn_match n)(peer \<mapsto> i)\<rparr>)
               else n\<lparr>rn_next := (rn_next n)(peer \<mapsto> nextIdx)\<rparr>)
            in advanceCommitIndex app (n1, m)
          else
            ([], (if index_of (rn_next n) peer > 1
                  then n\<lparr>rn_next := (rn_next n)(peer \<mapsto> index_of (rn_next n) peer - 1)\<rparr> else n), m))"

section \<open>Proposals\<close>

definition Propose :: "raft_node \<Rightarrow> bytes \<Rightarrow> raft_error + bytes" where
  "Propose n cmd = (if rn_state n \<noteq> Leader then Inl ErrNotLeader else Inr cmd)"

definition handleProposal ::
    "'m apply_fun \<Rightarrow> nat \<Rightarrow> bytes \<Rightarrow> raft_node \<times> 'm \<Rightarrow> answers \<times> raft_node \<times> 'm" where
  "handleProposal app p cmd st =
     (let (n, m) = st in
      if rn_state n \<noteq> Leader then ([(p, Some ''raft: not leader'')], st)
      else
        let i = getLastLogIndex n + 1;
            e = \<lparr>le_index = i, le_term = rn_term n, le_type = LogCommand, le_data = cmd\<rparr>;
            n1 = n\<lparr>rn_store := StoreLog (rn_store n) e, rn_proposals := (rn_proposals n)(i \<mapsto> p),
                   rn_match := (rn_match n)(rn_id n \<mapsto> i), rn_next := (rn_next n)(rn_id n \<mapsto> i + 1)\<rparr>;
            (ops, n2) = commit_single i n1
        in doApply app ops (n2, m))"

section \<open>Steps of one node\<close>

text \<open>
  Everything that can happen to a running node. The reply steps carry the term their goroutine
  captured and may come at any time; \<open>fresh\<close> marks those that come while the term is still the
  captured one.
\<close>

inductive node_step :: "'m apply_fun \<Rightarrow> bool \<Rightarrow> raft_node \<times> 'm \<Rightarrow> raft_node \<times> 'm \<Rightarrow> bool"
  for app :: "'m apply_fun" where
  vote_request: "HandleRequestVote req n = (resp, n') \<Longrightarrow> node_step app True (n, m) (n', m)"
| append_request: "HandleAppendEntries app req (n, m) = Some (resp, as, st') \<Longrightarrow>
     node_step app True (n, m) st'"
| single: "length (other_peers (rn_id n) (rn_peers n)) = 0 \<Longrightarrow> rn_term n < - 1 \<Longrightarrow>
     elect_single app (n, m) = (as, st') \<Longrightarrow> node_step app True (n, m) st'"
| prevote_reply: "on_prevote_reply captured reply n = (g, n') \<Longrightarrow>
     node_step app (rn_term n = captured) (n, m) (n', m)"
| candidate: "rn_term n < - 1 \<Longrightarrow> candidate_begin n = (req, n') \<Longrightarrow> node_step app True (n, m) (n', m)"
| vote_reply: "on_vote_reply captured reply n = (g, n') \<Longrightarrow>
     node_step app (rn_term n = captured) (n, m) (n', m)"
| won: "becomeLeader app (n, m) = (as, st') \<Longrightarrow> node_step app True (n, m) st'"
| lost: "node_step app True (n, m) (election_lost n, m)"
| replicated: "replicate_reply app peer nextIdx req reply (n, m) = (as, st') \<Longrightarrow>
     node_step app True (n, m) st'"
| proposal: "handleProposal app p cmd (n, m) = (as, st') \<Longrightarrow> node_step app True (n, m) st'"

inductive_cases node_stepE: "node_step app f st st'"

section \<open>Frames\<close>

lemma same_raft_commit_single:
  "commit_single i n = (ops, n') \<Longrightarrow>
     same_raft (if length (rn_peers n) = 1 then set_commit i n else n) n'"
  using collect_frame [of "set_commit i n"]
  by (auto simp: commit_single_def same_raft_refl split: if_splits)

lemma vote_step_commit_single [raft_inv]: "commit_single i n = (ops, n') \<Longrightarrow> vote_step n n'"
  using same_raft_commit_single [of i n ops n']
  by (auto simp: same_raft_def vote_step_def persist_ok_def raft_simps split: if_splits)

lemma vote_step_becomeLeader_init [raft_inv]: "becomeLeader_init n = Some (i, n') \<Longrightarrow> vote_step n n'"
  by (auto simp: becomeLeader_init_def Let_def vote_step_def persist_ok_def split: if_splits)

lemma advance_loop_frame:
  "rn_term (advance_loop n) = rn_term n \<and> rn_voted (advance_loop n) = rn_voted n \<and>
   rn_state (advance_loop n) = rn_state n \<and> rn_applied (advance_loop n) = rn_applied n \<and>
   rn_peers (advance_loop n) = rn_peers n \<and> rn_match (advance_loop n) = rn_match n \<and>
   rn_id (advance_loop n) = rn_id n \<and>
   stable_term (rn_store (advance_loop n)) = stable_term (rn_store n) \<and>
   stable_vote (rn_store (advance_loop n)) = stable_vote (rn_store n) \<and>
   LastIndex (rn_store (advance_loop n)) = LastIndex (rn_store n) \<and>
   (\<forall>i. GetLog (rn_store (advance_loop n)) i = GetLog (rn_store n) i) \<and>
   (log_ok (rn_store n) \<longrightarrow> log_ok (rn_store (advance_loop n)))"
proof (induction n rule: advance_loop.induct)
  case (1 n)
  have sc: "rn_match (set_commit i n) = rn_match n" for i by (simp add: set_commit_def)
  show ?case
  proof (cases "rn_commit n < getLastLogIndex n")
    case False
    then show ?thesis by (subst (1 2 3 4 5 6 7 8 9 10 11 12) advance_loop.simps) simp
  next
    case True
    show ?thesis
    proof (cases "GetLog (rn_store n) (rn_commit n + 1)")
      case (Inl a)
      then have "advance_loop n = n" using True by (subst advance_loop.simps) simp
      then show ?thesis by simp
    next
      case (Inr e)
      show ?thesis
      proof (cases "le_term e = rn_term n \<and> replicated_count n (rn_commit n + 1) * 2 > length (rn_peers n)")
        case False
        then have "advance_loop n = n" using True Inr by (subst advance_loop.simps) auto
        then show ?thesis by simp
      next
        case go: True
        then have "advance_loop n = advance_loop (set_commit (rn_commit n + 1) n)"
          using True Inr by (subst advance_loop.simps) simp
        then show ?thesis using 1 True Inr go by (simp add: raft_simps sc)
      qed
    qed
  qed
qed

text \<open>
  The commit index moves up one index at a time, and only over entries of the current term that a
  majority holds.
\<close>

lemma advance_loop_commits:
  "rn_commit n \<le> rn_commit (advance_loop n) \<and>
   (rn_commit n \<le> getLastLogIndex n \<longrightarrow> rn_commit (advance_loop n) \<le> getLastLogIndex n) \<and>
   (\<forall>i. rn_commit n < i \<and> i \<le> rn_commit (advance_loop n) \<longrightarrow>
      (\<exists>e. GetLog (rn_store n) i = Inr e \<and> le_term e = rn_term n) \<and>
      length (rn_peers n) < replicated_count n i * 2)"
proof (induction n rule: advance_loop.induct)
  case (1 n)
  show ?case
  proof (cases "advance_loop n = n")
    case True
    then show ?thesis by (simp add: leD) (meson leD)
  next
    case False
    have less: "rn_commit n < getLastLogIndex n"
      using False by (subst (asm) advance_loop.simps) (simp split: if_splits)
    obtain e where e: "GetLog (rn_store n) (rn_commit n + 1) = Inr e"
      using False less by (subst (asm) advance_loop.simps) (simp split: sum.splits)
    have c: "le_term e = rn_term n" "length (rn_peers n) < replicated_count n (rn_commit n + 1) * 2"
      using False less e by (subst (asm) advance_loop.simps, simp split: if_splits)+
    let ?n = "set_commit (rn_commit n + 1) n"
    have step: "advance_loop n = advance_loop ?n"
      using less e c by (subst advance_loop.simps) simp
    have rc: "replicated_count ?n i = replicated_count n i" for i
      by (simp add: replicated_count_def set_commit_def)
    have last: "getLastLogIndex ?n = getLastLogIndex n"
      by (simp add: getLastLogIndex_def raft_simps)
    have IH: "rn_commit n + 1 \<le> rn_commit (advance_loop n)"
      "rn_commit n + 1 \<le> getLastLogIndex n \<longrightarrow> rn_commit (advance_loop n) \<le> getLastLogIndex n"
      "\<And>i. rn_commit n + 1 < i \<and> i \<le> rn_commit (advance_loop n) \<longrightarrow>
         (\<exists>e. GetLog (rn_store n) i = Inr e \<and> le_term e = rn_term n) \<and>
         length (rn_peers n) < replicated_count n i * 2"
      using 1 [OF less e] c unfolding step by (simp_all add: raft_simps rc last)
    have "rn_commit n \<le> rn_commit (advance_loop n)"
      using IH(1) u64_less_inc [OF less] by (meson less_imp_le order_trans)
    moreover have "(\<exists>e. GetLog (rn_store n) i = Inr e \<and> le_term e = rn_term n) \<and>
        length (rn_peers n) < replicated_count n i * 2"
      if i: "rn_commit n < i" "i \<le> rn_commit (advance_loop n)" for i
    proof (cases "i = rn_commit n + 1")
      case True
      then show ?thesis using e c by simp
    next
      case False
      then have "rn_commit n + 1 < i" using u64_inc_le [OF i(1)] by simp
      then show ?thesis using IH(3) i(2) by blast
    qed
    ultimately show ?thesis using IH(2) u64_inc_le [OF less] by blast
  qed
qed

section \<open>The voting promise\<close>

lemma delete_range_loop_stable:
  "delete_range_loop i mx s = Some s' \<Longrightarrow> engine_get s' (stableKey k) = engine_get s (stableKey k)"
proof (erule delete_range_loop.raw_induct
    [where P = "\<lambda>i mx s y. engine_get y (stableKey k) = engine_get s (stableKey k)", rotated])
  fix f :: "u64 \<Rightarrow> u64 \<Rightarrow> kv \<Rightarrow> kv option" and i mx s y
  assume IH: "\<And>i mx s y. f i mx s = Some y \<Longrightarrow> engine_get y (stableKey k) = engine_get s (stableKey k)"
    and step: "(if i \<le> mx then f (i + 1) mx (engine_delete s (logKey i)) else Some s) = Some y"
  show "engine_get y (stableKey k) = engine_get s (stableKey k)"
  proof (cases "i \<le> mx")
    case True
    then show ?thesis using IH [of "i + 1" mx "engine_delete s (logKey i)" y] step by (simp add: kv_simps)
  next
    case False
    then show ?thesis using step by simp
  qed
qed

lemma append_entry_stable:
  assumes "append_entry s e = Some s'"
  shows "stable_term s' = stable_term s" "stable_vote s' = stable_vote s"
proof -
  have "engine_get s' (stableKey k) = engine_get s (stableKey k)" for k
    using assms
    by (auto simp: append_entry_def DeleteRange_def delete_range_loop_stable StoreLog_def kv_simps
        split: sum.splits if_splits)
  then show "stable_term s' = stable_term s" "stable_vote s' = stable_vote s"
    by (simp_all add: stable_term_def stable_vote_def GetUint64_def GetString_def)
qed

lemma append_entries_stable:
  "append_entries s es = Some s' \<Longrightarrow> stable_term s' = stable_term s \<and> stable_vote s' = stable_vote s"
  by (induction es arbitrary: s) (auto simp: append_entry_stable split: option.splits)

lemma vote_step_follow_commit: "follow_commit c n = (ops, n') \<Longrightarrow> vote_step n n'"
  using follow_commit_frame [of c n ops n'] by (simp add: vote_step_def persist_ok_def)

lemma vote_step_reset: "vote_step n (resetElectionTimer n)"
  by (simp add: vote_step_def persist_ok_def raft_simps)

context apply_callback begin

lemma vote_step_doApply: "doApply app ops st = (as, st') \<Longrightarrow> vote_step (fst st) (fst st')"
  using doApply_frame same_raft_vote_step by blast

lemma vote_step_HandleAppendEntries:
  assumes "HandleAppendEntries app req (n, m) = Some (resp, as, n', m')"
  shows "vote_step n n'"
proof (cases "ae_term req < rn_term n")
  case True
  then show ?thesis using assms by (auto simp: HandleAppendEntries_def vote_step_reset)
next
  case False
  let ?n1 = "adopt_leader req n"
  note ad = adopt_leader_frame(1) [OF False]
  show ?thesis
  proof (cases "ae_success resp")
    case True
    obtain s' n2 where f: "append_entries (rn_store ?n1) (ae_entries req) = Some s'"
      "n2 = snd (follow_commit (ae_commit req) (?n1\<lparr>rn_store := s'\<rparr>))" "same_raft n2 n'"
      using accepted_frame [OF assms True] by metis
    have "vote_step ?n1 (?n1\<lparr>rn_store := s'\<rparr>)"
      using append_entries_stable [OF f(1)] by (simp add: vote_step_def persist_ok_def)
    also have "vote_step (?n1\<lparr>rn_store := s'\<rparr>) n2"
      using f(2) vote_step_follow_commit by (metis prod.collapse)
    also have "vote_step n2 n'" by (rule same_raft_vote_step [OF f(3)])
    finally show ?thesis using vote_step_trans [OF ad] by blast
  next
    case reject: False
    have "n' = resetElectionTimer ?n1"
      using assms False reject
      by (auto simp: HandleAppendEntries_def Let_def split: if_splits option.splits prod.splits)
    then show ?thesis using vote_step_trans [OF ad vote_step_reset] by simp
  qed
qed

lemma vote_step_becomeLeader: "becomeLeader app (n, m) = (as, n', m') \<Longrightarrow> vote_step n n'"
proof -
  assume b: "becomeLeader app (n, m) = (as, n', m')"
  show ?thesis
  proof (cases "becomeLeader_init n")
    case None
    then show ?thesis using b by (simp add: becomeLeader_def vote_step_refl)
  next
    case (Some x)
    obtain i n1 where x: "x = (i, n1)" by force
    let ?e = "\<lparr>le_index = i + 1, le_term = rn_term n1, le_type = LogNoOp, le_data = []\<rparr>"
    let ?n2 = "n1\<lparr>rn_store := StoreLog (rn_store n1) ?e, rn_match := (rn_match n1)(rn_id n1 \<mapsto> i + 1)\<rparr>"
    obtain ops n3 where c: "commit_single (i + 1) ?n2 = (ops, n3)" by force
    have d: "doApply app ops (n3, m) = (as, n', m')"
      using b Some x c by (simp add: becomeLeader_def becomeLeader_noop_def Let_def)
    have "vote_step n n1" using Some x by (simp add: vote_step_becomeLeader_init)
    also have "vote_step n1 ?n2" by (simp add: vote_step_def persist_ok_def raft_simps)
    also have "vote_step ?n2 n3" by (rule vote_step_commit_single [OF c])
    also have "vote_step n3 n'" using vote_step_doApply [OF d] by simp
    finally show ?thesis .
  qed
qed

lemma vote_step_advance:
  assumes "advanceCommitIndex app (n, m) = (as, n', m')"
  shows "vote_step n n'"
proof -
  obtain ops n2 where c: "collectApplyOps (advance_loop n) = (ops, n2)" by force
  then have d: "doApply app ops (n2, m) = (as, n', m')"
    using assms by (simp add: advanceCommitIndex_def)
  have "vote_step n (advance_loop n)"
    using advance_loop_frame [of n] by (simp add: vote_step_def persist_ok_def)
  also have "vote_step (advance_loop n) n2"
    using collect_frame [of "advance_loop n"] c same_raft_vote_step by simp
  also have "vote_step n2 n'" using vote_step_doApply [OF d] by simp
  finally show ?thesis .
qed

lemma vote_step_replicate:
  assumes "replicate_reply app peer nextIdx req reply (n, m) = (as, n', m')"
  shows "vote_step n n'"
proof (cases reply)
  case None
  then show ?thesis using assms by (simp add: replicate_reply_def vote_step_refl)
next
  case (Some r)
  have frame: "vote_step n (n\<lparr>rn_next := x, rn_match := y\<rparr>)" for x y
    by (simp add: vote_step_def persist_ok_def)
  have upd: "n\<lparr>rn_next := x\<rparr> = n\<lparr>rn_next := x, rn_match := rn_match n\<rparr>" for x
    by simp
  have down: "vote_step n (stepDown t n)" for t
    by (auto simp: stepDown_def vote_step_def persist_ok_def Let_def raft_simps)
  consider "n' = stepDown (ae_resp_term r) n" | "n' = n"
    | x y where "advanceCommitIndex app (n\<lparr>rn_next := x, rn_match := y\<rparr>, m) = (as, n', m')"
    | x where "n' = n\<lparr>rn_next := x, rn_match := rn_match n\<rparr>"
    using assms Some unfolding replicate_reply_def Let_def
    by (simp split: if_splits) (metis upd)+
  then show ?thesis
  proof cases
    case (3 x y)
    then show ?thesis using vote_step_trans [OF frame vote_step_advance] by blast
  next
    case (4 x)
    then show ?thesis using frame by blast
  qed (use down in \<open>auto simp: vote_step_refl\<close>)
qed

lemma vote_step_proposal:
  assumes "handleProposal app p cmd (n, m) = (as, n', m')"
  shows "vote_step n n'"
proof (cases "rn_state n = Leader")
  case False
  then show ?thesis using assms by (simp add: handleProposal_def vote_step_refl)
next
  case True
  let ?i = "getLastLogIndex n + 1"
  let ?e = "\<lparr>le_index = ?i, le_term = rn_term n, le_type = LogCommand, le_data = cmd\<rparr>"
  let ?n1 = "n\<lparr>rn_store := StoreLog (rn_store n) ?e, rn_proposals := (rn_proposals n)(?i \<mapsto> p),
       rn_match := (rn_match n)(rn_id n \<mapsto> ?i), rn_next := (rn_next n)(rn_id n \<mapsto> ?i + 1)\<rparr>"
  obtain ops n2 where c: "commit_single ?i ?n1 = (ops, n2)" by force
  have d: "doApply app ops (n2, m) = (as, n', m')"
    using assms True c by (simp add: handleProposal_def Let_def)
  have "vote_step n ?n1" by (simp add: vote_step_def persist_ok_def raft_simps)
  also have "vote_step ?n1 n2" by (rule vote_step_commit_single [OF c])
  also have "vote_step n2 n'" using vote_step_doApply [OF d] by simp
  finally show ?thesis .
qed

end

lemma vote_step_next_term:
  assumes "rn_term n < - 1"
  shows "vote_step n ((set_vote (rn_id n) (set_term (rn_term n + 1) n))\<lparr>rn_state := Candidate\<rparr>)"
    and "vote_step n ((set_vote (rn_id n) (set_term (rn_term n + 1) n))\<lparr>rn_state := Candidate, rn_leader := l\<rparr>)"
  using u64_less_inc [OF assms]
  by (auto simp: vote_step_def persist_ok_def raft_simps)

lemma vote_step_adopt_reply: "rn_term n < t \<Longrightarrow> vote_step n (adopt_reply t n)"
  by (auto simp: adopt_reply_def vote_step_def persist_ok_def raft_simps)

lemma vote_step_replies:
  "on_prevote_reply c reply n = (g, n') \<Longrightarrow> rn_term n = c \<Longrightarrow> vote_step n n'"
  "on_vote_reply c reply n = (g, n') \<Longrightarrow> rn_term n = c \<Longrightarrow> vote_step n n'"
  by (auto simp: on_prevote_reply_def on_vote_reply_def vote_step_refl vote_step_adopt_reply
      split: option.splits if_splits)

lemma vote_step_election_lost: "vote_step n (election_lost n)"
  by (simp add: election_lost_def vote_step_def persist_ok_def raft_simps)

context apply_callback begin

lemma vote_step_single: "rn_term n < - 1 \<Longrightarrow> elect_single app (n, m) = (as, n', m') \<Longrightarrow> vote_step n n'"
  unfolding elect_single_def Let_def prod.case
  by (rule vote_step_trans [OF vote_step_next_term(1) vote_step_becomeLeader])

theorem fresh_step_keeps_votes:
  "node_step app True st st' \<Longrightarrow> vote_step (fst st) (fst st')"
proof (induction "True" st st' rule: node_step.induct)
  case (single n m as st')
  then show ?case using vote_step_single by (cases st') simp
next
  case (append_request req n m resp as st')
  then show ?case using vote_step_HandleAppendEntries by (cases st') simp
next
  case (candidate n req n' m)
  then show ?case using vote_step_next_term(2) by (auto simp: candidate_begin_def Let_def)
next
  case (won n m as st')
  then show ?case using vote_step_becomeLeader by (cases st') simp
next
  case (replicated peer nextIdx req reply n m as st')
  then show ?case using vote_step_replicate by (cases st') simp
next
  case (proposal p cmd n m as st')
  then show ?case using vote_step_proposal by (cases st') simp
qed (auto simp: vote_step_HandleRequestVote vote_step_replies vote_step_election_lost)

end

end
