(* ===== verification/RaftEngine.thy ===== *)
theory RaftEngine
  imports RaftRun
begin

text \<open>
  Model of \<^verbatim>\<open>internal/raft/engine.go\<close>: the storage engine whose writes go through the Raft log.
  The state machine is the content \<open>kv\<close> of the local engine. A write is encoded as a command
  and proposed; \<open>applyCmd\<close> runs when its entry is committed.

  \<open>encoding/json\<close> on \<open>Cmd\<close> and on \<open>peerChange\<close> enters as arguments (\<open>enc\<close>, \<open>dec\<close>,
  \<open>decc\<close>). Badger refuses an empty key, so the local operations do.
\<close>

section \<open>Commands\<close>

type_synonym cmd_type = u8

definition CmdSet :: cmd_type where "CmdSet = 0"
definition CmdDelete :: cmd_type where "CmdDelete = 1"
definition CmdBatch :: cmd_type where "CmdBatch = 2"

record cmd =
  cmd_type :: cmd_type
  cmd_key :: bytes
  cmd_value :: bytes
  cmd_ops :: "write_op list"

definition zero_cmd :: cmd where
  "zero_cmd = \<lparr>cmd_type = 0, cmd_key = [], cmd_value = [], cmd_ops = []\<rparr>"

definition encodeCmd :: "(cmd \<Rightarrow> bytes option) \<Rightarrow> cmd \<Rightarrow> bytes option" where
  "encodeCmd enc c =
     (case enc c of
        None \<Rightarrow> None
      | Some body \<Rightarrow>
          Some (byte_of (cmd_type c) # be_bytes 4 (unat (word_of_nat (length body) :: u32)) @ body))"

text \<open>
  The bound is computed in \<open>uint32\<close>: for a length from \<open>2^32 - 5\<close> on it wraps, passes the
  test and makes a slice whose end is before its start, which panics.
\<close>

datatype decode_result = DecOk cmd | DecErr bytes | DecPanic

definition decodeCmd :: "(bytes \<Rightarrow> cmd option) \<Rightarrow> bytes \<Rightarrow> decode_result" where
  "decodeCmd dec data =
     (if length data < 5 then DecOk zero_cmd
      else
        let bodyLen = (word_of_nat (be_val (take 4 (drop 1 data))) :: u32);
            hi = unat (5 + bodyLen)
        in if hi > length data then DecErr ''cmd data too short''
           else if hi < 5 then DecPanic
           else
             (case dec (take (hi - 5) (drop 5 data)) of
                None \<Rightarrow> DecErr ''unmarshal''
              | Some c \<Rightarrow> DecOk (c\<lparr>cmd_type := word_of_nat (byte_val (hd data))\<rparr>)))"

section \<open>The local engine\<close>

definition local_set :: "bytes \<Rightarrow> bytes \<Rightarrow> kv \<Rightarrow> bytes option \<times> kv" where
  "local_set k v s = (if k = [] then (Some ''Key cannot be empty'', s) else (None, engine_set s k v))"

definition local_delete :: "bytes \<Rightarrow> kv \<Rightarrow> bytes option \<times> kv" where
  "local_delete k s = (if k = [] then (Some ''Key cannot be empty'', s) else (None, engine_delete s k))"

definition local_batch :: "write_op list \<Rightarrow> kv \<Rightarrow> bytes option \<times> kv" where
  "local_batch ops s =
     (if [] \<in> set (map op_key ops) then (Some ''Key cannot be empty'', s)
      else (None, engine_batch_write s ops))"

section \<open>Applying a command\<close>

text \<open>A panic in the callback stops the process; here it is an error that changes nothing.\<close>

definition applyCmd ::
    "(peers \<Rightarrow> bytes) \<Rightarrow> (bytes \<Rightarrow> peer_change option) \<Rightarrow> (bytes \<Rightarrow> cmd option) \<Rightarrow> kv apply_fun" where
  "applyCmd encp decc dec term index data st =
     (let (n, s) = st in
      case data of
        [] \<Rightarrow> (None, st)
      | b # _ \<Rightarrow>
          if b = byte_of LogAddPeer \<or> b = byte_of LogRemovePeer then
            (let e = \<lparr>le_index = index, le_term = term, le_type = word_of_nat (byte_val b), le_data = data\<rparr>;
                 (err, n') = applyConfigChange encp decc e n
             in (err, n', s))
          else
            (case decodeCmd dec data of
               DecErr msg \<Rightarrow> (Some msg, st)
             | DecPanic \<Rightarrow> (Some ''panic'', st)
             | DecOk c \<Rightarrow>
                 if cmd_type c = CmdSet then
                   (case local_set (cmd_key c) (cmd_value c) s of (err, s') \<Rightarrow> (err, n, s'))
                 else if cmd_type c = CmdDelete then
                   (case local_delete (cmd_key c) s of (err, s') \<Rightarrow> (err, n, s'))
                 else if cmd_type c = CmdBatch then
                   (case local_batch (cmd_ops c) s of (err, s') \<Rightarrow> (err, n, s'))
                 else (Some ''unknown command type'', st)))"

section \<open>Operations of the engine\<close>

text \<open>A write up to the proposal: the bytes proposed, or the error.\<close>

definition propose_cmd :: "(cmd \<Rightarrow> bytes option) \<Rightarrow> raft_node \<Rightarrow> cmd \<Rightarrow> raft_error + bytes" where
  "propose_cmd enc n c =
     (if rn_state n \<noteq> Leader then Inl ErrNotLeader
      else case encodeCmd enc c of None \<Rightarrow> Inl MarshalFailed | Some data \<Rightarrow> Propose n data)"

definition raft_Get :: "kv \<Rightarrow> bytes \<Rightarrow> bytes option" where
  "raft_Get s k = engine_get s k"

definition raft_Set :: "(cmd \<Rightarrow> bytes option) \<Rightarrow> raft_node \<Rightarrow> bytes \<Rightarrow> bytes \<Rightarrow> raft_error + bytes" where
  "raft_Set enc n k v = propose_cmd enc n \<lparr>cmd_type = CmdSet, cmd_key = k, cmd_value = v, cmd_ops = []\<rparr>"

definition raft_Delete :: "(cmd \<Rightarrow> bytes option) \<Rightarrow> raft_node \<Rightarrow> bytes \<Rightarrow> raft_error + bytes" where
  "raft_Delete enc n k = propose_cmd enc n \<lparr>cmd_type = CmdDelete, cmd_key = k, cmd_value = [], cmd_ops = []\<rparr>"

definition raft_BatchWrite :: "(cmd \<Rightarrow> bytes option) \<Rightarrow> raft_node \<Rightarrow> write_op list \<Rightarrow> raft_error + bytes" where
  "raft_BatchWrite enc n ops =
     propose_cmd enc n \<lparr>cmd_type = CmdBatch, cmd_key = [], cmd_value = [], cmd_ops = ops\<rparr>"

section \<open>Write transactions\<close>

text \<open>A write transaction keeps its operations and proposes them as one batch.\<close>

fun txn_lookup :: "write_op list \<Rightarrow> bytes \<Rightarrow> bytes option option" where
  "txn_lookup [] k = None"
| "txn_lookup (w # ws) k =
     (if op_key w = k then Some (case op_type w of OpDelete \<Rightarrow> None | OpPut \<Rightarrow> Some (op_value w))
      else txn_lookup ws k)"

definition raft_txn_Get :: "write_op list \<Rightarrow> kv \<Rightarrow> bytes \<Rightarrow> bytes option" where
  "raft_txn_Get ops s k =
     (case txn_lookup (rev ops) k of Some r \<Rightarrow> r | None \<Rightarrow> engine_get s k)"

definition raft_txn_Set :: "write_op list \<Rightarrow> bytes \<Rightarrow> bytes \<Rightarrow> write_op list" where
  "raft_txn_Set ops k v = ops @ [\<lparr>op_type = OpPut, op_key = k, op_value = v\<rparr>]"

definition raft_txn_Delete :: "write_op list \<Rightarrow> bytes \<Rightarrow> write_op list" where
  "raft_txn_Delete ops k = ops @ [\<lparr>op_type = OpDelete, op_key = k, op_value = []\<rparr>]"

definition raft_txn_Commit ::
    "(cmd \<Rightarrow> bytes option) \<Rightarrow> raft_node \<Rightarrow> write_op list \<Rightarrow> raft_error + bytes option" where
  "raft_txn_Commit enc n ops =
     (if ops = [] then Inr None else map_sum id Some (raft_BatchWrite enc n ops))"

section \<open>The callback keeps its contract\<close>

lemma applyConfigChange_frame:
  "applyConfigChange encp decc e n = (err, n') \<Longrightarrow> same_raft n n' \<and> rn_applied n' = rn_applied n"
  by (auto simp: applyConfigChange_def same_raft_def raft_simps Let_def split: list.splits option.splits)

lemma applyCmd_frame:
  "applyCmd encp decc dec t i d st = (err, st') \<Longrightarrow>
     same_raft (fst st) (fst st') \<and> rn_applied (fst st') = rn_applied (fst st)"
  using applyConfigChange_frame
  by (cases st)
    (fastforce simp: applyCmd_def same_raft_refl Let_def
      split: list.splits if_splits decode_result.splits prod.splits)

interpretation fsm: apply_callback "applyCmd encp decc dec"
  by unfold_locales (rule applyCmd_frame)

section \<open>Facts about commands\<close>

lemma decode_encode_cmd:
  assumes "encodeCmd enc c = Some data" "enc c = Some body" "length body < 2 ^ 32 - 5"
    "dec body = Some c"
  shows "decodeCmd dec data = DecOk c"
proof -
  let ?l = "word_of_nat (length body) :: u32"
  have l: "unat ?l = length body" using assms(3) by (simp add: unat_of_nat)
  have hi: "unat (5 + ?l) = 5 + length body"
    using assms(3) l by (simp add: unat_word_ariths)
  have data: "data = byte_of (cmd_type c) # be_bytes 4 (length body) @ body"
    using assms(1,2) l by (simp add: encodeCmd_def)
  have v: "be_val (be_bytes 4 (length body)) = length body"
    using assms(3) by (intro be_val_be_bytes_id) simp
  have t: "word_of_nat (unat (cmd_type c)) = cmd_type c" by simp
  show ?thesis
    using assms(4) hi t by (simp add: decodeCmd_def data v Let_def)
qed

lemma cmd_bytes_distinct:
  "byte_of CmdSet \<noteq> byte_of LogAddPeer" "byte_of CmdSet \<noteq> byte_of LogRemovePeer"
  "byte_of CmdDelete \<noteq> byte_of LogAddPeer" "byte_of CmdDelete \<noteq> byte_of LogRemovePeer"
  by (simp_all add: CmdSet_def CmdDelete_def LogAddPeer_def LogRemovePeer_def)

lemma batch_byte: "byte_of CmdBatch = byte_of LogAddPeer"
  by (simp add: CmdBatch_def LogAddPeer_def)

lemma encodeCmd_head:
  "encodeCmd enc c = Some data \<Longrightarrow> \<exists>rest. data = byte_of (cmd_type c) # rest"
  by (auto simp: encodeCmd_def split: option.splits)

lemma apply_encoded_set:
  assumes "encodeCmd enc \<lparr>cmd_type = CmdSet, cmd_key = k, cmd_value = v, cmd_ops = []\<rparr> = Some data"
    "enc \<lparr>cmd_type = CmdSet, cmd_key = k, cmd_value = v, cmd_ops = []\<rparr> = Some body"
    "length body < 2 ^ 32 - 5"
    "dec body = Some \<lparr>cmd_type = CmdSet, cmd_key = k, cmd_value = v, cmd_ops = []\<rparr>" "k \<noteq> []"
  shows "applyCmd encp decc dec t i data (n, s) = (None, n, engine_set s k v)"
proof -
  have "decodeCmd dec data = DecOk \<lparr>cmd_type = CmdSet, cmd_key = k, cmd_value = v, cmd_ops = []\<rparr>"
    by (rule decode_encode_cmd) (use assms in blast)+
  moreover obtain rest where "data = byte_of CmdSet # rest" using encodeCmd_head [OF assms(1)] by auto
  ultimately show ?thesis
    using cmd_bytes_distinct assms(5) by (simp add: applyCmd_def local_set_def)
qed

lemma apply_encoded_delete:
  assumes "encodeCmd enc \<lparr>cmd_type = CmdDelete, cmd_key = k, cmd_value = [], cmd_ops = []\<rparr> = Some data"
    "enc \<lparr>cmd_type = CmdDelete, cmd_key = k, cmd_value = [], cmd_ops = []\<rparr> = Some body"
    "length body < 2 ^ 32 - 5"
    "dec body = Some \<lparr>cmd_type = CmdDelete, cmd_key = k, cmd_value = [], cmd_ops = []\<rparr>" "k \<noteq> []"
  shows "applyCmd encp decc dec t i data (n, s) = (None, n, engine_delete s k)"
proof -
  have "decodeCmd dec data = DecOk \<lparr>cmd_type = CmdDelete, cmd_key = k, cmd_value = [], cmd_ops = []\<rparr>"
    by (rule decode_encode_cmd) (use assms in blast)+
  moreover obtain rest where "data = byte_of CmdDelete # rest"
    using encodeCmd_head [OF assms(1)] by auto
  moreover have "CmdDelete \<noteq> CmdSet" by (simp add: CmdSet_def CmdDelete_def)
  ultimately show ?thesis
    using cmd_bytes_distinct assms(5) by (simp add: applyCmd_def local_delete_def)
qed

text \<open>
  A batch command starts with the byte of \<open>LogAddPeer\<close>, so it is taken for a configuration change
  whose text begins with the length bytes of the command.
\<close>

lemma apply_encoded_batch:
  assumes "encodeCmd enc c = Some data" "enc c = Some body" "cmd_type c = CmdBatch"
    "length body < 2 ^ 24" "\<And>x. decc (NUL # x) = None"
  shows "applyCmd encp decc dec t i data (n, s) = (Some ''unmarshal'', n, s)"
proof -
  have "unat (word_of_nat (length body) :: u32) = length body"
    using assms(4) by (simp add: unat_of_nat)
  then have data: "data = byte_of LogAddPeer # be_bytes 4 (length body) @ body"
    using assms(1-3) by (simp add: encodeCmd_def batch_byte)
  have "be_bytes 4 (length body) = NUL # be_bytes 3 (length body)"
    using assms(4) by (intro be_bytes_small) simp
  then show ?thesis
    using assms(5) by (simp add: applyCmd_def applyConfigChange_def data)
qed

lemma txn_lookup_filter:
  "txn_lookup ws k = (case filter (\<lambda>w. op_key w = k) ws of [] \<Rightarrow> None | w # _ \<Rightarrow> Some (write_op_result w))"
  by (induction ws) (auto simp: write_op_result_def split: op_type.splits)

text \<open>A transaction reads its own writes: what it reads is what the batch would make of the state.\<close>

lemma txn_get_batch: "raft_txn_Get ops s k = engine_get (engine_batch_write s ops) k"
  by (simp add: raft_txn_Get_def txn_lookup_filter engine_get_batch split: list.split)

section \<open>Properties of the node with this callback\<close>


definition sample_append :: AppendEntriesRequest where
  "sample_append =
     \<lparr>ae_term = 1, ae_leader = ''n2'', ae_prev_index = 2, ae_prev_term = 1,
      ae_entries = [sample_entry 1 3], ae_commit = 0\<rparr>"

definition sample_follower :: raft_node where
  "sample_follower =
     sample_node\<lparr>rn_term := 1, rn_store := SetUint64 sample_log KeyCurrentTerm 1\<rparr>"

lemma sample_follower_facts:
  "node_inv sample_follower" "rn_term sample_follower = 1" "LastIndex (rn_store sample_follower) = 2"
  "log_at (rn_store sample_follower) i = log_at sample_log i"
proof -
  have "stable_vote sample_log = []"
    by (simp add: sample_log_def raft_simps) (simp add: stable_vote_def GetString_def)
  then show "node_inv sample_follower"
    using sample_log_facts
    by (simp add: node_inv_def sample_follower_def sample_node_def raft_simps persist_ok_def rl.contig_def)
qed (simp_all add: sample_follower_def raft_simps sample_log_facts)


text \<open>
  C2: when an entry conflicts with one of the log, the handler deletes the old entry and everything
  after it, does not store the new entry, and answers with success: the leader counts the entry as
  replicated on a node that does not have it.
\<close>

theorem conflicting_entry_is_acknowledged_but_lost:
  assumes "log_ok (rn_store n)" "rl.contig (rn_store n)" "LastIndex (rn_store n) < - 1"
    "rn_term n \<le> ae_term req" "ae_entries req = [e]"
    "ae_prev_index req = 0 \<or> (\<exists>e. log_at (rn_store n) (ae_prev_index req) = Some e \<and> le_term e = ae_prev_term req)"
    "log_at (rn_store n) (le_index e) = Some old" "le_term old \<noteq> le_term e"
  shows "\<exists>resp as n' m'. HandleAppendEntries (applyCmd encp decc dec) req (n, m) = Some (resp, as, n', m') \<and>
    ae_success resp \<and> log_at (rn_store n') (le_index e) = None \<and> LastIndex (rn_store n') = le_index e - 1"
proof -
  have t: "\<not> ae_term req < rn_term n" using assms(4) by (simp add: not_less)
  note ad = adopt_leader_frame [OF t]
  let ?s = "rn_store (adopt_leader req n)"
  obtain s' where s': "append_entry ?s e = Some s'" "log_ok s'" "LastIndex s' = le_index e - 1"
    "log_at s' (le_index e) = None"
    using append_entry_conflict [OF ad(10) [OF assms(1)] contig_cong [OF ad(7) ad(9) assms(2)]]
      assms(3,7,8) ad(7,9) by metis
  have "ae_prev_index req \<le> LastIndex (rn_store n)"
    using assms(6) rl.last_upper [OF assms(1)] by auto
  then have chk: "ae_prev_index req = 0 \<or> (\<exists>e. GetLog (rn_store n) (ae_prev_index req) = Inr e \<and>
      le_term e = ae_prev_term req \<and> ae_prev_index req \<le> LastIndex (rn_store n))"
    using assms(6) by (auto simp: GetLog_log_at [OF assms(1)])
  have a: "append_entries ?s (ae_entries req) = Some s'" using s'(1) assms(5) by simp
  obtain resp as n' m' where
    h: "HandleAppendEntries (applyCmd encp decc dec) req (n, m) = Some (resp, as, n', m')" "ae_success resp"
    using fsm.accepted_exists [OF t chk a] by metis
  obtain n2 where n2: "n2 = snd (follow_commit (ae_commit req) ((adopt_leader req n)\<lparr>rn_store := s'\<rparr>))"
    "same_raft n2 n'"
    using fsm.accepted_frame [OF h] a by (metis option.inject)
  obtain ops where fc: "follow_commit (ae_commit req) ((adopt_leader req n)\<lparr>rn_store := s'\<rparr>) = (ops, n2)"
    using n2(1) by (metis prod.collapse)
  have "log_at (rn_store n') (le_index e) = None" "LastIndex (rn_store n') = le_index e - 1"
    using n2(2) follow_commit_frame(6,7) [OF fc] s'(3,4) by (simp_all add: same_raft_def log_at_def)
  then show ?thesis using h by blast
qed

theorem conflicting_entry_is_acknowledged_but_lost_witness:
  "\<exists>resp as n' m'. HandleAppendEntries (applyCmd (\<lambda>_. []) (\<lambda>_. None) (\<lambda>_. None))
      (sample_append\<lparr>ae_term := 2, ae_prev_index := 1, ae_entries := [sample_entry 2 2]\<rparr>)
      (sample_follower, kv_empty) = Some (resp, as, n', m') \<and> ae_success resp \<and>
    log_at (rn_store n') 2 = None"
proof -
  have n: "log_ok (rn_store sample_follower)" "rl.contig (rn_store sample_follower)"
    using sample_follower_facts(1) by (auto simp: node_inv_def)
  show ?thesis
    using conflicting_entry_is_acknowledged_but_lost [OF n, of
        "sample_append\<lparr>ae_term := 2, ae_prev_index := 1, ae_entries := [sample_entry 2 2]\<rparr>"
        "sample_entry 2 2" "sample_entry 1 2" "\<lambda>_. []" "\<lambda>_. None" "\<lambda>_. None" kv_empty] small_indexes(3)
    by (fastforce simp: sample_follower_facts sample_log_facts sample_append_def sample_entry_def)
qed

text \<open>
  C5: the leader moves its commit index up only, never past the end of its log, and only over entries
  of its own term that more than half of the peers have acknowledged, the leader counted.
\<close>

theorem commit_needs_majority_in_term:
  assumes "rn_commit n \<le> LastIndex (rn_store n)"
    "advanceCommitIndex (applyCmd encp decc dec) (n, m) = (as, n', m')"
  shows "rn_commit n \<le> rn_commit n' \<and> rn_commit n' \<le> LastIndex (rn_store n') \<and>
    (\<forall>i. rn_commit n < i \<and> i \<le> rn_commit n' \<longrightarrow>
      (\<exists>e. GetLog (rn_store n) i = Inr e \<and> le_term e = rn_term n) \<and>
      length (rn_peers n) < 2 * (1 + length (filter (\<lambda>(p, _). p \<noteq> rn_id n \<and> i \<le> index_of (rn_match n) p) (rn_peers n))))"
proof -
  obtain ops n2 where c: "collectApplyOps (advance_loop n) = (ops, n2)" by force
  then have d: "doApply (applyCmd encp decc dec) ops (n2, m) = (as, n', m')"
    using assms(2) by (simp add: advanceCommitIndex_def)
  have "same_raft (advance_loop n) n'"
    using collect_frame [of "advance_loop n"] c fsm.doApply_frame [OF d] same_raft_trans by simp
  then have "rn_commit n' = rn_commit (advance_loop n)" "LastIndex (rn_store n') = LastIndex (rn_store n)"
    using advance_loop_frame [of n] by (simp_all add: same_raft_def)
  then show ?thesis
    using advance_loop_commits [of n] assms(1)
    by (auto simp: getLastLogIndex_def replicated_count_def)
qed

theorem commit_needs_majority_in_term_witness:
  "rn_commit sample_follower \<le> rn_commit (fst (snd (advanceCommitIndex
     (applyCmd (\<lambda>_. []) (\<lambda>_. None) (\<lambda>_. None)) (sample_follower, kv_empty))))"
proof -
  obtain as n' m' where a: "advanceCommitIndex (applyCmd (\<lambda>_. []) (\<lambda>_. None) (\<lambda>_. None))
      (sample_follower, kv_empty) = (as, n', m')" by (metis prod.collapse)
  show ?thesis
    using commit_needs_majority_in_term [OF _ a] a sample_follower_facts(1) by (simp add: node_inv_def)
qed



text \<open>
  C3: as long as no reply of an election is handled after the term has moved on, any run of the node
  keeps its voting promise: the term never goes back, a vote given in a term is kept for that term,
  and term and vote are on disk. Vote and append requests, candidacies, replies, commits and
  proposals may come in any order.
\<close>

theorem timely_runs_keep_votes:
  assumes "(node_step (applyCmd encp decc dec) True)\<^sup>*\<^sup>* st st'" "persist_ok (fst st)"
  shows "rn_term (fst st) \<le> rn_term (fst st') \<and> persist_ok (fst st') \<and>
    (rn_term (fst st') = rn_term (fst st) \<longrightarrow> rn_voted (fst st) \<noteq> [] \<longrightarrow>
       rn_voted (fst st') = rn_voted (fst st))"
proof -
  have "vote_step (fst st) (fst st')"
    using assms(1)
  proof (induction rule: rtranclp_induct)
    case base
    show ?case by (rule vote_step_refl)
  next
    case (step y z)
    show ?case by (rule vote_step_trans [OF step.IH fsm.fresh_step_keeps_votes [OF step.hyps(2)]])
  qed
  then show ?thesis using assms(2) by (simp add: vote_step_def)
qed

lemma sample_node_facts:
  "LastIndex (rn_store sample_node) = 0" "rn_term sample_node = 0" "persist_ok sample_node"
  by (simp_all add: sample_node_def log_ok_empty persist_ok_def stable_term_def stable_vote_def
      GetUint64_def GetString_def)

theorem timely_runs_keep_votes_witness:
  "persist_ok (snd (HandleRequestVote (vote_request ''n2'' 1) sample_node))"
proof -
  let ?st = "(snd (HandleRequestVote (vote_request ''n2'' 1) sample_node), kv_empty)"
  have "node_step (applyCmd (\<lambda>_. []) (\<lambda>_. None) (\<lambda>_. None)) True (sample_node, kv_empty) ?st"
    by (rule node_step.vote_request) (rule prod.collapse [symmetric])
  then have "(node_step (applyCmd (\<lambda>_. []) (\<lambda>_. None) (\<lambda>_. None)) True)\<^sup>*\<^sup>* (sample_node, kv_empty) ?st"
    by (rule r_into_rtranclp)
  from timely_runs_keep_votes [OF this] show ?thesis by (simp add: sample_node_facts)
qed

text \<open>
  C4: with replies that come late the promise breaks. A node starts a pre-vote round in term \<open>c\<close>;
  one peer answers with term \<open>t\<close>, the node votes for \<open>a\<close> in that term, then the answer of
  another peer with a term between \<open>c\<close> and \<open>t\<close> overwrites the current term and clears the
  vote, and the node votes for \<open>b\<close> in the same term \<open>t\<close>.
\<close>

theorem late_reply_lets_node_vote_twice:
  assumes "LastIndex (rn_store n) = 0" "rn_term n = c" "c < u" "u < t"
    "n1 = snd (on_prevote_reply c (Some \<lparr>rv_resp_term = t, rv_granted = False\<rparr>) n)"
    "(r1, n2) = HandleRequestVote (vote_request a t) n1"
    "n3 = snd (on_prevote_reply c (Some \<lparr>rv_resp_term = u, rv_granted = False\<rparr>) n2)"
    "(r2, n4) = HandleRequestVote (vote_request b t) n3"
  shows "rv_granted r1 \<and> rv_granted r2 \<and> rn_term n2 = t \<and> rn_voted n2 = a \<and>
    rn_term n3 = u \<and> rn_term n4 = t \<and> rn_voted n4 = b"
proof -
  have "c < t" using assms(3,4) by (rule less_trans)
  then have 1: "LastIndex (rn_store n1) = 0" "rn_term n1 = t" "rn_voted n1 = []"
    using assms(1,5) by (simp_all add: on_prevote_reply_def adopt_reply_def raft_simps)
  have v1: "rv_granted r1" "rn_term n2 = t" "rn_voted n2 = a" "LastIndex (rn_store n2) = 0"
    using vote_on_empty_log [of n1 t a] 1 assms(6) by (metis fst_conv snd_conv)+
  have 3: "LastIndex (rn_store n3) = 0" "rn_term n3 = u"
    using v1(4) assms(3,7) by (simp_all add: on_prevote_reply_def adopt_reply_def raft_simps)
  have "rv_granted r2" "rn_term n4 = t" "rn_voted n4 = b"
    using vote_on_empty_log [of n3 t b] 3 assms(4,8) by (metis fst_conv snd_conv)+
  then show ?thesis using v1 3 by simp
qed

theorem late_reply_lets_node_vote_twice_witness:
  "let n1 = snd (on_prevote_reply 0 (Some \<lparr>rv_resp_term = 9, rv_granted = False\<rparr>) sample_node);
       n2 = snd (HandleRequestVote (vote_request ''n2'' 9) n1);
       n3 = snd (on_prevote_reply 0 (Some \<lparr>rv_resp_term = 7, rv_granted = False\<rparr>) n2);
       n4 = snd (HandleRequestVote (vote_request ''n3'' 9) n3)
   in rn_term n2 = 9 \<and> rn_voted n2 = ''n2'' \<and> rn_term n4 = 9 \<and> rn_voted n4 = ''n3''"
proof -
  define n1 where "n1 = snd (on_prevote_reply 0 (Some \<lparr>rv_resp_term = 9, rv_granted = False\<rparr>) sample_node)"
  obtain r1 n2 where h1: "(r1, n2) = HandleRequestVote (vote_request ''n2'' 9) n1" by (metis prod.collapse)
  define n3 where "n3 = snd (on_prevote_reply 0 (Some \<lparr>rv_resp_term = 7, rv_granted = False\<rparr>) n2)"
  obtain r2 n4 where h2: "(r2, n4) = HandleRequestVote (vote_request ''n3'' 9) n3" by (metis prod.collapse)
  show ?thesis
    using late_reply_lets_node_vote_twice [OF sample_node_facts(1,2) _ _ n1_def h1 n3_def h2]
    by (simp add: Let_def n1_def [symmetric] h1 [symmetric] n3_def [symmetric] h2 [symmetric])
qed

text \<open>
  C7: on a single-node cluster a write that was accepted is durable and visible when the call
  returns: the proposal is answered without an error, the state machine holds the new value, and the
  node's invariant holds with its whole log committed and applied. The JSON hypotheses say that the
  command's text is read back.
\<close>

theorem single_node_write:
  assumes "node_inv n" "rn_state n = Leader" "length (rn_peers n) = 1"
    "rn_applied n = LastIndex (rn_store n)" "LastIndex (rn_store n) < - 1" "k \<noteq> []"
    "raft_Set enc n k v = Inr data"
    "enc \<lparr>cmd_type = CmdSet, cmd_key = k, cmd_value = v, cmd_ops = []\<rparr> = Some body"
    "length body < 2 ^ 32 - 5"
    "dec body = Some \<lparr>cmd_type = CmdSet, cmd_key = k, cmd_value = v, cmd_ops = []\<rparr>"
    "handleProposal (applyCmd encp decc dec) p data (n, s) = (as, n', s')"
  shows "as = [(p, None)] \<and> s' = engine_set s k v \<and> node_inv n' \<and>
    rn_commit n' = LastIndex (rn_store n) + 1 \<and> rn_applied n' = rn_commit n' \<and>
    LastIndex (rn_store n') = LastIndex (rn_store n) + 1"
proof -
  let ?l = "LastIndex (rn_store n)"
  let ?e = "\<lparr>le_index = ?l + 1, le_term = rn_term n, le_type = LogCommand, le_data = data\<rparr>"
  let ?n1 = "n\<lparr>rn_store := StoreLog (rn_store n) ?e, rn_proposals := (rn_proposals n)(?l + 1 \<mapsto> p),
       rn_match := (rn_match n)(rn_id n \<mapsto> ?l + 1), rn_next := (rn_next n)(rn_id n \<mapsto> ?l + 1 + 1)\<rparr>"
  let ?n2 = "set_commit (?l + 1) ?n1"
  let ?n3 = "(set_applied (?l + 1) ?n2)\<lparr>rn_proposals := (rn_proposals ?n2)(?l + 1 := None)\<rparr>"
  have n: "log_ok (rn_store n)" "rl.contig (rn_store n)" "persist_ok n"
    using assms(1) by (auto simp: node_inv_def)
  have less: "?l < ?l + 1" by (rule u64_less_inc [OF assms(5)])
  have enc: "encodeCmd enc \<lparr>cmd_type = CmdSet, cmd_key = k, cmd_value = v, cmd_ops = []\<rparr> = Some data"
    using assms(2,7) by (auto simp: raft_Set_def propose_cmd_def Propose_def split: option.splits)
  have rest: "collectApplyOps ?n3 = ([], ?n3)"
    by (subst collectApplyOps.simps) (simp add: raft_simps)
  have collect: "collectApplyOps ?n2 = ([\<lparr>ao_entry = ?e, ao_proposal = Some p\<rparr>], ?n3)"
    using less assms(4) rest
    by (subst collectApplyOps.simps) (simp add: raft_simps GetLog_StoreLog Let_def set_commit_def)
  have app: "applyCmd encp decc dec t i data (x, s) = (None, x, engine_set s k v)" for t i x
    by (rule apply_encoded_set) (fact enc assms)+
  have h: "(as, n', s') = ([(p, None)], ?n3, engine_set s k v)"
    using assms(11)[symmetric] assms(2,3) collect app
    by (simp add: handleProposal_def Let_def commit_single_def getLastLogIndex_def)
  have c: "rl.contig (StoreLog (rn_store n) ?e)" "LastIndex (StoreLog (rn_store n) ?e) = ?l + 1"
    using rl.contig_store_next [OF n(1,2) _ assms(5), of ?e] by simp_all
  have "rl.contig (rn_store ?n3)"
    by (rule contig_cong [OF _ _ c(1)]) (simp_all add: raft_simps)
  then have "node_inv ?n3"
    using n(1,3) c(2) log_ok_StoreLog [OF n(1)]
    by (simp add: node_inv_def persist_ok_def raft_simps)
  then show ?thesis using h c(2) by (simp add: raft_simps)
qed

definition single_leader :: raft_node where
  "single_leader =
     sample_node\<lparr>rn_state := Leader, rn_peers := [(''n1'', ''a1'')]\<rparr>"

theorem single_node_write_witness:
  "engine_get (snd (snd (handleProposal (applyCmd (\<lambda>_. []) (\<lambda>_. None)
       (\<lambda>_. Some \<lparr>cmd_type = CmdSet, cmd_key = ''k'', cmd_value = ''v'', cmd_ops = []\<rparr>)) 7
       (CHR 0x00 # be_bytes 4 1 @ ''j'') (single_leader, kv_empty)))) ''k'' = Some ''v''"
proof -
  let ?dec = "\<lambda>_ :: bytes. Some \<lparr>cmd_type = CmdSet, cmd_key = ''k'', cmd_value = ''v'', cmd_ops = []\<rparr>"
  let ?data = "CHR 0x00 # be_bytes 4 1 @ ''j''"
  obtain as n' s' where h: "handleProposal (applyCmd (\<lambda>_. []) (\<lambda>_. None) ?dec) 7 ?data (single_leader, kv_empty)
      = (as, n', s')" by (metis prod.collapse)
  have inv: "node_inv single_leader"
    using sample_node_facts log_ok_empty
    by (simp add: node_inv_def single_leader_def persist_ok_def) (simp add: sample_node_def)
  have "byte_of CmdSet = CHR 0x00" by code_simp
  then have d: "raft_Set (\<lambda>_. Some ''j'') single_leader ''k'' ''v'' = Inr ?data"
    by (simp add: raft_Set_def propose_cmd_def Propose_def encodeCmd_def single_leader_def)
  have z: "LastIndex (rn_store single_leader) = 0" "rn_applied single_leader = 0"
    using sample_node_facts by (simp_all add: single_leader_def) (simp add: sample_node_def)
  show ?thesis
    using single_node_write [OF inv _ _ _ _ _ d _ _ _ h] h z small_indexes(1)
    by (simp add: single_leader_def kv_simps)
qed

text \<open>
  A batch write never takes effect on a Raft engine. Its command begins with the byte that
  \<open>applyCmd\<close> takes for an added peer, so every node tries to read a peer change from it and
  fails: the caller gets an error and no node's data changes. (JSON text does not begin with a zero
  byte, and batches up to 16 MB are meant.)
\<close>

lemma batch_write_is_never_applied:
  assumes "raft_BatchWrite enc n ops = Inr data"
    "enc \<lparr>cmd_type = CmdBatch, cmd_key = [], cmd_value = [], cmd_ops = ops\<rparr> = Some body"
    "length body < 2 ^ 24" "\<And>x. decc (NUL # x) = None"
  shows "applyCmd encp decc dec t i data (n', s) = (Some ''unmarshal'', n', s)"
proof (rule apply_encoded_batch)
  show "enc \<lparr>cmd_type = CmdBatch, cmd_key = [], cmd_value = [], cmd_ops = ops\<rparr> = Some body"
    "length body < 2 ^ 24" by (fact assms)+
  show "decc (NUL # x) = None" for x by (fact assms)
  show "encodeCmd enc \<lparr>cmd_type = CmdBatch, cmd_key = [], cmd_value = [], cmd_ops = ops\<rparr> = Some data"
    using assms(1) by (auto simp: raft_BatchWrite_def propose_cmd_def Propose_def split: if_splits option.splits)
qed simp

text \<open>
  A write transaction reads its own writes: whatever it has set or deleted, a read gives what the
  state would hold after the transaction's batch.
\<close>

lemma transaction_reads_its_writes:
  "raft_txn_Get ops s k = engine_get (engine_batch_write s ops) k"
  by (rule txn_get_batch)

text \<open>
  A command survives the round trip through its log data, as long as its text is below 2^32 - 5
  bytes; a log record whose length field is from 2^32 - 5 on makes the decoder panic instead of
  reporting an error, since its bound is computed in 32 bits.
\<close>

lemma command_codec:
  "(encodeCmd enc c = Some data \<longrightarrow> (\<exists>body. enc c = Some body \<and> length body < 2 ^ 32 - 5 \<and> dec body = Some c) \<longrightarrow>
      decodeCmd dec data = DecOk c) \<and>
   (5 \<le> length bad \<longrightarrow> 2 ^ 32 - 5 \<le> be_val (take 4 (drop 1 bad)) \<longrightarrow> decodeCmd dec bad = DecPanic)"
proof (intro conjI impI)
  assume "encodeCmd enc c = Some data" "\<exists>body. enc c = Some body \<and> length body < 2 ^ 32 - 5 \<and> dec body = Some c"
  then show "decodeCmd dec data = DecOk c" using decode_encode_cmd by blast
next
  assume len: "5 \<le> length bad" and big: "2 ^ 32 - 5 \<le> be_val (take 4 (drop 1 bad))"
  let ?v = "be_val (take 4 (drop 1 bad))"
  have "?v < 256 ^ 4" using be_val_bound [of "take 4 (drop 1 bad)"] len by simp
  then have "unat (5 + word_of_nat ?v :: u32) = ?v + 5 - 2 ^ 32"
    using big by (simp add: unat_word_ariths unat_of_nat mod_if)
  moreover have "?v + 5 - 2 ^ 32 < 5" using \<open>?v < 256 ^ 4\<close> by simp
  ultimately show "decodeCmd dec bad = DecPanic"
    using len unfolding decodeCmd_def Let_def by simp
qed

end
