(* ===== verification/SqlLexer.thy ===== *)
theory SqlLexer
  imports Prelude
begin

text \<open>
  Model of \<^verbatim>\<open>internal/query/sql/lexer.go\<close>: the lexer of the SQL dialect. The lexer state is
  the record of the code (input, position, start of the current token, tokens so far); every
  method is a function on it. Positions are byte positions.
\<close>

section \<open>Tokens\<close>

text \<open>
  \<open>TokenType\<close> is an integer type whose values are numbered by \<open>iota\<close>, in the order of the code
  (\<open>String\<close> depends on that order).
\<close>

type_synonym token_type = int

abbreviation (input) "TOKEN_EOF \<equiv> 0 :: token_type"
abbreviation (input) "TOKEN_ILLEGAL \<equiv> 1 :: token_type"
abbreviation (input) "TOKEN_IDENT \<equiv> 2 :: token_type"
abbreviation (input) "TOKEN_STRING \<equiv> 3 :: token_type"
abbreviation (input) "TOKEN_INTEGER \<equiv> 4 :: token_type"
abbreviation (input) "TOKEN_FLOAT \<equiv> 5 :: token_type"
abbreviation (input) "TOKEN_SELECT \<equiv> 6 :: token_type"
abbreviation (input) "TOKEN_INSERT \<equiv> 7 :: token_type"
abbreviation (input) "TOKEN_UPDATE \<equiv> 8 :: token_type"
abbreviation (input) "TOKEN_DELETE \<equiv> 9 :: token_type"
abbreviation (input) "TOKEN_FROM \<equiv> 10 :: token_type"
abbreviation (input) "TOKEN_WHERE \<equiv> 11 :: token_type"
abbreviation (input) "TOKEN_AND \<equiv> 12 :: token_type"
abbreviation (input) "TOKEN_OR \<equiv> 13 :: token_type"
abbreviation (input) "TOKEN_NOT \<equiv> 14 :: token_type"
abbreviation (input) "TOKEN_IN \<equiv> 15 :: token_type"
abbreviation (input) "TOKEN_IS \<equiv> 16 :: token_type"
abbreviation (input) "TOKEN_NULL \<equiv> 17 :: token_type"
abbreviation (input) "TOKEN_AS \<equiv> 18 :: token_type"
abbreviation (input) "TOKEN_ORDER \<equiv> 19 :: token_type"
abbreviation (input) "TOKEN_BY \<equiv> 20 :: token_type"
abbreviation (input) "TOKEN_ASC \<equiv> 21 :: token_type"
abbreviation (input) "TOKEN_DESC \<equiv> 22 :: token_type"
abbreviation (input) "TOKEN_GROUP \<equiv> 23 :: token_type"
abbreviation (input) "TOKEN_LIMIT \<equiv> 24 :: token_type"
abbreviation (input) "TOKEN_OFFSET \<equiv> 25 :: token_type"
abbreviation (input) "TOKEN_SET \<equiv> 26 :: token_type"
abbreviation (input) "TOKEN_INTO \<equiv> 27 :: token_type"
abbreviation (input) "TOKEN_VALUES \<equiv> 28 :: token_type"
abbreviation (input) "TOKEN_CREATE \<equiv> 29 :: token_type"
abbreviation (input) "TOKEN_TABLE \<equiv> 30 :: token_type"
abbreviation (input) "TOKEN_INDEX \<equiv> 31 :: token_type"
abbreviation (input) "TOKEN_DROP \<equiv> 32 :: token_type"
abbreviation (input) "TOKEN_JOIN \<equiv> 33 :: token_type"
abbreviation (input) "TOKEN_LEFT \<equiv> 34 :: token_type"
abbreviation (input) "TOKEN_ON \<equiv> 35 :: token_type"
abbreviation (input) "TOKEN_TRUE \<equiv> 36 :: token_type"
abbreviation (input) "TOKEN_FALSE \<equiv> 37 :: token_type"
abbreviation (input) "TOKEN_LIKE \<equiv> 38 :: token_type"
abbreviation (input) "TOKEN_BETWEEN \<equiv> 39 :: token_type"
abbreviation (input) "TOKEN_EXISTS \<equiv> 40 :: token_type"
abbreviation (input) "TOKEN_COUNT \<equiv> 41 :: token_type"
abbreviation (input) "TOKEN_SUM \<equiv> 42 :: token_type"
abbreviation (input) "TOKEN_MIN \<equiv> 43 :: token_type"
abbreviation (input) "TOKEN_MAX \<equiv> 44 :: token_type"
abbreviation (input) "TOKEN_AVG \<equiv> 45 :: token_type"
abbreviation (input) "TOKEN_FIRST \<equiv> 46 :: token_type"
abbreviation (input) "TOKEN_LAST \<equiv> 47 :: token_type"
abbreviation (input) "TOKEN_ALTER \<equiv> 48 :: token_type"
abbreviation (input) "TOKEN_SHOW \<equiv> 49 :: token_type"
abbreviation (input) "TOKEN_DESCRIBE \<equiv> 50 :: token_type"
abbreviation (input) "TOKEN_ADD \<equiv> 51 :: token_type"
abbreviation (input) "TOKEN_COLUMN \<equiv> 52 :: token_type"
abbreviation (input) "TOKEN_MODIFY \<equiv> 53 :: token_type"
abbreviation (input) "TOKEN_PRIMARY \<equiv> 54 :: token_type"
abbreviation (input) "TOKEN_KEY \<equiv> 55 :: token_type"
abbreviation (input) "TOKEN_IF \<equiv> 56 :: token_type"
abbreviation (input) "TOKEN_TABLES \<equiv> 57 :: token_type"
abbreviation (input) "TOKEN_INT \<equiv> 58 :: token_type"
abbreviation (input) "TOKEN_INTEGER_TYPE \<equiv> 59 :: token_type"
abbreviation (input) "TOKEN_VARCHAR \<equiv> 60 :: token_type"
abbreviation (input) "TOKEN_TEXT \<equiv> 61 :: token_type"
abbreviation (input) "TOKEN_STRING_TYPE \<equiv> 62 :: token_type"
abbreviation (input) "TOKEN_FLOAT_TYPE \<equiv> 63 :: token_type"
abbreviation (input) "TOKEN_BOOL \<equiv> 64 :: token_type"
abbreviation (input) "TOKEN_BOOLEAN \<equiv> 65 :: token_type"
abbreviation (input) "TOKEN_DEFAULT \<equiv> 66 :: token_type"
abbreviation (input) "TOKEN_USING \<equiv> 67 :: token_type"
abbreviation (input) "TOKEN_HASH \<equiv> 68 :: token_type"
abbreviation (input) "TOKEN_BTREE \<equiv> 69 :: token_type"
abbreviation (input) "TOKEN_INVERTED \<equiv> 70 :: token_type"
abbreviation (input) "TOKEN_FULLTEXT \<equiv> 71 :: token_type"
abbreviation (input) "TOKEN_INDEXES \<equiv> 72 :: token_type"
abbreviation (input) "TOKEN_UNIQUE \<equiv> 73 :: token_type"
abbreviation (input) "TOKEN_MATCH \<equiv> 74 :: token_type"
abbreviation (input) "TOKEN_AGAINST \<equiv> 75 :: token_type"
abbreviation (input) "TOKEN_EQ \<equiv> 76 :: token_type"
abbreviation (input) "TOKEN_NEQ \<equiv> 77 :: token_type"
abbreviation (input) "TOKEN_LT \<equiv> 78 :: token_type"
abbreviation (input) "TOKEN_LTE \<equiv> 79 :: token_type"
abbreviation (input) "TOKEN_GT \<equiv> 80 :: token_type"
abbreviation (input) "TOKEN_GTE \<equiv> 81 :: token_type"
abbreviation (input) "TOKEN_PLUS \<equiv> 82 :: token_type"
abbreviation (input) "TOKEN_MINUS \<equiv> 83 :: token_type"
abbreviation (input) "TOKEN_MULTIPLY \<equiv> 84 :: token_type"
abbreviation (input) "TOKEN_DIVIDE \<equiv> 85 :: token_type"
abbreviation (input) "TOKEN_MODULO \<equiv> 86 :: token_type"
abbreviation (input) "TOKEN_COMMA \<equiv> 87 :: token_type"
abbreviation (input) "TOKEN_SEMICOLON \<equiv> 88 :: token_type"
abbreviation (input) "TOKEN_LPAREN \<equiv> 89 :: token_type"
abbreviation (input) "TOKEN_RPAREN \<equiv> 90 :: token_type"
abbreviation (input) "TOKEN_DOT \<equiv> 91 :: token_type"
abbreviation (input) "TOKEN_VECTOR_DIST \<equiv> 92 :: token_type"

record token =
  tok_type :: token_type
  tok_lit :: bytes
  tok_pos :: nat

definition token_keywords :: "(bytes \<times> token_type) list" where
  "token_keywords =
    [(''SELECT'', TOKEN_SELECT), (''INSERT'', TOKEN_INSERT), (''UPDATE'', TOKEN_UPDATE),
     (''DELETE'', TOKEN_DELETE), (''FROM'', TOKEN_FROM), (''WHERE'', TOKEN_WHERE),
     (''AND'', TOKEN_AND), (''OR'', TOKEN_OR), (''NOT'', TOKEN_NOT), (''IN'', TOKEN_IN),
     (''IS'', TOKEN_IS), (''NULL'', TOKEN_NULL), (''AS'', TOKEN_AS), (''ORDER'', TOKEN_ORDER),
     (''BY'', TOKEN_BY), (''ASC'', TOKEN_ASC), (''DESC'', TOKEN_DESC), (''GROUP'', TOKEN_GROUP),
     (''LIMIT'', TOKEN_LIMIT), (''OFFSET'', TOKEN_OFFSET), (''SET'', TOKEN_SET),
     (''INTO'', TOKEN_INTO), (''VALUES'', TOKEN_VALUES), (''CREATE'', TOKEN_CREATE),
     (''TABLE'', TOKEN_TABLE), (''INDEX'', TOKEN_INDEX), (''DROP'', TOKEN_DROP),
     (''JOIN'', TOKEN_JOIN), (''LEFT'', TOKEN_LEFT), (''ON'', TOKEN_ON), (''TRUE'', TOKEN_TRUE),
     (''FALSE'', TOKEN_FALSE), (''LIKE'', TOKEN_LIKE), (''BETWEEN'', TOKEN_BETWEEN),
     (''EXISTS'', TOKEN_EXISTS), (''COUNT'', TOKEN_COUNT), (''SUM'', TOKEN_SUM), (''MIN'', TOKEN_MIN),
     (''MAX'', TOKEN_MAX), (''AVG'', TOKEN_AVG), (''FIRST'', TOKEN_FIRST), (''LAST'', TOKEN_LAST),
     (''ALTER'', TOKEN_ALTER), (''SHOW'', TOKEN_SHOW), (''DESCRIBE'', TOKEN_DESCRIBE),
     (''ADD'', TOKEN_ADD), (''COLUMN'', TOKEN_COLUMN), (''MODIFY'', TOKEN_MODIFY),
     (''PRIMARY'', TOKEN_PRIMARY), (''KEY'', TOKEN_KEY), (''IF'', TOKEN_IF), (''TABLES'', TOKEN_TABLES),
     (''INT'', TOKEN_INT), (''INTEGER'', TOKEN_INTEGER_TYPE), (''VARCHAR'', TOKEN_VARCHAR),
     (''TEXT'', TOKEN_TEXT), (''STRING'', TOKEN_STRING_TYPE), (''FLOAT'', TOKEN_FLOAT_TYPE),
     (''BOOL'', TOKEN_BOOL), (''BOOLEAN'', TOKEN_BOOLEAN), (''DEFAULT'', TOKEN_DEFAULT),
     (''USING'', TOKEN_USING), (''HASH'', TOKEN_HASH), (''BTREE'', TOKEN_BTREE),
     (''INVERTED'', TOKEN_INVERTED), (''FULLTEXT'', TOKEN_FULLTEXT), (''INDEXES'', TOKEN_INDEXES),
     (''UNIQUE'', TOKEN_UNIQUE), (''MATCH'', TOKEN_MATCH), (''AGAINST'', TOKEN_AGAINST)]"

section \<open>Characters\<close>

definition isDigit :: "char \<Rightarrow> bool" where
  "isDigit c \<longleftrightarrow> 48 \<le> byte_val c \<and> byte_val c \<le> 57"

definition isAlpha :: "char \<Rightarrow> bool" where
  "isAlpha c \<longleftrightarrow> (97 \<le> byte_val c \<and> byte_val c \<le> 122) \<or> (65 \<le> byte_val c \<and> byte_val c \<le> 90)"

definition isAlphaNum :: "char \<Rightarrow> bool" where
  "isAlphaNum c \<longleftrightarrow> isAlpha c \<or> isDigit c"

definition ident_char :: "char \<Rightarrow> bool" where
  "ident_char c \<longleftrightarrow> isAlphaNum c \<or> c = CHR ''_''"

definition space_char :: "char \<Rightarrow> bool" where
  "space_char c \<longleftrightarrow> c = CHR '' '' \<or> c = CHR 0x09 \<or> c = CHR 0x0A \<or> c = CHR 0x0D"

text \<open>
  \<open>string(ch)\<close> of a byte is the UTF-8 form of the code point with that number.
\<close>

definition string_of_byte :: "char \<Rightarrow> bytes" where
  "string_of_byte c =
     (if byte_val c < 0x80 then [c]
      else [char_of (0xC0 + byte_val c div 64), char_of (0x80 + byte_val c mod 64)])"

text \<open>
  \<open>strings.TrimSpace\<close>: the UTF-8 forms of the Unicode space characters, taken off both ends.
\<close>

definition unicode_spaces :: "bytes list" where
  "unicode_spaces =
    [[CHR 0x09], [CHR 0x0A], [CHR 0x0B], [CHR 0x0C], [CHR 0x0D], [CHR 0x20], [CHR 0xC2, CHR 0x85],
     [CHR 0xC2, CHR 0xA0], [CHR 0xE1, CHR 0x9A, CHR 0x80], [CHR 0xE2, CHR 0x80, CHR 0x80],
     [CHR 0xE2, CHR 0x80, CHR 0x81], [CHR 0xE2, CHR 0x80, CHR 0x82],
     [CHR 0xE2, CHR 0x80, CHR 0x83], [CHR 0xE2, CHR 0x80, CHR 0x84],
     [CHR 0xE2, CHR 0x80, CHR 0x85], [CHR 0xE2, CHR 0x80, CHR 0x86],
     [CHR 0xE2, CHR 0x80, CHR 0x87], [CHR 0xE2, CHR 0x80, CHR 0x88],
     [CHR 0xE2, CHR 0x80, CHR 0x89], [CHR 0xE2, CHR 0x80, CHR 0x8A],
     [CHR 0xE2, CHR 0x80, CHR 0xA8], [CHR 0xE2, CHR 0x80, CHR 0xA9],
     [CHR 0xE2, CHR 0x80, CHR 0xAF], [CHR 0xE2, CHR 0x81, CHR 0x9F],
     [CHR 0xE3, CHR 0x80, CHR 0x80]]"

fun strip_any :: "bytes list \<Rightarrow> bytes \<Rightarrow> bytes option" where
  "strip_any [] s = None"
| "strip_any (p # ps) s = (if p \<noteq> [] \<and> prefix p s then Some (drop (length p) s) else strip_any ps s)"

lemma strip_any_shorter: "strip_any ps s = Some t \<Longrightarrow> length t < length s"
  by (induction ps) (auto split: if_splits dest: prefix_length_le simp: prefix_def)

function trim_left :: "bytes list \<Rightarrow> bytes \<Rightarrow> bytes" where
  "trim_left ps s = (case strip_any ps s of None \<Rightarrow> s | Some t \<Rightarrow> trim_left ps t)"
  by pat_completeness auto
termination
  by (relation "measure (\<lambda>(_, s). length s)") (auto simp: strip_any_shorter)

declare trim_left.simps [simp del]

definition TrimSpace :: "bytes \<Rightarrow> bytes" where
  "TrimSpace s = rev (trim_left (map rev unicode_spaces) (rev (trim_left unicode_spaces s)))"

section \<open>The lexer\<close>

record lexer =
  lx_input :: bytes
  lx_pos :: nat
  lx_start :: nat
  lx_tokens :: "token list"

datatype lex_error = UnterminatedString nat

definition NewLexer :: "bytes \<Rightarrow> lexer" where
  "NewLexer s = \<lparr>lx_input = TrimSpace s, lx_pos = 0, lx_start = 0, lx_tokens = []\<rparr>"

text \<open>\<open>l.input[i:j]\<close>, and the position after a run of characters from \<open>i\<close> on.\<close>

definition slice :: "bytes \<Rightarrow> nat \<Rightarrow> nat \<Rightarrow> bytes" where
  "slice s i j = take (j - i) (drop i s)"

definition run_end :: "(char \<Rightarrow> bool) \<Rightarrow> bytes \<Rightarrow> nat \<Rightarrow> nat" where
  "run_end P s i = i + length (takeWhile P (drop i s))"

definition add_token :: "token_type \<Rightarrow> bytes \<Rightarrow> nat \<Rightarrow> lexer \<Rightarrow> lexer" where
  "add_token tt lit pos l = l\<lparr>lx_tokens := lx_tokens l @ [\<lparr>tok_type = tt, tok_lit = lit, tok_pos = pos\<rparr>]\<rparr>"

definition lex_emit :: "token_type \<Rightarrow> lexer \<Rightarrow> lexer" where
  "lex_emit tt l = add_token tt (slice (lx_input l) (lx_start l) (lx_pos l)) (lx_start l) l"

definition lex_peek :: "nat \<Rightarrow> lexer \<Rightarrow> char" where
  "lex_peek off l =
     (if lx_pos l + off \<ge> length (lx_input l) then CHR 0x00 else lx_input l ! (lx_pos l + off))"

definition skipWhitespace :: "lexer \<Rightarrow> lexer" where
  "skipWhitespace l =
     (let p = run_end space_char (lx_input l) (lx_pos l) in l\<lparr>lx_pos := p, lx_start := p\<rparr>)"

text \<open>The scan of \<open>readString\<close> from \<open>i\<close> on: the position of the closing quote.\<close>

function string_end :: "bytes \<Rightarrow> char \<Rightarrow> nat \<Rightarrow> nat option" where
  "string_end s q i =
     (if i \<ge> length s then None
      else if s ! i = q then
        (if i + 1 < length s \<and> s ! (i + 1) = q then string_end s q (i + 2) else Some i)
      else string_end s q (i + 1))"
  by pat_completeness auto
termination
  by (relation "measure (\<lambda>(s, _, i). length s - i)") auto

declare string_end.simps [simp del]

definition readString :: "lexer \<Rightarrow> lex_error + lexer" where
  "readString l =
     (let q = lx_input l ! lx_pos l; start = lx_pos l + 1 in
      case string_end (lx_input l) q start of
        None \<Rightarrow> Inl (UnterminatedString start)
      | Some e \<Rightarrow>
          Inr (add_token TOKEN_STRING (slice (lx_input l) start e) start l
               \<lparr>lx_pos := e + 1, lx_start := e + 1\<rparr>))"

definition readNumber :: "lexer \<Rightarrow> lexer" where
  "readNumber l =
     (let s = lx_input l;
          start = lx_pos l;
          p0 = (if s ! start = CHR ''-'' then start + 1 else start);
          p1 = run_end isDigit s p0;
          isFloat = (p1 < length s \<and> s ! p1 = CHR ''.'');
          p2 = (if isFloat then run_end isDigit s (p1 + 1) else p1)
      in add_token (if isFloat then TOKEN_FLOAT else TOKEN_INTEGER) (slice s start p2) start l
         \<lparr>lx_pos := p2, lx_start := p2\<rparr>)"

definition readIdent :: "lexer \<Rightarrow> lexer" where
  "readIdent l =
     (let s = lx_input l;
          start = lx_pos l;
          p = run_end ident_char s start;
          lit = slice s start p;
          up = to_upper lit
      in (case map_of token_keywords up of
            Some tt \<Rightarrow> add_token tt up start l
          | None \<Rightarrow> add_token TOKEN_IDENT lit start l) \<lparr>lx_pos := p, lx_start := p\<rparr>)"

definition operator_type :: "char \<Rightarrow> token_type option" where
  "operator_type c =
     map_of [(CHR ''='', TOKEN_EQ), (CHR ''<'', TOKEN_LT), (CHR ''>'', TOKEN_GT),
             (CHR ''+'', TOKEN_PLUS), (CHR ''-'', TOKEN_MINUS), (CHR ''*'', TOKEN_MULTIPLY),
             (CHR ''/'', TOKEN_DIVIDE), (CHR ''%'', TOKEN_MODULO), (CHR '','', TOKEN_COMMA),
             (CHR '';'', TOKEN_SEMICOLON), (CHR ''('', TOKEN_LPAREN), (CHR '')'', TOKEN_RPAREN),
             (CHR ''.'', TOKEN_DOT)] c"

definition readOperator :: "lexer \<Rightarrow> lexer" where
  "readOperator l =
     (let c = lx_input l ! lx_pos l; pos = lx_pos l; l' = l\<lparr>lx_pos := lx_pos l + 1\<rparr> in
      case operator_type c of
        Some tt \<Rightarrow> lex_emit tt l'
      | None \<Rightarrow> add_token TOKEN_ILLEGAL (string_of_byte c) pos l')"

text \<open>One round of the loop of \<open>Tokenize\<close> behind the white space; the input is not at its end.\<close>

definition lex_step :: "lexer \<Rightarrow> lex_error + lexer" where
  "lex_step l =
     (let c = lx_input l ! lx_pos l in
      if c = CHR 0x27 \<or> c = CHR 0x22 then readString l
      else if isDigit c then Inr (readNumber l)
      else if isAlpha c \<or> c = CHR ''_'' then Inr (readIdent l)
      else if c = CHR ''<'' \<and> lex_peek 1 l = CHR ''-'' \<and> lex_peek 2 l = CHR ''>'' then
        Inr (lex_emit TOKEN_VECTOR_DIST (l\<lparr>lx_pos := lx_pos l + 3\<rparr>))
      else if c = CHR ''<'' \<and> lex_peek 1 l = CHR ''>'' then
        Inr (lex_emit TOKEN_NEQ (l\<lparr>lx_pos := lx_pos l + 2\<rparr>))
      else if c = CHR ''<'' \<and> lex_peek 1 l = CHR ''='' then
        Inr (lex_emit TOKEN_LTE (l\<lparr>lx_pos := lx_pos l + 2\<rparr>))
      else if c = CHR ''>'' \<and> lex_peek 1 l = CHR ''='' then
        Inr (lex_emit TOKEN_GTE (l\<lparr>lx_pos := lx_pos l + 2\<rparr>))
      else if c = CHR ''!'' \<and> lex_peek 1 l = CHR ''='' then
        Inr (lex_emit TOKEN_NEQ (l\<lparr>lx_pos := lx_pos l + 2\<rparr>))
      else if c = CHR ''-'' \<and> lx_pos l + 1 < length (lx_input l) \<and> isDigit (lx_input l ! (lx_pos l + 1)) then
        Inr (readNumber l)
      else Inr (readOperator l))"

section \<open>Every round moves forward\<close>

lemma run_end_ge: "i \<le> run_end P s i"
  by (simp add: run_end_def)

lemma run_end_le: "i \<le> length s \<Longrightarrow> run_end P s i \<le> length s"
  using length_takeWhile_le [of P "drop i s"] by (simp add: run_end_def)

lemma run_end_gt: "i < length s \<Longrightarrow> P (s ! i) \<Longrightarrow> i < run_end P s i"
  by (simp add: run_end_def Cons_nth_drop_Suc [symmetric])

lemma string_end_bounds: "string_end s q i = Some e \<Longrightarrow> i \<le> e \<and> e < length s"
proof (induction s q i rule: string_end.induct)
  case (1 s q i)
  from 1(3) have e: "(if i \<ge> length s then None
      else if s ! i = q then
        (if i + 1 < length s \<and> s ! (i + 1) = q then string_end s q (i + 2) else Some i)
      else string_end s q (i + 1)) = Some e"
    by (subst (asm) string_end.simps)
  show ?case using e 1(1,2) by (fastforce split: if_splits)
qed

lemma skipWhitespace_sel [simp]:
  "lx_input (skipWhitespace l) = lx_input l" "lx_tokens (skipWhitespace l) = lx_tokens l"
  "lx_start (skipWhitespace l) = lx_pos (skipWhitespace l)" "lx_pos l \<le> lx_pos (skipWhitespace l)"
  by (simp_all add: skipWhitespace_def Let_def run_end_ge)

lemma add_token_sel [simp]:
  "lx_input (add_token tt lit p l) = lx_input l" "lx_pos (add_token tt lit p l) = lx_pos l"
  "lx_start (add_token tt lit p l) = lx_start l"
  "lx_tokens (add_token tt lit p l) = lx_tokens l @ [\<lparr>tok_type = tt, tok_lit = lit, tok_pos = p\<rparr>]"
  by (simp_all add: add_token_def)

lemma lex_emit_sel [simp]:
  "lx_input (lex_emit tt l) = lx_input l" "lx_pos (lex_emit tt l) = lx_pos l"
  "lx_start (lex_emit tt l) = lx_start l"
  by (simp_all add: lex_emit_def)

lemma readNumber_moves:
  "lx_pos l < length (lx_input l) \<Longrightarrow>
     isDigit (lx_input l ! lx_pos l) \<or> lx_input l ! lx_pos l = CHR ''-'' \<Longrightarrow>
     lx_pos l < lx_pos (readNumber l) \<and> lx_input (readNumber l) = lx_input l"
proof -
  assume pos: "lx_pos l < length (lx_input l)"
    and c: "isDigit (lx_input l ! lx_pos l) \<or> lx_input l ! lx_pos l = CHR ''-''"
  let ?s = "lx_input l"
  let ?p0 = "if ?s ! lx_pos l = CHR ''-'' then lx_pos l + 1 else lx_pos l"
  have p1: "lx_pos l < run_end isDigit ?s ?p0"
    using run_end_gt [OF pos, of isDigit] run_end_ge [of "lx_pos l + 1" isDigit ?s] c by auto
  have "run_end isDigit ?s ?p0 \<le> run_end isDigit ?s (run_end isDigit ?s ?p0 + 1)"
    using run_end_ge [of "run_end isDigit ?s ?p0 + 1" isDigit ?s] by simp
  with p1 show ?thesis by (simp add: readNumber_def Let_def)
qed

lemma readIdent_moves:
  "lx_pos l < length (lx_input l) \<Longrightarrow> ident_char (lx_input l ! lx_pos l) \<Longrightarrow>
     lx_pos l < lx_pos (readIdent l) \<and> lx_input (readIdent l) = lx_input l"
  using run_end_gt [of "lx_pos l" "lx_input l" ident_char]
  by (simp add: readIdent_def Let_def split: option.split)

lemma readOperator_moves:
  "lx_pos l < lx_pos (readOperator l) \<and> lx_input (readOperator l) = lx_input l"
  by (simp add: readOperator_def Let_def split: option.split)

lemma readString_moves:
  "readString l = Inr l' \<Longrightarrow> lx_pos l < lx_pos l' \<and> lx_input l' = lx_input l"
  using string_end_bounds [of "lx_input l" "lx_input l ! lx_pos l" "lx_pos l + 1"]
  by (auto simp: readString_def Let_def split: option.splits)

text \<open>
  What every result of a step satisfies: one rule for all branches of \<open>lex_step\<close>, used for the
  progress of the loop and for the invariant of the tokens.
\<close>

definition result_all :: "('a \<Rightarrow> bool) \<Rightarrow> 'e + 'a \<Rightarrow> bool" where
  "result_all Q r \<longleftrightarrow> (case r of Inl _ \<Rightarrow> True | Inr x \<Rightarrow> Q x)"

lemma result_all_simps [simp]: "result_all Q (Inl e)" "result_all Q (Inr x) = Q x"
  by (simp_all add: result_all_def)

lemma result_all_if: "(b \<Longrightarrow> result_all Q x) \<Longrightarrow> (\<not> b \<Longrightarrow> result_all Q y) \<Longrightarrow> result_all Q (if b then x else y)"
  by simp

lemma lex_peek_inside: "lex_peek n l = c \<Longrightarrow> c \<noteq> CHR 0x00 \<Longrightarrow> lx_pos l + n < length (lx_input l)"
  by (auto simp: lex_peek_def split: if_splits)

lemma lex_step_rule:
  assumes pos: "lx_pos l < length (lx_input l)"
    and str: "result_all Q (readString l)"
    and num: "isDigit (lx_input l ! lx_pos l) \<or> lx_input l ! lx_pos l = CHR ''-'' \<Longrightarrow> Q (readNumber l)"
    and ident: "ident_char (lx_input l ! lx_pos l) \<Longrightarrow> Q (readIdent l)"
    and op: "Q (readOperator l)"
    and emit: "\<And>tt n. tt \<in> {TOKEN_VECTOR_DIST, TOKEN_NEQ, TOKEN_LTE, TOKEN_GTE} \<Longrightarrow> 0 < n \<Longrightarrow>
      lx_pos l + n \<le> length (lx_input l) \<Longrightarrow> Q (lex_emit tt (l\<lparr>lx_pos := lx_pos l + n\<rparr>))"
  shows "result_all Q (lex_step l)"
proof -
  have two: "lex_peek 1 l = c \<Longrightarrow> c \<noteq> CHR 0x00 \<Longrightarrow> lx_pos l + 2 \<le> length (lx_input l)" for c
    using lex_peek_inside [of 1 l c] by simp
  have three: "lex_peek 2 l = c \<Longrightarrow> c \<noteq> CHR 0x00 \<Longrightarrow> lx_pos l + 3 \<le> length (lx_input l)" for c
    using lex_peek_inside [of 2 l c] by simp
  have al: "isAlpha c \<or> c = CHR ''_'' \<Longrightarrow> ident_char c" for c
    by (auto simp: ident_char_def isAlphaNum_def)
  show ?thesis
    unfolding lex_step_def Let_def
  proof (intro result_all_if, goal_cases)
    case 1 show ?case by (rule str)
  next
    case 2 then show ?case using num by simp
  next
    case 3 then show ?case using ident al by simp
  next
    case 4 then show ?case using emit [of TOKEN_VECTOR_DIST 3] three [of "CHR ''>''"] by simp
  next
    case 5 then show ?case using emit [of TOKEN_NEQ 2] two [of "CHR ''>''"] by simp
  next
    case 6 then show ?case using emit [of TOKEN_LTE 2] two [of "CHR ''=''"] by simp
  next
    case 7 then show ?case using emit [of TOKEN_GTE 2] two [of "CHR ''=''"] by simp
  next
    case 8 then show ?case using emit [of TOKEN_NEQ 2] two [of "CHR ''=''"] by simp
  next
    case 9 then show ?case using num by simp
  next
    case 10 show ?case using op by simp
  qed
qed

lemma lex_step_moves:
  assumes "lex_step l = Inr l'" "lx_pos l < length (lx_input l)"
  shows "lx_pos l < lx_pos l' \<and> lx_input l' = lx_input l"
proof -
  have "result_all (\<lambda>l'. lx_pos l < lx_pos l' \<and> lx_input l' = lx_input l) (lex_step l)"
  proof (rule lex_step_rule [OF assms(2)])
    show "result_all (\<lambda>l'. lx_pos l < lx_pos l' \<and> lx_input l' = lx_input l) (readString l)"
    proof (cases "readString l")
      case (Inr l'')
      then show ?thesis using readString_moves [OF Inr] by simp
    qed simp
  next
    show "lx_pos l < lx_pos (readNumber l) \<and> lx_input (readNumber l) = lx_input l"
      if "isDigit (lx_input l ! lx_pos l) \<or> lx_input l ! lx_pos l = CHR ''-''"
      by (rule readNumber_moves [OF assms(2) that])
  next
    show "lx_pos l < lx_pos (readIdent l) \<and> lx_input (readIdent l) = lx_input l"
      if "ident_char (lx_input l ! lx_pos l)"
      by (rule readIdent_moves [OF assms(2) that])
  qed (simp_all add: readOperator_moves)
  then show ?thesis by (simp add: assms(1))
qed

function tokenize :: "lexer \<Rightarrow> lex_error + token list" where
  "tokenize l0 =
     (let l = skipWhitespace l0 in
      if lx_pos l \<ge> length (lx_input l) then Inr (lx_tokens (lex_emit TOKEN_EOF l))
      else case lex_step l of Inl e \<Rightarrow> Inl e | Inr l' \<Rightarrow> tokenize l')"
  by pat_completeness auto
termination
proof (relation "measure (\<lambda>l. length (lx_input l) - lx_pos l)", goal_cases)
  case 1
  then show ?case by simp
next
  case (2 l0 l l')
  have m: "lx_pos l < lx_pos l' \<and> lx_input l' = lx_input l"
    using lex_step_moves 2 by auto
  have "lx_pos l0 \<le> lx_pos l" "lx_input l = lx_input l0" using 2(1) by simp_all
  moreover have "lx_pos l < length (lx_input l)" using 2(2) by simp
  ultimately show ?case using conjunct1 [OF m] conjunct2 [OF m] by simp
qed

declare tokenize.simps [simp del]

definition Tokenize :: "bytes \<Rightarrow> lex_error + token list" where
  "Tokenize input = tokenize (NewLexer input)"

definition IsKeyword :: "bytes \<Rightarrow> bool" where
  "IsKeyword s \<longleftrightarrow> map_of token_keywords (to_upper s) \<noteq> None"

definition IsAggregate :: "token_type \<Rightarrow> bool" where
  "IsAggregate tt \<longleftrightarrow>
     tt \<in> {TOKEN_COUNT, TOKEN_SUM, TOKEN_MIN, TOKEN_MAX, TOKEN_AVG, TOKEN_FIRST, TOKEN_LAST}"

definition IsComparisonOp :: "token_type \<Rightarrow> bool" where
  "IsComparisonOp tt \<longleftrightarrow> tt \<in> {TOKEN_EQ, TOKEN_NEQ, TOKEN_LT, TOKEN_LTE, TOKEN_GT, TOKEN_GTE}"

definition IsArithmeticOp :: "token_type \<Rightarrow> bool" where
  "IsArithmeticOp tt \<longleftrightarrow> tt \<in> {TOKEN_PLUS, TOKEN_MINUS, TOKEN_MULTIPLY, TOKEN_DIVIDE, TOKEN_MODULO}"

text \<open>
  \<open>TokenType.String\<close> indexes a table with the distance to the first type of its group; an index out of
  range (a negative type) is a panic, here \<open>None\<close>.
\<close>

definition go_index :: "'a list \<Rightarrow> int \<Rightarrow> 'a option" where
  "go_index xs i = (if 0 \<le> i \<and> i < int (length xs) then Some (xs ! nat i) else None)"

function decimal :: "nat \<Rightarrow> bytes" where
  "decimal n = (if n < 10 then [char_of (48 + n)] else decimal (n div 10) @ [char_of (48 + n mod 10)])"
  by pat_completeness auto
termination
  by (relation "measure id") auto

declare decimal.simps [simp del]

definition TokenType_String :: "token_type \<Rightarrow> bytes option" where
  "TokenType_String t =
     (if t = TOKEN_EOF then Some ''EOF''
      else if t = TOKEN_ILLEGAL then Some ''ILLEGAL''
      else if t \<le> TOKEN_FLOAT then go_index [''IDENT'', ''STRING'', ''INTEGER'', ''FLOAT''] (t - TOKEN_IDENT)
      else if t \<le> TOKEN_LAST then
        go_index [''SELECT'', ''INSERT'', ''UPDATE'', ''DELETE'', ''FROM'', ''WHERE'', ''AND'', ''OR'', ''NOT'', ''IN'', ''IS'', ''NULL'',
                  ''AS'', ''ORDER'', ''BY'', ''ASC'', ''DESC'', ''GROUP'', ''LIMIT'', ''OFFSET'', ''SET'', ''INTO'', ''VALUES'',
                  ''CREATE'', ''TABLE'', ''INDEX'', ''DROP'', ''JOIN'', ''LEFT'', ''ON'', ''TRUE'', ''FALSE'', ''LIKE'',
                  ''BETWEEN'', ''EXISTS'', ''COUNT'', ''SUM'', ''MIN'', ''MAX'', ''AVG'', ''FIRST'', ''LAST''] (t - TOKEN_SELECT)
      else if t \<le> TOKEN_DEFAULT then
        go_index [''ALTER'', ''SHOW'', ''DESCRIBE'', ''ADD'', ''COLUMN'', ''MODIFY'', ''PRIMARY'', ''KEY'', ''IF'', ''TABLES'',
                  ''INT'', ''INTEGER'', ''VARCHAR'', ''TEXT'', ''STRING'', ''FLOAT'', ''BOOL'', ''BOOLEAN'', ''DEFAULT'']
          (t - TOKEN_ALTER)
      else if t \<le> TOKEN_AGAINST then
        go_index [''USING'', ''HASH'', ''BTREE'', ''INVERTED'', ''FULLTEXT'', ''INDEXES'', ''UNIQUE'', ''MATCH'', ''AGAINST'']
          (t - TOKEN_USING)
      else if t \<le> TOKEN_DOT then
        go_index [''='', ''!='', ''<'', ''<='', ''>'', ''>='', ''+'', ''-'', ''*'', ''/'', ''%'', '','', '';'', ''('', '')'', ''.'']
          (t - TOKEN_EQ)
      else if t = TOKEN_VECTOR_DIST then Some ''<->''
      else Some (''TokenType('' @ decimal (nat t) @ '')''))"

definition TokenTypeName :: "token_type \<Rightarrow> bytes option" where
  "TokenTypeName tt = TokenType_String tt"

lemma keyword_name: "list_all (\<lambda>(w, tt). TokenTypeName tt = Some w) token_keywords"
  by code_simp

section \<open>What the tokens say of the input\<close>

text \<open>
  A token stands for a piece of the (trimmed) input that starts at its position: the piece itself,
  its upper case form for a keyword, the UTF-8 form of the byte for an illegal character.
\<close>

definition token_ok :: "bytes \<Rightarrow> token \<Rightarrow> bool" where
  "token_ok s t \<longleftrightarrow>
     (let piece = slice s (tok_pos t) (tok_pos t + length (tok_lit t)) in
      if tok_type t = TOKEN_ILLEGAL then
        tok_pos t < length s \<and> operator_type (s ! tok_pos t) = None \<and> tok_lit t = string_of_byte (s ! tok_pos t)
      else if tok_type t = TOKEN_IDENT then
        tok_lit t = piece \<and> map_of token_keywords (to_upper piece) = None
      else if map_of token_keywords (tok_lit t) = Some (tok_type t) then tok_lit t = to_upper piece
      else tok_lit t = piece)"

definition lex_inv :: "lexer \<Rightarrow> bool" where
  "lex_inv l \<longleftrightarrow>
     lx_pos l \<le> length (lx_input l) \<and> sorted_wrt (<) (map tok_pos (lx_tokens l)) \<and>
     (\<forall>t \<in> set (lx_tokens l). token_ok (lx_input l) t \<and> tok_pos t < lx_pos l \<and> tok_type t \<noteq> TOKEN_EOF)"

lemma slice_length: "i \<le> j \<Longrightarrow> j \<le> length s \<Longrightarrow> length (slice s i j) = j - i"
  by (simp add: slice_def)

lemma slice_piece: "i \<le> j \<Longrightarrow> j \<le> length s \<Longrightarrow> slice s i (i + length (slice s i j)) = slice s i j"
  by (simp add: slice_def)

lemma length_to_upper [simp]: "length (to_upper s) = length s"
  by (simp add: to_upper_def)

lemma token_ok_piece:
  assumes "i \<le> j" "j \<le> length s" "tt \<noteq> TOKEN_ILLEGAL" "tt \<noteq> TOKEN_IDENT"
    "map_of token_keywords (slice s i j) \<noteq> Some tt"
  shows "token_ok s \<lparr>tok_type = tt, tok_lit = slice s i j, tok_pos = i\<rparr>"
  using assms by (simp add: token_ok_def slice_piece)

lemma keyword_type: "map_of token_keywords w = Some tt \<Longrightarrow> TOKEN_SELECT \<le> tt \<and> tt \<le> TOKEN_AGAINST"
  by (drule map_of_SomeD) (auto simp: token_keywords_def)

lemma token_ok_other:
  assumes "i \<le> j" "j \<le> length s" "tt \<in> {TOKEN_EOF, TOKEN_STRING, TOKEN_INTEGER, TOKEN_FLOAT} \<union> {TOKEN_EQ..TOKEN_VECTOR_DIST}"
  shows "token_ok s \<lparr>tok_type = tt, tok_lit = slice s i j, tok_pos = i\<rparr>"
  using assms keyword_type [of "slice s i j" tt] by (intro token_ok_piece) auto

text \<open>A step that leaves the input alone and appends one good token before the new position.\<close>

lemma lex_inv_append:
  assumes "lex_inv l" "lx_input l' = lx_input l" "lx_tokens l' = lx_tokens l @ [t]"
    and "token_ok (lx_input l) t" "lx_pos l \<le> tok_pos t" "tok_pos t < lx_pos l'"
    and "lx_pos l' \<le> length (lx_input l)" "tok_type t \<noteq> TOKEN_EOF"
  shows "lex_inv l'"
  using assms by (fastforce simp: lex_inv_def sorted_wrt_append)

lemma lex_inv_skipWhitespace: "lex_inv l \<Longrightarrow> lex_inv (skipWhitespace l)"
  using run_end_ge [of "lx_pos l" space_char "lx_input l"] run_end_le [of "lx_pos l" "lx_input l" space_char]
  by (fastforce simp: lex_inv_def skipWhitespace_def Let_def)

lemma lex_inv_readString:
  assumes "lex_inv l" "lx_pos l < length (lx_input l)"
  shows "result_all lex_inv (readString l)"
proof (cases "string_end (lx_input l) (lx_input l ! lx_pos l) (lx_pos l + 1)")
  case None
  then show ?thesis by (simp add: readString_def Let_def)
next
  case (Some e)
  then have e: "lx_pos l + 1 \<le> e" "e < length (lx_input l)" by (blast dest: string_end_bounds)+
  let ?t = "\<lparr>tok_type = TOKEN_STRING, tok_lit = slice (lx_input l) (lx_pos l + 1) e, tok_pos = lx_pos l + 1\<rparr>"
  have "token_ok (lx_input l) ?t" using e by (intro token_ok_other) simp_all
  then have "lex_inv (add_token TOKEN_STRING (slice (lx_input l) (lx_pos l + 1) e) (lx_pos l + 1) l
               \<lparr>lx_pos := e + 1, lx_start := e + 1\<rparr>)"
    using e by (intro lex_inv_append [OF assms(1), where t = ?t]) simp_all
  then show ?thesis using Some by (simp add: readString_def Let_def)
qed

lemma lex_inv_readNumber:
  assumes "lex_inv l" "lx_pos l < length (lx_input l)"
    and "isDigit (lx_input l ! lx_pos l) \<or> lx_input l ! lx_pos l = CHR ''-''"
  shows "lex_inv (readNumber l)"
proof -
  let ?s = "lx_input l" and ?i = "lx_pos l"
  define p1 where "p1 = run_end isDigit ?s (if ?s ! ?i = CHR ''-'' then ?i + 1 else ?i)"
  define f where "f = (p1 < length ?s \<and> ?s ! p1 = CHR ''.'')"
  define p2 where "p2 = (if f then run_end isDigit ?s (p1 + 1) else p1)"
  have eq: "readNumber l = add_token (if f then TOKEN_FLOAT else TOKEN_INTEGER) (slice ?s ?i p2) ?i l
              \<lparr>lx_pos := p2, lx_start := p2\<rparr>"
    unfolding readNumber_def Let_def p1_def f_def p2_def by (rule refl)
  have p1: "p1 \<le> length ?s"
    unfolding p1_def using assms(2) by (auto intro!: run_end_le)
  have p2: "p2 \<le> length ?s"
    unfolding p2_def using p1 by (auto simp: f_def intro!: run_end_le)
  have pos: "?i < p2" using readNumber_moves [OF assms(2,3)] by (simp add: eq)
  let ?t = "\<lparr>tok_type = if f then TOKEN_FLOAT else TOKEN_INTEGER, tok_lit = slice ?s ?i p2, tok_pos = ?i\<rparr>"
  have "token_ok ?s ?t" using p2 pos by (intro token_ok_other) simp_all
  then show ?thesis
    unfolding eq using p2 pos by (intro lex_inv_append [OF assms(1), where t = ?t]) simp_all
qed

lemma lex_inv_readIdent:
  assumes "lex_inv l" "lx_pos l < length (lx_input l)" "ident_char (lx_input l ! lx_pos l)"
  shows "lex_inv (readIdent l)"
proof -
  let ?s = "lx_input l" and ?i = "lx_pos l"
  define p where "p = run_end ident_char ?s ?i"
  define w where "w = slice ?s ?i p"
  have p: "?i < p" "p \<le> length ?s"
    using assms(2,3) by (simp_all add: p_def run_end_gt run_end_le)
  have w: "slice ?s ?i (?i + length w) = w" using p by (simp add: w_def slice_piece)
  show ?thesis
  proof (cases "map_of token_keywords (to_upper w)")
    case None
    let ?t = "\<lparr>tok_type = TOKEN_IDENT, tok_lit = w, tok_pos = ?i\<rparr>"
    have "readIdent l = add_token TOKEN_IDENT w ?i l \<lparr>lx_pos := p, lx_start := p\<rparr>"
      using None by (simp add: readIdent_def Let_def p_def w_def)
    moreover have "token_ok ?s ?t" using None w by (simp add: token_ok_def)
    ultimately show ?thesis using p by (intro lex_inv_append [OF assms(1), where t = ?t]) simp_all
  next
    case (Some tt)
    let ?t = "\<lparr>tok_type = tt, tok_lit = to_upper w, tok_pos = ?i\<rparr>"
    have "readIdent l = add_token tt (to_upper w) ?i l \<lparr>lx_pos := p, lx_start := p\<rparr>"
      using Some by (simp add: readIdent_def Let_def p_def w_def)
    moreover have "token_ok ?s ?t" using Some w keyword_type [OF Some] by (simp add: token_ok_def)
    ultimately show ?thesis
      using p keyword_type [OF Some] by (intro lex_inv_append [OF assms(1), where t = ?t]) simp_all
  qed
qed

lemma operator_type_range: "operator_type c = Some tt \<Longrightarrow> TOKEN_EQ \<le> tt \<and> tt \<le> TOKEN_DOT"
  unfolding operator_type_def by (drule map_of_SomeD) auto

lemma lex_inv_emit:
  assumes "lex_inv l" "lx_start l = lx_pos l" "0 < n" "lx_pos l + n \<le> length (lx_input l)"
    and "TOKEN_EQ \<le> tt" "tt \<le> TOKEN_VECTOR_DIST"
  shows "lex_inv (lex_emit tt (l\<lparr>lx_pos := lx_pos l + n\<rparr>))"
proof -
  let ?t = "\<lparr>tok_type = tt, tok_lit = slice (lx_input l) (lx_pos l) (lx_pos l + n), tok_pos = lx_pos l\<rparr>"
  have "token_ok (lx_input l) ?t" using assms by (intro token_ok_other) simp_all
  then show ?thesis
    using assms(2-) by (intro lex_inv_append [OF assms(1), where t = ?t]) (simp_all add: lex_emit_def)
qed

lemma lex_inv_readOperator:
  assumes "lex_inv l" "lx_start l = lx_pos l" "lx_pos l < length (lx_input l)"
  shows "lex_inv (readOperator l)"
proof (cases "operator_type (lx_input l ! lx_pos l)")
  case None
  let ?t = "\<lparr>tok_type = TOKEN_ILLEGAL, tok_lit = string_of_byte (lx_input l ! lx_pos l), tok_pos = lx_pos l\<rparr>"
  have "token_ok (lx_input l) ?t" using assms(3) None by (simp add: token_ok_def)
  then show ?thesis
    using assms(3) None
    by (intro lex_inv_append [OF assms(1), where t = ?t]) (simp_all add: readOperator_def Let_def)
next
  case (Some tt)
  then show ?thesis
    using lex_inv_emit [OF assms(1,2), of 1 tt] assms(3) operator_type_range [OF Some]
    by (simp add: readOperator_def Let_def)
qed

lemma lex_inv_step:
  assumes "lex_inv l" "lx_start l = lx_pos l" "lx_pos l < length (lx_input l)"
  shows "result_all lex_inv (lex_step l)"
  using assms
  by (intro lex_step_rule lex_inv_readString lex_inv_readNumber lex_inv_readIdent lex_inv_readOperator
      lex_inv_emit) auto

lemma tokenize_tokens:
  "lex_inv l \<Longrightarrow> tokenize l = Inr ts \<Longrightarrow>
     (\<exists>body. ts = body @ [\<lparr>tok_type = TOKEN_EOF, tok_lit = [], tok_pos = length (lx_input l)\<rparr>] \<and>
        sorted_wrt (<) (map tok_pos ts) \<and>
        (\<forall>t \<in> set body. tok_type t \<noteq> TOKEN_EOF \<and> token_ok (lx_input l) t))"
proof (induction l rule: tokenize.induct)
  case (1 l0)
  define l where "l = skipWhitespace l0"
  have l: "lex_inv l" "lx_start l = lx_pos l" "lx_input l = lx_input l0"
    using 1(2) by (simp_all add: l_def lex_inv_skipWhitespace)
  show ?case
  proof (cases "lx_pos l \<ge> length (lx_input l)")
    case True
    then have "lx_pos l = length (lx_input l0)" using l by (simp add: lex_inv_def)
    moreover from True have "ts = lx_tokens (lex_emit TOKEN_EOF l)"
      using 1(3) by (subst (asm) tokenize.simps) (simp add: l_def [symmetric] Let_def)
    ultimately show ?thesis
      using l by (fastforce simp: lex_inv_def lex_emit_def slice_def sorted_wrt_append)
  next
    case False
    then obtain l' where l': "lex_step l = Inr l'" and rec: "tokenize l' = Inr ts"
      using 1(3) by (subst (asm) tokenize.simps) (auto simp: l_def [symmetric] Let_def split: sum.splits)
    have "lex_inv l'" using lex_inv_step [OF l(1,2)] False l' by simp
    moreover have "lx_input l' = lx_input l0" using lex_step_moves [OF l'] False l(3) by simp
    ultimately show ?thesis
      using 1(1) [OF l_def _ l' _ rec] False by simp
  qed
qed

lemma lex_inv_NewLexer: "lex_inv (NewLexer input)"
  by (simp add: lex_inv_def NewLexer_def)



text \<open>
  The text of a string literal with every quote doubled, as SQL writes it.
\<close>

fun double_quotes :: "char \<Rightarrow> bytes \<Rightarrow> bytes" where
  "double_quotes q [] = []"
| "double_quotes q (c # w) = (if c = q then [q, q] else [c]) @ double_quotes q w"

lemma string_end_double_quotes:
  "(case rest of [] \<Rightarrow> True | c # _ \<Rightarrow> c \<noteq> q) \<Longrightarrow>
     string_end (pre @ double_quotes q w @ q # rest) q (length pre) = Some (length pre + length (double_quotes q w))"
proof (induction w arbitrary: pre)
  case Nil
  then show ?case by (subst string_end.simps) (auto simp: nth_append split: list.splits)
next
  case (Cons c w)
  show ?case
  proof (cases "c = q")
    case True
    have "string_end (pre @ double_quotes q (c # w) @ q # rest) q (length pre)
        = string_end ((pre @ [q, q]) @ double_quotes q w @ q # rest) q (length (pre @ [q, q]))"
      using True by (subst string_end.simps) (simp add: nth_append)
    then show ?thesis using Cons.IH [OF Cons.prems, of "pre @ [q, q]"] True by simp
  next
    case False
    have "string_end (pre @ double_quotes q (c # w) @ q # rest) q (length pre)
        = string_end ((pre @ [c]) @ double_quotes q w @ q # rest) q (length (pre @ [c]))"
      using False by (subst string_end.simps) (simp add: nth_append)
    then show ?thesis using Cons.IH [OF Cons.prems, of "pre @ [c]"] False by simp
  qed
qed

text \<open>
  A string literal whose quotes are doubled is one token, and its literal is the text between the
  outer quotes as it stands: the doubled quotes are not reduced, so the value read back is the text
  that was written only when it has no quote.
\<close>

lemma string_literal_keeps_doubled_quotes:
  assumes "rest = [] \<or> hd rest \<noteq> q" "lx_input l = pre @ q # double_quotes q w @ q # rest" "lx_pos l = length pre"
  shows "\<exists>l'. readString l = Inr l' \<and>
           lx_tokens l' = lx_tokens l @
             [\<lparr>tok_type = TOKEN_STRING, tok_lit = double_quotes q w, tok_pos = Suc (length pre)\<rparr>] \<and>
           lx_pos l' = length (pre @ q # double_quotes q w @ [q])"
proof -
  have "case rest of [] \<Rightarrow> True | c # _ \<Rightarrow> c \<noteq> q" using assms(1) by (cases rest) auto
  then have e: "string_end (lx_input l) q (Suc (length pre)) = Some (Suc (length pre) + length (double_quotes q w))"
    using string_end_double_quotes [where rest = rest and q = q and pre = "pre @ [q]" and w = w] assms(2) by simp
  moreover have "slice (lx_input l) (Suc (length pre)) (Suc (length pre) + length (double_quotes q w))
      = double_quotes q w"
    using assms(2) by (simp add: slice_def)
  moreover have "lx_input l ! lx_pos l = q" using assms(2,3) by simp
  ultimately show ?thesis using assms(3) by (simp add: readString_def Let_def)
qed

lemma tokenize_error:
  "lex_inv l \<Longrightarrow> tokenize l = Inl (UnterminatedString p) \<Longrightarrow>
     0 < p \<and> p \<le> length (lx_input l) \<and> lx_input l ! (p - 1) \<in> {CHR 0x27, CHR 0x22} \<and>
     string_end (lx_input l) (lx_input l ! (p - 1)) p = None"
proof (induction l rule: tokenize.induct)
  case (1 l0)
  define l where "l = skipWhitespace l0"
  have l: "lex_inv l" "lx_start l = lx_pos l" "lx_input l = lx_input l0"
    using 1(2) by (simp_all add: l_def lex_inv_skipWhitespace)
  have eq: "(if lx_pos l \<ge> length (lx_input l) then Inr (lx_tokens (lex_emit TOKEN_EOF l))
      else case lex_step l of Inl e \<Rightarrow> Inl e | Inr l' \<Rightarrow> tokenize l') = Inl (UnterminatedString p)"
    using 1(3) by (subst (asm) tokenize.simps) (simp only: l_def Let_def)
  then have less: "lx_pos l < length (lx_input l)" by (auto split: if_splits)
  show ?case
  proof (cases "lex_step l")
    case (Inl err)
    then have err: "err = UnterminatedString p" using eq less by simp
    then have "lx_input l ! lx_pos l \<in> {CHR 0x27, CHR 0x22}" and "readString l = Inl (UnterminatedString p)"
      using Inl by (auto simp: lex_step_def Let_def split: if_splits)
    then show ?thesis using less l(3) by (auto simp: readString_def Let_def split: option.splits)
  next
    case (Inr l')
    then have "tokenize l' = Inl (UnterminatedString p)" using eq less by simp
    moreover have "lex_inv l'" using lex_inv_step [OF l(1,2) less] Inr by simp
    moreover have "lx_input l' = lx_input l0" using lex_step_moves [OF Inr less] l(3) by simp
    ultimately show ?thesis using 1(1) [OF l_def _ Inr] less by simp
  qed
qed

text \<open>
  The lexer fails only on an unterminated string: the error names the position behind a quote from
  which on the input holds no closing quote.
\<close>

lemma lexer_error_is_unterminated_string:
  "Tokenize input = Inl e \<Longrightarrow>
     (\<exists>p. e = UnterminatedString p \<and> 0 < p \<and> p \<le> length (TrimSpace input) \<and>
          TrimSpace input ! (p - 1) \<in> {CHR 0x27, CHR 0x22} \<and>
          string_end (TrimSpace input) (TrimSpace input ! (p - 1)) p = None)"
  using tokenize_error [OF lex_inv_NewLexer, of input]
  by (cases e) (simp add: Tokenize_def NewLexer_def)

end
