(* ===== verification/GoStrconv.thy ===== *)
theory GoStrconv
  imports SqlLexer
begin

text \<open>
  The number parsing of Go's \<^verbatim>\<open>strconv\<close> on the literals the lexer produces: an optional minus sign,
  decimal digits and, for floats, one point with digits behind it. \<open>ParseInt\<close> is the base 10, 64 bit
  form; \<open>ParseFloat\<close> rounds to the nearest \<open>float64\<close>, ties to even, and fails on overflow.
\<close>

section \<open>Integers\<close>

definition int64_min :: int where "int64_min = - (2 ^ 63)"
definition int64_max :: int where "int64_max = 2 ^ 63 - 1"

definition digits_val :: "bytes \<Rightarrow> nat" where
  "digits_val ds = foldl (\<lambda>n c. n * 10 + (byte_val c - 48)) 0 ds"

definition sign_split :: "bytes \<Rightarrow> bool \<times> bytes" where
  "sign_split s = (case s of [] \<Rightarrow> (False, []) | c # r \<Rightarrow>
     if c = CHR ''-'' then (True, r) else if c = CHR ''+'' then (False, r) else (False, s))"

definition ParseInt :: "bytes \<Rightarrow> int option" where
  "ParseInt s =
     (let (neg, ds) = sign_split s in
      if ds = [] \<or> \<not> list_all isDigit ds then None
      else let n = (if neg then - int (digits_val ds) else int (digits_val ds)) in
        if int64_min \<le> n \<and> n \<le> int64_max then Some n else None)"

definition print_int :: "int \<Rightarrow> bytes" where
  "print_int n = (if n < 0 then CHR ''-'' # decimal (nat (- n)) else decimal (nat n))"

lemma digits_val_snoc: "digits_val (ds @ [c]) = digits_val ds * 10 + (byte_val c - 48)"
  by (simp add: digits_val_def)

lemma digit_char: "d < 10 \<Longrightarrow> byte_val (char_of (48 + d :: nat)) = 48 + d"
  by (rule byte_val_char_of) simp

lemma isDigit_digit: "d < 10 \<Longrightarrow> isDigit (char_of (48 + d :: nat))"
  by (simp only: isDigit_def digit_char) simp

lemma decimal_digits: "decimal n \<noteq> [] \<and> list_all isDigit (decimal n) \<and> digits_val (decimal n) = n"
proof (induction n rule: decimal.induct)
  case (1 n)
  show ?case
  proof (cases "n < 10")
    case True
    then have "decimal n = [char_of (48 + n)]" by (subst decimal.simps) simp
    then show ?thesis
      using isDigit_digit [OF True] digit_char [OF True] by (simp only: digits_val_def foldl.simps list.pred_inject) simp
  next
    case False
    then have eq: "decimal n = decimal (n div 10) @ [char_of (48 + n mod 10)]"
      by (subst decimal.simps) simp
    have "n mod 10 < 10" by simp
    note d = isDigit_digit [OF this] digit_char [OF this]
    have "digits_val (decimal n) = n"
      unfolding eq digits_val_snoc d(2) using 1 False by simp
    moreover have "list_all isDigit (decimal n)"
      unfolding eq list_all_append using 1 [OF False] d(1) by (simp del: of_char_of char_of_def)
    ultimately show ?thesis by (simp add: eq)
  qed
qed

lemma decimal_head: "decimal n = c # r \<Longrightarrow> isDigit c"
  using decimal_digits [of n] by simp

lemma ParseInt_print_int: "int64_min \<le> n \<Longrightarrow> n \<le> int64_max \<Longrightarrow> ParseInt (print_int n) = Some n"
proof -
  assume range: "int64_min \<le> n" "n \<le> int64_max"
  have split: "sign_split (print_int n) = (n < 0, decimal (nat \<bar>n\<bar>))"
  proof (cases "n < 0")
    case False
    obtain c r where cr: "decimal (nat n) = c # r"
      using decimal_digits [of "nat n"] by (cases "decimal (nat n)") auto
    have "isDigit c" by (rule decimal_head [OF cr])
    then have "c \<noteq> CHR ''-''" "c \<noteq> CHR ''+''" by (auto simp: isDigit_def)
    with False cr show ?thesis by (simp add: print_int_def sign_split_def)
  qed (simp add: print_int_def sign_split_def)
  note d = decimal_digits [of "nat \<bar>n\<bar>"]
  then have "digits_val (decimal (nat \<bar>n\<bar>)) = nat \<bar>n\<bar>" by blast
  then have "(if n < 0 then - int (digits_val (decimal (nat \<bar>n\<bar>))) else int (digits_val (decimal (nat \<bar>n\<bar>)))) = n"
    by (simp only:) simp
  with d range show ?thesis by (simp only: ParseInt_def split Let_def prod.case) simp
qed

section \<open>Floats\<close>

fun bit_len :: "nat \<Rightarrow> nat" where
  "bit_len n = (if n = 0 then 0 else Suc (bit_len (n div 2)))"

declare bit_len.simps [simp del]

text \<open>
  \<open>num / den\<close> divided by \<open>2 ^ e\<close>, rounded to an integer, ties to even.
\<close>

definition scaled :: "nat \<Rightarrow> nat \<Rightarrow> int \<Rightarrow> nat \<times> nat" where
  "scaled num den e = (num * 2 ^ nat (- e), den * 2 ^ nat e)"

definition round_div :: "nat \<Rightarrow> nat \<Rightarrow> nat" where
  "round_div a b =
     (let q = a div b; r = a mod b in
      if 2 * r > b \<or> (2 * r = b \<and> odd q) then q + 1 else q)"

text \<open>
  The exponent of the last place: 53 significant bits, or that of the subnormal numbers.
\<close>

definition last_place :: "nat \<Rightarrow> nat \<Rightarrow> int" where
  "last_place num den =
     (let e = int (bit_len num) - int (bit_len den) - 53;
          (a, b) = scaled num den e
      in max (- 1074) (if a div b < 2 ^ 53 then e else e + 1))"

definition float_bits :: "nat \<Rightarrow> nat \<Rightarrow> nat" where
  "float_bits num den =
     (if num = 0 then 0
      else let e = last_place num den; (a, b) = scaled num den e
           in nat (e + 1074) * 2 ^ 52 + round_div a b)"

definition ParseFloat :: "bytes \<Rightarrow> f64 option" where
  "ParseFloat s =
     (let (neg, r) = sign_split s;
          ip = takeWhile isDigit r;
          rest = drop (length ip) r;
          fp = (if rest = [] then [] else tl rest)
      in if (rest \<noteq> [] \<and> hd rest \<noteq> CHR ''.'') \<or> \<not> list_all isDigit fp \<or> ip @ fp = [] then None
         else let b = float_bits (digits_val (ip @ fp)) (10 ^ length fp) in
           if b \<ge> 0x7FF0000000000000 then None
           else Some (word_of_nat (if neg then b + 2 ^ 63 else b)))"

lemmas ParseFloat_eval = ParseFloat_def sign_split_def digits_val_def isDigit_def float_bits_def last_place_def
  scaled_def round_div_def bit_len.simps Let_def

end
