(* ===== verification/SqlAst.thy ===== *)
theory SqlAst
  imports GoStrconv
begin

text \<open>
  The syntax trees of \<^verbatim>\<open>internal/query/sql/ast.go\<close>. An interface with its node types is a
  datatype with one constructor per node type; an optional pointer or interface is an \<open>option\<close>, an
  absent string the empty one.
\<close>

datatype join_type = JoinInner | JoinLeft

record table_ref =
  ref_name :: bytes
  ref_alias :: bytes

datatype expr =
    IdentifierExpr (id_name: bytes) (id_table: bytes)
  | StringLiteralExpr bytes
  | IntegerLiteralExpr int
  | FloatLiteralExpr f64
  | BoolLiteralExpr bool
  | NullLiteralExpr
  | BinaryExpr token_type expr expr
  | UnaryExpr token_type expr
  | FuncCallExpr bytes "expr list" bool
  | StarExpr
  | InExpr expr "expr list" bool
  | BetweenExpr expr expr expr bool
  | LikeExpr expr expr bool
  | IsNullExpr expr bool
  | MatchExpr "bytes list" bytes
  | SubqueryExpr select_stmt
and select_stmt =
    SelectStmt (sel_Distinct: bool) (sel_Columns: "(expr \<times> bytes) list") (sel_From: "table_ref option")
      (sel_Joins: "join_clause list") (sel_Where: "expr option") (sel_GroupBy: "expr list")
      (sel_Having: "expr option") (sel_OrderBy: "(expr \<times> bool) list") (sel_Limit: "int option")
      (sel_Offset: "int option")
and join_clause = JoinClause (join_kind: join_type) (join_table: table_ref) (join_on: "expr option")

record column_type =
  ct_name :: bytes
  ct_length :: int

record column_def =
  cd_name :: bytes
  cd_type :: column_type
  cd_nullable :: bool
  cd_default :: "expr option"
  cd_primary :: bool

datatype sql_alter_action =
    AddColumnAction column_def
  | DropColumnAction bytes
  | ModifyColumnAction column_def

datatype statement =
    Select select_stmt
  | InsertStmt (ins_table: bytes) (ins_columns: "bytes list") (ins_values: "expr list list")
  | UpdateStmt (upd_table: bytes) (upd_set: "(bytes \<times> expr) list") (upd_where: "expr option")
  | DeleteStmt (del_table: bytes) (del_where: "expr option")
  | CreateTableStmt (cre_if_not_exists: bool) (cre_table: bytes) (cre_columns: "column_def list")
  | DropTableStmt (drop_if_exists: bool) (drop_table: bytes)
  | AlterTableStmt (alt_table: bytes) (alt_action: sql_alter_action)
  | ShowTablesStmt
  | DescribeTableStmt (desc_table: bytes)
  | CreateIndexStmt (ci_if_not_exists: bool) (ci_name: bytes) (ci_table: bytes) (ci_column: bytes)
      (ci_type: bytes) (ci_unique: bool)
  | DropIndexStmt (di_if_exists: bool) (di_name: bytes)
  | ShowIndexesStmt (si_table: bytes)

text \<open>
  The \<open>String\<close> methods of the expressions, which name the columns of a result. \<open>fmt_g\<close> is the text
  \<open>%g\<close> gives a \<open>float64\<close>; \<open>None\<close> stands for an operator type outside the tables of \<open>TokenType.String\<close>.
\<close>

fun expr_String :: "(f64 \<Rightarrow> bytes) \<Rightarrow> expr \<Rightarrow> bytes option" where
  "expr_String fmt_g (IdentifierExpr name table) = Some (if table \<noteq> [] then table @ ''.'' @ name else name)"
| "expr_String fmt_g (StringLiteralExpr v) = Some (CHR 0x27 # v @ [CHR 0x27])"
| "expr_String fmt_g (IntegerLiteralExpr n) = Some (print_int n)"
| "expr_String fmt_g (FloatLiteralExpr f) = Some (fmt_g f)"
| "expr_String fmt_g (BoolLiteralExpr b) = Some (if b then ''TRUE'' else ''FALSE'')"
| "expr_String fmt_g NullLiteralExpr = Some ''NULL''"
| "expr_String fmt_g (BinaryExpr op l r) =
     (case (expr_String fmt_g l, TokenType_String op, expr_String fmt_g r) of
        (Some a, Some o', Some b) \<Rightarrow> Some (''('' @ a @ '' '' @ o' @ '' '' @ b @ '')'')
      | _ \<Rightarrow> None)"
| "expr_String fmt_g (UnaryExpr op e) =
     (case (TokenType_String op, expr_String fmt_g e) of
        (Some o', Some a) \<Rightarrow> Some (''('' @ o' @ '' '' @ a @ '')'')
      | _ \<Rightarrow> None)"
| "expr_String fmt_g (FuncCallExpr name args _) =
     Some (if args = [StarExpr] then name @ ''(*)'' else name @ ''(...)'')"
| "expr_String fmt_g StarExpr = Some ''*''"
| "expr_String fmt_g (InExpr _ _ _) = Some ''IN (...)''"
| "expr_String fmt_g (BetweenExpr _ _ _ _) = Some ''BETWEEN ... AND ...''"
| "expr_String fmt_g (LikeExpr _ _ _) = Some ''LIKE ...''"
| "expr_String fmt_g (IsNullExpr _ neg) = Some (if neg then ''IS NOT NULL'' else ''IS NULL'')"
| "expr_String fmt_g (MatchExpr _ _) = Some ''MATCH(...) AGAINST (...)''"
| "expr_String fmt_g (SubqueryExpr _) = Some ''(SELECT ...)''"

definition alter_String :: "sql_alter_action \<Rightarrow> bytes" where
  "alter_String a = (case a of AddColumnAction _ \<Rightarrow> ''ADD COLUMN ...'' | DropColumnAction _ \<Rightarrow> ''DROP COLUMN ...''
     | ModifyColumnAction _ \<Rightarrow> ''MODIFY COLUMN ...'')"

definition statement_String :: "statement \<Rightarrow> bytes" where
  "statement_String s = (case s of
     Select _ \<Rightarrow> ''SELECT ...'' | InsertStmt _ _ _ \<Rightarrow> ''INSERT ...'' | UpdateStmt _ _ _ \<Rightarrow> ''UPDATE ...''
   | DeleteStmt _ _ \<Rightarrow> ''DELETE ...'' | CreateTableStmt _ _ _ \<Rightarrow> ''CREATE TABLE ...''
   | DropTableStmt _ _ \<Rightarrow> ''DROP TABLE ...'' | AlterTableStmt _ _ \<Rightarrow> ''ALTER TABLE ...''
   | ShowTablesStmt \<Rightarrow> ''SHOW TABLES'' | DescribeTableStmt _ \<Rightarrow> ''DESCRIBE ...''
   | CreateIndexStmt _ _ _ _ _ _ \<Rightarrow> ''CREATE INDEX ...'' | DropIndexStmt _ _ \<Rightarrow> ''DROP INDEX ...''
   | ShowIndexesStmt _ \<Rightarrow> ''SHOW INDEXES'')"

end
