(* ===== verification/SqlParser.thy ===== *)
theory SqlParser
  imports SqlAst
begin

text \<open>
  Model of \<^verbatim>\<open>internal/query/sql/parser.go\<close>, the recursive descent parser. The parser state is the
  list of the tokens from \<open>p.pos\<close> on: \<open>peek\<close> is its head (EOF when there is none), \<open>advance\<close> its tail.
  A parser function maps the state to a node and the new state or to an error; the code throws the
  state away on an error. The expression levels are functions of the parser \<open>rec\<close> that stands for a
  nested \<open>parseOrExpr\<close>; \<open>parseOrExpr d\<close> ties the knot with nesting depth \<open>d\<close>, and loops count the
  tokens that are left. Running out of either is \<open>PFuel\<close>, which never happens (theory SqlParserProps).
\<close>

datatype parse_error =
    ELexer lex_error
  | EStatement token_type nat
  | EExpected token_type token_type nat
  | EExpectedIdent token_type nat
  | EExpectedInteger token_type nat
  | EExpectedJoin nat
  | EExpectedColumnType token_type nat
  | EExpectedAction token_type nat
  | EExpectedIndexes token_type nat
  | EExpectedDescribe token_type nat
  | EExpectedIndexType token_type nat
  | EExpectedString token_type nat
  | EUnexpectedToken token_type nat
  | EInvalidInteger bytes nat
  | EInvalidFloat bytes nat
  | EParseInt bytes

datatype 'a presult = POk 'a "token list" | PErr parse_error | PFuel

type_synonym 'a parser = "token list \<Rightarrow> 'a presult"

definition pret :: "'a \<Rightarrow> 'a parser" where
  "pret x ts = POk x ts"

definition perr :: "parse_error \<Rightarrow> 'a parser" where
  "perr e ts = PErr e"

definition pbind :: "'a parser \<Rightarrow> ('a \<Rightarrow> 'b parser) \<Rightarrow> 'b parser" where
  "pbind p f ts = (case p ts of POk x ts' \<Rightarrow> f x ts' | PErr e \<Rightarrow> PErr e | PFuel \<Rightarrow> PFuel)"

section \<open>The token stream\<close>

definition eof_token :: token where
  "eof_token = \<lparr>tok_type = TOKEN_EOF, tok_lit = [], tok_pos = 0\<rparr>"

definition peek :: "token list \<Rightarrow> token" where
  "peek ts = (case ts of [] \<Rightarrow> eof_token | t # _ \<Rightarrow> t)"

definition peekAt :: "nat \<Rightarrow> token list \<Rightarrow> token" where
  "peekAt offset ts = peek (drop offset ts)"

definition advance :: "token parser" where
  "advance ts = POk (peek ts) (tl ts)"

definition pexpect :: "token_type \<Rightarrow> unit parser" where
  "pexpect tt ts =
     (let tok = peek ts in
      if tok_type tok \<noteq> tt then PErr (EExpected tt (tok_type tok) (tok_pos tok)) else POk () (tl ts))"

text \<open>A call of \<open>p.expect\<close> whose error is dropped: it takes the token when it is there.\<close>

definition try_expect :: "token_type \<Rightarrow> unit parser" where
  "try_expect tt ts = (case pexpect tt ts of POk _ ts' \<Rightarrow> POk () ts' | _ \<Rightarrow> POk () ts)"

definition expectIdent :: "bytes parser" where
  "expectIdent ts =
     (let tok = peek ts in
      if tok_type tok \<noteq> TOKEN_IDENT then PErr (EExpectedIdent (tok_type tok) (tok_pos tok))
      else POk (tok_lit tok) (tl ts))"

definition parseIntLiteral :: "int parser" where
  "parseIntLiteral ts =
     (let tok = peek ts in
      if tok_type tok \<noteq> TOKEN_INTEGER then PErr (EExpectedInteger (tok_type tok) (tok_pos tok))
      else case ParseInt (tok_lit tok) of
             None \<Rightarrow> PErr (EParseInt (tok_lit tok))
           | Some n \<Rightarrow> POk n (tl ts))"

text \<open>\<open>if p.peek().Type == tt { p.advance(); a } else { b }\<close>, and the same on a word.\<close>

definition on_tok :: "token_type \<Rightarrow> 'a parser \<Rightarrow> 'a parser \<Rightarrow> 'a parser" where
  "on_tok tt a b ts = (if tok_type (peek ts) = tt then a (tl ts) else b ts)"

definition on_word :: "bytes \<Rightarrow> 'a parser \<Rightarrow> 'a parser \<Rightarrow> 'a parser" where
  "on_word w a b ts =
     (if tok_type (peek ts) = TOKEN_IDENT \<and> tok_lit (peek ts) = w then a (tl ts) else b ts)"

definition with_peek :: "(token \<Rightarrow> 'a parser) \<Rightarrow> 'a parser" where
  "with_peek f ts = f (peek ts) ts"

text \<open>
  The loop \<open>for { item; append; if p.peek().Type != TOKEN_COMMA { break }; p.advance() }\<close>.
\<close>

fun comma_loop :: "nat \<Rightarrow> 'a parser \<Rightarrow> 'a list \<Rightarrow> 'a list parser" where
  "comma_loop 0 item acc ts = PFuel"
| "comma_loop (Suc n) item acc ts =
     pbind item (\<lambda>x. on_tok TOKEN_COMMA (comma_loop n item (acc @ [x])) (pret (acc @ [x]))) ts"

definition comma_list :: "'a parser \<Rightarrow> 'a list parser" where
  "comma_list item ts = comma_loop (Suc (length ts)) item [] ts"

text \<open>
  The loop of a left associative level: \<open>for isop(p.peek().Type) { op; right := sub(); left = ... }\<close>.
\<close>

fun binary_loop :: "nat \<Rightarrow> (token_type \<Rightarrow> bool) \<Rightarrow> expr parser \<Rightarrow> expr \<Rightarrow> expr parser" where
  "binary_loop 0 isop sub left ts = PFuel"
| "binary_loop (Suc n) isop sub left ts =
     (if isop (tok_type (peek ts)) then
        pbind sub (\<lambda>right. binary_loop n isop sub (BinaryExpr (tok_type (peek ts)) left right)) (tl ts)
      else POk left ts)"

definition binary_level :: "(token_type \<Rightarrow> bool) \<Rightarrow> expr parser \<Rightarrow> expr parser" where
  "binary_level isop sub = pbind sub (\<lambda>left ts. binary_loop (Suc (length ts)) isop sub left ts)"

definition parseIdentList :: "bytes list parser" where
  "parseIdentList = comma_list expectIdent"

definition parseExprList :: "expr parser \<Rightarrow> expr list parser" where
  "parseExprList rec = comma_list rec"

section \<open>SELECT\<close>

definition parseTableRef :: "table_ref parser" where
  "parseTableRef =
     pbind expectIdent (\<lambda>name.
       on_tok TOKEN_AS (pbind expectIdent (\<lambda>alias. pret \<lparr>ref_name = name, ref_alias = alias\<rparr>))
         (with_peek (\<lambda>tok.
            if tok_type tok = TOKEN_IDENT \<and> \<not> IsKeyword (tok_lit tok)
            then pbind advance (\<lambda>_. pret \<lparr>ref_name = name, ref_alias = tok_lit tok\<rparr>)
            else pret \<lparr>ref_name = name, ref_alias = []\<rparr>)))"

definition select_column :: "expr parser \<Rightarrow> (expr \<times> bytes) parser" where
  "select_column rec =
     pbind rec (\<lambda>e.
       on_tok TOKEN_AS (pbind expectIdent (\<lambda>alias. pret (e, alias)))
         (with_peek (\<lambda>tok.
            if tok_type tok = TOKEN_IDENT then pbind advance (\<lambda>_. pret (e, tok_lit tok))
            else pret (e, []))))"

definition parseSelectColumns :: "expr parser \<Rightarrow> (expr \<times> bytes) list parser" where
  "parseSelectColumns rec =
     on_tok TOKEN_MULTIPLY (pret [(StarExpr, [])]) (comma_list (select_column rec))"

definition order_item :: "expr parser \<Rightarrow> (expr \<times> bool) parser" where
  "order_item rec =
     pbind rec (\<lambda>e.
       on_tok TOKEN_ASC (pret (e, True)) (on_tok TOKEN_DESC (pret (e, False)) (pret (e, True))))"

definition parseOrderBy :: "expr parser \<Rightarrow> (expr \<times> bool) list parser" where
  "parseOrderBy rec = comma_list (order_item rec)"

text \<open>An optional clause: the clause behind its keyword as \<open>Some\<close>, \<open>None\<close> without the keyword.\<close>

definition opt_clause :: "token_type \<Rightarrow> 'a parser \<Rightarrow> 'a option parser" where
  "opt_clause tt p = on_tok tt (pbind p (\<lambda>x. pret (Some x))) (pret None)"

definition parseJoin :: "expr parser \<Rightarrow> join_type \<Rightarrow> join_clause parser" where
  "parseJoin rec kind =
     pbind (pexpect TOKEN_JOIN) (\<lambda>_.
     pbind parseTableRef (\<lambda>table.
     pbind (opt_clause TOKEN_ON rec) (\<lambda>on.
     pret (JoinClause kind table on))))"

fun join_loop :: "nat \<Rightarrow> expr parser \<Rightarrow> join_clause list \<Rightarrow> join_clause list parser" where
  "join_loop 0 rec joins ts = PFuel"
| "join_loop (Suc n) rec joins ts =
     (if tok_type (peek ts) = TOKEN_JOIN then
        pbind (parseJoin rec JoinInner) (\<lambda>join. join_loop n rec (joins @ [join])) ts
      else if tok_type (peek ts) = TOKEN_LEFT then
        (if tok_type (peek (tl ts)) = TOKEN_JOIN
         then pbind (parseJoin rec JoinLeft) (\<lambda>join. join_loop n rec (joins @ [join])) (tl ts)
         else PErr (EExpectedJoin (tok_pos (peek ts))))
      else POk joins ts)"

definition opt_semicolon :: "'a \<Rightarrow> 'a parser" where
  "opt_semicolon x = on_tok TOKEN_SEMICOLON (pret x) (pret x)"

definition parseSelect :: "expr parser \<Rightarrow> select_stmt parser" where
  "parseSelect rec =
     pbind (try_expect TOKEN_SELECT) (\<lambda>_.
     pbind (on_word ''DISTINCT'' (pret True) (pret False)) (\<lambda>distinct.
     pbind (parseSelectColumns rec) (\<lambda>cols.
     pbind (opt_clause TOKEN_FROM parseTableRef) (\<lambda>frm.
     pbind (\<lambda>ts. join_loop (Suc (length ts)) rec [] ts) (\<lambda>joins.
     pbind (opt_clause TOKEN_WHERE rec) (\<lambda>whr.
     pbind (on_tok TOKEN_GROUP (pbind (try_expect TOKEN_BY) (\<lambda>_. parseExprList rec)) (pret [])) (\<lambda>groupBy.
     pbind (on_word ''HAVING'' (pbind rec (\<lambda>e. pret (Some e))) (pret None)) (\<lambda>having.
     pbind (on_tok TOKEN_ORDER (pbind (try_expect TOKEN_BY) (\<lambda>_. parseOrderBy rec)) (pret [])) (\<lambda>orderBy.
     pbind (opt_clause TOKEN_LIMIT parseIntLiteral) (\<lambda>limit.
     pbind (opt_clause TOKEN_OFFSET parseIntLiteral) (\<lambda>offset.
     opt_semicolon
       (SelectStmt distinct cols frm joins whr groupBy having orderBy limit offset))))))))))))"

section \<open>Expressions\<close>

definition parseFuncCall :: "expr parser \<Rightarrow> bytes \<Rightarrow> expr parser" where
  "parseFuncCall rec name =
     pbind (try_expect TOKEN_LPAREN) (\<lambda>_.
     pbind (on_word ''DISTINCT'' (pret True) (pret False)) (\<lambda>distinct.
     pbind (with_peek (\<lambda>tok. if tok_type tok \<noteq> TOKEN_RPAREN then parseExprList rec else pret [])) (\<lambda>args.
     pbind (try_expect TOKEN_RPAREN) (\<lambda>_.
     pret (FuncCallExpr name args distinct)))))"

definition parseAggregateFunc :: "expr parser \<Rightarrow> expr parser" where
  "parseAggregateFunc rec =
     pbind advance (\<lambda>tok.
     pbind (try_expect TOKEN_LPAREN) (\<lambda>_.
     pbind (on_word ''DISTINCT'' (pret True) (pret False)) (\<lambda>distinct.
     pbind (with_peek (\<lambda>t. if tok_type t \<noteq> TOKEN_RPAREN
         then on_tok TOKEN_MULTIPLY (pret [StarExpr]) (parseExprList rec) else pret [])) (\<lambda>args.
     pbind (try_expect TOKEN_RPAREN) (\<lambda>_.
     pret (FuncCallExpr (tok_lit tok) args distinct))))))"

definition parseIdentOrFunc :: "expr parser \<Rightarrow> expr parser" where
  "parseIdentOrFunc rec =
     pbind advance (\<lambda>tok.
     with_peek (\<lambda>t.
       if tok_type t = TOKEN_LPAREN then parseFuncCall rec (tok_lit tok)
       else on_tok TOKEN_DOT (pbind expectIdent (\<lambda>col. pret (IdentifierExpr col (tok_lit tok))))
         (pret (IdentifierExpr (tok_lit tok) []))))"

definition parseMatchExpr :: "expr parser" where
  "parseMatchExpr =
     pbind (pexpect TOKEN_MATCH) (\<lambda>_.
     pbind (pexpect TOKEN_LPAREN) (\<lambda>_.
     pbind (comma_list expectIdent) (\<lambda>cols.
     pbind (pexpect TOKEN_RPAREN) (\<lambda>_.
     pbind (pexpect TOKEN_AGAINST) (\<lambda>_.
     pbind (pexpect TOKEN_LPAREN) (\<lambda>_.
     with_peek (\<lambda>tok.
       if tok_type tok \<noteq> TOKEN_STRING then perr (EExpectedString (tok_type tok) (tok_pos tok))
       else pbind advance (\<lambda>_. pbind (pexpect TOKEN_RPAREN) (\<lambda>_. pret (MatchExpr cols (tok_lit tok)))))))))))"

definition parsePrimary :: "expr parser \<Rightarrow> expr parser" where
  "parsePrimary rec =
     with_peek (\<lambda>tok.
       let tt = tok_type tok in
       if tt = TOKEN_IDENT then parseIdentOrFunc rec
       else if tt = TOKEN_MATCH then parseMatchExpr
       else if tt = TOKEN_STRING then pbind advance (\<lambda>_. pret (StringLiteralExpr (tok_lit tok)))
       else if tt = TOKEN_INTEGER then
         pbind advance (\<lambda>_. case ParseInt (tok_lit tok) of
             None \<Rightarrow> perr (EInvalidInteger (tok_lit tok) (tok_pos tok))
           | Some n \<Rightarrow> pret (IntegerLiteralExpr n))
       else if tt = TOKEN_FLOAT then
         pbind advance (\<lambda>_. case ParseFloat (tok_lit tok) of
             None \<Rightarrow> perr (EInvalidFloat (tok_lit tok) (tok_pos tok))
           | Some f \<Rightarrow> pret (FloatLiteralExpr f))
       else if tt = TOKEN_TRUE then pbind advance (\<lambda>_. pret (BoolLiteralExpr True))
       else if tt = TOKEN_FALSE then pbind advance (\<lambda>_. pret (BoolLiteralExpr False))
       else if tt = TOKEN_NULL then pbind advance (\<lambda>_. pret NullLiteralExpr)
       else if tt = TOKEN_LPAREN then
         pbind advance (\<lambda>_. with_peek (\<lambda>t.
           if tok_type t = TOKEN_SELECT then
             pbind (parseSelect rec) (\<lambda>sub. pbind (try_expect TOKEN_RPAREN) (\<lambda>_. pret (SubqueryExpr sub)))
           else pbind rec (\<lambda>e. pbind (try_expect TOKEN_RPAREN) (\<lambda>_. pret e))))
       else if tt = TOKEN_MULTIPLY then pbind advance (\<lambda>_. pret StarExpr)
       else if IsAggregate tt then parseAggregateFunc rec
       else perr (EUnexpectedToken tt (tok_pos tok)))"

definition parseUnary :: "expr parser \<Rightarrow> expr parser" where
  "parseUnary rec =
     on_tok TOKEN_MINUS (pbind (parsePrimary rec) (\<lambda>e. pret (UnaryExpr TOKEN_MINUS e))) (parsePrimary rec)"

definition parseMulDiv :: "expr parser \<Rightarrow> expr parser" where
  "parseMulDiv rec =
     binary_level (\<lambda>tt. tt \<in> {TOKEN_MULTIPLY, TOKEN_DIVIDE, TOKEN_MODULO}) (parseUnary rec)"

definition parseAddSub :: "expr parser \<Rightarrow> expr parser" where
  "parseAddSub rec = binary_level (\<lambda>tt. tt \<in> {TOKEN_PLUS, TOKEN_MINUS}) (parseMulDiv rec)"

text \<open>
  \<open>[NOT] kw\<close> behind the left operand of a comparison: whether the operator is there and negated.
\<close>

definition is_op :: "token_type \<Rightarrow> token list \<Rightarrow> bool" where
  "is_op kw ts \<longleftrightarrow>
     tok_type (peek ts) = kw \<or> (tok_type (peek ts) = TOKEN_NOT \<and> tok_type (peekAt 1 ts) = kw)"

definition opt_not :: "bool parser" where
  "opt_not = on_tok TOKEN_NOT (pret True) (pret False)"

definition in_tail :: "expr parser \<Rightarrow> expr \<Rightarrow> expr parser" where
  "in_tail rec left =
     pbind opt_not (\<lambda>neg.
     pbind (try_expect TOKEN_IN) (\<lambda>_.
     pbind (try_expect TOKEN_LPAREN) (\<lambda>_.
     with_peek (\<lambda>t.
       if tok_type t = TOKEN_SELECT then
         pbind (parseSelect rec) (\<lambda>sub. pbind (try_expect TOKEN_RPAREN) (\<lambda>_. pret (InExpr left [SubqueryExpr sub] neg)))
       else
         pbind (parseExprList rec) (\<lambda>vals. pbind (try_expect TOKEN_RPAREN) (\<lambda>_. pret (InExpr left vals neg)))))))"

definition between_tail :: "expr parser \<Rightarrow> expr \<Rightarrow> expr parser" where
  "between_tail rec left =
     pbind opt_not (\<lambda>neg.
     pbind (try_expect TOKEN_BETWEEN) (\<lambda>_.
     pbind (parseAddSub rec) (\<lambda>low.
     pbind (try_expect TOKEN_AND) (\<lambda>_.
     pbind (parseAddSub rec) (\<lambda>high.
     pret (BetweenExpr left low high neg))))))"

definition like_tail :: "expr parser \<Rightarrow> expr \<Rightarrow> expr parser" where
  "like_tail rec left =
     pbind opt_not (\<lambda>neg.
     pbind (try_expect TOKEN_LIKE) (\<lambda>_.
     pbind (parseAddSub rec) (\<lambda>pattern.
     pret (LikeExpr left pattern neg))))"

definition parseComparison :: "expr parser \<Rightarrow> expr parser" where
  "parseComparison rec =
     pbind (parseAddSub rec) (\<lambda>left ts.
       let tt = tok_type (peek ts) in
       if tt = TOKEN_IS then
         (if tok_type (peek (tl ts)) = TOKEN_NOT
          then pbind (try_expect TOKEN_NULL) (\<lambda>_. pret (IsNullExpr left True)) (tl (tl ts))
          else pbind (try_expect TOKEN_NULL) (\<lambda>_. pret (IsNullExpr left False)) (tl ts))
       else if is_op TOKEN_IN ts then in_tail rec left ts
       else if is_op TOKEN_BETWEEN ts then between_tail rec left ts
       else if is_op TOKEN_LIKE ts then like_tail rec left ts
       else if IsComparisonOp tt then
         pbind (parseAddSub rec) (\<lambda>right. pret (BinaryExpr tt left right)) (tl ts)
       else if tt = TOKEN_VECTOR_DIST then
         pbind (parseAddSub rec) (\<lambda>right. pret (BinaryExpr TOKEN_VECTOR_DIST left right)) (tl ts)
       else POk left ts)"

definition parseNotExpr :: "expr parser \<Rightarrow> expr parser" where
  "parseNotExpr rec =
     on_tok TOKEN_NOT (pbind (parseComparison rec) (\<lambda>e. pret (UnaryExpr TOKEN_NOT e))) (parseComparison rec)"

definition parseAndExpr :: "expr parser \<Rightarrow> expr parser" where
  "parseAndExpr rec = binary_level (\<lambda>tt. tt = TOKEN_AND) (parseNotExpr rec)"

fun parseOrExpr :: "nat \<Rightarrow> expr parser" where
  "parseOrExpr 0 = (\<lambda>ts. PFuel)"
| "parseOrExpr (Suc d) = binary_level (\<lambda>tt. tt = TOKEN_OR) (parseAndExpr (parseOrExpr d))"

section \<open>INSERT, UPDATE, DELETE\<close>

definition parseInsert :: "expr parser \<Rightarrow> statement parser" where
  "parseInsert rec =
     pbind (try_expect TOKEN_INSERT) (\<lambda>_.
     pbind (try_expect TOKEN_INTO) (\<lambda>_.
     pbind expectIdent (\<lambda>name.
     pbind (on_tok TOKEN_LPAREN
              (pbind parseIdentList (\<lambda>cols. pbind (try_expect TOKEN_RPAREN) (\<lambda>_. pret cols)))
              (pret [])) (\<lambda>cols.
     pbind (try_expect TOKEN_VALUES) (\<lambda>_.
     pbind (comma_list
              (pbind (try_expect TOKEN_LPAREN) (\<lambda>_.
               pbind (parseExprList rec) (\<lambda>vals.
               pbind (try_expect TOKEN_RPAREN) (\<lambda>_. pret vals))))) (\<lambda>rows.
     pret (InsertStmt name cols rows)))))))"

definition set_clause :: "expr parser \<Rightarrow> (bytes \<times> expr) parser" where
  "set_clause rec =
     pbind expectIdent (\<lambda>col.
     pbind (try_expect TOKEN_EQ) (\<lambda>_.
     pbind rec (\<lambda>val. pret (col, val))))"

definition parseUpdate :: "expr parser \<Rightarrow> statement parser" where
  "parseUpdate rec =
     pbind (try_expect TOKEN_UPDATE) (\<lambda>_.
     pbind expectIdent (\<lambda>name.
     pbind (try_expect TOKEN_SET) (\<lambda>_.
     pbind (comma_list (set_clause rec)) (\<lambda>sets.
     pbind (opt_clause TOKEN_WHERE rec) (\<lambda>whr.
     pret (UpdateStmt name sets whr))))))"

definition parseDelete :: "expr parser \<Rightarrow> statement parser" where
  "parseDelete rec =
     pbind (try_expect TOKEN_DELETE) (\<lambda>_.
     pbind (try_expect TOKEN_FROM) (\<lambda>_.
     pbind expectIdent (\<lambda>name.
     pbind (opt_clause TOKEN_WHERE rec) (\<lambda>whr.
     pret (DeleteStmt name whr)))))"

section \<open>Tables\<close>

definition parseColumnType :: "column_type parser" where
  "parseColumnType =
     with_peek (\<lambda>tok.
       let tt = tok_type tok in
       if tt = TOKEN_INT \<or> tt = TOKEN_INTEGER_TYPE then
         pbind advance (\<lambda>_. pret \<lparr>ct_name = ''INT'', ct_length = 0\<rparr>)
       else if tt = TOKEN_VARCHAR then
         pbind advance (\<lambda>_.
           on_tok TOKEN_LPAREN
             (pbind parseIntLiteral (\<lambda>n. pbind (try_expect TOKEN_RPAREN) (\<lambda>_.
                pret \<lparr>ct_name = ''VARCHAR'', ct_length = n\<rparr>)))
             (pret \<lparr>ct_name = ''VARCHAR'', ct_length = 0\<rparr>))
       else if tt = TOKEN_TEXT then pbind advance (\<lambda>_. pret \<lparr>ct_name = ''TEXT'', ct_length = 0\<rparr>)
       else if tt = TOKEN_STRING_TYPE then pbind advance (\<lambda>_. pret \<lparr>ct_name = ''STRING'', ct_length = 0\<rparr>)
       else if tt = TOKEN_FLOAT_TYPE then pbind advance (\<lambda>_. pret \<lparr>ct_name = ''FLOAT'', ct_length = 0\<rparr>)
       else if tt = TOKEN_BOOL \<or> tt = TOKEN_BOOLEAN then
         pbind advance (\<lambda>_. pret \<lparr>ct_name = ''BOOL'', ct_length = 0\<rparr>)
       else perr (EExpectedColumnType tt (tok_pos tok)))"

text \<open>The loop over the column constraints.\<close>

fun constraint_loop :: "nat \<Rightarrow> expr parser \<Rightarrow> column_def \<Rightarrow> column_def parser" where
  "constraint_loop 0 rec col ts = PFuel"
| "constraint_loop (Suc n) rec col ts =
     on_tok TOKEN_NOT
       (pbind (try_expect TOKEN_NULL) (\<lambda>_. constraint_loop n rec (col\<lparr>cd_nullable := False\<rparr>)))
     (on_tok TOKEN_PRIMARY
       (pbind (try_expect TOKEN_KEY) (\<lambda>_.
          constraint_loop n rec (col\<lparr>cd_primary := True, cd_nullable := False\<rparr>)))
     (on_tok TOKEN_DEFAULT
       (pbind rec (\<lambda>e. constraint_loop n rec (col\<lparr>cd_default := Some e\<rparr>)))
     (pret col))) ts"

definition parseColumnDef :: "expr parser \<Rightarrow> column_def parser" where
  "parseColumnDef rec =
     pbind expectIdent (\<lambda>name.
     pbind parseColumnType (\<lambda>typ ts.
       constraint_loop (Suc (length ts)) rec
         \<lparr>cd_name = name, cd_type = typ, cd_nullable = True, cd_default = None, cd_primary = False\<rparr> ts))"

definition parseCreateTable :: "expr parser \<Rightarrow> statement parser" where
  "parseCreateTable rec =
     pbind (try_expect TOKEN_CREATE) (\<lambda>_.
     pbind (try_expect TOKEN_TABLE) (\<lambda>_.
     pbind (on_tok TOKEN_IF
              (pbind (try_expect TOKEN_NOT) (\<lambda>_. pbind (try_expect TOKEN_EXISTS) (\<lambda>_. pret True)))
              (pret False)) (\<lambda>ifNotExists.
     pbind expectIdent (\<lambda>name.
     pbind (try_expect TOKEN_LPAREN) (\<lambda>_.
     pbind (comma_list (parseColumnDef rec)) (\<lambda>cols.
     pbind (try_expect TOKEN_RPAREN) (\<lambda>_.
     opt_semicolon (CreateTableStmt ifNotExists name cols))))))))"

definition parseDropTable :: "statement parser" where
  "parseDropTable =
     pbind (try_expect TOKEN_DROP) (\<lambda>_.
     pbind (try_expect TOKEN_TABLE) (\<lambda>_.
     pbind (on_tok TOKEN_IF (pbind (try_expect TOKEN_EXISTS) (\<lambda>_. pret True)) (pret False)) (\<lambda>ifExists.
     pbind expectIdent (\<lambda>name.
     opt_semicolon (DropTableStmt ifExists name)))))"

definition opt_column :: "unit parser" where
  "opt_column = on_tok TOKEN_COLUMN (pret ()) (pret ())"

definition parseAlterTable :: "expr parser \<Rightarrow> statement parser" where
  "parseAlterTable rec =
     pbind (try_expect TOKEN_ALTER) (\<lambda>_.
     pbind (try_expect TOKEN_TABLE) (\<lambda>_.
     pbind expectIdent (\<lambda>name.
     pbind (with_peek (\<lambda>tok.
              let tt = tok_type tok in
              if tt = TOKEN_ADD then
                pbind advance (\<lambda>_. pbind opt_column (\<lambda>_. pbind (parseColumnDef rec) (\<lambda>col. pret (AddColumnAction col))))
              else if tt = TOKEN_DROP then
                pbind advance (\<lambda>_. pbind opt_column (\<lambda>_. pbind expectIdent (\<lambda>col. pret (DropColumnAction col))))
              else if tt = TOKEN_MODIFY then
                pbind advance (\<lambda>_. pbind opt_column (\<lambda>_. pbind (parseColumnDef rec) (\<lambda>col. pret (ModifyColumnAction col))))
              else perr (EExpectedAction tt (tok_pos tok)))) (\<lambda>action.
     opt_semicolon (AlterTableStmt name action)))))"

definition parseShowTables :: "statement parser" where
  "parseShowTables =
     pbind (try_expect TOKEN_SHOW) (\<lambda>_. pbind (try_expect TOKEN_TABLES) (\<lambda>_. opt_semicolon ShowTablesStmt))"

definition parseDescribeTable :: "statement parser" where
  "parseDescribeTable =
     pbind (with_peek (\<lambda>tok.
              if tok_type tok = TOKEN_DESCRIBE then pbind advance (\<lambda>_. pret ())
              else if tok_type tok = TOKEN_DESC then pbind advance (\<lambda>_. pret ())
              else perr (EExpectedDescribe (tok_type tok) (tok_pos tok)))) (\<lambda>_.
     pbind expectIdent (\<lambda>name. opt_semicolon (DescribeTableStmt name)))"

section \<open>Indexes\<close>

text \<open>The loop over \<open>UNIQUE\<close> and \<open>FULLTEXT\<close>: the flags and the tokens behind them.\<close>

fun index_flags :: "bool \<Rightarrow> bytes \<Rightarrow> (bool \<times> bytes) parser" where
  "index_flags unique typ [] = POk (unique, typ) []"
| "index_flags unique typ (t # ts) =
     (if tok_type t = TOKEN_UNIQUE then index_flags True typ ts
      else if tok_type t = TOKEN_FULLTEXT then index_flags unique ''INVERTED'' ts
      else POk (unique, typ) (t # ts))"

definition parseCreateIndex :: "statement parser" where
  "parseCreateIndex =
     pbind (try_expect TOKEN_CREATE) (\<lambda>_.
     pbind (index_flags False ''BTREE'') (\<lambda>(unique, typ0).
     pbind (pexpect TOKEN_INDEX) (\<lambda>_.
     pbind (on_tok TOKEN_IF
              (pbind (pexpect TOKEN_NOT) (\<lambda>_. pbind (pexpect TOKEN_EXISTS) (\<lambda>_. pret True)))
              (pret False)) (\<lambda>ifNotExists.
     pbind expectIdent (\<lambda>name.
     pbind (pexpect TOKEN_ON) (\<lambda>_.
     pbind expectIdent (\<lambda>table.
     pbind (pexpect TOKEN_LPAREN) (\<lambda>_.
     pbind expectIdent (\<lambda>col.
     pbind (pexpect TOKEN_RPAREN) (\<lambda>_.
     pbind (on_tok TOKEN_USING
              (with_peek (\<lambda>tok.
                 let tt = tok_type tok in
                 if tt = TOKEN_HASH then pbind advance (\<lambda>_. pret ''HASH'')
                 else if tt = TOKEN_BTREE then pbind advance (\<lambda>_. pret ''BTREE'')
                 else if tt = TOKEN_INVERTED then pbind advance (\<lambda>_. pret ''INVERTED'')
                 else if tt = TOKEN_FULLTEXT then pbind advance (\<lambda>_. pret ''INVERTED'')
                 else perr (EExpectedIndexType tt (tok_pos tok))))
              (pret typ0)) (\<lambda>typ.
     opt_semicolon (CreateIndexStmt ifNotExists name table col typ unique))))))))))))"

definition parseDropIndex :: "statement parser" where
  "parseDropIndex =
     pbind (try_expect TOKEN_DROP) (\<lambda>_.
     pbind (pexpect TOKEN_INDEX) (\<lambda>_.
     pbind (on_tok TOKEN_IF (pbind (pexpect TOKEN_EXISTS) (\<lambda>_. pret True)) (pret False)) (\<lambda>ifExists.
     pbind expectIdent (\<lambda>name.
     opt_semicolon (DropIndexStmt ifExists name)))))"

definition parseShowIndexes :: "statement parser" where
  "parseShowIndexes =
     pbind (try_expect TOKEN_SHOW) (\<lambda>_.
     with_peek (\<lambda>tok.
       if tok_type tok \<noteq> TOKEN_INDEXES \<and> tok_type tok \<noteq> TOKEN_INDEX
       then perr (EExpectedIndexes (tok_type tok) (tok_pos tok))
       else
         pbind advance (\<lambda>_.
         pbind (on_tok TOKEN_FROM expectIdent (pret [])) (\<lambda>table.
         opt_semicolon (ShowIndexesStmt table)))))"

section \<open>Dispatch\<close>

text \<open>
  \<open>parseCreate\<close>, \<open>parseDrop\<close> and \<open>parseShow\<close> look ahead and go back to the saved position.
\<close>

definition parseCreate :: "expr parser \<Rightarrow> statement parser" where
  "parseCreate rec ts =
     (let rest = dropWhile (\<lambda>t. tok_type t = TOKEN_UNIQUE \<or> tok_type t = TOKEN_FULLTEXT) (tl ts) in
      if tok_type (peek rest) = TOKEN_INDEX then parseCreateIndex ts else parseCreateTable rec ts)"

definition parseDrop :: "statement parser" where
  "parseDrop ts =
     (if tok_type (peek (tl ts)) = TOKEN_INDEX then parseDropIndex ts else parseDropTable ts)"

definition parseShow :: "statement parser" where
  "parseShow ts =
     (let tok = peek (tl ts) in
      if tok_type tok = TOKEN_INDEXES \<or> tok_type tok = TOKEN_INDEX then parseShowIndexes ts
      else parseShowTables ts)"

definition parseStatement :: "expr parser \<Rightarrow> statement parser" where
  "parseStatement rec =
     with_peek (\<lambda>tok.
       let tt = tok_type tok in
       if tt = TOKEN_SELECT then pbind (parseSelect rec) (\<lambda>s. pret (Select s))
       else if tt = TOKEN_INSERT then parseInsert rec
       else if tt = TOKEN_UPDATE then parseUpdate rec
       else if tt = TOKEN_DELETE then parseDelete rec
       else if tt = TOKEN_CREATE then parseCreate rec
       else if tt = TOKEN_DROP then parseDrop
       else if tt = TOKEN_ALTER then parseAlterTable rec
       else if tt = TOKEN_SHOW then parseShow
       else if tt = TOKEN_DESCRIBE then parseDescribeTable
       else if tt = TOKEN_DESC then parseDescribeTable
       else perr (EStatement tt (tok_pos tok)))"

text \<open>
  The entry points. The nesting depth given is one more than the number of tokens; the tokens behind
  the statement are not looked at.
\<close>

definition parse_tokens :: "token list \<Rightarrow> statement presult" where
  "parse_tokens ts = parseStatement (parseOrExpr (Suc (length ts))) ts"

definition parse_expr_tokens :: "token list \<Rightarrow> expr presult" where
  "parse_expr_tokens ts = parseOrExpr (Suc (length ts)) ts"

definition Parse :: "bytes \<Rightarrow> statement presult" where
  "Parse input = (case Tokenize input of Inl e \<Rightarrow> PErr (ELexer e) | Inr ts \<Rightarrow> parse_tokens ts)"

definition ParseExpr :: "bytes \<Rightarrow> expr presult" where
  "ParseExpr input = (case Tokenize input of Inl e \<Rightarrow> PErr (ELexer e) | Inr ts \<Rightarrow> parse_expr_tokens ts)"

end
