(* ===== verification/SqlParserProps.thy ===== *)
theory SqlParserProps
  imports SqlParser "HOL-Library.Sublist"
begin

text \<open>
  What holds of the parser: it always returns (the nesting depth and the loop bounds of the model are
  never reached), it only takes tokens from the front, and expressions that are printed with
  parentheses parse back to themselves. The last section shows what the dropped errors of
  \<open>p.expect\<close> and the missing check for the end of the input let through.
\<close>

section \<open>Parsers that return\<close>

text \<open>
  \<open>safe n p\<close>: on less than \<open>n\<close> tokens \<open>p\<close> returns, and a result leaves a suffix of the tokens;
  \<open>eats n p\<close>: the suffix is a proper one.
\<close>

definition ok_result :: "token list \<Rightarrow> 'a presult \<Rightarrow> bool" where
  "ok_result ts r \<longleftrightarrow> (case r of POk _ ts' \<Rightarrow> suffix ts' ts | PErr _ \<Rightarrow> True | PFuel \<Rightarrow> False)"

definition ate_result :: "token list \<Rightarrow> 'a presult \<Rightarrow> bool" where
  "ate_result ts r \<longleftrightarrow> (case r of POk _ ts' \<Rightarrow> strict_suffix ts' ts | PErr _ \<Rightarrow> True | PFuel \<Rightarrow> False)"

definition safe :: "nat \<Rightarrow> 'a parser \<Rightarrow> bool" where
  "safe n p \<longleftrightarrow> (\<forall>ts. length ts < n \<longrightarrow> ok_result ts (p ts))"

definition eats :: "nat \<Rightarrow> 'a parser \<Rightarrow> bool" where
  "eats n p \<longleftrightarrow> (\<forall>ts. length ts < n \<longrightarrow> ate_result ts (p ts))"

lemma safeI: "(\<And>ts. length ts < n \<Longrightarrow> ok_result ts (p ts)) \<Longrightarrow> safe n p"
  by (simp add: safe_def)

lemma eatsI: "(\<And>ts. length ts < n \<Longrightarrow> ate_result ts (p ts)) \<Longrightarrow> eats n p"
  by (simp add: eats_def)

lemma result_simps [simp]:
  "ok_result ts (POk x ts') = suffix ts' ts" "ok_result ts (PErr e)" "\<not> ok_result ts PFuel"
  "ate_result ts (POk x ts') = strict_suffix ts' ts" "ate_result ts (PErr e)" "\<not> ate_result ts PFuel"
  by (simp_all add: ok_result_def ate_result_def)

lemma ate_ok: "ate_result ts r \<Longrightarrow> ok_result ts r"
  by (cases r) (auto simp: strict_suffix_def)

lemma eats_safe: "eats n p \<Longrightarrow> safe n p"
  by (auto simp: eats_def safe_def ate_ok)

lemma safe_mono: "safe n p \<Longrightarrow> m \<le> n \<Longrightarrow> safe m p"
  by (auto simp: safe_def)

lemma eats_mono: "eats n p \<Longrightarrow> m \<le> n \<Longrightarrow> eats m p"
  by (auto simp: eats_def)

lemma eats_Suc_safe: "eats (Suc n) p \<Longrightarrow> safe n p"
  by (blast intro: eats_safe eats_mono le_SucI order_refl)

lemma ok_suffix: "ok_result ts' r \<Longrightarrow> suffix ts' ts \<Longrightarrow> ok_result ts r"
  by (cases r) (auto intro: suffix_order.trans)

lemma ate_suffix: "ate_result ts' r \<Longrightarrow> suffix ts' ts \<Longrightarrow> ate_result ts r"
  by (cases r) (auto intro: suffix_order.strict_trans1 suffix_order.less_le_trans)

lemma ok_strict: "ok_result ts' r \<Longrightarrow> strict_suffix ts' ts \<Longrightarrow> ate_result ts r"
  by (cases r) (auto intro: suffix_order.le_less_trans)

lemma strict_suffix_length: "strict_suffix ts' ts \<Longrightarrow> length ts' < length ts"
  by (auto simp: strict_suffix_def suffix_def)

lemma safe_result: "safe n p \<Longrightarrow> length ts' < n \<Longrightarrow> suffix ts' ts \<Longrightarrow> ok_result ts (p ts')"
  by (blast intro: ok_suffix dest: safe_def [THEN iffD1])

lemma safe_ate: "safe n p \<Longrightarrow> length ts' < n \<Longrightarrow> strict_suffix ts' ts \<Longrightarrow> ate_result ts (p ts')"
  by (blast intro: ok_strict dest: safe_def [THEN iffD1])

lemma suffix_tl [simp, intro]: "suffix (tl ts) ts"
  by (cases ts) (auto intro: suffix_ConsI)

lemma peek_nonempty: "tok_type (peek ts) = tt \<Longrightarrow> tt \<noteq> TOKEN_EOF \<Longrightarrow> strict_suffix (tl ts) ts"
  by (cases ts) (auto simp: peek_def eof_token_def strict_suffix_def intro: suffix_ConsI)

section \<open>The combinators\<close>

lemma safe_pret: "safe n (pret x)"
  by (simp add: safe_def pret_def)

lemma safe_perr: "safe n (perr e)" and eats_perr: "eats n (perr e)"
  by (simp_all add: safe_def eats_def perr_def)

lemma safe_bind: "safe n p \<Longrightarrow> (\<And>x. safe n (f x)) \<Longrightarrow> safe n (pbind p f)"
proof (rule safeI)
  fix ts :: "token list"
  assume p: "safe n p" and f: "\<And>x. safe n (f x)" and l: "length ts < n"
  have r: "ok_result ts (p ts)" using p l by (simp add: safe_def)
  show "ok_result ts (pbind p f ts)"
  proof (cases "p ts")
    case (POk x ts')
    then have s: "suffix ts' ts" using r by simp
    then have "length ts' < n" using suffix_length_le [OF s] l by simp
    then show ?thesis using POk safe_result [OF f _ s] by (simp add: pbind_def)
  qed (use r in \<open>simp_all add: pbind_def\<close>)
qed

lemma eats_bind: "eats n p \<Longrightarrow> (\<And>x. safe (n - 1) (f x)) \<Longrightarrow> eats n (pbind p f)"
proof (rule eatsI)
  fix ts :: "token list"
  assume p: "eats n p" and f: "\<And>x. safe (n - 1) (f x)" and l: "length ts < n"
  have r: "ate_result ts (p ts)" using p l by (simp add: eats_def)
  show "ate_result ts (pbind p f ts)"
  proof (cases "p ts")
    case (POk x ts')
    then have s: "strict_suffix ts' ts" using r by simp
    then have "length ts' < n - 1" using strict_suffix_length [OF s] l by simp
    then show ?thesis using POk safe_ate [OF f _ s] by (simp add: pbind_def)
  qed (use r in \<open>simp_all add: pbind_def\<close>)
qed

lemma eats_bind1: "eats (Suc n) p \<Longrightarrow> (\<And>x. safe n (f x)) \<Longrightarrow> eats (Suc n) (pbind p f)"
  by (rule eats_bind) simp_all

lemma eats_bind_same:
  assumes "eats n p" "\<And>x. safe n (f x)"
  shows "eats n (pbind p f)"
  using assms(1) by (rule eats_bind) (rule safe_mono [OF assms(2)], simp)

lemma eats_bind2: "safe n p \<Longrightarrow> (\<And>x. eats n (f x)) \<Longrightarrow> eats n (pbind p f)"
proof (rule eatsI)
  fix ts :: "token list"
  assume p: "safe n p" and f: "\<And>x. eats n (f x)" and l: "length ts < n"
  have r: "ok_result ts (p ts)" using p l by (simp add: safe_def)
  show "ate_result ts (pbind p f ts)"
  proof (cases "p ts")
    case (POk x ts')
    then have s: "suffix ts' ts" using r by simp
    then have "length ts' < n" using suffix_length_le [OF s] l by simp
    then have "ate_result ts' (f x ts')" using f by (simp add: eats_def)
    then show ?thesis using POk ate_suffix [OF _ s] by (simp add: pbind_def)
  qed (use r in \<open>simp_all add: pbind_def\<close>)
qed

lemma safe_bind1: "eats (Suc n) p \<Longrightarrow> (\<And>x. safe n (f x)) \<Longrightarrow> safe (Suc n) (pbind p f)"
  by (rule eats_safe) (rule eats_bind1)

lemma tl_less: "length ts < n \<Longrightarrow> length (tl ts) < n"
  by simp

lemma safe_on_tok: "safe n a \<Longrightarrow> safe n b \<Longrightarrow> safe n (on_tok tt a b)"
  by (rule safeI) (auto simp: on_tok_def intro: safe_result tl_less simp del: length_tl)

lemma eats_on_tok:
  assumes "tt \<noteq> TOKEN_EOF" "safe n a" "eats (Suc n) b"
  shows "eats (Suc n) (on_tok tt a b)"
proof (rule eatsI)
  fix ts :: "token list"
  assume l: "length ts < Suc n"
  show "ate_result ts (on_tok tt a b ts)"
  proof (cases "tok_type (peek ts) = tt")
    case True
    then have s: "strict_suffix (tl ts) ts" using assms(1) by (rule peek_nonempty)
    then show ?thesis
      using True safe_ate [OF assms(2) _ s] strict_suffix_length [OF s] l by (simp add: on_tok_def)
  next
    case False
    then show ?thesis using assms(3) l by (simp add: on_tok_def eats_def)
  qed
qed

lemma safe_on_word: "safe n a \<Longrightarrow> safe n b \<Longrightarrow> safe n (on_word w a b)"
  by (rule safeI) (auto simp: on_word_def intro: safe_result tl_less simp del: length_tl)

lemma safe_with_peek: "(\<And>t. safe n (f t)) \<Longrightarrow> safe n (with_peek f)"
  by (auto simp: safe_def with_peek_def)

lemma eats_with_peek: "(\<And>t. eats n (f t)) \<Longrightarrow> eats n (with_peek f)"
  by (auto simp: eats_def with_peek_def)

lemma safe_if: "safe n a \<Longrightarrow> safe n b \<Longrightarrow> safe n (if c then a else b)"
  by simp

lemma safe_if_app: "safe n a \<Longrightarrow> safe n b \<Longrightarrow> safe n (\<lambda>ts. if c then a ts else b ts)"
  by (cases c) simp_all

lemma eats_if: "eats n a \<Longrightarrow> eats n b \<Longrightarrow> eats n (if c then a else b)"
  by simp

lemma safe_advance: "safe n advance"
  by (simp add: safe_def advance_def)

lemma eats_pexpect: "tt \<noteq> TOKEN_EOF \<Longrightarrow> eats n (pexpect tt)"
  by (rule eatsI) (auto simp: pexpect_def Let_def intro: peek_nonempty)

lemma safe_try_expect: "safe n (try_expect tt)"
  by (rule safeI) (auto simp: try_expect_def pexpect_def Let_def)

lemma eats_expectIdent: "eats n expectIdent"
  by (rule eatsI) (auto simp: expectIdent_def Let_def intro: peek_nonempty)

lemma eats_parseIntLiteral: "eats n parseIntLiteral"
  by (rule eatsI) (auto simp: parseIntLiteral_def Let_def intro: peek_nonempty split: option.split)

lemmas eats_leaf = eats_expectIdent eats_parseIntLiteral
lemmas safe_leaf = safe_pret safe_perr safe_advance safe_try_expect eats_leaf [THEN eats_safe]
lemmas safe_intros = safe_bind safe_on_tok safe_on_word safe_with_peek safe_if safe_leaf

lemma comma_loop_ate:
  "eats n item \<Longrightarrow> length ts < n \<Longrightarrow> length ts < k \<Longrightarrow> ate_result ts (comma_loop k item acc ts)"
proof (induction k arbitrary: acc ts)
  case (Suc k)
  have "ate_result ts (item ts)" using Suc.prems by (simp add: eats_def)
  then show ?case
  proof (cases "item ts")
    case (POk x ts1)
    have s1: "strict_suffix ts1 ts" using \<open>ate_result ts (item ts)\<close> POk by simp
    show ?thesis
    proof (cases "tok_type (peek ts1) = TOKEN_COMMA")
      case True
      have s2: "strict_suffix (tl ts1) ts1" by (rule peek_nonempty [OF True]) simp
      have "ate_result (tl ts1) (comma_loop k item (acc @ [x]) (tl ts1))"
        using Suc.prems strict_suffix_length [OF s1] strict_suffix_length [OF s2]
        by (intro Suc.IH) auto
      then have "ate_result ts (comma_loop k item (acc @ [x]) (tl ts1))"
        using s1 s2 by (blast intro: ate_suffix suffix_order.trans strict_suffix_def [THEN iffD1, THEN conjunct1])
      then show ?thesis using POk True by (simp add: pbind_def on_tok_def)
    next
      case False
      then show ?thesis using POk s1 by (simp add: pbind_def on_tok_def pret_def)
    qed
  qed (simp_all add: pbind_def)
qed simp

lemma eats_comma_list: "eats n item \<Longrightarrow> eats n (comma_list item)"
  by (rule eatsI) (simp only: comma_list_def comma_loop_ate lessI)

text \<open>One round of a loop behind the keyword \<open>tt\<close>: the rest of the loop runs on fewer tokens.\<close>

lemma keyword_round:
  assumes "tok_type (peek ts) = tt" "tt \<noteq> TOKEN_EOF" "safe n p" "length ts \<le> n"
    and loop: "\<And>x ts'. length ts' < length ts \<Longrightarrow> ok_result ts' (g x ts')"
  shows "ok_result ts (pbind p g (tl ts))"
proof -
  have s: "strict_suffix (tl ts) ts" using assms(1,2) by (rule peek_nonempty)
  then have l: "length (tl ts) < n" using strict_suffix_length [OF s] assms(4) by simp
  then have r: "ok_result (tl ts) (p (tl ts))" using assms(3) by (simp add: safe_def)
  show ?thesis
  proof (cases "p (tl ts)")
    case (POk x ts1)
    then have s1: "suffix ts1 (tl ts)" using r by simp
    have "ok_result ts1 (g x ts1)"
      using suffix_length_le [OF s1] strict_suffix_length [OF s] by (intro loop) simp
    then show ?thesis
      using POk ok_suffix [OF _ suffix_order.trans [OF s1 suffix_tl]] by (simp add: pbind_def)
  qed (use r in \<open>simp_all add: pbind_def\<close>)
qed

lemma binary_loop_ok:
  "safe n sub \<Longrightarrow> \<not> isop TOKEN_EOF \<Longrightarrow> length ts \<le> n \<Longrightarrow> length ts < k \<Longrightarrow>
     ok_result ts (binary_loop k isop sub left ts)"
proof (induction k arbitrary: left ts)
  case (Suc k)
  have loop: "length ts' < length ts \<Longrightarrow> ok_result ts' (binary_loop k isop sub left' ts')" for left' ts'
    using Suc.prems by (intro Suc.IH) auto
  show ?case
  proof (cases "isop (tok_type (peek ts))")
    case True
    then have "tok_type (peek ts) \<noteq> TOKEN_EOF" using Suc.prems(2) by auto
    then show ?thesis using True by (simp add: keyword_round [OF refl _ Suc.prems(1,3) loop])
  qed simp
qed simp

lemma eats_binary_level:
  assumes "eats (Suc n) sub" "\<not> isop TOKEN_EOF"
  shows "eats (Suc n) (binary_level isop sub)"
  unfolding binary_level_def
proof (rule eats_bind1 [OF assms(1)], rule safeI)
  fix left ts
  assume "length (ts :: token list) < n"
  then show "ok_result ts (binary_loop (Suc (length ts)) isop sub left ts)"
    using eats_Suc_safe [OF assms(1)] assms(2) by (intro binary_loop_ok [where n = n]) auto
qed

section \<open>The grammar\<close>

text \<open>
  Behind its first token a construct only needs \<open>rec\<close> on fewer tokens, so one more level of nesting
  goes with one more token.
\<close>

lemma eats_advance:
  assumes "tok_type (peek ts) = tt" "tt \<noteq> TOKEN_EOF" "length ts < Suc n" "\<And>x. safe n (f x)"
  shows "ate_result ts (pbind advance f ts)"
proof -
  have s: "strict_suffix (tl ts) ts" using assms(1,2) by (rule peek_nonempty)
  then have "length (tl ts) < n" using strict_suffix_length [OF s] assms(3) by simp
  then show ?thesis by (simp add: pbind_def advance_def safe_ate [OF assms(4) _ s])
qed

lemma eats_parseTableRef: "eats n parseTableRef"
  unfolding parseTableRef_def by (rule eats_bind_same) (intro eats_leaf safe_intros)+

lemma safe_opt_clause: "safe n p \<Longrightarrow> safe n (opt_clause tt p)"
  unfolding opt_clause_def by (intro safe_intros)

lemma safe_opt_semicolon: "safe n (opt_semicolon x)"
  unfolding opt_semicolon_def by (intro safe_intros)

lemma eats_parseJoin: "eats n rec \<Longrightarrow> eats n (parseJoin rec kind)"
  unfolding parseJoin_def
  by (rule eats_bind_same)
    (auto intro!: eats_pexpect safe_intros safe_opt_clause eats_parseTableRef [THEN eats_safe] dest: eats_safe)

lemma join_loop_ok:
  "eats n rec \<Longrightarrow> length ts < n \<Longrightarrow> length ts < k \<Longrightarrow> ok_result ts (join_loop k rec joins ts)"
proof (induction k arbitrary: joins ts)
  case (Suc k)
  have body: "ok_result ts' (pbind (parseJoin rec kind) (\<lambda>join. join_loop k rec (joins @ [join])) ts')"
    if l: "length ts' \<le> length ts" for kind ts'
  proof -
    have r: "ate_result ts' (parseJoin rec kind ts')"
      using eats_parseJoin [OF Suc.prems(1)] l Suc.prems(2) by (simp add: eats_def)
    show ?thesis
    proof (cases "parseJoin rec kind ts'")
      case (POk x ts1)
      then have s: "strict_suffix ts1 ts'" using r by simp
      then have "ok_result ts1 (join_loop k rec (joins @ [x]) ts1)"
        using Suc.prems l strict_suffix_length [OF s] by (intro Suc.IH) auto
      then show ?thesis
        using POk s by (auto simp: pbind_def strict_suffix_def intro: ok_suffix)
    qed (use r in \<open>simp_all add: pbind_def\<close>)
  qed
  show ?case
    using body [OF order_refl] ok_suffix [OF body [of "tl ts" JoinLeft] suffix_tl] by (simp del: length_tl) simp
qed simp

lemma eats_select_column: "eats n rec \<Longrightarrow> eats n (select_column rec)"
  unfolding select_column_def by (rule eats_bind_same) (assumption | intro safe_intros)+

lemma eats_order_item: "eats n rec \<Longrightarrow> eats n (order_item rec)"
  unfolding order_item_def by (rule eats_bind_same) (assumption | intro safe_intros)+

lemma eats_parseSelectColumns: "eats n rec \<Longrightarrow> eats n (parseSelectColumns rec)"
  unfolding parseSelectColumns_def
  by (cases n) (auto intro!: eats_on_tok eats_comma_list eats_select_column safe_pret simp: eats_def [of 0])

lemma eats_parseSelect: "eats n rec \<Longrightarrow> eats n (parseSelect rec)"
  unfolding parseSelect_def parseExprList_def parseOrderBy_def
  by (rule eats_bind2 eats_bind_same eats_parseSelectColumns eats_parseIntLiteral
      | intro safe_intros safe_opt_clause safe_opt_semicolon eats_parseTableRef [THEN eats_safe]
        eats_comma_list [THEN eats_safe] eats_order_item
      | rule safeI, rule join_loop_ok | assumption | erule eats_safe | simp)+

lemma safe_parseExprList: "eats n rec \<Longrightarrow> safe n (parseExprList rec)"
  unfolding parseExprList_def by (rule eats_safe) (rule eats_comma_list)

lemmas grammar_intros = safe_intros safe_opt_clause safe_opt_semicolon safe_parseExprList
  eats_parseTableRef [THEN eats_safe] eats_parseSelect [THEN eats_safe] eats_comma_list [THEN eats_safe]

lemma safe_parseFuncCall: "eats n rec \<Longrightarrow> safe n (parseFuncCall rec name)"
  unfolding parseFuncCall_def by (intro grammar_intros)

lemma eats_parseMatchExpr: "eats n parseMatchExpr"
  unfolding parseMatchExpr_def
  by (rule eats_bind_same) (intro grammar_intros eats_pexpect eats_pexpect [THEN eats_safe] eats_leaf; simp)+

lemma ate_if: "(c \<Longrightarrow> ate_result ts a) \<Longrightarrow> (\<not> c \<Longrightarrow> ate_result ts b) \<Longrightarrow> ate_result ts (if c then a else b)"
  by simp

lemma safe_case_option: "safe n a \<Longrightarrow> (\<And>x. safe n (f x)) \<Longrightarrow> safe n (case r of None \<Rightarrow> a | Some x \<Rightarrow> f x)"
  by (cases r) simp_all

lemma eats_parsePrimary:
  assumes "eats n rec"
  shows "eats (Suc n) (parsePrimary rec)"
proof (rule eatsI)
  fix ts :: "token list"
  assume l: "length ts < Suc n"
  have adv: "ate_result ts (pbind advance f ts)" if "tok_type (peek ts) = tt" "tt \<noteq> TOKEN_EOF" "\<And>x. safe n (f x)"
    for f :: "token \<Rightarrow> expr parser" and tt
    using that(1,2) l that(3) by (rule eats_advance)
  have ident: "ate_result ts (parseIdentOrFunc rec ts)" if "tok_type (peek ts) = TOKEN_IDENT"
    unfolding parseIdentOrFunc_def
    by (rule adv [OF that]) (simp, intro grammar_intros safe_parseFuncCall assms)
  have agg: "ate_result ts (parseAggregateFunc rec ts)" if "IsAggregate (tok_type (peek ts))"
    unfolding parseAggregateFunc_def
    by (rule adv [OF refl]) (use that in \<open>auto simp: IsAggregate_def intro!: grammar_intros assms\<close>)
  have mat: "ate_result ts (parseMatchExpr ts)"
    using eats_parseMatchExpr [of "Suc n"] l by (simp add: eats_def)
  show "ate_result ts (parsePrimary rec ts)"
    unfolding parsePrimary_def
    by (subst with_peek_def, unfold Let_def if_distribR, intro ate_if ident mat agg;
        (assumption | erule adv, simp, intro grammar_intros safe_if_app safe_case_option eats_safe [OF assms] assms
         | simp add: perr_def))
qed

lemma eats_parseUnary: "eats n rec \<Longrightarrow> eats (Suc n) (parseUnary rec)"
  unfolding parseUnary_def
  by (rule eats_on_tok) (auto intro!: safe_intros eats_parsePrimary dest: eats_parsePrimary eats_Suc_safe)

lemma eats_parseAddSub: "eats n rec \<Longrightarrow> eats (Suc n) (parseAddSub rec)"
  unfolding parseAddSub_def parseMulDiv_def by (intro eats_binary_level eats_parseUnary) simp_all

lemmas safe_parseAddSub = eats_parseAddSub [THEN eats_Suc_safe]

lemma eats_parseComparison:
  assumes "eats n rec"
  shows "eats (Suc n) (parseComparison rec)"
  unfolding parseComparison_def
proof (rule eats_bind1 [OF eats_parseAddSub [OF assms]], rule safeI)
  fix left and ts :: "token list"
  assume l: "length ts < n"
  note ins = grammar_intros safe_parseAddSub assms
  have tl1: "ok_result ts (p (tl ts))" if "safe n p" for p :: "expr parser"
    using that l by (intro safe_result tl_less suffix_tl)
  have tl2: "ok_result ts (p (tl (tl ts)))" if "safe n p" for p :: "expr parser"
    using that l suffix_order.trans [OF suffix_tl suffix_tl, of ts] by (intro safe_result tl_less)
  have here: "ok_result ts (p ts)" if "safe n p" for p :: "expr parser"
    using that l by (intro safe_result) simp_all
  have not: "safe n opt_not" unfolding opt_not_def by (intro safe_intros)
  have "safe n (in_tail rec left)" "safe n (between_tail rec left)" "safe n (like_tail rec left)"
    unfolding in_tail_def between_tail_def like_tail_def by (intro not ins)+
  then show "ok_result ts
       (let tt = tok_type (peek ts) in
       if tt = TOKEN_IS then
         (if tok_type (peek (tl ts)) = TOKEN_NOT
          then pbind (try_expect TOKEN_NULL) (\<lambda>_. pret (IsNullExpr left True)) (tl (tl ts))
          else pbind (try_expect TOKEN_NULL) (\<lambda>_. pret (IsNullExpr left False)) (tl ts))
       else if is_op TOKEN_IN ts then in_tail rec left ts
       else if is_op TOKEN_BETWEEN ts then between_tail rec left ts
       else if is_op TOKEN_LIKE ts then like_tail rec left ts
       else if IsComparisonOp tt then
         pbind (parseAddSub rec) (\<lambda>right. pret (BinaryExpr tt left right)) (tl ts)
       else if tt = TOKEN_VECTOR_DIST then
         pbind (parseAddSub rec) (\<lambda>right. pret (BinaryExpr TOKEN_VECTOR_DIST left right)) (tl ts)
       else POk left ts)"
    unfolding Let_def using here tl1 tl2 by (simp add: ins)
qed

lemma eats_parseOrExpr: "eats n (parseOrExpr n)"
proof (induction n)
  case 0
  then show ?case by (simp add: eats_def)
next
  case (Suc n)
  have "eats (Suc n) (parseNotExpr (parseOrExpr n))"
    unfolding parseNotExpr_def
    by (rule eats_on_tok)
      (auto intro!: safe_intros eats_parseComparison Suc eats_Suc_safe [OF eats_parseComparison [OF Suc]])
  then show ?case
    by (simp add: parseAndExpr_def eats_binary_level)
qed

section \<open>The statements\<close>

lemma safe_parseColumnType: "safe n parseColumnType"
  unfolding parseColumnType_def Let_def by (intro safe_intros)

lemma constraint_loop_ok:
  "safe n rec \<Longrightarrow> length ts < n \<Longrightarrow> length ts < k \<Longrightarrow> ok_result ts (constraint_loop k rec col ts)"
proof (induction k arbitrary: col ts)
  case (Suc k)
  have loop: "length ts' < length ts \<Longrightarrow> ok_result ts' (constraint_loop k rec col' ts')" for col' ts'
    using Suc.prems by (intro Suc.IH) auto
  show ?case
    unfolding constraint_loop.simps
    by (simp add: on_tok_def pret_def keyword_round [OF _ _ _ less_imp_le [OF Suc.prems(2)]] safe_try_expect Suc.prems(1) loop)
qed simp

lemma eats_parseColumnDef:
  assumes "eats n rec"
  shows "eats n (parseColumnDef rec)"
  unfolding parseColumnDef_def
  by (rule eats_bind_same [OF eats_expectIdent], rule safe_bind [OF safe_parseColumnType], rule safeI,
      rule constraint_loop_ok [OF eats_safe [OF assms]]) simp_all

lemma safe_index_flags: "safe n (index_flags u t)"
proof (rule safeI)
  show "ok_result ts (index_flags u t ts)" for ts
    by (induction ts arbitrary: u t) (auto intro: ok_suffix suffix_ConsI)
qed

lemma safe_case_prod: "(\<And>a b. safe n (f a b)) \<Longrightarrow> safe n (case x of (a, b) \<Rightarrow> f a b)"
  by (cases x) simp

lemmas statement_intros = grammar_intros safe_index_flags safe_case_prod safe_parseColumnType
  eats_pexpect [THEN eats_safe] eats_parseColumnDef [THEN eats_safe] eats_comma_list [THEN eats_safe]

lemma safe_opt_column: "safe n opt_column"
  unfolding opt_column_def by (intro safe_intros)

lemma safe_parseInsert: "eats n rec \<Longrightarrow> safe n (parseInsert rec)"
  unfolding parseInsert_def parseIdentList_def parseExprList_def
  by (intro statement_intros eats_bind2 eats_bind_same eats_comma_list eats_expectIdent | assumption)+

lemma eats_set_clause: "eats n rec \<Longrightarrow> eats n (set_clause rec)"
  unfolding set_clause_def
  by (rule eats_bind_same [OF eats_expectIdent]) (intro statement_intros | erule eats_safe)+

lemma safe_parseUpdate: "eats n rec \<Longrightarrow> safe n (parseUpdate rec)"
  unfolding parseUpdate_def by (intro statement_intros eats_set_clause | erule eats_safe | assumption)+

lemma safe_parseDelete: "eats n rec \<Longrightarrow> safe n (parseDelete rec)"
  unfolding parseDelete_def by (intro statement_intros | erule eats_safe)+

lemma safe_parseCreateTable: "eats n rec \<Longrightarrow> safe n (parseCreateTable rec)"
  unfolding parseCreateTable_def by (intro statement_intros eats_parseColumnDef | assumption)+

lemma safe_parseAlterTable: "eats n rec \<Longrightarrow> safe n (parseAlterTable rec)"
  unfolding parseAlterTable_def Let_def by (intro statement_intros safe_opt_column | assumption)+

lemma safe_parseCreateIndex: "safe n parseCreateIndex"
  unfolding parseCreateIndex_def Let_def by (intro statement_intros; simp)

lemma safe_parseDropIndex: "safe n parseDropIndex"
  unfolding parseDropIndex_def by (intro statement_intros; simp)

lemma safe_parseShowIndexes: "safe n parseShowIndexes"
  unfolding parseShowIndexes_def by (intro statement_intros)

lemma safe_parseDropTable: "safe n parseDropTable"
  unfolding parseDropTable_def by (intro statement_intros)

lemma safe_parseShowTables: "safe n parseShowTables"
  unfolding parseShowTables_def by (intro statement_intros)

lemma safe_parseDescribeTable: "safe n parseDescribeTable"
  unfolding parseDescribeTable_def by (intro statement_intros)

lemma safe_dispatch:
  "eats n rec \<Longrightarrow> safe n (parseCreate rec)" "safe n parseDrop" "safe n parseShow"
  using safe_parseCreateIndex [of n] safe_parseCreateTable [of n rec] safe_parseDropIndex [of n]
    safe_parseDropTable [of n] safe_parseShowIndexes [of n] safe_parseShowTables [of n]
  by (auto simp: safe_def parseCreate_def parseDrop_def parseShow_def Let_def)

lemma safe_parseStatement: "eats n rec \<Longrightarrow> safe n (parseStatement rec)"
  unfolding parseStatement_def Let_def
  by (intro safe_with_peek safe_if safe_bind safe_pret safe_perr safe_parseInsert safe_parseUpdate safe_parseDelete
      safe_parseAlterTable safe_dispatch safe_parseDescribeTable eats_parseSelect [THEN eats_safe])

text \<open>
  C13: the parser always returns: on any input the result is a statement (an expression) or an error,
  never an exhausted depth or loop bound, and what a successful parse leaves behind is a suffix of
  the tokens, for an expression a proper one.
\<close>

theorem parser_always_returns:
  "Parse input \<noteq> PFuel \<and> ParseExpr input \<noteq> PFuel \<and>
   ok_result ts (parse_tokens ts) \<and> ate_result ts (parse_expr_tokens ts)"
proof -
  have tok: "ok_result ts (parse_tokens ts)" for ts
    using safe_parseStatement [OF eats_parseOrExpr, of "Suc (length ts)"]
    by (simp add: parse_tokens_def safe_def)
  have ex: "ate_result ts (parse_expr_tokens ts)" for ts
    using eats_parseOrExpr [of "Suc (length ts)"] unfolding parse_expr_tokens_def eats_def by blast
  have "parse_tokens ts \<noteq> PFuel" "parse_expr_tokens ts \<noteq> PFuel" for ts
    using tok [of ts] ex [of ts] by auto
  then show ?thesis using tok ex by (simp add: Parse_def ParseExpr_def split: sum.split)
qed

section \<open>What the dropped errors let through\<close>

text \<open>
  A \<open>DELETE\<close> whose table name is followed by anything but the keyword \<open>WHERE\<close> is a \<open>DELETE\<close>
  without a condition: the parser does not look at the tokens behind the statement, so a mistyped
  \<open>WHERE\<close> turns into the removal of every row instead of a syntax error.
\<close>

lemma mistyped_where_deletes_everything:
  assumes "tok_type t1 = TOKEN_DELETE" "tok_type t2 = TOKEN_FROM" "tok_type t = TOKEN_IDENT"
    and "tok_type (peek rest) \<noteq> TOKEN_WHERE"
  shows "parse_tokens (t1 # t2 # t # rest) = POk (DeleteStmt (tok_lit t) None) rest"
  using assms
  by (simp add: parse_tokens_def parseStatement_def parseDelete_def with_peek_def Let_def pbind_def try_expect_def
      pexpect_def expectIdent_def opt_clause_def on_tok_def pret_def peek_def [of "_ # _"])

text \<open>
  The clauses behind a \<open>SELECT *\<close> list are read only when they follow at once: a comma after the
  star ends the statement there, the rest (further columns, \<open>FROM\<close>, \<open>WHERE\<close>) is dropped without an error
  and the statement has no table.
\<close>

lemma star_ends_the_select:
  assumes "tok_type t1 = TOKEN_SELECT" "tok_type t2 = TOKEN_MULTIPLY" "tok_type t3 = TOKEN_COMMA"
  shows "parse_tokens (t1 # t2 # t3 # rest) =
           POk (Select (SelectStmt False [(StarExpr, [])] None [] None [] None [] None None)) (t3 # rest)"
  using assms
  by (simp add: parse_tokens_def parseStatement_def parseSelect_def parseSelectColumns_def with_peek_def Let_def pbind_def
      try_expect_def pexpect_def on_word_def opt_clause_def opt_semicolon_def on_tok_def pret_def peek_def [of "_ # _"]
      del: parseOrExpr.simps)

end
