(* ===== verification/SqlRoundTrip.thy ===== *)
theory SqlRoundTrip
  imports SqlParserProps
begin

text \<open>
  Expressions printed with parentheses around every compound one, and the parser reading them back.
\<close>

section \<open>The printer\<close>

definition tk :: "token_type \<Rightarrow> bytes \<Rightarrow> token" where
  "tk tt lit = \<lparr>tok_type = tt, tok_lit = lit, tok_pos = 0\<rparr>"

abbreviation (input) "kw tt \<equiv> tk tt []"
abbreviation (input) "ident s \<equiv> tk TOKEN_IDENT s"

definition name_token :: "bytes \<Rightarrow> token" where
  "name_token n = (case map_of token_keywords n of
     Some tt \<Rightarrow> if IsAggregate tt then tk tt n else ident n | None \<Rightarrow> ident n)"

fun print_idents :: "bytes list \<Rightarrow> token list" where
  "print_idents [] = []"
| "print_idents [c] = [ident c]"
| "print_idents (c # cs) = ident c # kw TOKEN_COMMA # print_idents cs"

definition print_not :: "bool \<Rightarrow> token list" where
  "print_not neg = (if neg then [kw TOKEN_NOT] else [])"

fun print_expr :: "expr \<Rightarrow> token list" and print_exprs :: "expr list \<Rightarrow> token list" where
  "print_expr (IdentifierExpr n t) = (if t = [] then [ident n] else [ident t, kw TOKEN_DOT, ident n])"
| "print_expr (StringLiteralExpr s) = [tk TOKEN_STRING s]"
| "print_expr (IntegerLiteralExpr n) = [tk TOKEN_INTEGER (print_int n)]"
| "print_expr (FloatLiteralExpr f) = []"
| "print_expr (BoolLiteralExpr b) = [kw (if b then TOKEN_TRUE else TOKEN_FALSE)]"
| "print_expr NullLiteralExpr = [kw TOKEN_NULL]"
| "print_expr (BinaryExpr op l r) = kw TOKEN_LPAREN # print_expr l @ kw op # print_expr r @ [kw TOKEN_RPAREN]"
| "print_expr (UnaryExpr op e) = kw TOKEN_LPAREN # kw op # print_expr e @ [kw TOKEN_RPAREN]"
| "print_expr (FuncCallExpr n args d) =
     name_token n # kw TOKEN_LPAREN # (if d then [ident ''DISTINCT''] else []) @ print_exprs args @ [kw TOKEN_RPAREN]"
| "print_expr StarExpr = [kw TOKEN_MULTIPLY]"
| "print_expr (InExpr e vs neg) =
     kw TOKEN_LPAREN # print_expr e @ print_not neg @ kw TOKEN_IN # kw TOKEN_LPAREN # print_exprs vs @
       [kw TOKEN_RPAREN, kw TOKEN_RPAREN]"
| "print_expr (BetweenExpr e lo hi neg) =
     kw TOKEN_LPAREN # print_expr e @ print_not neg @ kw TOKEN_BETWEEN # print_expr lo @ kw TOKEN_AND # print_expr hi @
       [kw TOKEN_RPAREN]"
| "print_expr (LikeExpr e p neg) =
     kw TOKEN_LPAREN # print_expr e @ print_not neg @ kw TOKEN_LIKE # print_expr p @ [kw TOKEN_RPAREN]"
| "print_expr (IsNullExpr e neg) =
     kw TOKEN_LPAREN # print_expr e @ kw TOKEN_IS # print_not neg @ [kw TOKEN_NULL, kw TOKEN_RPAREN]"
| "print_expr (MatchExpr cols q) =
     kw TOKEN_MATCH # kw TOKEN_LPAREN # print_idents cols @
       [kw TOKEN_RPAREN, kw TOKEN_AGAINST, kw TOKEN_LPAREN, tk TOKEN_STRING q, kw TOKEN_RPAREN]"
| "print_expr (SubqueryExpr s) = []"
| "print_exprs [] = []"
| "print_exprs (e # es) = print_expr e @ (if es = [] then [] else kw TOKEN_COMMA # print_exprs es)"

text \<open>
  The expressions printed: those the parser can build, less float literals and subqueries, and less
  the identifier \<open>DISTINCT\<close>, which the parser takes for a keyword inside a call.
\<close>

definition plain_name :: "bytes \<Rightarrow> bool" where
  "plain_name n \<longleftrightarrow> map_of token_keywords n = None \<and> n \<noteq> ''DISTINCT''"

definition binary_ops :: "token_type list" where
  "binary_ops = [TOKEN_OR, TOKEN_AND, TOKEN_EQ, TOKEN_NEQ, TOKEN_LT, TOKEN_LTE, TOKEN_GT, TOKEN_GTE,
     TOKEN_VECTOR_DIST, TOKEN_PLUS, TOKEN_MINUS, TOKEN_MULTIPLY, TOKEN_DIVIDE, TOKEN_MODULO]"

fun printable :: "expr \<Rightarrow> bool" and printables :: "expr list \<Rightarrow> bool" where
  "printable (IdentifierExpr n t) = (plain_name n \<and> (t = [] \<or> plain_name t))"
| "printable (StringLiteralExpr s) = True"
| "printable (IntegerLiteralExpr n) = (int64_min \<le> n \<and> n \<le> int64_max)"
| "printable (FloatLiteralExpr f) = False"
| "printable (BoolLiteralExpr b) = True"
| "printable NullLiteralExpr = True"
| "printable (BinaryExpr op l r) = (op \<in> set binary_ops \<and> printable l \<and> printable r)"
| "printable (UnaryExpr op e) = (op \<in> {TOKEN_NOT, TOKEN_MINUS} \<and> printable e)"
| "printable (FuncCallExpr n args d) =
     (printables args \<and>
      (case map_of token_keywords n of
         None \<Rightarrow> n \<noteq> ''DISTINCT''
       | Some tt \<Rightarrow> IsAggregate tt \<and> (args = [StarExpr] \<or> (args = [] \<or> hd args \<noteq> StarExpr))))"
| "printable StarExpr = True"
| "printable (InExpr e vs neg) = (printable e \<and> vs \<noteq> [] \<and> printables vs)"
| "printable (BetweenExpr e lo hi neg) = (printable e \<and> printable lo \<and> printable hi)"
| "printable (LikeExpr e p neg) = (printable e \<and> printable p)"
| "printable (IsNullExpr e neg) = printable e"
| "printable (MatchExpr cols q) = (cols \<noteq> [])"
| "printable (SubqueryExpr s) = False"
| "printables [] = True"
| "printables (e # es) = (printable e \<and> printables es)"

section \<open>The levels on an operand\<close>

abbreviation head_type :: "token list \<Rightarrow> token_type" where
  "head_type ts \<equiv> tok_type (peek ts)"

lemma tk_sel [simp]: "tok_type (tk tt l) = tt" "tok_lit (tk tt l) = l"
  by (simp_all add: tk_def)

lemma peek_Cons [simp]: "peek (t # ts) = t"
  by (simp add: peek_def)

lemma pbind_POk: "p ts = POk x ts' \<Longrightarrow> pbind p f ts = f x ts'"
  by (simp add: pbind_def)

lemma try_expect_hit [simp]: "try_expect tt (tk tt l # ts) = POk () ts"
  by (simp add: try_expect_def pexpect_def)

lemma pexpect_hit [simp]: "pexpect tt (tk tt l # ts) = POk () ts"
  by (simp add: pexpect_def)

lemma expectIdent_hit [simp]: "expectIdent (ident n # ts) = POk n ts"
  by (simp add: expectIdent_def)

lemma advance_Cons [simp]: "advance (t # ts) = POk t ts"
  by (simp add: advance_def)

lemma binary_level_none:
  "sub ts = POk e rest \<Longrightarrow> \<not> isop (head_type rest) \<Longrightarrow> binary_level isop sub ts = POk e rest"
  by (simp add: binary_level_def pbind_def)

lemma binary_level_one:
  "sub ts = POk l (kw op # ts2) \<Longrightarrow> isop op \<Longrightarrow> sub ts2 = POk r rest \<Longrightarrow> length rest < length ts2 \<Longrightarrow>
     \<not> isop (head_type rest) \<Longrightarrow> binary_level isop sub ts = POk (BinaryExpr op l r) rest"
  by (cases "length ts2") (simp_all add: binary_level_def pbind_def)

lemma unary_operand:
  "parsePrimary rec ts = POk e rest \<Longrightarrow> head_type ts \<noteq> TOKEN_MINUS \<Longrightarrow> parseUnary rec ts = POk e rest"
  by (simp add: parseUnary_def on_tok_def)

lemma muldiv_operand:
  "parsePrimary rec ts = POk e rest \<Longrightarrow> head_type ts \<noteq> TOKEN_MINUS \<Longrightarrow>
     head_type rest \<notin> {TOKEN_MULTIPLY, TOKEN_DIVIDE, TOKEN_MODULO} \<Longrightarrow> parseMulDiv rec ts = POk e rest"
  unfolding parseMulDiv_def by (rule binary_level_none) (simp_all add: unary_operand)

lemma addsub_lift:
  "parseMulDiv rec ts = POk e rest \<Longrightarrow> head_type rest \<notin> {TOKEN_PLUS, TOKEN_MINUS} \<Longrightarrow>
     parseAddSub rec ts = POk e rest"
  unfolding parseAddSub_def by (rule binary_level_none) simp_all

lemma addsub_operand:
  "parsePrimary rec ts = POk e rest \<Longrightarrow> head_type ts \<noteq> TOKEN_MINUS \<Longrightarrow>
     head_type rest \<notin> {TOKEN_MULTIPLY, TOKEN_DIVIDE, TOKEN_MODULO, TOKEN_PLUS, TOKEN_MINUS} \<Longrightarrow>
     parseAddSub rec ts = POk e rest"
  by (rule addsub_lift) (simp_all add: muldiv_operand)

definition no_comparison :: "token_type \<Rightarrow> bool" where
  "no_comparison tt \<longleftrightarrow>
     tt \<notin> {TOKEN_IS, TOKEN_IN, TOKEN_NOT, TOKEN_BETWEEN, TOKEN_LIKE, TOKEN_VECTOR_DIST} \<and> \<not> IsComparisonOp tt"

lemma comparison_lift:
  "parseAddSub rec ts = POk e rest \<Longrightarrow> no_comparison (head_type rest) \<Longrightarrow> parseComparison rec ts = POk e rest"
  by (simp add: parseComparison_def pbind_def no_comparison_def is_op_def Let_def)

lemma not_lift:
  "parseComparison rec ts = POk e rest \<Longrightarrow> head_type ts \<noteq> TOKEN_NOT \<Longrightarrow> parseNotExpr rec ts = POk e rest"
  by (simp add: parseNotExpr_def on_tok_def)

lemma and_lift:
  "parseNotExpr rec ts = POk e rest \<Longrightarrow> head_type rest \<noteq> TOKEN_AND \<Longrightarrow> parseAndExpr rec ts = POk e rest"
  unfolding parseAndExpr_def by (rule binary_level_none)

lemma or_lift:
  "parseAndExpr (parseOrExpr d) ts = POk e rest \<Longrightarrow> head_type rest \<noteq> TOKEN_OR \<Longrightarrow>
     parseOrExpr (Suc d) ts = POk e rest"
  by (simp add: binary_level_none)

text \<open>The tokens behind a whole expression: not the start of an operator.\<close>

definition stops :: "token list \<Rightarrow> bool" where
  "stops rest \<longleftrightarrow> head_type rest \<in> {TOKEN_EOF, TOKEN_RPAREN, TOKEN_COMMA, TOKEN_SEMICOLON}"

lemma whole_comparison:
  "parseComparison (parseOrExpr d) ts = POk e rest \<Longrightarrow> head_type ts \<noteq> TOKEN_NOT \<Longrightarrow> stops rest \<Longrightarrow>
     parseOrExpr (Suc d) ts = POk e rest"
  by (intro or_lift and_lift not_lift) (auto simp: stops_def)

lemma whole_addsub:
  "parseAddSub (parseOrExpr d) ts = POk e rest \<Longrightarrow> head_type ts \<noteq> TOKEN_NOT \<Longrightarrow> stops rest \<Longrightarrow>
     parseOrExpr (Suc d) ts = POk e rest"
  by (intro whole_comparison comparison_lift) (auto simp: stops_def no_comparison_def IsComparisonOp_def)

lemma whole_operand:
  "parsePrimary (parseOrExpr d) ts = POk e rest \<Longrightarrow> head_type ts \<notin> {TOKEN_NOT, TOKEN_MINUS} \<Longrightarrow> stops rest \<Longrightarrow>
     parseOrExpr (Suc d) ts = POk e rest"
  by (intro whole_addsub addsub_operand) (auto simp: stops_def)

section \<open>The round trip\<close>

definition starts :: "token list \<Rightarrow> bool" where
  "starts ts \<longleftrightarrow> ts \<noteq> [] \<and> head_type ts \<notin> {TOKEN_EOF, TOKEN_NOT, TOKEN_MINUS, TOKEN_SELECT, TOKEN_RPAREN} \<and>
     \<not> (head_type ts = TOKEN_IDENT \<and> tok_lit (peek ts) = ''DISTINCT'')"

lemma starts_append: "starts ts \<Longrightarrow> starts (ts @ rest)"
  by (cases ts) (simp_all add: starts_def)

lemma aggregate_range: "IsAggregate tt \<Longrightarrow> TOKEN_COUNT \<le> tt \<and> tt \<le> TOKEN_LAST"
  by (auto simp: IsAggregate_def)

lemma starts_name: "plain_name n \<Longrightarrow> starts (ident n # ts)"
  by (simp add: starts_def plain_name_def)

lemma starts_print: "printable e \<Longrightarrow> starts (print_expr e)"
proof (cases e)
  case (FuncCallExpr n args d)
  assume "printable e"
  with FuncCallExpr show ?thesis
    by (auto simp: starts_def name_token_def IsAggregate_def split: option.splits if_splits)
qed (auto simp: starts_name starts_def plain_name_def)

lemma starts_print_rest: "printable e \<Longrightarrow> starts (print_expr e @ rest)"
  by (simp add: starts_print starts_append)

lemma star_head: "printable e \<Longrightarrow> head_type (print_expr e @ rest) = TOKEN_MULTIPLY \<Longrightarrow> e = StarExpr"
  by (cases e) (auto simp: name_token_def IsAggregate_def split: option.splits if_splits)

text \<open>\<open>reads d e\<close>: the parser of nesting depth \<open>d\<close> reads the printed \<open>e\<close> as one operand.\<close>

definition reads :: "nat \<Rightarrow> expr \<Rightarrow> bool" where
  "reads d e \<longleftrightarrow> printable e \<and>
     (\<forall>rest. head_type rest \<notin> {TOKEN_LPAREN, TOKEN_DOT} \<longrightarrow>
        parsePrimary (parseOrExpr d) (print_expr e @ rest) = POk e rest)"

lemma reads_primary:
  "reads d e \<Longrightarrow> head_type rest \<notin> {TOKEN_LPAREN, TOKEN_DOT} \<Longrightarrow>
     parsePrimary (parseOrExpr d) (print_expr e @ rest) = POk e rest"
  by (simp add: reads_def)

lemma reads_head: "reads d e \<Longrightarrow> starts (print_expr e @ rest)"
  by (simp add: reads_def starts_print_rest)

lemma reads_unary:
  "reads d e \<Longrightarrow> head_type rest \<notin> {TOKEN_LPAREN, TOKEN_DOT} \<Longrightarrow>
     parseUnary (parseOrExpr d) (print_expr e @ rest) = POk e rest"
  using reads_head [of d e rest] by (intro unary_operand reads_primary) (simp_all add: starts_def)

lemma reads_muldiv:
  "reads d e \<Longrightarrow> head_type rest \<notin> {TOKEN_LPAREN, TOKEN_DOT, TOKEN_MULTIPLY, TOKEN_DIVIDE, TOKEN_MODULO} \<Longrightarrow>
     parseMulDiv (parseOrExpr d) (print_expr e @ rest) = POk e rest"
  using reads_head [of d e rest] by (intro muldiv_operand reads_primary) (simp_all add: starts_def)

lemma reads_addsub:
  "reads d e \<Longrightarrow> head_type rest \<notin> {TOKEN_LPAREN, TOKEN_DOT, TOKEN_MULTIPLY, TOKEN_DIVIDE, TOKEN_MODULO,
       TOKEN_PLUS, TOKEN_MINUS} \<Longrightarrow>
     parseAddSub (parseOrExpr d) (print_expr e @ rest) = POk e rest"
  using reads_head [of d e rest] by (intro addsub_operand reads_primary) (simp_all add: starts_def)

lemma reads_not:
  "reads d e \<Longrightarrow> head_type rest \<in> {TOKEN_AND, TOKEN_OR, TOKEN_RPAREN} \<Longrightarrow>
     parseNotExpr (parseOrExpr d) (print_expr e @ rest) = POk e rest"
  using reads_head [of d e rest]
  by (intro not_lift comparison_lift reads_addsub) (auto simp: no_comparison_def IsComparisonOp_def starts_def)

lemma reads_whole:
  "reads d e \<Longrightarrow> stops rest \<Longrightarrow> parseOrExpr (Suc d) (print_expr e @ rest) = POk e rest"
  using reads_head [of d e rest] by (intro whole_operand reads_primary) (auto simp: starts_def stops_def)

lemma stops_rparen [simp]: "stops (kw TOKEN_RPAREN # rest)"
  by (simp add: stops_def)

lemma starts_not: "reads d e \<Longrightarrow> head_type (print_expr e @ rest) \<noteq> TOKEN_NOT"
  using reads_head [of d e rest] by (simp add: starts_def)

lemma read_binary:
  assumes "reads d l" "reads d r" "op \<in> set binary_ops"
  shows "parseOrExpr (Suc d) (print_expr l @ kw op # print_expr r @ kw TOKEN_RPAREN # rest)
       = POk (BinaryExpr op l r) (kw TOKEN_RPAREN # rest)" (is "parseOrExpr _ ?ts = POk ?e ?rest")
proof -
  have n: "head_type ?ts \<noteq> TOKEN_NOT" by (rule starts_not [OF assms(1)])
  have len: "length ?rest < length (print_expr r @ ?rest)"
    using assms(2) starts_print [of r] by (cases "print_expr r") (auto simp: reads_def starts_def)
  consider "op \<in> {TOKEN_MULTIPLY, TOKEN_DIVIDE, TOKEN_MODULO}" | "op \<in> {TOKEN_PLUS, TOKEN_MINUS}"
    | "IsComparisonOp op" | "op = TOKEN_VECTOR_DIST" | "op = TOKEN_AND" | "op = TOKEN_OR"
    using assms(3) by (auto simp: binary_ops_def IsComparisonOp_def)
  then show ?thesis
  proof cases
    case 1
    have "parseMulDiv (parseOrExpr d) ?ts = POk ?e ?rest"
      unfolding parseMulDiv_def using 1 assms(1,2) len
      by (intro binary_level_one [where ?ts2.0 = "print_expr r @ ?rest"]) (auto intro!: reads_unary)
    then show ?thesis by (intro whole_addsub addsub_lift n stops_rparen) simp_all
  next
    case 2
    have "parseAddSub (parseOrExpr d) ?ts = POk ?e ?rest"
      unfolding parseAddSub_def using 2 assms(1,2) len
      by (intro binary_level_one [where ?ts2.0 = "print_expr r @ ?rest"]) (auto intro!: reads_muldiv)
    then show ?thesis by (intro whole_addsub n stops_rparen)
  next
    case 3
    have "parseAddSub (parseOrExpr d) ?ts = POk l (kw op # print_expr r @ ?rest)"
      using 3 by (intro reads_addsub assms(1)) (auto simp: IsComparisonOp_def)
    moreover have "parseAddSub (parseOrExpr d) (print_expr r @ ?rest) = POk r ?rest"
      by (intro reads_addsub assms(2)) simp
    ultimately have "parseComparison (parseOrExpr d) ?ts = POk ?e ?rest"
      using 3 by (auto simp: parseComparison_def pbind_def Let_def is_op_def IsComparisonOp_def pret_def)
    then show ?thesis by (intro whole_comparison n stops_rparen)
  next
    case 4
    have "parseAddSub (parseOrExpr d) ?ts = POk l (kw op # print_expr r @ ?rest)"
      using 4 by (intro reads_addsub assms(1)) auto
    moreover have "parseAddSub (parseOrExpr d) (print_expr r @ ?rest) = POk r ?rest"
      by (intro reads_addsub assms(2)) simp
    ultimately have "parseComparison (parseOrExpr d) ?ts = POk ?e ?rest"
      using 4 by (simp add: parseComparison_def pbind_def Let_def is_op_def IsComparisonOp_def pret_def)
    then show ?thesis by (intro whole_comparison n stops_rparen)
  next
    case 5
    have "parseAndExpr (parseOrExpr d) ?ts = POk ?e ?rest"
      unfolding parseAndExpr_def using 5 assms(1,2) len
      by (intro binary_level_one [where ?ts2.0 = "print_expr r @ ?rest"]) (auto intro!: reads_not)
    then show ?thesis by (intro or_lift) simp_all
  next
    case 6
    have op: "parseAndExpr (parseOrExpr d) (print_expr l @ kw op # print_expr r @ ?rest) = POk l (kw op # print_expr r @ ?rest)"
      "parseAndExpr (parseOrExpr d) (print_expr r @ ?rest) = POk r ?rest"
      using 6 by (auto intro!: and_lift reads_not assms)
    show ?thesis
      using 6 len op unfolding parseOrExpr.simps
      by (intro binary_level_one [where ?ts2.0 = "print_expr r @ ?rest"]) auto
  qed
qed

lemma read_negation:
  assumes "reads d e" "op \<in> {TOKEN_NOT, TOKEN_MINUS}"
  shows "parseOrExpr (Suc d) (kw op # print_expr e @ kw TOKEN_RPAREN # rest)
       = POk (UnaryExpr op e) (kw TOKEN_RPAREN # rest)"
proof (cases "op = TOKEN_NOT")
  case True
  have "parseComparison (parseOrExpr d) (print_expr e @ kw TOKEN_RPAREN # rest) = POk e (kw TOKEN_RPAREN # rest)"
    by (intro comparison_lift reads_addsub assms(1)) (simp_all add: no_comparison_def IsComparisonOp_def)
  then have "parseNotExpr (parseOrExpr d) (kw op # print_expr e @ kw TOKEN_RPAREN # rest)
      = POk (UnaryExpr op e) (kw TOKEN_RPAREN # rest)"
    using True by (simp add: parseNotExpr_def on_tok_def pbind_def pret_def)
  then show ?thesis by (intro or_lift and_lift) simp_all
next
  case False
  then have op: "op = TOKEN_MINUS" using assms(2) by simp
  have "parsePrimary (parseOrExpr d) (print_expr e @ kw TOKEN_RPAREN # rest) = POk e (kw TOKEN_RPAREN # rest)"
    by (intro reads_primary assms(1)) simp
  then have "parseUnary (parseOrExpr d) (kw op # print_expr e @ kw TOKEN_RPAREN # rest)
      = POk (UnaryExpr op e) (kw TOKEN_RPAREN # rest)"
    using op by (simp add: parseUnary_def on_tok_def pbind_def pret_def)
  then have "parseMulDiv (parseOrExpr d) (kw op # print_expr e @ kw TOKEN_RPAREN # rest)
      = POk (UnaryExpr op e) (kw TOKEN_RPAREN # rest)"
    unfolding parseMulDiv_def by (rule binary_level_none) simp
  then show ?thesis using op by (intro whole_addsub addsub_lift) simp_all
qed

lemma comma_loop_reads:
  "es \<noteq> [] \<Longrightarrow> \<forall>e \<in> set es. reads d e \<Longrightarrow> length (print_exprs es @ kw TOKEN_RPAREN # rest) < k \<Longrightarrow>
     comma_loop k (parseOrExpr (Suc d)) acc (print_exprs es @ kw TOKEN_RPAREN # rest)
     = POk (acc @ es) (kw TOKEN_RPAREN # rest)"
proof (induction es arbitrary: acc k)
  case (Cons e es)
  then obtain k' where k: "k = Suc k'" by (cases k) auto
  show ?case
  proof (cases "es = []")
    case True
    have "parseOrExpr (Suc d) (print_expr e @ kw TOKEN_RPAREN # rest) = POk e (kw TOKEN_RPAREN # rest)"
      using Cons.prems by (intro reads_whole) simp_all
    then show ?thesis
      using True by (simp add: k pbind_def on_tok_def pret_def del: parseOrExpr.simps)
  next
    case False
    have "parseOrExpr (Suc d) (print_expr e @ kw TOKEN_COMMA # print_exprs es @ kw TOKEN_RPAREN # rest)
        = POk e (kw TOKEN_COMMA # print_exprs es @ kw TOKEN_RPAREN # rest)"
      using Cons.prems by (intro reads_whole) (simp_all add: stops_def)
    moreover have "comma_loop k' (parseOrExpr (Suc d)) (acc @ [e]) (print_exprs es @ kw TOKEN_RPAREN # rest)
        = POk ((acc @ [e]) @ es) (kw TOKEN_RPAREN # rest)"
      using Cons.prems False by (intro Cons.IH) (simp_all add: k)
    ultimately show ?thesis
      using False by (simp add: k pbind_def on_tok_def del: parseOrExpr.simps)
  qed
qed simp

lemma parseExprList_reads:
  "es \<noteq> [] \<Longrightarrow> \<forall>e \<in> set es. reads d e \<Longrightarrow>
     parseExprList (parseOrExpr (Suc d)) (print_exprs es @ kw TOKEN_RPAREN # rest) = POk es (kw TOKEN_RPAREN # rest)"
  using comma_loop_reads [of es d rest _ "[]"] by (simp add: parseExprList_def comma_list_def del: parseOrExpr.simps comma_loop.simps)

lemma parseIdents_print:
  "cs \<noteq> [] \<Longrightarrow> length (print_idents cs @ kw TOKEN_RPAREN # rest) < k \<Longrightarrow>
     comma_loop k expectIdent acc (print_idents cs @ kw TOKEN_RPAREN # rest) = POk (acc @ cs) (kw TOKEN_RPAREN # rest)"
proof (induction cs arbitrary: acc k rule: print_idents.induct)
  case (2 c)
  then show ?case by (cases k) (simp_all add: pbind_def on_tok_def pret_def)
next
  case (3 c c' cs)
  obtain k' where k: "k = Suc k'" using 3(3) by (cases k) auto
  have "comma_loop k' expectIdent (acc @ [c]) (print_idents (c' # cs) @ kw TOKEN_RPAREN # rest)
      = POk ((acc @ [c]) @ c' # cs) (kw TOKEN_RPAREN # rest)"
    using 3(3) by (intro 3(1)) (simp_all add: k)
  then show ?case by (simp add: k pbind_def on_tok_def)
qed simp

lemma starts_print_exprs: "printable e \<Longrightarrow> starts (print_exprs (e # es) @ rest)"
  by (cases "es = []") (simp_all add: starts_print_rest)

lemma read_in:
  assumes "reads (Suc d) e" "vs \<noteq> []" "\<forall>v \<in> set vs. reads d v"
  shows "parseOrExpr (Suc (Suc d)) (print_expr e @ print_not neg @ kw TOKEN_IN # kw TOKEN_LPAREN # print_exprs vs @
            kw TOKEN_RPAREN # kw TOKEN_RPAREN # rest)
       = POk (InExpr e vs neg) (kw TOKEN_RPAREN # rest)" (is "_ (print_expr e @ ?tail) = _")
proof -
  have "parseAddSub (parseOrExpr (Suc d)) (print_expr e @ ?tail) = POk e ?tail"
    by (intro reads_addsub assms(1)) (simp add: print_not_def)
  moreover have "head_type (print_exprs vs @ ts) \<noteq> TOKEN_SELECT" for ts
    using assms(2,3) starts_print_exprs [of "hd vs" "tl vs" ts] by (cases vs) (auto simp: reads_def starts_def)
  then have "in_tail (parseOrExpr (Suc d)) e ?tail = POk (InExpr e vs neg) (kw TOKEN_RPAREN # rest)"
    using parseExprList_reads [OF assms(2,3), of "kw TOKEN_RPAREN # rest"]
    by (simp add: in_tail_def opt_not_def on_tok_def pbind_def with_peek_def pret_def print_not_def
        del: parseOrExpr.simps)
  ultimately have "parseComparison (parseOrExpr (Suc d)) (print_expr e @ ?tail)
      = POk (InExpr e vs neg) (kw TOKEN_RPAREN # rest)"
    by (simp add: parseComparison_def pbind_POk Let_def is_op_def print_not_def peekAt_def del: parseOrExpr.simps)
  then show ?thesis by (intro whole_comparison starts_not [OF assms(1)] stops_rparen)
qed

lemma read_between:
  assumes "reads d e" "reads d lo" "reads d hi"
  shows "parseOrExpr (Suc d) (print_expr e @ print_not neg @ kw TOKEN_BETWEEN # print_expr lo @ kw TOKEN_AND #
            print_expr hi @ kw TOKEN_RPAREN # rest)
       = POk (BetweenExpr e lo hi neg) (kw TOKEN_RPAREN # rest)" (is "_ (print_expr e @ ?tail) = _")
proof -
  have "parseAddSub (parseOrExpr d) (print_expr e @ ?tail) = POk e ?tail"
    by (intro reads_addsub assms(1)) (simp add: print_not_def)
  moreover have "parseAddSub (parseOrExpr d) (print_expr lo @ kw TOKEN_AND # print_expr hi @ kw TOKEN_RPAREN # rest)
      = POk lo (kw TOKEN_AND # print_expr hi @ kw TOKEN_RPAREN # rest)"
    by (intro reads_addsub assms(2)) simp
  moreover have "parseAddSub (parseOrExpr d) (print_expr hi @ kw TOKEN_RPAREN # rest) = POk hi (kw TOKEN_RPAREN # rest)"
    by (intro reads_addsub assms(3)) simp
  ultimately have "parseComparison (parseOrExpr d) (print_expr e @ ?tail)
      = POk (BetweenExpr e lo hi neg) (kw TOKEN_RPAREN # rest)"
    by (simp add: parseComparison_def between_tail_def opt_not_def on_tok_def pbind_def pret_def Let_def is_op_def
        print_not_def peekAt_def)
  then show ?thesis by (intro whole_comparison starts_not [OF assms(1)] stops_rparen)
qed

lemma read_like:
  assumes "reads d e" "reads d p"
  shows "parseOrExpr (Suc d) (print_expr e @ print_not neg @ kw TOKEN_LIKE # print_expr p @ kw TOKEN_RPAREN # rest)
       = POk (LikeExpr e p neg) (kw TOKEN_RPAREN # rest)" (is "_ (print_expr e @ ?tail) = _")
proof -
  have "parseAddSub (parseOrExpr d) (print_expr e @ ?tail) = POk e ?tail"
    by (intro reads_addsub assms(1)) (simp add: print_not_def)
  moreover have "parseAddSub (parseOrExpr d) (print_expr p @ kw TOKEN_RPAREN # rest) = POk p (kw TOKEN_RPAREN # rest)"
    by (intro reads_addsub assms(2)) simp
  ultimately have "parseComparison (parseOrExpr d) (print_expr e @ ?tail) = POk (LikeExpr e p neg) (kw TOKEN_RPAREN # rest)"
    by (simp add: parseComparison_def like_tail_def opt_not_def on_tok_def pbind_def pret_def Let_def is_op_def
        print_not_def peekAt_def)
  then show ?thesis by (intro whole_comparison starts_not [OF assms(1)] stops_rparen)
qed

lemma read_is_null:
  assumes "reads d e"
  shows "parseOrExpr (Suc d) (print_expr e @ kw TOKEN_IS # print_not neg @ kw TOKEN_NULL # kw TOKEN_RPAREN # rest)
       = POk (IsNullExpr e neg) (kw TOKEN_RPAREN # rest)" (is "_ (print_expr e @ ?tail) = _")
proof -
  have "parseAddSub (parseOrExpr d) (print_expr e @ ?tail) = POk e ?tail"
    by (intro reads_addsub assms) simp
  then have "parseComparison (parseOrExpr d) (print_expr e @ ?tail) = POk (IsNullExpr e neg) (kw TOKEN_RPAREN # rest)"
    by (simp add: parseComparison_def pbind_def pret_def Let_def print_not_def)
  then show ?thesis by (intro whole_comparison starts_not [OF assms] stops_rparen)
qed

lemma head_args:
  assumes "\<forall>a \<in> set args. reads d a" "args \<noteq> []"
  shows "starts (print_exprs args @ ts)"
  using assms starts_print_exprs [of "hd args" "tl args" ts] by (cases args) (auto simp: reads_def)

lemma read_args:
  assumes "\<forall>a \<in> set args. reads d a"
  shows "(if head_type (print_exprs args @ kw TOKEN_RPAREN # rest) \<noteq> TOKEN_RPAREN
          then parseExprList (parseOrExpr (Suc d)) else pret []) (print_exprs args @ kw TOKEN_RPAREN # rest)
       = POk args (kw TOKEN_RPAREN # rest)"
proof (cases "args = []")
  case False
  then show ?thesis
    using parseExprList_reads [OF False assms, of rest] head_args [OF assms False, of "kw TOKEN_RPAREN # rest"]
    by (simp add: starts_def del: parseOrExpr.simps)
qed (simp add: pret_def)

lemma on_distinct:
  assumes "\<forall>a \<in> set args. reads d a"
  shows "on_word ''DISTINCT'' (pret True) (pret False)
           ((if dis then [ident ''DISTINCT''] else []) @ print_exprs args @ kw TOKEN_RPAREN # rest)
       = POk dis (print_exprs args @ kw TOKEN_RPAREN # rest)"
proof (cases "args = []")
  case False
  then show ?thesis
    using head_args [OF assms False, of "kw TOKEN_RPAREN # rest"] by (auto simp: on_word_def pret_def starts_def)
qed (simp add: on_word_def pret_def)

lemma read_call:
  assumes "printable (FuncCallExpr n args dis)" "\<forall>a \<in> set args. reads d a"
  shows "parsePrimary (parseOrExpr (Suc d)) (print_expr (FuncCallExpr n args dis) @ rest)
       = POk (FuncCallExpr n args dis) rest"
proof (cases "map_of token_keywords n")
  case None
  then have "name_token n = ident n" by (simp add: name_token_def)
  then show ?thesis
    using on_distinct [OF assms(2), of dis rest] read_args [OF assms(2), of rest]
    by (simp add: parsePrimary_def parseIdentOrFunc_def parseFuncCall_def with_peek_def pbind_def pret_def Let_def
        del: parseOrExpr.simps split del: if_split)
next
  case (Some tt)
  then have agg: "IsAggregate tt" and args: "args = [StarExpr] \<or> (args = [] \<or> hd args \<noteq> StarExpr)"
    and name: "name_token n = tk tt n"
    using assms(1) by (simp_all add: name_token_def)
  have "(if head_type (print_exprs args @ kw TOKEN_RPAREN # rest) \<noteq> TOKEN_RPAREN
          then on_tok TOKEN_MULTIPLY (pret [StarExpr]) (parseExprList (parseOrExpr (Suc d))) else pret [])
          (print_exprs args @ kw TOKEN_RPAREN # rest) = POk args (kw TOKEN_RPAREN # rest)"
  proof (cases "args = [StarExpr]")
    case True
    then show ?thesis by (simp add: on_tok_def pret_def)
  next
    case False
    have "head_type (print_exprs args @ kw TOKEN_RPAREN # rest) \<noteq> TOKEN_MULTIPLY"
      using args False assms(2) star_head [of "hd args"] by (cases args) (auto simp: reads_def)
    then show ?thesis
      using read_args [OF assms(2), of rest] by (simp add: on_tok_def del: parseOrExpr.simps split: if_splits)
  qed
  moreover have "tt \<in> {TOKEN_COUNT, TOKEN_SUM, TOKEN_MIN, TOKEN_MAX, TOKEN_AVG, TOKEN_FIRST, TOKEN_LAST}"
    using agg by (simp add: IsAggregate_def)
  ultimately show ?thesis
    using on_distinct [OF assms(2), of dis rest] agg name
    by (auto simp: parsePrimary_def parseAggregateFunc_def with_peek_def pbind_def pret_def Let_def
        simp del: parseOrExpr.simps split del: if_split)
qed

lemma read_parens:
  assumes "parseOrExpr d ts = POk e (kw TOKEN_RPAREN # rest)" "head_type ts \<noteq> TOKEN_SELECT"
  shows "parsePrimary (parseOrExpr d) (kw TOKEN_LPAREN # ts) = POk e rest"
  using assms by (simp add: parsePrimary_def with_peek_def pbind_def pret_def Let_def)

lemma print_length: "printable e \<Longrightarrow> 0 < length (print_expr e)"
  using starts_print [of e] by (auto simp: starts_def)

lemma reads_parens:
  assumes "printable e" "\<And>rest. print_expr e @ rest = kw TOKEN_LPAREN # body rest"
    "\<And>rest. parseOrExpr d (body rest) = POk e (kw TOKEN_RPAREN # rest)" "\<And>rest. head_type (body rest) \<noteq> TOKEN_SELECT"
  shows "reads d e"
  using assms(1) by (simp add: reads_def assms(2) read_parens [OF assms(3,4)])

lemma starts_select: "printable e \<Longrightarrow> head_type (print_expr e @ ts) \<noteq> TOKEN_SELECT"
  using starts_print_rest [of e ts] by (simp add: starts_def)

lemmas parse_atom = parsePrimary_def parseIdentOrFunc_def with_peek_def pbind_def pret_def on_tok_def Let_def

lemma reads_atom:
  "printable e \<Longrightarrow> (\<And>rest. head_type rest \<notin> {TOKEN_LPAREN, TOKEN_DOT} \<Longrightarrow>
     parsePrimary (parseOrExpr d) (print_expr e @ rest) = POk e rest) \<Longrightarrow> reads d e"
  by (simp add: reads_def)

lemma reads_print:
  "printable e \<Longrightarrow> length (print_expr e) \<le> d \<Longrightarrow> reads d e"
  "printables es \<Longrightarrow> length (print_exprs es) \<le> d \<Longrightarrow> \<forall>e \<in> set es. reads d e"
proof (induction e and es arbitrary: d and d rule: print_expr_print_exprs.induct)
  case (1 n t)
  then show ?case by (intro reads_atom) (auto simp: parse_atom)
next
  case (2 s)
  then show ?case by (intro reads_atom) (simp_all add: parse_atom)
next
  case (3 n)
  then show ?case by (intro reads_atom) (simp_all add: parse_atom ParseInt_print_int)
next
  case (5 b)
  then show ?case by (intro reads_atom) (simp_all add: parse_atom)
next
  case 6
  then show ?case by (intro reads_atom) (simp_all add: parse_atom)
next
  case (7 op l r)
  then obtain d' where d: "d = Suc d'" by (cases d) auto
  have "reads d' l" "reads d' r" using 7 by (simp_all add: d)
  from read_binary [OF this] 7(3) show ?case
    by (intro reads_parens [where body = "\<lambda>rest. print_expr l @ kw op # print_expr r @ kw TOKEN_RPAREN # rest"])
      (auto simp: d starts_select)
next
  case (8 op e)
  then obtain d' where d: "d = Suc d'" by (cases d) auto
  have "reads d' e" using 8 by (simp add: d)
  from read_negation [OF this] 8(2) show ?case
    by (intro reads_parens [where body = "\<lambda>rest. kw op # print_expr e @ kw TOKEN_RPAREN # rest"]) (auto simp: d)
next
  case (9 n args dis)
  then obtain d' where d: "d = Suc d'" by (cases d) auto
  have "\<forall>a \<in> set args. reads d' a" using 9 by (auto simp: d)
  from read_call [OF 9(2) this] 9(2) show ?case by (simp add: reads_def d)
next
  case 10
  then show ?case by (intro reads_atom) (simp_all add: parse_atom)
next
  case (11 e vs neg)
  then obtain d' where d: "d = Suc (Suc d')" by (cases d; cases "d - 1") auto
  have "reads (Suc d') e" "\<forall>v \<in> set vs. reads d' v" using 11 by (auto simp: d)
  from read_in [OF this(1) _ this(2)] 11(3) show ?case
    by (intro reads_parens [where body = "\<lambda>rest. print_expr e @ print_not neg @ kw TOKEN_IN # kw TOKEN_LPAREN #
          print_exprs vs @ kw TOKEN_RPAREN # kw TOKEN_RPAREN # rest"]) (auto simp: d starts_select)
next
  case (12 e lo hi neg)
  then obtain d' where d: "d = Suc d'" by (cases d) auto
  have "reads d' e" "reads d' lo" "reads d' hi" using 12 by (simp_all add: d)
  from read_between [OF this] 12(4) show ?case
    by (intro reads_parens [where body = "\<lambda>rest. print_expr e @ print_not neg @ kw TOKEN_BETWEEN # print_expr lo @
          kw TOKEN_AND # print_expr hi @ kw TOKEN_RPAREN # rest"]) (auto simp: d starts_select)
next
  case (13 e p neg)
  then obtain d' where d: "d = Suc d'" by (cases d) auto
  have "reads d' e" "reads d' p" using 13 by (simp_all add: d)
  from read_like [OF this] 13(3) show ?case
    by (intro reads_parens [where body = "\<lambda>rest. print_expr e @ print_not neg @ kw TOKEN_LIKE # print_expr p @
          kw TOKEN_RPAREN # rest"]) (auto simp: d starts_select)
next
  case (14 e neg)
  then obtain d' where d: "d = Suc d'" by (cases d) auto
  have "reads d' e" using 14 by (simp add: d)
  from read_is_null [OF this] 14(2) show ?case
    by (intro reads_parens [where body = "\<lambda>rest. print_expr e @ kw TOKEN_IS # print_not neg @ kw TOKEN_NULL #
          kw TOKEN_RPAREN # rest"]) (auto simp: d starts_select)
next
  case (15 cols q)
  have "parseMatchExpr (print_expr (MatchExpr cols q) @ rest) = POk (MatchExpr cols q) rest" for rest
    using 15(1) parseIdents_print [of cols "[kw TOKEN_AGAINST, kw TOKEN_LPAREN, tk TOKEN_STRING q, kw TOKEN_RPAREN] @ rest" _ "[]"]
    by (simp add: parseMatchExpr_def comma_list_def pbind_def with_peek_def pret_def del: comma_loop.simps)
  with 15 show ?case by (intro reads_atom) (simp_all add: parsePrimary_def with_peek_def Let_def)
next
  case (18 e es)
  then show ?case by (cases "es = []") auto
qed simp_all



end
