(* ===== verification/SqlPlanner.thy ===== *)
theory SqlPlanner
  imports SqlAst
begin

text \<open>
  Model of \<^verbatim>\<open>internal/query/sql/planner.go\<close>: the plan nodes, the choice of an index for a \<open>WHERE\<close>
  condition or an \<open>ORDER BY\<close> column, and the plan of every statement. The index catalogue is an
  interface; it enters as the function \<open>FindByColumn\<close> (\<open>None\<close> for a planner without one).
\<close>

section \<open>Plan nodes\<close>

datatype index_scan_op = IndexOpEqual | IndexOpRange | IndexOpMatch

record index_scan =
  is_Table :: bytes
  is_Alias :: bytes
  is_IndexName :: bytes
  is_Column :: bytes
  is_Op :: index_scan_op
  is_Equal :: val
  is_Low :: val
  is_High :: val
  is_IncludeLow :: bool
  is_IncludeHigh :: bool
  is_MatchQuery :: bytes
  is_Filter :: "expr option"

datatype plan_node =
    ScanNode bytes bytes "expr option"
  | IndexScanNode index_scan
  | FilterNode plan_node expr
  | ProjectNode plan_node "(expr \<times> bytes) list"
  | SortNode plan_node "(expr \<times> bool) list"
  | ReverseNode plan_node
  | IndexOrderedScanNode bytes bytes bytes bytes bool
  | LimitNode plan_node int int
  | AggregateNode plan_node "(expr \<times> bytes) list" "expr list" "expr option"
  | JoinNode plan_node plan_node join_type "expr option"
  | InsertPlan statement
  | UpdatePlan plan_node statement
  | DeletePlan plan_node statement
  | CreateTablePlan statement
  | DropTablePlan statement
  | AlterTablePlan statement
  | ShowTablesPlan
  | DescribeTablePlan statement
  | CreateIndexPlan statement
  | DropIndexPlan statement
  | ShowIndexesPlan statement

record index_info =
  ii_Name :: bytes
  ii_Table :: bytes
  ii_Column :: bytes
  ii_Type :: bytes

type_synonym index_catalog = "bytes \<Rightarrow> bytes \<Rightarrow> index_info list"

datatype plan_error = SelectWithoutFrom

text \<open>The \<open>String\<close> methods (\<open>fmt_g\<close> as in \<open>expr_String\<close>).\<close>

definition plan_String :: "(f64 \<Rightarrow> bytes) \<Rightarrow> plan_node \<Rightarrow> bytes option" where
  "plan_String fmt_g n = (case n of
     ScanNode t _ _ \<Rightarrow> Some (''Scan('' @ t @ '')'')
   | IndexScanNode s \<Rightarrow> Some (''IndexScan('' @ is_Table s @ ''.'' @ is_Column s @ '')'')
   | FilterNode _ f \<Rightarrow> map_option (\<lambda>x. ''Filter('' @ x @ '')'') (expr_String fmt_g f)
   | ProjectNode _ _ \<Rightarrow> Some ''Project''
   | SortNode _ _ \<Rightarrow> Some ''Sort''
   | ReverseNode _ \<Rightarrow> Some ''Reverse''
   | IndexOrderedScanNode t _ _ c _ \<Rightarrow> Some (''IndexOrderedScan('' @ t @ ''.'' @ c @ '')'')
   | LimitNode _ l o' \<Rightarrow> Some (''Limit('' @ print_int l @ '', '' @ print_int o' @ '')'')
   | AggregateNode _ _ _ _ \<Rightarrow> Some ''Aggregate''
   | JoinNode _ _ k _ \<Rightarrow> Some ((case k of JoinInner \<Rightarrow> ''INNER'' | JoinLeft \<Rightarrow> ''LEFT'') @ '' JOIN'')
   | InsertPlan _ \<Rightarrow> Some ''Insert''
   | UpdatePlan _ _ \<Rightarrow> Some ''Update''
   | DeletePlan _ _ \<Rightarrow> Some ''Delete''
   | CreateTablePlan _ \<Rightarrow> Some ''CreateTable''
   | DropTablePlan _ \<Rightarrow> Some ''DropTable''
   | AlterTablePlan _ \<Rightarrow> Some ''AlterTable''
   | ShowTablesPlan \<Rightarrow> Some ''ShowTables''
   | DescribeTablePlan _ \<Rightarrow> Some ''DescribeTable''
   | CreateIndexPlan _ \<Rightarrow> Some ''CreateIndex''
   | DropIndexPlan _ \<Rightarrow> Some ''DropIndex''
   | ShowIndexesPlan _ \<Rightarrow> Some ''ShowIndexes'')"

section \<open>Literals and conjunctions\<close>

definition literalOf :: "expr \<Rightarrow> val option" where
  "literalOf e = (case e of
     StringLiteralExpr v \<Rightarrow> Some (VStr v)
   | IntegerLiteralExpr n \<Rightarrow> Some (VInt n)
   | FloatLiteralExpr f \<Rightarrow> Some (VFloat f)
   | BoolLiteralExpr b \<Rightarrow> Some (VBool b)
   | NullLiteralExpr \<Rightarrow> Some VNil
   | _ \<Rightarrow> None)"

text \<open>\<open>evalLiteral\<close> of \<^verbatim>\<open>executor.go\<close>: anything that is not a literal is \<open>nil\<close>.\<close>

definition evalLiteral :: "expr \<Rightarrow> val" where
  "evalLiteral e = (case e of
     StringLiteralExpr v \<Rightarrow> VStr v
   | IntegerLiteralExpr n \<Rightarrow> VInt n
   | FloatLiteralExpr f \<Rightarrow> VFloat f
   | BoolLiteralExpr b \<Rightarrow> VBool b
   | NullLiteralExpr \<Rightarrow> VNil
   | _ \<Rightarrow> VNil)"

fun splitAnd :: "expr \<Rightarrow> expr list" where
  "splitAnd (BinaryExpr op l r) =
     (if op = TOKEN_AND then splitAnd l @ splitAnd r else [BinaryExpr op l r])"
| "splitAnd e = [e]"

definition joinAnd :: "expr list \<Rightarrow> expr option" where
  "joinAnd es = (case es of [] \<Rightarrow> None | e # r \<Rightarrow> Some (foldl (BinaryExpr TOKEN_AND) e r))"

text \<open>
  \<open>col <op> literal\<close> or \<open>literal <op> col\<close>: the column, the value, the operator and whether the sides
  are swapped; the empty column name when the expression has neither form.
\<close>

definition extractColLiteral :: "token_type \<Rightarrow> expr \<Rightarrow> expr \<Rightarrow> bytes \<times> val \<times> token_type \<times> bool" where
  "extractColLiteral op l r =
     (case (l, literalOf r) of
        (IdentifierExpr name _, Some lit) \<Rightarrow> (name, lit, op, False)
      | _ \<Rightarrow>
        (case (r, literalOf l) of
           (IdentifierExpr name _, Some lit) \<Rightarrow> (name, lit, op, True)
         | _ \<Rightarrow> ([], VNil, 0, False)))"

definition flipCompareOp :: "token_type \<Rightarrow> token_type" where
  "flipCompareOp op =
     (if op = TOKEN_LT then TOKEN_GT else if op = TOKEN_LTE then TOKEN_GTE
      else if op = TOKEN_GT then TOKEN_LT else if op = TOKEN_GTE then TOKEN_LTE else op)"

section \<open>Choosing an index\<close>

definition pickIndex :: "index_catalog option \<Rightarrow> bytes \<Rightarrow> bytes \<Rightarrow> bytes \<Rightarrow> index_info option" where
  "pickIndex cat table column usage =
     (case cat of
        None \<Rightarrow> None
      | Some find_by_column \<Rightarrow>
          let metas = find_by_column table column;
              prefer = (if usage = ''EQ'' then ''HASH'' else if usage = ''RANGE'' then ''BTREE''
                        else if usage = ''MATCH'' then ''INVERTED'' else [])
          in if metas = [] then None
             else case find (\<lambda>m. ii_Type m = prefer) metas of
               Some m \<Rightarrow> Some m
             | None \<Rightarrow>
                 if usage = ''MATCH'' then None
                 else find (\<lambda>m. ii_Type m = ''BTREE'' \<or> ii_Type m = ''HASH'') metas)"

definition index_scan_on :: "table_ref \<Rightarrow> bytes \<Rightarrow> bytes \<Rightarrow> index_scan_op \<Rightarrow> index_scan" where
  "index_scan_on frm name col op =
     \<lparr>is_Table = ref_name frm, is_Alias = ref_alias frm, is_IndexName = name, is_Column = col, is_Op = op,
      is_Equal = VNil, is_Low = VNil, is_High = VNil, is_IncludeLow = False, is_IncludeHigh = False,
      is_MatchQuery = [], is_Filter = None\<rparr>"

definition range_bound :: "token_type \<Rightarrow> val \<Rightarrow> index_scan \<Rightarrow> index_scan" where
  "range_bound op lit node =
     (if op = TOKEN_LT then node\<lparr>is_High := lit, is_IncludeHigh := False\<rparr>
      else if op = TOKEN_LTE then node\<lparr>is_High := lit, is_IncludeHigh := True\<rparr>
      else if op = TOKEN_GT then node\<lparr>is_Low := lit, is_IncludeLow := False\<rparr>
      else if op = TOKEN_GTE then node\<lparr>is_Low := lit, is_IncludeLow := True\<rparr>
      else node)"

definition match_comparison ::
    "index_catalog option \<Rightarrow> table_ref \<Rightarrow> token_type \<Rightarrow> expr \<Rightarrow> expr \<Rightarrow> index_scan option" where
  "match_comparison cat frm bop l r =
     (let (col, lit, op, swapped) = extractColLiteral bop l r in
      if col = [] then None
      else if op = TOKEN_EQ then
        (case pickIndex cat (ref_name frm) col ''EQ'' of
           Some idx \<Rightarrow> Some ((index_scan_on frm (ii_Name idx) col IndexOpEqual)\<lparr>is_Equal := lit\<rparr>)
         | None \<Rightarrow> None)
      else if op \<in> {TOKEN_LT, TOKEN_LTE, TOKEN_GT, TOKEN_GTE} then
        (case pickIndex cat (ref_name frm) col ''RANGE'' of
           Some idx \<Rightarrow>
             if ii_Type idx \<noteq> ''HASH''
             then Some (range_bound (if swapped then flipCompareOp op else op) lit
                          (index_scan_on frm (ii_Name idx) col IndexOpRange))
             else None
         | None \<Rightarrow> None)
      else None)"

definition match_between ::
    "index_catalog option \<Rightarrow> table_ref \<Rightarrow> bytes \<Rightarrow> expr \<Rightarrow> expr \<Rightarrow> index_scan option" where
  "match_between cat frm col low high =
     (case pickIndex cat (ref_name frm) col ''RANGE'' of
        Some idx \<Rightarrow>
          if ii_Type idx \<noteq> ''HASH''
          then Some ((index_scan_on frm (ii_Name idx) col IndexOpRange)
                       \<lparr>is_Low := evalLiteral low, is_High := evalLiteral high,
                        is_IncludeLow := True, is_IncludeHigh := True\<rparr>)
          else None
      | None \<Rightarrow> None)"

definition matchIndexPredicate :: "index_catalog option \<Rightarrow> table_ref \<Rightarrow> expr \<Rightarrow> index_scan option" where
  "matchIndexPredicate cat frm e =
     (case e of
        MatchExpr cols query \<Rightarrow>
          (case cols of
             [] \<Rightarrow> None
           | col # _ \<Rightarrow>
               (case pickIndex cat (ref_name frm) col ''MATCH'' of
                  Some idx \<Rightarrow> Some ((index_scan_on frm (ii_Name idx) col IndexOpMatch)\<lparr>is_MatchQuery := query\<rparr>)
                | None \<Rightarrow> None))
      | BinaryExpr op l r \<Rightarrow> match_comparison cat frm op l r
      | BetweenExpr x low high neg \<Rightarrow>
          if neg then None
          else (case x of IdentifierExpr col _ \<Rightarrow> match_between cat frm col low high | _ \<Rightarrow> None)
      | _ \<Rightarrow> None)"

text \<open>The loop of \<open>tryIndexScan\<close>: the first conjunct an index serves, and the others.\<close>

fun find_conjunct ::
    "index_catalog option \<Rightarrow> table_ref \<Rightarrow> expr list \<Rightarrow> expr list \<Rightarrow> (index_scan \<times> expr list) option" where
  "find_conjunct cat frm pre [] = None"
| "find_conjunct cat frm pre (c # cs) =
     (case matchIndexPredicate cat frm c of
        Some node \<Rightarrow> Some (node, pre @ cs)
      | None \<Rightarrow> find_conjunct cat frm (pre @ [c]) cs)"

definition tryIndexScan ::
    "index_catalog option \<Rightarrow> table_ref \<Rightarrow> expr \<Rightarrow> index_scan option \<times> expr option" where
  "tryIndexScan cat frm whr =
     (case find_conjunct cat frm [] (splitAnd whr) of
        Some (node, rest) \<Rightarrow> (Some node, joinAnd rest)
      | None \<Rightarrow> (None, Some whr))"

section \<open>The plan of a statement\<close>

definition lookupKeyword :: "bytes \<Rightarrow> token_type" where
  "lookupKeyword name = (case map_of token_keywords name of Some tt \<Rightarrow> tt | None \<Rightarrow> TOKEN_IDENT)"

definition isAggregateExpr :: "expr \<Rightarrow> bool" where
  "isAggregateExpr e = (case e of FuncCallExpr name _ _ \<Rightarrow> IsAggregate (lookupKeyword name) | _ \<Rightarrow> False)"

definition hasAggregates :: "(expr \<times> bytes) list \<Rightarrow> bool" where
  "hasAggregates cols = list_ex (\<lambda>(e, _). isAggregateExpr e) cols"

definition isIndexNode :: "plan_node \<Rightarrow> bool" where
  "isIndexNode n = (case n of IndexScanNode _ \<Rightarrow> True | _ \<Rightarrow> False)"

fun hasFilterOrIndexScan :: "plan_node \<Rightarrow> bool" where
  "hasFilterOrIndexScan (FilterNode _ _) = True"
| "hasFilterOrIndexScan (IndexScanNode _) = True"
| "hasFilterOrIndexScan (ProjectNode n _) = hasFilterOrIndexScan n"
| "hasFilterOrIndexScan _ = False"

definition extractOrderByColumn :: "expr \<Rightarrow> bytes" where
  "extractOrderByColumn e = (case e of IdentifierExpr name _ \<Rightarrow> name | _ \<Rightarrow> [])"

fun unwrapIndexScan :: "plan_node \<Rightarrow> index_scan option" where
  "unwrapIndexScan (IndexScanNode s) = Some s"
| "unwrapIndexScan (ProjectNode n _) = unwrapIndexScan n"
| "unwrapIndexScan (FilterNode n _) = unwrapIndexScan n"
| "unwrapIndexScan _ = None"

text \<open>
  \<open>injectReverse\<close> changes the node whose input is the index scan that \<open>unwrapIndexScan\<close> has found;
  there is one on the way down.
\<close>

fun injectReverse :: "plan_node \<Rightarrow> plan_node" where
  "injectReverse (ProjectNode n cols) =
     ProjectNode (if isIndexNode n then ReverseNode n else injectReverse n) cols"
| "injectReverse (FilterNode n f) =
     FilterNode (if isIndexNode n then ReverseNode n else injectReverse n) f"
| "injectReverse n = n"

definition plan_source :: "index_catalog option \<Rightarrow> select_stmt \<Rightarrow> table_ref \<Rightarrow> plan_node \<times> expr option" where
  "plan_source cat s frm =
     (case (if sel_Joins s = [] \<and> cat \<noteq> None
            then (case sel_Where s of None \<Rightarrow> (None, None) | Some w \<Rightarrow> tryIndexScan cat frm w) else (None, None)) of
        (Some node, remain) \<Rightarrow> (IndexScanNode node, remain)
      | (None, _) \<Rightarrow> (ScanNode (ref_name frm) (ref_alias frm) None, None))"

definition plan_joins :: "join_clause list \<Rightarrow> plan_node \<Rightarrow> plan_node" where
  "plan_joins joins node =
     foldl (\<lambda>n j. JoinNode n (ScanNode (ref_name (join_table j)) (ref_alias (join_table j)) None)
                    (join_kind j) (join_on j)) node joins"

definition plan_where :: "select_stmt \<Rightarrow> expr option \<Rightarrow> plan_node \<Rightarrow> plan_node" where
  "plan_where s consumed node =
     (case consumed of
        Some f \<Rightarrow> FilterNode node f
      | None \<Rightarrow> (case sel_Where s of
          Some w \<Rightarrow> if \<not> isIndexNode node then FilterNode node w else node
        | None \<Rightarrow> node))"

definition plan_project :: "select_stmt \<Rightarrow> plan_node \<Rightarrow> plan_node" where
  "plan_project s node =
     (if sel_GroupBy s \<noteq> [] \<or> hasAggregates (sel_Columns s)
      then AggregateNode node (sel_Columns s) (sel_GroupBy s) (sel_Having s)
      else ProjectNode node (sel_Columns s))"

text \<open>Sorting by an index: the new node and whether the \<open>ORDER BY\<close> is done with.\<close>

definition plan_order :: "index_catalog option \<Rightarrow> select_stmt \<Rightarrow> table_ref \<Rightarrow> plan_node \<Rightarrow> plan_node \<times> bool" where
  "plan_order cat s frm node =
     (case sel_OrderBy s of
        [(e, asc)] \<Rightarrow>
          let col = extractOrderByColumn e in
          if col = [] then (node, False)
          else
            let (node1, consumed) =
              (case unwrapIndexScan node of
                 Some scan \<Rightarrow>
                   if equal_fold (is_Column scan) col \<and> (is_Op scan = IndexOpRange \<or> is_Op scan = IndexOpEqual)
                   then (if \<not> asc then injectReverse node else node, True)
                   else (node, False)
               | None \<Rightarrow> (node, False))
            in if \<not> consumed \<and> \<not> hasFilterOrIndexScan node1 then
                 (case pickIndex cat (ref_name frm) col ''RANGE'' of
                    Some idx \<Rightarrow>
                      if ii_Type idx = ''BTREE''
                      then (IndexOrderedScanNode (ref_name frm) (ref_alias frm) (ii_Name idx) col asc, True)
                      else (node1, False)
                  | None \<Rightarrow> (node1, False))
               else (node1, consumed)
      | _ \<Rightarrow> (node, False))"

definition plan_limit :: "select_stmt \<Rightarrow> plan_node \<Rightarrow> plan_node" where
  "plan_limit s node =
     (if sel_Limit s \<noteq> None \<or> sel_Offset s \<noteq> None
      then LimitNode node (case sel_Limit s of Some n \<Rightarrow> n | None \<Rightarrow> 0) (case sel_Offset s of Some n \<Rightarrow> n | None \<Rightarrow> 0)
      else node)"

definition planSelect :: "index_catalog option \<Rightarrow> select_stmt \<Rightarrow> plan_error + plan_node" where
  "planSelect cat s =
     (case sel_From s of
        None \<Rightarrow> Inl SelectWithoutFrom
      | Some frm \<Rightarrow>
          let (node0, consumed) = plan_source cat s frm;
              node1 = plan_project s (plan_where s consumed (plan_joins (sel_Joins s) node0));
              (node2, ordered) = plan_order cat s frm node1;
              node3 = (if sel_OrderBy s \<noteq> [] \<and> \<not> ordered then SortNode node2 (sel_OrderBy s) else node2)
          in Inr (plan_limit s node3))"

definition planUpdate :: "statement \<Rightarrow> plan_node" where
  "planUpdate s =
     (let scan = ScanNode (upd_table s) [] None in
      UpdatePlan (case upd_where s of Some w \<Rightarrow> FilterNode scan w | None \<Rightarrow> scan) s)"

definition planDelete :: "statement \<Rightarrow> plan_node" where
  "planDelete s =
     (let scan = ScanNode (del_table s) [] None in
      DeletePlan (case del_where s of Some w \<Rightarrow> FilterNode scan w | None \<Rightarrow> scan) s)"

definition Plan :: "index_catalog option \<Rightarrow> statement \<Rightarrow> plan_error + plan_node" where
  "Plan cat stmt =
     (case stmt of
        Select s \<Rightarrow> planSelect cat s
      | InsertStmt _ _ _ \<Rightarrow> Inr (InsertPlan stmt)
      | UpdateStmt _ _ _ \<Rightarrow> Inr (planUpdate stmt)
      | DeleteStmt _ _ \<Rightarrow> Inr (planDelete stmt)
      | CreateTableStmt _ _ _ \<Rightarrow> Inr (CreateTablePlan stmt)
      | DropTableStmt _ _ \<Rightarrow> Inr (DropTablePlan stmt)
      | AlterTableStmt _ _ \<Rightarrow> Inr (AlterTablePlan stmt)
      | ShowTablesStmt \<Rightarrow> Inr ShowTablesPlan
      | DescribeTableStmt _ \<Rightarrow> Inr (DescribeTablePlan stmt)
      | CreateIndexStmt _ _ _ _ _ _ \<Rightarrow> Inr (CreateIndexPlan stmt)
      | DropIndexStmt _ _ \<Rightarrow> Inr (DropIndexPlan stmt)
      | ShowIndexesStmt _ \<Rightarrow> Inr (ShowIndexesPlan stmt))"

section \<open>The condition is kept\<close>

text \<open>
  What a condition means is any predicate on expressions for which \<open>AND\<close> is the conjunction. The
  contract between the planner and whoever evaluates its filters is the locale.
\<close>

locale condition_semantics =
  fixes sat :: "expr \<Rightarrow> bool"
  assumes sat_and: "sat (BinaryExpr TOKEN_AND l r) \<longleftrightarrow> sat l \<and> sat r"
begin

definition sat_opt :: "expr option \<Rightarrow> bool" where
  "sat_opt f \<longleftrightarrow> (case f of None \<Rightarrow> True | Some e \<Rightarrow> sat e)"

lemma sat_splitAnd: "list_all sat (splitAnd e) \<longleftrightarrow> sat e"
  by (induction e rule: splitAnd.induct) (simp_all add: sat_and)

lemma sat_joinAnd: "sat_opt (joinAnd es) \<longleftrightarrow> list_all sat es"
proof (cases es)
  case (Cons e r)
  have "sat (foldl (BinaryExpr TOKEN_AND) e r) \<longleftrightarrow> sat e \<and> list_all sat r" for e
    by (induction r arbitrary: e) (auto simp: sat_and)
  with Cons show ?thesis by (simp add: joinAnd_def sat_opt_def)
qed (simp add: joinAnd_def sat_opt_def)

lemma sat_split:
  "splitAnd whr = a @ c # b \<Longrightarrow> sat whr \<longleftrightarrow> sat c \<and> sat_opt (joinAnd (a @ b))"
  using sat_splitAnd [of whr] by (auto simp: sat_joinAnd)

end

section \<open>Index choice\<close>

lemma find_conjunct_split:
  "find_conjunct cat frm pre cs = Some (node, rest) \<Longrightarrow>
     (\<exists>a c b. matchIndexPredicate cat frm c = Some node \<and> pre @ cs = a @ c # b \<and> rest = a @ b)"
  by (induction cs arbitrary: pre) (fastforce split: option.splits)+

lemma tryIndexScan_split:
  "tryIndexScan cat frm whr = (Some node, remain) \<Longrightarrow>
     (\<exists>a c b. matchIndexPredicate cat frm c = Some node \<and> splitAnd whr = a @ c # b \<and> remain = joinAnd (a @ b))"
  using find_conjunct_split [of cat frm "[]" "splitAnd whr"]
  by (fastforce simp: tryIndexScan_def split: option.splits)

lemma pickIndex_member:
  "pickIndex (Some fbc) table column usage = Some idx \<Longrightarrow>
     idx \<in> set (fbc table column) \<and> (usage = ''MATCH'' \<longrightarrow> ii_Type idx = ''INVERTED'')"
  by (auto simp: pickIndex_def Let_def find_Some_iff split: if_splits option.splits)

lemma pickIndex_None [simp]: "pickIndex None table column usage = None"
  by (simp add: pickIndex_def)

lemma matchIndexPredicate_None [simp]: "matchIndexPredicate None frm e = None"
  by (cases e) (auto simp: matchIndexPredicate_def match_comparison_def match_between_def Let_def
      split: list.splits expr.splits prod.splits)

section \<open>The reference pipeline\<close>

text \<open>
  The plan of a \<open>SELECT\<close> as the comments of the code number its stages: scan, joins, filter,
  aggregation or projection, sort, limit. It is the plan of a planner without an index catalogue.
\<close>

definition reference_plan :: "select_stmt \<Rightarrow> plan_error + plan_node" where
  "reference_plan s =
     (case sel_From s of
        None \<Rightarrow> Inl SelectWithoutFrom
      | Some frm \<Rightarrow>
          let source = plan_joins (sel_Joins s) (ScanNode (ref_name frm) (ref_alias frm) None);
              filtered = (case sel_Where s of Some w \<Rightarrow> FilterNode source w | None \<Rightarrow> source);
              projected = plan_project s filtered;
              sorted = (if sel_OrderBy s \<noteq> [] then SortNode projected (sel_OrderBy s) else projected)
          in Inr (plan_limit s sorted))"

lemma plan_joins_snoc:
  "plan_joins (js @ [j]) n =
     JoinNode (plan_joins js n) (ScanNode (ref_name (join_table j)) (ref_alias (join_table j)) None) (join_kind j) (join_on j)"
  by (simp add: plan_joins_def)

lemma plan_joins_shape:
  "plan_joins js (ScanNode t a f) = ScanNode t a f \<or> (\<exists>l r k on. plan_joins js (ScanNode t a f) = JoinNode l r k on)"
  by (cases js rule: rev_cases) (simp_all add: plan_joins_snoc, simp add: plan_joins_def)

lemma no_index_below:
  assumes "src = ScanNode t a f \<or> (\<exists>l r k on. src = JoinNode l r k on)"
  shows "\<not> isIndexNode src" "unwrapIndexScan (plan_project s (plan_where s None src)) = None"
  using assms by (auto simp: isIndexNode_def plan_project_def plan_where_def split: option.split)

text \<open>
  Without an index catalogue the planner builds exactly the reference pipeline, and it fails only
  for a \<open>SELECT\<close> without a table.
\<close>

lemma plan_without_indexes_is_reference:
  "Plan None (Select s) = reference_plan s"
proof (cases "sel_From s")
  case None
  then show ?thesis by (simp add: Plan_def planSelect_def reference_plan_def)
next
  case (Some frm)
  let ?src = "plan_joins (sel_Joins s) (ScanNode (ref_name frm) (ref_alias frm) None)"
  note shape = plan_joins_shape [of "sel_Joins s" "ref_name frm" "ref_alias frm" None]
  have src: "plan_source None s frm = (ScanNode (ref_name frm) (ref_alias frm) None, None)"
    by (simp add: plan_source_def)
  have whr: "plan_where s None ?src = (case sel_Where s of Some w \<Rightarrow> FilterNode ?src w | None \<Rightarrow> ?src)"
    using no_index_below(1) [OF shape] by (simp add: plan_where_def split: option.split)
  have ord: "plan_order None s frm (plan_project s (plan_where s None ?src))
      = (plan_project s (plan_where s None ?src), False)"
    using no_index_below(2) [OF shape, of s] by (simp add: plan_order_def Let_def split: list.split)
  show ?thesis
    by (simp add: Plan_def planSelect_def reference_plan_def Some src ord Let_def flip: whr)
qed

text \<open>
  C25: a \<open>SELECT\<close> that groups or aggregates, whatever its joins and its condition, ordered by a single column
  that has a BTREE index, is planned as the bare ordered scan of its table: the check for a
  condition does not look below the aggregation, and the ordered scan replaces the whole plan, so
  joins, condition, grouping, aggregates and columns are lost.
\<close>

theorem ordered_scan_replaces_plan:
  assumes "sel_From s = Some frm" "sel_GroupBy s \<noteq> [] \<or> hasAggregates (sel_Columns s)"
    and "sel_OrderBy s = [(IdentifierExpr col tab, asc)]" "col \<noteq> []"
    and "pickIndex cat (ref_name frm) col ''RANGE'' = Some idx" "ii_Type idx = ''BTREE''"
    and "sel_Limit s = None" "sel_Offset s = None"
  shows "Plan cat (Select s) = Inr (IndexOrderedScanNode (ref_name frm) (ref_alias frm) (ii_Name idx) col asc)"
  using assms
  by (simp add: Plan_def planSelect_def plan_order_def extractOrderByColumn_def plan_project_def plan_limit_def Let_def
      split: prod.split)

theorem ordered_scan_replaces_plan_witness:
  "\<exists>cat. Plan cat (Select (SelectStmt False [(IdentifierExpr ''dept'' [], []), (FuncCallExpr ''COUNT'' [StarExpr] False, [])]
        (Some \<lparr>ref_name = ''emp'', ref_alias = []\<rparr>) []
        (Some (BinaryExpr TOKEN_GT (IdentifierExpr ''age'' []) (IntegerLiteralExpr 60)))
        [IdentifierExpr ''dept'' []] None [(IdentifierExpr ''dept'' [], True)] None None))
     = Inr (IndexOrderedScanNode ''emp'' [] ''i_dept'' ''dept'' True)"
proof
  let ?idx = "\<lparr>ii_Name = ''i_dept'', ii_Table = ''emp'', ii_Column = ''dept'', ii_Type = ''BTREE''\<rparr>"
  show "Plan (Some (\<lambda>t c. if c = ''dept'' then [?idx] else []))
       (Select (SelectStmt False [(IdentifierExpr ''dept'' [], []), (FuncCallExpr ''COUNT'' [StarExpr] False, [])]
        (Some \<lparr>ref_name = ''emp'', ref_alias = []\<rparr>) []
        (Some (BinaryExpr TOKEN_GT (IdentifierExpr ''age'' []) (IntegerLiteralExpr 60)))
        [IdentifierExpr ''dept'' []] None [(IdentifierExpr ''dept'' [], True)] None None))
     = Inr (IndexOrderedScanNode ''emp'' [] ''i_dept'' ''dept'' True)"
    by (subst ordered_scan_replaces_plan [where idx = ?idx and frm = "\<lparr>ref_name = ''emp'', ref_alias = []\<rparr>"
          and col = "''dept''" and tab = "[]" and asc = True])
      (simp_all add: pickIndex_def)
qed

text \<open>
  The bounds of a \<open>BETWEEN\<close> that are not literals are read as \<open>nil\<close>, the mark of an open side: with an
  ordered index the condition becomes a scan of the whole index, and no filter is left.
\<close>

lemma between_columns_scan_everything:
  assumes "pickIndex cat (ref_name frm) col ''RANGE'' = Some idx" "ii_Type idx = ''BTREE''"
  shows "tryIndexScan cat frm (BetweenExpr (IdentifierExpr col t) (IdentifierExpr a ta) (IdentifierExpr b tb) False) =
     (Some ((index_scan_on frm (ii_Name idx) col IndexOpRange)
        \<lparr>is_Low := VNil, is_High := VNil, is_IncludeLow := True, is_IncludeHigh := True\<rparr>), None)"
  using assms by (simp add: tryIndexScan_def matchIndexPredicate_def match_between_def evalLiteral_def joinAnd_def)

end
