(* ===== verification/GoFloat.thy ===== *)
theory GoFloat
  imports GoStrconv
begin

text \<open>
  Arithmetic of Go's \<open>float64\<close> on bit patterns: IEEE-754 with rounding to the nearest, ties to even.
  A finite value is an integer multiple of \<open>2 ^ -1074\<close>, so every operation computes exactly on
  integers and rounds once. All NaNs are one pattern here (the code never looks at the payload);
  the conversion to \<open>int64\<close> out of range is that of amd64 (\<open>math.MinInt64\<close>).
\<close>

section \<open>The parts of a float\<close>

definition f_neg :: "f64 \<Rightarrow> bool" where
  "f_neg w \<longleftrightarrow> unat w \<ge> 2 ^ 63"

definition f_exp :: "f64 \<Rightarrow> nat" where
  "f_exp w = (unat w div 2 ^ 52) mod 2048"

definition f_man :: "f64 \<Rightarrow> nat" where
  "f_man w = unat w mod 2 ^ 52"

definition f_is_nan :: "f64 \<Rightarrow> bool" where
  "f_is_nan w \<longleftrightarrow> f_exp w = 2047 \<and> f_man w \<noteq> 0"

definition f_is_inf :: "f64 \<Rightarrow> bool" where
  "f_is_inf w \<longleftrightarrow> f_exp w = 2047 \<and> f_man w = 0"

text \<open>
  The absolute value in units of \<open>2 ^ -1074\<close>; for an infinity the formula gives \<open>2 ^ 2098\<close>, above every
  finite value, which is what comparisons need.
\<close>

definition f_mag :: "f64 \<Rightarrow> nat" where
  "f_mag w = (if f_exp w = 0 then f_man w else (2 ^ 52 + f_man w) * 2 ^ (f_exp w - 1))"

definition f_val :: "f64 \<Rightarrow> int" where
  "f_val w = (if f_neg w then - int (f_mag w) else int (f_mag w))"

definition f_nan :: f64 where "f_nan = 0x7FF8000000000001"

definition f_signed :: "bool \<Rightarrow> nat \<Rightarrow> f64" where
  "f_signed neg b = word_of_nat (if neg then b + 2 ^ 63 else b)"

text \<open>The float nearest to \<open>num / den\<close>, an infinity on overflow.\<close>

definition f_round :: "bool \<Rightarrow> nat \<Rightarrow> nat \<Rightarrow> f64" where
  "f_round neg num den = f_signed neg (min (float_bits num den) 0x7FF0000000000000)"

definition f_inf :: "bool \<Rightarrow> f64" where
  "f_inf neg = f_signed neg 0x7FF0000000000000"

section \<open>Operations\<close>

definition f_of_int :: "int \<Rightarrow> f64" where
  "f_of_int n = f_round (n < 0) (nat \<bar>n\<bar>) 1"

definition f_minus :: "f64 \<Rightarrow> f64" where
  "f_minus w = (if f_is_nan w then f_nan else f_signed (\<not> f_neg w) (unat w mod 2 ^ 63))"

definition f_add :: "f64 \<Rightarrow> f64 \<Rightarrow> f64" where
  "f_add a b =
     (if f_is_nan a \<or> f_is_nan b then f_nan
      else if f_is_inf a then (if f_is_inf b \<and> f_neg a \<noteq> f_neg b then f_nan else a)
      else if f_is_inf b then b
      else let v = f_val a + f_val b in
        if v = 0 then f_signed (f_neg a \<and> f_neg b) 0
        else f_round (v < 0) (nat \<bar>v\<bar>) (2 ^ 1074))"

definition f_sub :: "f64 \<Rightarrow> f64 \<Rightarrow> f64" where
  "f_sub a b = f_add a (f_minus b)"

definition f_mul :: "f64 \<Rightarrow> f64 \<Rightarrow> f64" where
  "f_mul a b =
     (let neg = (f_neg a \<noteq> f_neg b) in
      if f_is_nan a \<or> f_is_nan b then f_nan
      else if f_is_inf a \<or> f_is_inf b then (if f_mag a = 0 \<or> f_mag b = 0 then f_nan else f_inf neg)
      else f_round neg (f_mag a * f_mag b) (2 ^ 2148))"

definition f_div :: "f64 \<Rightarrow> f64 \<Rightarrow> f64" where
  "f_div a b =
     (let neg = (f_neg a \<noteq> f_neg b) in
      if f_is_nan a \<or> f_is_nan b then f_nan
      else if f_is_inf a then (if f_is_inf b then f_nan else f_inf neg)
      else if f_is_inf b then f_signed neg 0
      else if f_mag b = 0 then (if f_mag a = 0 then f_nan else f_inf neg)
      else f_round neg (f_mag a) (f_mag b))"

function isqrt :: "nat \<Rightarrow> nat" where
  "isqrt n = (if n = 0 then 0 else let s = 2 * isqrt (n div 4) + 1 in if s * s \<le> n then s else s - 1)"
  by pat_completeness auto
termination
  by (relation "measure id") auto

declare isqrt.simps [simp del]

text \<open>
  The root of \<open>mag * 2 ^ -1074\<close> to more than 600 bits, and one more bit that is set when the root is
  not exact, so that rounding it is rounding the true root.
\<close>

definition f_sqrt :: "f64 \<Rightarrow> f64" where
  "f_sqrt w =
     (if f_is_nan w \<or> (f_neg w \<and> f_mag w \<noteq> 0) then f_nan
      else if f_mag w = 0 \<or> f_is_inf w then w
      else let n = f_mag w * 2 ^ 2400; r = isqrt n
           in f_round False (2 * r + (if r * r = n then 0 else 1)) (2 ^ 1738))"

definition f_less :: "f64 \<Rightarrow> f64 \<Rightarrow> bool" where
  "f_less a b \<longleftrightarrow> \<not> f_is_nan a \<and> \<not> f_is_nan b \<and> f_val a < f_val b"

definition f_eq :: "f64 \<Rightarrow> f64 \<Rightarrow> bool" where
  "f_eq a b \<longleftrightarrow> \<not> f_is_nan a \<and> \<not> f_is_nan b \<and> f_val a = f_val b"

text \<open>\<open>int64(f)\<close>: towards zero.\<close>

definition f_to_int64 :: "f64 \<Rightarrow> int" where
  "f_to_int64 w =
     (let n = (let q = int (f_mag w div 2 ^ 1074) in if f_neg w then - q else q) in
      if f_is_nan w \<or> n < int64_min \<or> n > int64_max then int64_min else n)"

definition f_zero :: f64 where "f_zero = 0"
definition f_one :: f64 where "f_one = 0x3FF0000000000000"

lemmas float_eval = f_neg_def f_exp_def f_man_def f_is_nan_def f_is_inf_def f_mag_def f_val_def f_nan_def
  f_signed_def f_round_def f_inf_def f_of_int_def f_minus_def f_add_def f_sub_def f_mul_def f_div_def f_less_def
  f_eq_def f_to_int64_def f_zero_def f_one_def float_bits_def last_place_def scaled_def round_div_def
  bit_len.simps Let_def

end
