(* ===== verification/SqlEval.thy ===== *)
theory SqlEval
  imports SqlPlanner GoFloat
begin

text \<open>
  The evaluation of expressions on a row (\<^verbatim>\<open>internal/query/sql/executor.go\<close>: \<open>evalExpr\<close> and its
  helpers). A row is the map of a JSON object, here its list of distinct keys with their values.
  Two functions of Go's library on arbitrary data enter as the record \<open>go_lib\<close>: \<open>strconv.ParseFloat\<close>
  on any string (the value it returns, also next to an error, and whether there is none) and the text
  of \<open>%v\<close>.
\<close>

type_synonym row = "(bytes \<times> val) list"

record go_lib =
  parse_float :: "bytes \<Rightarrow> f64 \<times> bool"
  fmt_v :: "val \<Rightarrow> bytes"

section \<open>Values\<close>

definition isNumeric :: "val \<Rightarrow> bool" where
  "isNumeric v = (case v of VInt _ \<Rightarrow> True | VFloat _ \<Rightarrow> True | _ \<Rightarrow> False)"

definition toFloat :: "go_lib \<Rightarrow> val \<Rightarrow> f64" where
  "toFloat lib v = (case v of VInt n \<Rightarrow> f_of_int n | VFloat f \<Rightarrow> f | VStr s \<Rightarrow> fst (parse_float lib s) | _ \<Rightarrow> f_zero)"

definition toBool :: "val \<Rightarrow> bool" where
  "toBool v = (case v of VNil \<Rightarrow> False | VBool b \<Rightarrow> b | VStr s \<Rightarrow> s \<noteq> [] | VInt n \<Rightarrow> n \<noteq> 0
     | VFloat f \<Rightarrow> \<not> f_eq f f_zero | _ \<Rightarrow> True)"

definition compareFloat :: "f64 \<Rightarrow> f64 \<Rightarrow> int" where
  "compareFloat a b = (if f_less a b then -1 else if f_less b a then 1 else 0)"

definition strings_Compare :: "bytes \<Rightarrow> bytes \<Rightarrow> int" where
  "strings_Compare a b = (if a = b then 0 else if a < b then -1 else 1)"

definition compareValues :: "go_lib \<Rightarrow> val \<Rightarrow> val \<Rightarrow> int" where
  "compareValues lib a b =
     (if a = VNil \<and> b = VNil then 0
      else if a = VNil then -1
      else if b = VNil then 1
      else case (a, b) of
        (VBool ba, VBool bb) \<Rightarrow> if ba = bb then 0 else if \<not> ba then -1 else 1
      | _ \<Rightarrow>
        if isNumeric a \<and> isNumeric b then compareFloat (toFloat lib a) (toFloat lib b)
        else if isNumeric a then
          (case b of
             VStr s \<Rightarrow> let (f, ok) = parse_float lib s in if ok then compareFloat (toFloat lib a) f else -1
           | _ \<Rightarrow> -1)
        else if isNumeric b then
          (case a of
             VStr s \<Rightarrow> let (f, ok) = parse_float lib s in if ok then compareFloat f (toFloat lib b) else 1
           | _ \<Rightarrow> 1)
        else case (a, b) of
          (VStr sa, VStr sb) \<Rightarrow> strings_Compare sa sb
        | _ \<Rightarrow> strings_Compare (fmt_v lib a) (fmt_v lib b))"

section \<open>Vectors\<close>

text \<open>A vector in a row is a JSON list; no row value is a typed float slice.\<close>

definition toFloatSlice :: "go_lib \<Rightarrow> val \<Rightarrow> f64 list" where
  "toFloatSlice lib v = (case v of VList xs \<Rightarrow> map (toFloat lib) xs | _ \<Rightarrow> [])"

definition vectorDistance :: "go_lib \<Rightarrow> val \<Rightarrow> val \<Rightarrow> f64" where
  "vectorDistance lib l r =
     (let lv = toFloatSlice lib l; rv = toFloatSlice lib r in
      if lv = [] \<or> rv = [] \<or> length lv \<noteq> length rv then f_of_int (- 1)
      else
        let (dot, na, nb) = foldl (\<lambda>(dot, na, nb) (x, y). (f_add dot (f_mul x y), f_add na (f_mul x x), f_add nb (f_mul y y)))
                              (f_zero, f_zero, f_zero) (zip lv rv)
        in if f_eq na f_zero \<or> f_eq nb f_zero then f_one
           else f_sub f_one (f_div dot (f_mul (f_sqrt na) (f_sqrt nb))))"

section \<open>Operators\<close>

text \<open>The remainder of \<open>int64\<close>: truncated division, the sign of the dividend.\<close>

definition int_rem :: "int \<Rightarrow> int \<Rightarrow> int" where
  "int_rem a b = (let r = \<bar>a\<bar> mod \<bar>b\<bar> in if a < 0 then - r else r)"

definition evalBinaryOp :: "go_lib \<Rightarrow> token_type \<Rightarrow> val \<Rightarrow> val \<Rightarrow> val" where
  "evalBinaryOp lib op l r =
     (if op = TOKEN_EQ then VBool (compareValues lib l r = 0)
      else if op = TOKEN_NEQ then VBool (compareValues lib l r \<noteq> 0)
      else if op = TOKEN_LT then VBool (compareValues lib l r < 0)
      else if op = TOKEN_LTE then VBool (compareValues lib l r \<le> 0)
      else if op = TOKEN_GT then VBool (compareValues lib l r > 0)
      else if op = TOKEN_GTE then VBool (compareValues lib l r \<ge> 0)
      else if op = TOKEN_AND then VBool (toBool l \<and> toBool r)
      else if op = TOKEN_OR then VBool (toBool l \<or> toBool r)
      else if op = TOKEN_PLUS then VFloat (f_add (toFloat lib l) (toFloat lib r))
      else if op = TOKEN_MINUS then VFloat (f_sub (toFloat lib l) (toFloat lib r))
      else if op = TOKEN_MULTIPLY then VFloat (f_mul (toFloat lib l) (toFloat lib r))
      else if op = TOKEN_DIVIDE then
        (let d = toFloat lib r in if f_eq d f_zero then VNil else VFloat (f_div (toFloat lib l) d))
      else if op = TOKEN_MODULO then
        (let ri = f_to_int64 (toFloat lib r) in
         if ri = 0 then VNil else VFloat (f_of_int (int_rem (f_to_int64 (toFloat lib l)) ri)))
      else if op = TOKEN_VECTOR_DIST then VFloat (vectorDistance lib l r)
      else VNil)"

definition evalUnaryOp :: "go_lib \<Rightarrow> token_type \<Rightarrow> val \<Rightarrow> val" where
  "evalUnaryOp lib op v =
     (if op = TOKEN_MINUS then VFloat (f_minus (toFloat lib v))
      else if op = TOKEN_NOT then VBool (\<not> toBool v)
      else v)"

text \<open>The built-in functions, on the name in upper case and the values of the arguments.\<close>

definition apply_func :: "bytes \<Rightarrow> val list \<Rightarrow> val" where
  "apply_func name args =
     (if name = ''UPPER'' then (case args of VStr s # _ \<Rightarrow> VStr (to_upper s) | _ \<Rightarrow> VNil)
      else if name = ''LOWER'' then (case args of VStr s # _ \<Rightarrow> VStr (to_lower s) | _ \<Rightarrow> VNil)
      else if name = ''LENGTH'' then (case args of VStr s # _ \<Rightarrow> VInt (int (length s)) | _ \<Rightarrow> VNil)
      else if name = ''COALESCE'' then (case find (\<lambda>v. v \<noteq> VNil) args of Some v \<Rightarrow> v | None \<Rightarrow> VNil)
      else VNil)"

section \<open>Expressions\<close>

fun evalExpr :: "go_lib \<Rightarrow> expr \<Rightarrow> row \<Rightarrow> val" and evalArgs :: "go_lib \<Rightarrow> expr list \<Rightarrow> row \<Rightarrow> val list" where
  "evalExpr lib (IdentifierExpr name table) vars =
     (case map_of vars (if table \<noteq> [] then table @ ''.'' @ name else name) of
        Some v \<Rightarrow> v
      | None \<Rightarrow> (case map_of vars name of Some v \<Rightarrow> v | None \<Rightarrow> VNil))"
| "evalExpr lib (StringLiteralExpr s) vars = VStr s"
| "evalExpr lib (IntegerLiteralExpr n) vars = VInt n"
| "evalExpr lib (FloatLiteralExpr f) vars = VFloat f"
| "evalExpr lib (BoolLiteralExpr b) vars = VBool b"
| "evalExpr lib NullLiteralExpr vars = VNil"
| "evalExpr lib StarExpr vars = VStr ''*''"
| "evalExpr lib (BinaryExpr op l r) vars = evalBinaryOp lib op (evalExpr lib l vars) (evalExpr lib r vars)"
| "evalExpr lib (UnaryExpr op e) vars = evalUnaryOp lib op (evalExpr lib e vars)"
| "evalExpr lib (FuncCallExpr name args _) vars = apply_func (to_upper name) (evalArgs lib args vars)"
| "evalExpr lib (InExpr _ _ _) vars = VNil"
| "evalExpr lib (BetweenExpr _ _ _ _) vars = VNil"
| "evalExpr lib (LikeExpr _ _ _) vars = VNil"
| "evalExpr lib (IsNullExpr _ _) vars = VNil"
| "evalExpr lib (MatchExpr _ _) vars = VNil"
| "evalExpr lib (SubqueryExpr _) vars = VNil"
| "evalArgs lib [] vars = []"
| "evalArgs lib (e # es) vars = evalExpr lib e vars # evalArgs lib es vars"

definition evalBool :: "go_lib \<Rightarrow> expr \<Rightarrow> row \<Rightarrow> bool" where
  "evalBool lib e vars = toBool (evalExpr lib e vars)"

definition filterRows :: "go_lib \<Rightarrow> expr \<Rightarrow> row list \<Rightarrow> row list" where
  "filterRows lib f rows = filter (evalBool lib f) rows"

section \<open>What conditions mean\<close>

lemma toBool_VBool [simp]: "toBool (VBool b) = b"
  by (simp add: toBool_def)

lemma evalBool_and: "evalBool lib (BinaryExpr TOKEN_AND l r) vars \<longleftrightarrow> evalBool lib l vars \<and> evalBool lib r vars"
  by (simp add: evalBool_def evalBinaryOp_def)

lemma evalBool_or: "evalBool lib (BinaryExpr TOKEN_OR l r) vars \<longleftrightarrow> evalBool lib l vars \<or> evalBool lib r vars"
  by (simp add: evalBool_def evalBinaryOp_def)

lemma evalBool_not: "evalBool lib (UnaryExpr TOKEN_NOT e) vars \<longleftrightarrow> \<not> evalBool lib e vars"
  by (simp add: evalBool_def evalUnaryOp_def)

text \<open>The evaluator keeps the contract the planner relies on, for every row.\<close>

interpretation row_condition: condition_semantics "\<lambda>e. evalBool lib e vars" for lib vars
  by unfold_locales (rule evalBool_and)

lemma compareFloat_antisym: "compareFloat b a = - compareFloat a b"
  by (auto simp: compareFloat_def f_less_def)

lemma strings_Compare_antisym: "strings_Compare b a = - strings_Compare a b"
  by (auto simp: strings_Compare_def)

lemma parsed_antisym:
  "(case p of (f, ok) \<Rightarrow> if ok then compareFloat f x else 1) =
     - (case p of (f, ok) \<Rightarrow> if ok then compareFloat x f else -1)"
  "(case p of (f, ok) \<Rightarrow> if ok then compareFloat x f else -1) =
     - (case p of (f, ok) \<Rightarrow> if ok then compareFloat f x else 1)"
  by (cases p; simp add: compareFloat_antisym [of _ x])+

lemma compareValues_antisym: "compareValues lib b a = - compareValues lib a b"
proof (cases "a = VNil \<or> b = VNil")
  case True
  then show ?thesis by (auto simp: compareValues_def)
next
  case False
  consider (num) "isNumeric a" "isNumeric b" | (left) "isNumeric a" "\<not> isNumeric b"
    | (right) "\<not> isNumeric a" "isNumeric b" | (none) "\<not> isNumeric a" "\<not> isNumeric b" by blast
  then show ?thesis
  proof cases
    case num
    then have "compareValues lib x y = compareFloat (toFloat lib x) (toFloat lib y)"
      if "{x, y} = {a, b}" for x y
      using that False by (auto simp: compareValues_def isNumeric_def doubleton_eq_iff split: val.splits)
    then have "compareValues lib b a = compareFloat (toFloat lib b) (toFloat lib a)"
      "compareValues lib a b = compareFloat (toFloat lib a) (toFloat lib b)" by blast+
    then show ?thesis by (simp only: compareFloat_antisym [of "toFloat lib b" "toFloat lib a"])
  next
    case left
    then show ?thesis
      using False by (cases a; cases b; simp add: compareValues_def isNumeric_def; subst parsed_antisym; simp)
  next
    case right
    then show ?thesis
      using False by (cases b; cases a; simp add: compareValues_def isNumeric_def; subst parsed_antisym; simp)
  next
    case none
    then show ?thesis
      using False
      by (cases a; cases b; simp add: compareValues_def isNumeric_def; (subst strings_Compare_antisym, simp | auto))
  qed
qed

text \<open>
  A comparison and the flipped comparison of the swapped operands agree, which is what lets the planner
  turn \<open>literal < column\<close> into a range of the column.
\<close>

lemma flipped_comparison_agrees:
  "IsComparisonOp op \<Longrightarrow>
     evalBool lib (BinaryExpr op l r) vars \<longleftrightarrow> evalBool lib (BinaryExpr (flipCompareOp op) r l) vars"
  using compareValues_antisym [of lib "evalExpr lib l vars" "evalExpr lib r vars"]
  by (auto simp: evalBool_def evalBinaryOp_def flipCompareOp_def IsComparisonOp_def)

text \<open>
  What an index scan asks of a row: its bound on the value of the column. An absent bound is \<open>nil\<close>.
\<close>

definition scan_accepts :: "go_lib \<Rightarrow> index_scan \<Rightarrow> val \<Rightarrow> bool" where
  "scan_accepts lib s v \<longleftrightarrow>
     (case is_Op s of
        IndexOpEqual \<Rightarrow> compareValues lib v (is_Equal s) = 0
      | IndexOpRange \<Rightarrow>
          (is_Low s = VNil \<or> compareValues lib v (is_Low s) > 0 \<or> (is_IncludeLow s \<and> compareValues lib v (is_Low s) = 0)) \<and>
          (is_High s = VNil \<or> compareValues lib v (is_High s) < 0 \<or> (is_IncludeHigh s \<and> compareValues lib v (is_High s) = 0))
      | IndexOpMatch \<Rightarrow> True)"

lemma eval_literal: "literalOf e = Some v \<Longrightarrow> evalExpr lib e vars = v"
  by (cases e) (auto simp: literalOf_def)

lemma extractColLiteral_cases:
  assumes "extractColLiteral op l r = (col, lit, op', swapped)" "col \<noteq> []"
  obtains t where "l = IdentifierExpr col t" "literalOf r = Some lit" "op' = op" "\<not> swapped"
  | t where "r = IdentifierExpr col t" "literalOf l = Some lit" "op' = op" "swapped"
  using assms by (fastforce simp: extractColLiteral_def split: expr.splits option.splits)

text \<open>The row gives the column the same value with and without a qualifier.\<close>

definition column_value :: "row \<Rightarrow> bytes \<Rightarrow> val \<Rightarrow> bool" where
  "column_value vars col v \<longleftrightarrow>
     map_of vars col = Some v \<and> (\<forall>t. t \<noteq> [] \<longrightarrow> map_of vars (t @ ''.'' @ col) \<in> {None, Some v})"

lemma eval_column: "column_value vars col v \<Longrightarrow> evalExpr lib (IdentifierExpr col t) vars = v"
  by (auto simp: column_value_def split: option.splits)

lemma comparison_scan:
  assumes "match_comparison cat frm op l r = Some s" "column_value vars (is_Column s) v"
    and "is_Op s = IndexOpRange \<longrightarrow> VNil \<notin> {evalExpr lib l vars, evalExpr lib r vars}"
  shows "evalBool lib (BinaryExpr op l r) vars \<longleftrightarrow> scan_accepts lib s v"
proof -
  obtain col lit op' swapped where x: "extractColLiteral op l r = (col, lit, op', swapped)"
    by (cases "extractColLiteral op l r")
  have col: "col \<noteq> []" using assms(1) x by (auto simp: match_comparison_def)
  have opr: "op = op'" using x col by (auto elim!: extractColLiteral_cases)
  have "is_Column s = col"
    using assms(1) x col by (auto simp: match_comparison_def index_scan_on_def range_bound_def split: if_splits option.splits)
  then have cv: "column_value vars col v" using assms(2) by simp
  note defs = match_comparison_def index_scan_on_def range_bound_def scan_accepts_def evalBool_def evalBinaryOp_def
    flipCompareOp_def
  from x col show ?thesis
  proof (cases rule: extractColLiteral_cases)
    case (1 t)
    then have "evalExpr lib l vars = v" "evalExpr lib r vars = lit" using eval_column [OF cv] eval_literal by auto
    then show ?thesis
      using assms(1,3) x col 1 by (auto simp: defs split: if_splits option.splits)
  next
    case (2 t)
    then have "evalExpr lib r vars = v" "evalExpr lib l vars = lit" using eval_column [OF cv] eval_literal by auto
    moreover have "compareValues lib lit v = - compareValues lib v lit" by (rule compareValues_antisym)
    ultimately show ?thesis
      using assms(1,3) x col 2 by (auto simp: defs split: if_splits option.splits)
  qed
qed

lemma filterRows_and:
  "(\<And>vars. evalBool lib w vars \<longleftrightarrow> evalBool lib c vars \<and> row_condition.sat_opt lib vars f) \<Longrightarrow>
     filterRows lib w rows = (case f of None \<Rightarrow> filterRows lib c rows | Some e \<Rightarrow> filterRows lib e (filterRows lib c rows))"
  by (auto simp: filterRows_def row_condition.sat_opt_def split: option.split intro: filter_cong)



text \<open>The conditions that \<open>evalExpr\<close> has no case for.\<close>

definition unevaluated :: "expr \<Rightarrow> bool" where
  "unevaluated e = (case e of InExpr _ _ _ \<Rightarrow> True | BetweenExpr _ _ _ _ \<Rightarrow> True | LikeExpr _ _ _ \<Rightarrow> True
     | IsNullExpr _ _ \<Rightarrow> True | MatchExpr _ _ \<Rightarrow> True | SubqueryExpr _ \<Rightarrow> True | _ \<Rightarrow> False)"



end
