(* ===== verification/SqlTokenize.thy ===== *)
theory SqlTokenize
  imports SqlLexer
begin

text \<open>
  Model of \<^verbatim>\<open>internal/query/sql/index/tokenize.go\<close>: a text as the terms of the full-text index. A Go
  string is ranged over by runes, so UTF-8 decoding is part of the model; the Unicode tables of Go's
  \<^verbatim>\<open>unicode\<close> package enter as the record \<open>unicode_lib\<close>.
\<close>

section \<open>Runes\<close>

record unicode_lib =
  is_letter :: "nat \<Rightarrow> bool"
  is_digit :: "nat \<Rightarrow> bool"
  is_cjk :: "nat \<Rightarrow> bool"
  is_punct :: "nat \<Rightarrow> bool"
  is_symbol :: "nat \<Rightarrow> bool"
  lower_rune :: "nat \<Rightarrow> nat"

definition rune_error :: nat where "rune_error = 0xFFFD"

definition cont_byte :: "nat \<Rightarrow> nat \<Rightarrow> char \<Rightarrow> bool" where
  "cont_byte lo hi c \<longleftrightarrow> lo \<le> byte_val c \<and> byte_val c \<le> hi"

text \<open>
  The first rune of a string and its width; a byte that starts no well-formed sequence is
  \<open>RuneError\<close> of width 1.
\<close>

definition decode_rune :: "bytes \<Rightarrow> nat \<times> nat" where
  "decode_rune s =
     (case s of [] \<Rightarrow> (rune_error, 0)
      | c0 # r \<Rightarrow>
        let b0 = byte_val c0 in
        if b0 < 0x80 then (b0, 1)
        else if 0xC2 \<le> b0 \<and> b0 \<le> 0xDF then
          (case r of c1 # _ \<Rightarrow>
             if cont_byte 0x80 0xBF c1 then ((b0 - 0xC0) * 64 + (byte_val c1 - 0x80), 2) else (rune_error, 1)
           | _ \<Rightarrow> (rune_error, 1))
        else if 0xE0 \<le> b0 \<and> b0 \<le> 0xEF then
          (case r of c1 # c2 # _ \<Rightarrow>
             if cont_byte (if b0 = 0xE0 then 0xA0 else 0x80) (if b0 = 0xED then 0x9F else 0xBF) c1 \<and> cont_byte 0x80 0xBF c2
             then (((b0 - 0xE0) * 64 + (byte_val c1 - 0x80)) * 64 + (byte_val c2 - 0x80), 3) else (rune_error, 1)
           | _ \<Rightarrow> (rune_error, 1))
        else if 0xF0 \<le> b0 \<and> b0 \<le> 0xF4 then
          (case r of c1 # c2 # c3 # _ \<Rightarrow>
             if cont_byte (if b0 = 0xF0 then 0x90 else 0x80) (if b0 = 0xF4 then 0x8F else 0xBF) c1 \<and>
                cont_byte 0x80 0xBF c2 \<and> cont_byte 0x80 0xBF c3
             then ((((b0 - 0xF0) * 64 + (byte_val c1 - 0x80)) * 64 + (byte_val c2 - 0x80)) * 64 + (byte_val c3 - 0x80), 4)
             else (rune_error, 1)
           | _ \<Rightarrow> (rune_error, 1))
        else (rune_error, 1))"

lemma decode_rune_width: "s \<noteq> [] \<Longrightarrow> 0 < snd (decode_rune s)"
  by (auto simp: decode_rune_def Let_def split: list.splits)

function runes :: "bytes \<Rightarrow> nat list" where
  "runes s = (if s = [] then [] else let (r, w) = decode_rune s in r # runes (drop w s))"
  by pat_completeness auto
termination
proof (relation "measure length", goal_cases)
  case (2 s x r w)
  have "0 < snd (decode_rune s)" using 2(1) by (rule decode_rune_width)
  then have "0 < w" using 2(2,3) by (metis snd_conv)
  then show ?case using 2(1) by simp
qed simp

declare runes.simps [simp del]

text \<open>\<open>string(r)\<close>; a number that is no Unicode scalar value becomes \<open>RuneError\<close>.\<close>

definition encode_rune :: "nat \<Rightarrow> bytes" where
  "encode_rune r0 =
     (let r = (if r0 > 0x10FFFF \<or> (0xD800 \<le> r0 \<and> r0 \<le> 0xDFFF) then rune_error else r0) in
      if r < 0x80 then [char_of r]
      else if r < 0x800 then [char_of (0xC0 + r div 64), char_of (0x80 + r mod 64)]
      else if r < 0x10000 then
        [char_of (0xE0 + r div 4096), char_of (0x80 + r div 64 mod 64), char_of (0x80 + r mod 64)]
      else [char_of (0xF0 + r div 262144), char_of (0x80 + r div 4096 mod 64), char_of (0x80 + r div 64 mod 64),
            char_of (0x80 + r mod 64)])"

text \<open>\<open>strings.ToLower\<close>, rune by rune.\<close>

definition lower_of :: "unicode_lib \<Rightarrow> nat \<Rightarrow> nat" where
  "lower_of ul r = (if r < 128 then byte_val (lower_byte (char_of r)) else lower_rune ul r)"

definition str_to_lower :: "unicode_lib \<Rightarrow> bytes \<Rightarrow> bytes" where
  "str_to_lower ul s = concat (map (\<lambda>r. encode_rune (lower_of ul r)) (runes s))"

section \<open>Terms\<close>

definition isASCIIWord :: "nat \<Rightarrow> bool" where
  "isASCIIWord r \<longleftrightarrow> r \<le> 127 \<and> (isAlphaNum (char_of r) \<or> r = 95)"

definition isCJKWord :: "unicode_lib \<Rightarrow> nat \<Rightarrow> bool" where
  "isCJKWord ul r \<longleftrightarrow> r > 127 \<and> (is_cjk ul r \<or> is_letter ul r \<or> is_digit ul r)"

definition isAllASCII :: "bytes \<Rightarrow> bool" where
  "isAllASCII s \<longleftrightarrow> list_all (\<lambda>r. r \<le> 127) (runes s)"

definition isPunctuation :: "unicode_lib \<Rightarrow> bytes \<Rightarrow> bool" where
  "isPunctuation ul s \<longleftrightarrow> list_all (\<lambda>r. is_punct ul r \<or> is_symbol ul r \<or> r = 32) (runes s)"

text \<open>The closure \<open>emit\<close> on the tokens so far (which are the keys of \<open>seen\<close>, in order).\<close>

definition emit_term :: "unicode_lib \<Rightarrow> bytes \<Rightarrow> bytes list \<Rightarrow> bytes list" where
  "emit_term ul word0 tokens =
     (let word = TrimSpace word0 in
      if word = [] \<or> isPunctuation ul word then tokens
      else let w = (if isAllASCII word then to_lower word else word) in
        if w \<in> set tokens then tokens else tokens @ [w])"

definition tokenizeCJK :: "unicode_lib \<Rightarrow> nat list \<Rightarrow> bytes list \<Rightarrow> bytes list" where
  "tokenizeCJK ul rs tokens =
     fold (\<lambda>r. emit_term ul (encode_rune r)) rs
       (fold (\<lambda>p. emit_term ul (encode_rune (fst p) @ encode_rune (snd p))) (zip rs (tl rs)) tokens)"

definition flushASCII :: "unicode_lib \<Rightarrow> bytes \<Rightarrow> bytes list \<Rightarrow> bytes list" where
  "flushASCII ul ascii tokens = (if ascii = [] then tokens else emit_term ul ascii tokens)"

definition flushCJK :: "unicode_lib \<Rightarrow> nat list \<Rightarrow> bytes list \<Rightarrow> bytes list" where
  "flushCJK ul cjk tokens = (if cjk = [] then tokens else tokenizeCJK ul cjk tokens)"

text \<open>The loop over the runes, with the two buffers; at the end both are flushed.\<close>

fun token_loop :: "unicode_lib \<Rightarrow> nat list \<Rightarrow> bytes \<Rightarrow> nat list \<Rightarrow> bytes list \<Rightarrow> bytes list" where
  "token_loop ul [] ascii cjk tokens = flushCJK ul cjk (flushASCII ul ascii tokens)"
| "token_loop ul (r # rs) ascii cjk tokens =
     (if isASCIIWord r then token_loop ul rs (ascii @ to_lower [char_of r]) [] (flushCJK ul cjk tokens)
      else if isCJKWord ul r then token_loop ul rs [] (cjk @ [r]) (flushASCII ul ascii tokens)
      else token_loop ul rs [] [] (flushCJK ul cjk (flushASCII ul ascii tokens)))"

definition index_Tokenize :: "unicode_lib \<Rightarrow> bytes \<Rightarrow> bytes list" where
  "index_Tokenize ul text = token_loop ul (runes text) [] [] []"

section \<open>The terms are distinct and never empty\<close>

lemma emit_term_ok:
  "distinct ts \<and> [] \<notin> set ts \<Longrightarrow> distinct (emit_term ul w ts) \<and> [] \<notin> set (emit_term ul w ts)"
  by (auto simp: emit_term_def Let_def to_lower_def)

lemma fold_emit_ok:
  "distinct ts \<and> [] \<notin> set ts \<Longrightarrow>
     distinct (fold (\<lambda>x. emit_term ul (f x)) xs ts) \<and> [] \<notin> set (fold (\<lambda>x. emit_term ul (f x)) xs ts)"
proof (induction xs arbitrary: ts)
  case (Cons x xs)
  show ?case using Cons.IH [OF emit_term_ok [OF Cons.prems]] by simp
qed simp

lemma flush_ok:
  assumes "distinct ts \<and> [] \<notin> set ts"
  shows "distinct (flushASCII ul a ts) \<and> [] \<notin> set (flushASCII ul a ts)"
    "distinct (flushCJK ul c ts) \<and> [] \<notin> set (flushCJK ul c ts)"
  using emit_term_ok [OF assms, of ul a]
    fold_emit_ok [OF fold_emit_ok [OF assms], of ul encode_rune c ul "\<lambda>p. encode_rune (fst p) @ encode_rune (snd p)" "zip c (tl c)"]
  by (simp_all add: flushASCII_def flushCJK_def tokenizeCJK_def assms)

lemma token_loop_ok:
  "distinct ts \<and> [] \<notin> set ts \<Longrightarrow>
     distinct (token_loop ul rs a c ts) \<and> [] \<notin> set (token_loop ul rs a c ts)"
  by (induction ul rs a c ts rule: token_loop.induct) (simp_all add: flush_ok)

lemma index_Tokenize_ok: "distinct (index_Tokenize ul text)" "[] \<notin> set (index_Tokenize ul text)"
  using token_loop_ok [of "[]" ul "runes text" "[]" "[]"] by (simp_all add: index_Tokenize_def)

section \<open>The terms hold no zero byte\<close>

lemma strip_any_set: "strip_any ps s = Some t \<Longrightarrow> set t \<subseteq> set s"
  by (induction ps) (auto split: if_splits dest: in_set_dropD)

lemma char_of_neq_zero:
  assumes "0 < (n :: nat)" "n < 256"
  shows "(char_of n :: char) \<noteq> CHR 0x00" "CHR 0x00 \<noteq> (char_of n :: char)"
proof -
  have "byte_val (char_of n) \<noteq> byte_val (CHR 0x00)" using assms byte_val_char_of [of n] by simp
  then show "(char_of n :: char) \<noteq> CHR 0x00" "CHR 0x00 \<noteq> (char_of n :: char)" by metis+
qed

lemma encode_rune_no_zero:
  assumes "0 < r"
  shows "CHR 0x00 \<notin> set (encode_rune r)"
proof (cases "r > 0x10FFFF \<or> (0xD800 \<le> r \<and> r \<le> 0xDFFF)")
  case True
  then show ?thesis by (simp add: encode_rune_def rune_error_def char_of_neq_zero)
next
  case False
  moreover have "0xC0 + r div 64 < 256" if "r < 0x800" using that by linarith
  moreover have "0xE0 + r div 4096 < 256" if "r < 0x10000" using that by linarith
  moreover have "0xF0 + r div 262144 < 256" using False by linarith
  moreover have "0x80 + x mod 64 < 256" for x :: nat using mod_less_divisor [of 64 x] by linarith
  ultimately show ?thesis using assms by (auto simp: encode_rune_def Let_def char_of_neq_zero)
qed

lemma lower_byte_eq_zero [simp]: "lower_byte c = CHR 0x00 \<longleftrightarrow> c = CHR 0x00"
  "CHR 0x00 = lower_byte c \<longleftrightarrow> c = CHR 0x00"
  using char_of_neq_zero [of "byte_val c + 32"] by (auto simp: lower_byte_def)

lemma zero_in_to_lower [simp]: "CHR 0x00 \<in> set (to_lower s) \<longleftrightarrow> CHR 0x00 \<in> set s"
  by (induction s) (auto simp: to_lower_def)

lemma set_trim_left: "set (trim_left ps s) \<subseteq> set s"
proof (induction ps s rule: trim_left.induct)
  case (1 ps s)
  then show ?case by (subst trim_left.simps) (auto split: option.splits dest: strip_any_set)
qed

lemma set_TrimSpace: "set (TrimSpace s) \<subseteq> set s"
  using set_trim_left [of unicode_spaces s] set_trim_left [of "map rev unicode_spaces" "rev (trim_left unicode_spaces s)"]
  by (auto simp: TrimSpace_def)

abbreviation zero_free :: "bytes list \<Rightarrow> bool" where
  "zero_free ts \<equiv> list_all (\<lambda>t. CHR 0x00 \<notin> set t) ts"

lemma emit_term_zero_free: "CHR 0x00 \<notin> set w \<Longrightarrow> zero_free ts \<Longrightarrow> zero_free (emit_term ul w ts)"
  using set_TrimSpace [of w] by (auto simp: emit_term_def Let_def)

lemma fold_emit_zero_free:
  "list_all (\<lambda>x. CHR 0x00 \<notin> set (f x)) xs \<Longrightarrow> zero_free ts \<Longrightarrow> zero_free (fold (\<lambda>x. emit_term ul (f x)) xs ts)"
  by (induction xs arbitrary: ts) (simp_all add: emit_term_zero_free)

lemma flushCJK_zero_free:
  assumes "list_all (\<lambda>r. 0 < r) c" "zero_free ts"
  shows "zero_free (flushCJK ul c ts)"
proof -
  have "fst p \<in> set c \<and> snd p \<in> set c" if "p \<in> set (zip c (tl c))" for p
    using that set_zip_leftD [of "fst p" "snd p" c "tl c"] set_zip_rightD [of "fst p" "snd p" c "tl c"]
    by (cases c) simp_all
  then have "list_all (\<lambda>p. CHR 0x00 \<notin> set (encode_rune (fst p) @ encode_rune (snd p))) (zip c (tl c))"
    using assms(1) by (simp add: list_all_iff encode_rune_no_zero)
  moreover have "list_all (\<lambda>r. CHR 0x00 \<notin> set (encode_rune r)) c"
    using assms(1) by (simp add: list_all_iff encode_rune_no_zero)
  ultimately show ?thesis
    using assms(2) fold_emit_zero_free [of encode_rune c]
      fold_emit_zero_free [of "\<lambda>p. encode_rune (fst p) @ encode_rune (snd p)" "zip c (tl c)" ts]
    by (simp add: flushCJK_def tokenizeCJK_def)
qed

lemma flushASCII_zero_free: "CHR 0x00 \<notin> set a \<Longrightarrow> zero_free ts \<Longrightarrow> zero_free (flushASCII ul a ts)"
  by (simp add: flushASCII_def emit_term_zero_free)

lemma isASCIIWord_pos: "isASCIIWord r \<Longrightarrow> char_of r \<noteq> CHR 0x00"
  using char_of_neq_zero [of r] by (cases "r = 0") (auto simp: isASCIIWord_def isAlphaNum_def isAlpha_def isDigit_def)

lemma token_loop_zero_free:
  "CHR 0x00 \<notin> set a \<Longrightarrow> list_all (\<lambda>r. 0 < r) c \<Longrightarrow> zero_free ts \<Longrightarrow> zero_free (token_loop ul rs a c ts)"
proof (induction ul rs a c ts rule: token_loop.induct)
  case (2 ul r rs a c ts)
  show ?case
    using 2 isASCIIWord_pos [of r]
    by (cases "isASCIIWord r"; cases "isCJKWord ul r")
      (auto simp: flushCJK_zero_free flushASCII_zero_free isCJKWord_def)
qed (simp add: flushCJK_zero_free flushASCII_zero_free)

lemma index_Tokenize_zero_free: "t \<in> set (index_Tokenize ul text) \<Longrightarrow> CHR 0x00 \<notin> set t"
  using token_loop_zero_free [of "[]" "[]" "[]" ul "runes text"] by (auto simp: index_Tokenize_def list_all_iff)

end
