(* ===== verification/SqlIndex.thy ===== *)
theory SqlIndex
  imports Engine SqlTokenize GoFloat "HOL-Library.AList"
begin

text \<open>
  Model of \<^verbatim>\<open>internal/query/sql/index\<close>: the byte form of values (\<^verbatim>\<open>encoding.go\<close>), the manager of the
  index metadata (\<^verbatim>\<open>manager.go\<close>) and the entries and lookups of the indexes (\<^verbatim>\<open>ops.go\<close>) over the
  ordered map of an engine. \<open>encoding/json\<close> on \<open>Meta\<close> enters as \<open>enc\<close> and \<open>dec\<close>, the Unicode tables as
  \<open>ul\<close>. The Go map of indexes is a list of distinct names; its iteration order is unspecified.
\<close>

unbundle bit_operations_syntax

section \<open>Values as bytes\<close>

definition tagNull :: char where "tagNull = CHR 0x00"
definition tagFalse :: char where "tagFalse = CHR 0x10"
definition tagTrue :: char where "tagTrue = CHR 0x11"
definition tagNumber :: char where "tagNumber = CHR 0x20"
definition tagString :: char where "tagString = CHR 0x30"

definition escape_byte :: "char \<Rightarrow> bytes" where
  "escape_byte b = (if b = NUL then [NUL, CHR 0xFF] else [b])"

definition escape :: "bytes \<Rightarrow> bytes" where
  "escape s = concat (map escape_byte s)"

definition order_bits :: "f64 \<Rightarrow> u64" where
  "order_bits f =
     (if \<not> f_is_nan f \<and> f_val f \<ge> 0 then f XOR 0x8000000000000000 else NOT f)"

definition encodeNumber :: "f64 \<Rightarrow> bytes" where
  "encodeNumber f = tagNumber # escape (be_bytes 8 (unat (order_bits f)))"

definition encodeString :: "bytes \<Rightarrow> bytes" where
  "encodeString s = tagString # escape (map lower_byte s)"

definition EncodeValue :: "val \<Rightarrow> bytes" where
  "EncodeValue v = (case v of
     VNil \<Rightarrow> [tagNull]
   | VBool b \<Rightarrow> if b then [tagTrue] else [tagFalse]
   | VInt n \<Rightarrow> encodeNumber (f_of_int n)
   | VFloat f \<Rightarrow> encodeNumber f
   | VStr s \<Rightarrow> encodeString s
   | _ \<Rightarrow> encodeString [])"

section \<open>The manager\<close>

definition TypeHash :: bytes where "TypeHash = ''HASH''"
definition TypeBTree :: bytes where "TypeBTree = ''BTREE''"
definition TypeInverted :: bytes where "TypeInverted = ''INVERTED''"

record index_meta =
  im_Name :: bytes
  im_Table :: bytes
  im_Column :: bytes
  im_Type :: bytes
  im_Unique :: bool

type_synonym index_manager = "(bytes \<times> index_meta) list"

datatype index_error =
    IndexFieldsRequired
  | IndexExists bytes
  | IndexMarshal
  | IndexNotFound bytes
  | UniqueInverted bytes
  | UniqueViolation bytes bytes

definition sysKeyPrefix :: bytes where "sysKeyPrefix = ''index:''"

definition index_meta_key :: "bytes \<Rightarrow> bytes" where
  "index_meta_key name = EncodeKey PrefixSystem (sysKeyPrefix @ name)"

definition NewManager :: index_manager where
  "NewManager = []"

definition im_put :: "index_manager \<Rightarrow> index_meta \<Rightarrow> index_manager" where
  "im_put m meta = AList.update (im_Name meta) meta m"

definition load_index :: "(bytes \<Rightarrow> index_meta option) \<Rightarrow> bytes \<times> bytes \<Rightarrow> index_manager \<Rightarrow> index_manager" where
  "load_index dec kv m =
     (case dec (snd kv) of
        None \<Rightarrow> m
      | Some meta \<Rightarrow>
          if im_Name meta = [] \<or> im_Table meta = [] \<or> im_Column meta = [] then m else im_put m meta)"

definition im_Init :: "(bytes \<Rightarrow> index_meta option) \<Rightarrow> kv \<Rightarrow> index_manager \<Rightarrow> index_manager" where
  "im_Init dec s m =
     fold (load_index dec) (iter_collect (engine_prefix_scan s (EncodeKey PrefixSystem sysKeyPrefix) no_options)) m"

definition im_Create ::
    "(index_meta \<Rightarrow> bytes option) \<Rightarrow> index_meta \<Rightarrow> bool \<Rightarrow> index_manager \<times> kv \<Rightarrow> (index_error + unit) \<times> index_manager \<times> kv" where
  "im_Create enc meta0 ifNotExists st =
     (let (m, s) = st in
      if im_Name meta0 = [] \<or> im_Table meta0 = [] \<or> im_Column meta0 = [] then (Inl IndexFieldsRequired, m, s)
      else
        let meta = (if im_Type meta0 = [] then meta0\<lparr>im_Type := TypeBTree\<rparr> else meta0) in
        if map_of m (im_Name meta) \<noteq> None then
          (if ifNotExists then (Inr (), m, s) else (Inl (IndexExists (im_Name meta)), m, s))
        else case enc meta of
               None \<Rightarrow> (Inl IndexMarshal, m, s)
             | Some data \<Rightarrow> (Inr (), im_put m meta, engine_set s (index_meta_key (im_Name meta)) data))"

definition indexDataPrefix :: "index_meta \<Rightarrow> bytes" where
  "indexDataPrefix meta =
     (let head = (if im_Type meta = TypeHash then ''h:'' else if im_Type meta = TypeInverted then ''i:'' else ''b:'')
      in PrefixIndex # head @ im_Name meta @ [NUL])"

definition entryKey :: "index_meta \<Rightarrow> bytes \<Rightarrow> bytes \<Rightarrow> bytes" where
  "entryKey meta v rowID = indexDataPrefix meta @ v @ [NUL] @ rowID"

definition entryKeyPrefix :: "index_meta \<Rightarrow> bytes \<Rightarrow> bytes" where
  "entryKeyPrefix meta v = indexDataPrefix meta @ v @ [NUL]"

definition del_op :: "bytes \<Rightarrow> write_op" where
  "del_op k = \<lparr>op_type = OpDelete, op_key = k, op_value = []\<rparr>"

definition put_op :: "bytes \<Rightarrow> write_op" where
  "put_op k = \<lparr>op_type = OpPut, op_key = k, op_value = [CHR 0x01]\<rparr>"

definition im_Drop :: "bytes \<Rightarrow> bool \<Rightarrow> index_manager \<times> kv \<Rightarrow> (index_error + unit) \<times> index_manager \<times> kv" where
  "im_Drop name ifExists st =
     (let (m, s) = st in
      case map_of m name of
        None \<Rightarrow> (if ifExists then Inr () else Inl (IndexNotFound name), m, s)
      | Some meta \<Rightarrow>
          let m' = AList.delete name m;
              s1 = engine_delete s (index_meta_key name);
              ks = map fst (iter_collect (engine_prefix_scan s1 (indexDataPrefix meta) no_options))
          in (Inr (), m', if ks = [] then s1 else engine_batch_write s1 (map del_op ks)))"

definition im_Get :: "index_manager \<Rightarrow> bytes \<Rightarrow> index_meta option" where
  "im_Get m name = map_of m name"

definition ListAll :: "index_manager \<Rightarrow> index_meta list" where
  "ListAll m = map snd m"

definition ListByTable :: "index_manager \<Rightarrow> bytes \<Rightarrow> index_meta list" where
  "ListByTable m table = filter (\<lambda>v. equal_fold (im_Table v) table) (map snd m)"

definition FindByColumn :: "index_manager \<Rightarrow> bytes \<Rightarrow> bytes \<Rightarrow> index_meta list" where
  "FindByColumn m table column =
     filter (\<lambda>v. equal_fold (im_Table v) table \<and> equal_fold (im_Column v) column) (map snd m)"

section \<open>Lookups\<close>

definition trimPrefixRowID :: "bytes \<Rightarrow> bytes \<Rightarrow> bytes" where
  "trimPrefixRowID key p = (if prefix p key then drop (length p) key else [])"

text \<open>What follows the last zero byte of the key behind the data prefix.\<close>

definition decodeRowID :: "bytes \<Rightarrow> bytes \<Rightarrow> bytes" where
  "decodeRowID key p =
     (if \<not> prefix p key then []
      else let rest = drop (length p) key in
        if NUL \<notin> set rest then [] else rev (takeWhile (\<lambda>c. c \<noteq> NUL) (rev rest)))"

definition scanRowIDs :: "kv \<Rightarrow> bytes \<Rightarrow> int \<Rightarrow> bytes list" where
  "scanRowIDs s p limit =
     filter (\<lambda>i. i \<noteq> [])
       (map (\<lambda>(k, _). trimPrefixRowID k p)
         (iter_collect (engine_prefix_scan s p \<lparr>so_limit = limit, so_reverse = False\<rparr>)))"

definition LookupEqual :: "kv \<Rightarrow> index_meta \<Rightarrow> val \<Rightarrow> bytes list" where
  "LookupEqual s meta v = scanRowIDs s (entryKeyPrefix meta (EncodeValue v)) 0"

definition LookupRange :: "kv \<Rightarrow> index_meta \<Rightarrow> val \<Rightarrow> val \<Rightarrow> bool \<Rightarrow> bool \<Rightarrow> bytes list" where
  "LookupRange s meta low high includeLow includeHigh =
     (let dataPrefix = indexDataPrefix meta;
          start = (if low = VNil then dataPrefix
                   else if includeLow then entryKeyPrefix meta (EncodeValue low)
                   else entryKeyPrefix meta (EncodeValue low) @ [CHR 0xFF]);
          en = (if high = VNil then snd (PrefixRange dataPrefix)
                else if includeHigh then Some (entryKeyPrefix meta (EncodeValue high) @ [CHR 0xFF])
                else Some (entryKeyPrefix meta (EncodeValue high)))
      in filter (\<lambda>i. i \<noteq> [])
           (map (\<lambda>(k, _). decodeRowID k dataPrefix) (iter_collect (engine_scan s start en no_options))))"

definition LookupTerm :: "unicode_lib \<Rightarrow> kv \<Rightarrow> index_meta \<Rightarrow> bytes \<Rightarrow> bytes list" where
  "LookupTerm ul s meta term0 =
     (let w = str_to_lower ul (TrimSpace term0) in if w = [] then [] else scanRowIDs s (entryKeyPrefix meta w) 0)"

text \<open>
  The rows that hold every term. The result of the code is the keys of a Go map, in any order; here
  they are in the order of the first term's entries.
\<close>

definition im_Match :: "unicode_lib \<Rightarrow> kv \<Rightarrow> index_meta \<Rightarrow> bytes \<Rightarrow> bytes list" where
  "im_Match ul s meta query =
     (case index_Tokenize ul query of
        [] \<Rightarrow> []
      | t # ts \<Rightarrow> filter (\<lambda>i. list_all (\<lambda>u. i \<in> set (LookupTerm ul s meta u)) ts) (remdups (LookupTerm ul s meta t)))"

section \<open>Entries of a row\<close>

definition keysForValue :: "unicode_lib \<Rightarrow> index_meta \<Rightarrow> val \<Rightarrow> bytes \<Rightarrow> bytes list" where
  "keysForValue ul meta v rowID =
     (if im_Type meta = TypeInverted then
        (case v of VStr s \<Rightarrow> map (\<lambda>t. entryKey meta t rowID) (index_Tokenize ul s) | _ \<Rightarrow> [])
      else if im_Type meta = TypeHash \<or> im_Type meta = TypeBTree then [entryKey meta (EncodeValue v) rowID]
      else [])"

definition validateUnique :: "kv \<Rightarrow> index_meta \<Rightarrow> val \<Rightarrow> bytes \<Rightarrow> index_error option" where
  "validateUnique s meta v rowID =
     (if \<not> im_Unique meta then None
      else if im_Type meta = TypeInverted then Some (UniqueInverted (im_Name meta))
      else if list_ex (\<lambda>i. i \<noteq> rowID) (LookupEqual s meta v) then Some (UniqueViolation (im_Name meta) (im_Column meta))
      else None)"

definition row_keys :: "unicode_lib \<Rightarrow> index_meta \<Rightarrow> (bytes \<times> val) list \<Rightarrow> bytes \<Rightarrow> bytes list" where
  "row_keys ul meta row rowID =
     (case map_of row (im_Column meta) of None \<Rightarrow> [] | Some v \<Rightarrow> keysForValue ul meta v rowID)"

fun insert_ops ::
    "unicode_lib \<Rightarrow> kv \<Rightarrow> index_meta list \<Rightarrow> (bytes \<times> val) list \<Rightarrow> bytes \<Rightarrow> write_op list \<Rightarrow> index_error + write_op list" where
  "insert_ops ul s [] row rowID ops = Inr ops"
| "insert_ops ul s (meta # metas) row rowID ops =
     (case map_of row (im_Column meta) of
        None \<Rightarrow> insert_ops ul s metas row rowID ops
      | Some v \<Rightarrow>
          (case validateUnique s meta v rowID of
             Some e \<Rightarrow> Inl e
           | None \<Rightarrow> insert_ops ul s metas row rowID (ops @ map put_op (keysForValue ul meta v rowID))))"

definition InsertRowOps ::
    "unicode_lib \<Rightarrow> index_manager \<Rightarrow> kv \<Rightarrow> bytes \<Rightarrow> (bytes \<times> val) list \<Rightarrow> bytes \<Rightarrow> index_error + write_op list" where
  "InsertRowOps ul m s table row rowID = insert_ops ul s (ListByTable m table) row rowID []"

definition DeleteRowOps ::
    "unicode_lib \<Rightarrow> index_manager \<Rightarrow> bytes \<Rightarrow> (bytes \<times> val) list \<Rightarrow> bytes \<Rightarrow> write_op list" where
  "DeleteRowOps ul m table row rowID =
     concat (map (\<lambda>meta. map del_op (row_keys ul meta row rowID)) (ListByTable m table))"

definition UpdateRowOps ::
    "unicode_lib \<Rightarrow> index_manager \<Rightarrow> kv \<Rightarrow> bytes \<Rightarrow> (bytes \<times> val) list \<Rightarrow> (bytes \<times> val) list \<Rightarrow> bytes \<Rightarrow>
       index_error + write_op list" where
  "UpdateRowOps ul m s table oldRow newRow rowID =
     (case InsertRowOps ul m s table newRow rowID of
        Inl e \<Rightarrow> Inl e
      | Inr ins \<Rightarrow> Inr (DeleteRowOps ul m table oldRow rowID @ ins))"

definition write_ops :: "kv \<Rightarrow> write_op list \<Rightarrow> kv" where
  "write_ops s ops = (if ops = [] then s else engine_batch_write s ops)"

definition InsertRow ::
    "unicode_lib \<Rightarrow> index_manager \<Rightarrow> bytes \<Rightarrow> (bytes \<times> val) list \<Rightarrow> bytes \<Rightarrow> kv \<Rightarrow> index_error option \<times> kv" where
  "InsertRow ul m table row rowID s =
     (case InsertRowOps ul m s table row rowID of Inl e \<Rightarrow> (Some e, s) | Inr ops \<Rightarrow> (None, write_ops s ops))"

definition DeleteRow :: "unicode_lib \<Rightarrow> index_manager \<Rightarrow> bytes \<Rightarrow> (bytes \<times> val) list \<Rightarrow> bytes \<Rightarrow> kv \<Rightarrow> kv" where
  "DeleteRow ul m table row rowID s = write_ops s (DeleteRowOps ul m table row rowID)"

definition UpdateRow ::
    "unicode_lib \<Rightarrow> index_manager \<Rightarrow> bytes \<Rightarrow> (bytes \<times> val) list \<Rightarrow> (bytes \<times> val) list \<Rightarrow> bytes \<Rightarrow> kv \<Rightarrow>
       index_error option \<times> kv" where
  "UpdateRow ul m table oldRow newRow rowID s =
     (case UpdateRowOps ul m s table oldRow newRow rowID of Inl e \<Rightarrow> (Some e, s) | Inr ops \<Rightarrow> (None, write_ops s ops))"

text \<open>Backfilling an index, with the values seen so far for the unique check.\<close>

definition validateUniqueInBatch ::
    "index_meta \<Rightarrow> val \<Rightarrow> bytes \<Rightarrow> (bytes \<times> bytes) list \<Rightarrow> index_error + (bytes \<times> bytes) list" where
  "validateUniqueInBatch meta v rowID seen =
     (if \<not> im_Unique meta then Inr seen
      else if im_Type meta = TypeInverted then Inl (UniqueInverted (im_Name meta))
      else case map_of seen (EncodeValue v) of
             Some prev \<Rightarrow>
               if prev \<noteq> rowID then Inl (UniqueViolation (im_Name meta) (im_Column meta))
               else Inr (AList.update (EncodeValue v) rowID seen)
           | None \<Rightarrow> Inr (AList.update (EncodeValue v) rowID seen))"

fun rebuild_ops ::
    "unicode_lib \<Rightarrow> index_meta \<Rightarrow> ((bytes \<times> val) list \<times> bytes) list \<Rightarrow> (bytes \<times> bytes) list \<Rightarrow> write_op list \<Rightarrow>
       index_error + write_op list" where
  "rebuild_ops ul meta [] seen ops = Inr ops"
| "rebuild_ops ul meta ((row, rowID) # rs) seen ops =
     (case map_of row (im_Column meta) of
        None \<Rightarrow> rebuild_ops ul meta rs seen ops
      | Some v \<Rightarrow>
          (case validateUniqueInBatch meta v rowID seen of
             Inl e \<Rightarrow> Inl e
           | Inr seen' \<Rightarrow> rebuild_ops ul meta rs seen' (ops @ map put_op (keysForValue ul meta v rowID))))"

definition RebuildFromRows ::
    "unicode_lib \<Rightarrow> index_meta \<Rightarrow> (bytes \<times> val) list list \<Rightarrow> bytes list \<Rightarrow> kv \<Rightarrow> index_error option \<times> kv" where
  "RebuildFromRows ul meta rows rowIDs s =
     (if length rows \<noteq> length rowIDs then (None, s)
      else case rebuild_ops ul meta (zip rows rowIDs) [] [] of
             Inl e \<Rightarrow> (Some e, s)
           | Inr ops \<Rightarrow> (None, write_ops s ops))"

end
