(* ===== verification/SqlExec.thy ===== *)
theory SqlExec
  imports SqlEval SqlIndex TableManager
begin

text \<open>
  The execution of plans (\<^verbatim>\<open>internal/query/sql/executor.go\<close>) on the state of the executor: the content of
  the engine, the table catalogue and the index manager. Library code enters as the record \<open>exec_lib\<close>:
  JSON of rows and of the metadata, the texts \<open>%g\<close> and \<open>FormatFloat\<close>, the Unicode tables and the random row
  identifiers. The iteration order of a Go map is that of its association list.
\<close>

record exec_lib =
  xl_go :: go_lib
  xl_unicode :: unicode_lib
  xl_fmt_g :: "f64 \<Rightarrow> bytes"
  xl_fmt_f :: "f64 \<Rightarrow> bytes"
  xl_odd_name :: "expr \<Rightarrow> bytes"
  xl_row_enc :: "row \<Rightarrow> bytes option"
  xl_row_dec :: "bytes \<Rightarrow> row option"
  xl_table_enc :: "table_meta \<Rightarrow> bytes option"
  xl_table_dec :: "bytes \<Rightarrow> table_meta option"
  xl_index_enc :: "index_meta \<Rightarrow> bytes option"
  xl_index_dec :: "bytes \<Rightarrow> index_meta option"
  xl_uuid :: "nat \<Rightarrow> bytes"

record executor =
  ex_engine :: kv
  ex_tables :: table_manager
  ex_indexes :: index_manager
  ex_uuids :: nat

record exec_result =
  rs_columns :: "bytes list"
  rs_rows :: "row list"
  rs_affected :: int

datatype exec_error =
    UnknownTable bytes
  | ValueCountMismatch
  | ColumnNotInTable bytes bytes
  | NullConstraint bool bytes bytes
  | VarcharTooLong bytes bytes int
  | ColumnTypeMismatch bytes bytes bytes
  | PrimaryKeyConstraint bytes bytes
  | RowMarshal
  | IndexInsertFailed index_error
  | IndexUpdateFailed index_error
  | BackfillFailed index_error
  | TableFailed tm_error
  | IndexFailed index_error
  | UniqueInvertedIndex
  | NoTable bytes
  | ColumnIndexed bytes "bytes list"
  | TypeChangeIndexed bytes "bytes list"
  | TypeUnknownIndexed bytes "bytes list"
  | ArgumentPanic
  | UnsupportedPlan

definition NewExecutor :: "kv \<Rightarrow> executor" where
  "NewExecutor s = \<lparr>ex_engine = s, ex_tables = NewTableManager, ex_indexes = NewManager, ex_uuids = 0\<rparr>"

definition executorCatalog_FindByColumn :: "executor \<Rightarrow> index_catalog" where
  "executorCatalog_FindByColumn st table col =
     map (\<lambda>m. \<lparr>ii_Name = im_Name m, ii_Table = im_Table m, ii_Column = im_Column m, ii_Type = im_Type m\<rparr>)
       (FindByColumn (ex_indexes st) table col)"

definition exec_Init :: "exec_lib \<Rightarrow> executor \<Rightarrow> executor" where
  "exec_Init lib st =
     st\<lparr>ex_tables := tm_init (xl_table_dec lib) (ex_engine st) (ex_tables st),
        ex_indexes := im_Init (xl_index_dec lib) (ex_engine st) (ex_indexes st)\<rparr>"

definition query_result :: "bytes list \<Rightarrow> row list \<Rightarrow> exec_result" where
  "query_result cols rows = \<lparr>rs_columns = cols, rs_rows = rows, rs_affected = 0\<rparr>"

definition affected_result :: "int \<Rightarrow> exec_result" where
  "affected_result n = \<lparr>rs_columns = [], rs_rows = [], rs_affected = n\<rparr>"

section \<open>Scans\<close>

text \<open>The prefix of a table, 0 for an unknown one.\<close>

definition tablePrefix :: "executor \<Rightarrow> bytes \<Rightarrow> u8" where
  "tablePrefix st table =
     (case tm_prefix (ex_tables st) table of
        Some p \<Rightarrow> p
      | None \<Rightarrow>
          let t = to_lower table in
          if t \<in> {''agent_sessions'', ''sessions''} then 1
          else if t \<in> {''agent_memories'', ''memories''} then 2
          else if t \<in> {''agent_decisions'', ''decisions''} then 3
          else if t \<in> {''knowledge_entities'', ''entities''} then 4
          else if t \<in> {''knowledge_relations'', ''relations''} then 5
          else if t \<in> {''data_lineage'', ''lineage''} then 6
          else 0)"

definition guessColumns :: "row list \<Rightarrow> bytes list" where
  "guessColumns rows = (case rows of [] \<Rightarrow> [] | r # _ \<Rightarrow> sort (map fst r))"

definition aliased :: "bytes \<Rightarrow> row \<Rightarrow> row" where
  "aliased alias values =
     (if alias = [] then values
      else fold (\<lambda>(k, v) r. AList.update k v (AList.update (alias @ ''.'' @ k) v r)) values [])"

definition table_items :: "kv \<Rightarrow> u8 \<Rightarrow> (bytes \<times> bytes) list" where
  "table_items s p =
     (let (start, en) = PrefixRange [byte_of p] in iter_collect (engine_scan s start en no_options))"

definition executeScan ::
    "exec_lib \<Rightarrow> executor \<Rightarrow> bytes \<Rightarrow> bytes \<Rightarrow> expr option \<Rightarrow> exec_error + exec_result" where
  "executeScan lib st table alias flt =
     (let p = tablePrefix st table in
      if p = 0 then Inl (UnknownTable table)
      else
        let rows = map (aliased alias) (List.map_filter (\<lambda>(_, v). xl_row_dec lib v) (table_items (ex_engine st) p));
            rows = (case flt of None \<Rightarrow> rows | Some f \<Rightarrow> filterRows (xl_go lib) f rows)
        in Inr (query_result (guessColumns rows) rows))"

text \<open>The first occurrence of every identifier.\<close>

definition first_occurrences :: "bytes list \<Rightarrow> bytes list" where
  "first_occurrences ids = rev (remdups (rev ids))"

text \<open>The rows behind the identifiers an index has given.\<close>

definition fetch_rows :: "exec_lib \<Rightarrow> kv \<Rightarrow> u8 \<Rightarrow> bytes \<Rightarrow> bytes list \<Rightarrow> row list" where
  "fetch_rows lib s p alias ids =
     List.map_filter
       (\<lambda>i. case engine_get s (EncodeKey (byte_of p) i) of
              None \<Rightarrow> None
            | Some v \<Rightarrow> map_option (aliased alias) (xl_row_dec lib v))
       (first_occurrences ids)"

definition executeIndexOrderedScan ::
    "exec_lib \<Rightarrow> executor \<Rightarrow> bytes \<Rightarrow> bytes \<Rightarrow> bytes \<Rightarrow> bool \<Rightarrow> exec_error + exec_result" where
  "executeIndexOrderedScan lib st table alias indexName ascending =
     (case im_Get (ex_indexes st) indexName of
        None \<Rightarrow> executeScan lib st table alias None
      | Some meta \<Rightarrow>
          let ids = LookupRange (ex_engine st) meta VNil VNil True True;
              ids = (if ascending then ids else rev ids);
              p = tablePrefix st table
          in if p = 0 then Inl (UnknownTable table)
             else let rows = fetch_rows lib (ex_engine st) p alias ids
                  in Inr (query_result (guessColumns rows) rows))"

text \<open>The index an \<open>IndexScanNode\<close> runs on: the named one, or one of its column.\<close>

definition scan_index :: "index_manager \<Rightarrow> index_scan \<Rightarrow> index_meta option" where
  "scan_index m node =
     (case (if is_IndexName node \<noteq> [] then im_Get m (is_IndexName node) else None) of
        Some meta \<Rightarrow> Some meta
      | None \<Rightarrow>
          if is_Column node = [] then None
          else
            let metas = FindByColumn m (is_Table node) (is_Column node);
                wanted = (case is_Op node of IndexOpMatch \<Rightarrow> TypeInverted | IndexOpRange \<Rightarrow> TypeBTree | IndexOpEqual \<Rightarrow> TypeHash)
            in (case find (\<lambda>meta. im_Type meta = wanted) metas of
                  Some meta \<Rightarrow> Some meta
                | None \<Rightarrow> (case metas of [] \<Rightarrow> None | meta # _ \<Rightarrow> Some meta)))"

definition scan_ids :: "exec_lib \<Rightarrow> kv \<Rightarrow> index_meta \<Rightarrow> index_scan \<Rightarrow> bytes list" where
  "scan_ids lib s meta node =
     (case is_Op node of
        IndexOpEqual \<Rightarrow> LookupEqual s meta (is_Equal node)
      | IndexOpRange \<Rightarrow> LookupRange s meta (is_Low node) (is_High node) (is_IncludeLow node) (is_IncludeHigh node)
      | IndexOpMatch \<Rightarrow> im_Match (xl_unicode lib) s meta (is_MatchQuery node))"

definition executeIndexScan :: "exec_lib \<Rightarrow> executor \<Rightarrow> index_scan \<Rightarrow> exec_error + exec_result" where
  "executeIndexScan lib st node =
     (case scan_index (ex_indexes st) node of
        None \<Rightarrow> executeScan lib st (is_Table node) (is_Alias node) (is_Filter node)
      | Some meta \<Rightarrow>
          let ids = scan_ids lib (ex_engine st) meta node;
              p = tablePrefix st (is_Table node)
          in if p = 0 then Inl (UnknownTable (is_Table node))
             else
               let rows = fetch_rows lib (ex_engine st) p (is_Alias node) ids;
                   rows = (case is_Filter node of None \<Rightarrow> rows | Some f \<Rightarrow> filterRows (xl_go lib) f rows)
               in Inr (query_result (guessColumns rows) rows))"

section \<open>Operators on results\<close>

definition executeFilter :: "exec_lib \<Rightarrow> expr \<Rightarrow> exec_result \<Rightarrow> exec_result" where
  "executeFilter lib f r = r\<lparr>rs_rows := filterRows (xl_go lib) f (rs_rows r)\<rparr>"

definition column_name :: "exec_lib \<Rightarrow> expr \<times> bytes \<Rightarrow> bytes" where
  "column_name lib c =
     (if snd c \<noteq> [] then snd c
      else case expr_String (xl_fmt_g lib) (fst c) of Some n \<Rightarrow> n | None \<Rightarrow> xl_odd_name lib (fst c))"

definition project_row :: "exec_lib \<Rightarrow> (expr \<times> bytes) list \<Rightarrow> row \<Rightarrow> row" where
  "project_row lib cols row = fold (\<lambda>c. AList.update (column_name lib c) (evalExpr (xl_go lib) (fst c) row)) cols []"

definition executeProject :: "exec_lib \<Rightarrow> (expr \<times> bytes) list \<Rightarrow> exec_result \<Rightarrow> exec_result" where
  "executeProject lib cols r =
     (if length cols = 1 \<and> fst (hd cols) = StarExpr then r
      else query_result (if rs_rows r = [] then [] else map (column_name lib) cols)
             (map (project_row lib cols) (rs_rows r)))"

text \<open>
  \<open>sort.SliceStable\<close> as the insertion sort of its blocks: every element moves to the front as long as it
  is less than the one before it. For a comparison that is a weak order every stable sort gives this list.
\<close>

fun move_front :: "('a \<Rightarrow> 'a \<Rightarrow> bool) \<Rightarrow> 'a \<Rightarrow> 'a list \<Rightarrow> 'a list" where
  "move_front lt x [] = [x]"
| "move_front lt x (y # ys) = (if lt x y then y # move_front lt x ys else x # y # ys)"

definition SliceStable :: "('a \<Rightarrow> 'a \<Rightarrow> bool) \<Rightarrow> 'a list \<Rightarrow> 'a list" where
  "SliceStable lt xs = rev (fold (move_front lt) xs [])"

fun order_less :: "exec_lib \<Rightarrow> (expr \<times> bool) list \<Rightarrow> row \<Rightarrow> row \<Rightarrow> bool" where
  "order_less lib [] a b = False"
| "order_less lib ((e, asc) # order) a b =
     (let cmp = compareValues (xl_go lib) (evalExpr (xl_go lib) e a) (evalExpr (xl_go lib) e b) in
      if cmp = 0 then order_less lib order a b else if asc then cmp < 0 else cmp > 0)"

definition executeSort :: "exec_lib \<Rightarrow> (expr \<times> bool) list \<Rightarrow> exec_result \<Rightarrow> exec_result" where
  "executeSort lib order r = r\<lparr>rs_rows := SliceStable (order_less lib order) (rs_rows r)\<rparr>"

definition executeReverse :: "exec_result \<Rightarrow> exec_result" where
  "executeReverse r = r\<lparr>rs_rows := rev (rs_rows r)\<rparr>"

definition executeLimit :: "int \<Rightarrow> int \<Rightarrow> exec_result \<Rightarrow> exec_result" where
  "executeLimit limit offset r =
     (let rows = rs_rows r;
          rows = (if offset > 0 \<and> offset < int (length rows) then drop (nat offset) rows
                  else if offset \<ge> int (length rows) then [] else rows);
          rows = (if limit > 0 \<and> limit < int (length rows) then take (nat limit) rows else rows)
      in r\<lparr>rs_rows := rows\<rparr>)"

section \<open>Aggregates\<close>

text \<open>
  An aggregate gives a value, leaves its column out, or indexes an empty argument list and panics.
\<close>

datatype agg_value = AggVal val | AggAbsent | AggPanic

definition fold_min :: "go_lib \<Rightarrow> val list \<Rightarrow> val" where
  "fold_min lib vs = foldl (\<lambda>m v. if m = VNil \<or> compareValues lib v m < 0 then v else m) VNil vs"

definition fold_max :: "go_lib \<Rightarrow> val list \<Rightarrow> val" where
  "fold_max lib vs = foldl (\<lambda>m v. if m = VNil \<or> compareValues lib v m > 0 then v else m) VNil vs"

definition fold_sum :: "go_lib \<Rightarrow> val list \<Rightarrow> f64" where
  "fold_sum lib vs = foldl (\<lambda>a v. f_add a (toFloat lib v)) f_zero vs"

definition aggregate :: "go_lib \<Rightarrow> bytes \<Rightarrow> expr list \<Rightarrow> row list \<Rightarrow> agg_value" where
  "aggregate lib name args rows =
     (let values = (case args of [] \<Rightarrow> None | a # _ \<Rightarrow> Some (map (evalExpr lib a) rows));
          on_values = (\<lambda>f. case values of Some vs \<Rightarrow> f vs | None \<Rightarrow> if rows = [] then f [] else AggPanic)
      in
      if name = ''COUNT'' then
        (case args of
           a # _ \<Rightarrow> if a = StarExpr then AggVal (VInt (int (length rows)))
                     else AggVal (VInt (int (length (filter (\<lambda>r. evalExpr lib a r \<noteq> VNil) rows))))
         | [] \<Rightarrow> AggVal (VInt (int (length rows))))
      else if name = ''SUM'' then on_values (\<lambda>vs. AggVal (VFloat (fold_sum lib vs)))
      else if name = ''MIN'' then on_values (\<lambda>vs. AggVal (fold_min lib vs))
      else if name = ''MAX'' then on_values (\<lambda>vs. AggVal (fold_max lib vs))
      else if name = ''AVG'' then
        on_values (\<lambda>vs. if rows = [] then AggAbsent
                        else AggVal (VFloat (f_div (fold_sum lib vs) (f_of_int (int (length rows))))))
      else if name = ''FIRST'' then
        (case (rows, args) of (r # _, a # _) \<Rightarrow> AggVal (evalExpr lib a r) | _ \<Rightarrow> AggAbsent)
      else if name = ''LAST'' then
        (case (rows, args) of (_ # _, a # _) \<Rightarrow> AggVal (evalExpr lib a (last rows)) | _ \<Rightarrow> AggAbsent)
      else AggVal VNil)"

definition aggregate_column :: "exec_lib \<Rightarrow> expr \<Rightarrow> row list \<Rightarrow> agg_value" where
  "aggregate_column lib e rows =
     (case e of
        FuncCallExpr name args _ \<Rightarrow> aggregate (xl_go lib) (to_upper name) args rows
      | _ \<Rightarrow> (case rows of r # _ \<Rightarrow> AggVal (evalExpr (xl_go lib) e r) | [] \<Rightarrow> AggAbsent))"

fun aggregate_row :: "exec_lib \<Rightarrow> (expr \<times> bytes) list \<Rightarrow> row list \<Rightarrow> row \<Rightarrow> row option" where
  "aggregate_row lib [] rows out = Some out"
| "aggregate_row lib (c # cols) rows out =
     (case aggregate_column lib (fst c) rows of
        AggPanic \<Rightarrow> None
      | AggAbsent \<Rightarrow> aggregate_row lib cols rows out
      | AggVal v \<Rightarrow> aggregate_row lib cols rows (AList.update (column_name lib c) v out))"

definition computeAggregates :: "exec_lib \<Rightarrow> (expr \<times> bytes) list \<Rightarrow> row list \<Rightarrow> (bytes list \<times> row) option" where
  "computeAggregates lib cols rows =
     map_option (Pair (map (column_name lib) cols)) (aggregate_row lib cols rows [])"

fun join_bytes :: "bytes \<Rightarrow> bytes list \<Rightarrow> bytes" where
  "join_bytes sep [] = []"
| "join_bytes sep [x] = x"
| "join_bytes sep (x # xs) = x @ sep @ join_bytes sep xs"

definition groupKey :: "go_lib \<Rightarrow> row \<Rightarrow> expr list \<Rightarrow> bytes" where
  "groupKey lib vars groupBy = join_bytes [NUL] (map (\<lambda>e. fmt_v lib (evalExpr lib e vars)) groupBy)"

text \<open>The groups in the order of their first rows.\<close>

definition group_rows :: "go_lib \<Rightarrow> expr list \<Rightarrow> row list \<Rightarrow> (bytes \<times> row list) list" where
  "group_rows lib groupBy rows =
     fold (\<lambda>r gs. let k = groupKey lib r groupBy in
                  AList.update k ((case map_of gs k of None \<Rightarrow> [] | Some rs \<Rightarrow> rs) @ [r]) gs) rows []"

definition add_group_columns :: "exec_lib \<Rightarrow> expr list \<Rightarrow> row \<Rightarrow> row \<Rightarrow> row" where
  "add_group_columns lib groupBy first out =
     fold (\<lambda>g out. case g of
             IdentifierExpr _ _ \<Rightarrow> AList.update (column_name lib (g, [])) (evalExpr (xl_go lib) g first) out
           | _ \<Rightarrow> out) groupBy out"

fun aggregate_groups ::
    "exec_lib \<Rightarrow> (expr \<times> bytes) list \<Rightarrow> expr list \<Rightarrow> expr option \<Rightarrow> (bytes \<times> row list) list \<Rightarrow> row list option" where
  "aggregate_groups lib aggs groupBy having [] = Some []"
| "aggregate_groups lib aggs groupBy having ((_, rows) # gs) =
     (case computeAggregates lib aggs rows of
        None \<Rightarrow> None
      | Some (_, out) \<Rightarrow>
          let out = add_group_columns lib groupBy (hd rows) out;
              keep = (case having of None \<Rightarrow> True | Some h \<Rightarrow> evalBool (xl_go lib) h out)
          in map_option (\<lambda>rest. if keep then out # rest else rest) (aggregate_groups lib aggs groupBy having gs))"

definition executeAggregate ::
    "exec_lib \<Rightarrow> (expr \<times> bytes) list \<Rightarrow> expr list \<Rightarrow> expr option \<Rightarrow> exec_result \<Rightarrow> exec_error + exec_result" where
  "executeAggregate lib aggs groupBy having r =
     (if groupBy = [] then
        (case computeAggregates lib aggs (rs_rows r) of
           None \<Rightarrow> Inl ArgumentPanic
         | Some (cols, out) \<Rightarrow> Inr (query_result cols [out]))
      else
        (case aggregate_groups lib aggs groupBy having (group_rows (xl_go lib) groupBy (rs_rows r)) of
           None \<Rightarrow> Inl ArgumentPanic
         | Some rows \<Rightarrow> Inr (query_result (guessColumns rows) rows)))"

section \<open>Joins\<close>

definition mergeRows :: "row \<Rightarrow> row \<Rightarrow> row" where
  "mergeRows l r = fold (\<lambda>(k, v). AList.update k v) r (fold (\<lambda>(k, v). AList.update k v) l [])"

definition join_matches :: "exec_lib \<Rightarrow> expr option \<Rightarrow> row \<Rightarrow> row list \<Rightarrow> row list" where
  "join_matches lib on l rs =
     filter (\<lambda>x. case on of None \<Rightarrow> True | Some c \<Rightarrow> evalBool (xl_go lib) c x) (map (mergeRows l) rs)"

definition executeJoin ::
    "exec_lib \<Rightarrow> join_type \<Rightarrow> expr option \<Rightarrow> exec_result \<Rightarrow> exec_result \<Rightarrow> exec_result" where
  "executeJoin lib kind on left right =
     (let cols = rs_columns left @ filter (\<lambda>c. c \<notin> set (rs_columns left)) (rs_columns right) in
      query_result cols
        (case kind of
           JoinInner \<Rightarrow> concat (map (\<lambda>l. join_matches lib on l (rs_rows right)) (rs_rows left))
         | JoinLeft \<Rightarrow>
             concat (map (\<lambda>l. case join_matches lib on l (rs_rows right) of
                               [] \<Rightarrow> [mergeRows l (fold (\<lambda>c. AList.update c VNil) (rs_columns right) [])]
                             | ms \<Rightarrow> ms) (rs_rows left))))"

end
