(* ===== verification/SqlWrite.thy ===== *)
theory SqlWrite
  imports SqlExec SqlParser
begin

text \<open>
  The statements of \<^verbatim>\<open>internal/query/sql/executor.go\<close> that change the state: \<open>INSERT\<close>, \<open>UPDATE\<close>, \<open>DELETE\<close>, the
  changes of tables and indexes, \<open>Execute\<close>, which runs any plan, and \<open>handleQuery\<close>, which runs a text. Every operation takes the executor and
  returns its result or error together with the executor it leaves.
\<close>

section \<open>Rows and their columns\<close>

definition rowIDString :: "exec_lib \<Rightarrow> val \<Rightarrow> bytes" where
  "rowIDString lib v =
     (case v of
        VNil \<Rightarrow> []
      | VStr s \<Rightarrow> s
      | VInt n \<Rightarrow> print_int n
      | VFloat f \<Rightarrow> xl_fmt_f lib f
      | VBool b \<Rightarrow> if b then ''true'' else ''false''
      | _ \<Rightarrow> fmt_v (xl_go lib) v)"

definition row_value :: "row \<Rightarrow> bytes \<Rightarrow> val" where
  "row_value row c = (case map_of row c of Some v \<Rightarrow> v | None \<Rightarrow> VNil)"

definition isUserTableMeta :: "table_meta option \<Rightarrow> bool" where
  "isUserTableMeta meta = (case meta of None \<Rightarrow> False | Some m \<Rightarrow> tbl_prefix m \<ge> 0x30)"

definition user_table :: "executor \<Rightarrow> bytes \<Rightarrow> table_meta option" where
  "user_table st table =
     (let meta = tm_get (ex_tables st) table in if isUserTableMeta meta then meta else None)"

definition tableHasColumn :: "table_meta option \<Rightarrow> bytes \<Rightarrow> bool" where
  "tableHasColumn meta name =
     (case meta of None \<Rightarrow> False | Some m \<Rightarrow> list_ex (\<lambda>c. col_name c = name) (tbl_columns m))"

definition rowIDColumnForMeta :: "table_meta \<Rightarrow> bytes" where
  "rowIDColumnForMeta meta = (case find col_primary (tbl_columns meta) of Some c \<Rightarrow> col_name c | None \<Rightarrow> ''id'')"

text \<open>\<open>math.Trunc(f) == f\<close>\<close>

definition f_is_whole :: "f64 \<Rightarrow> bool" where
  "f_is_whole f \<longleftrightarrow> \<not> f_is_nan f \<and> (f_is_inf f \<or> f_mag f mod 2 ^ 1074 = 0)"

definition validateColumnValue :: "bytes \<Rightarrow> column_meta \<Rightarrow> val \<Rightarrow> exec_error option" where
  "validateColumnValue table col v =
     (let t = to_upper (col_type col);
          bad = Some (ColumnTypeMismatch table (col_name col) (col_type col))
      in
      if t \<in> {''INT'', ''INTEGER''} then
        (case v of VInt _ \<Rightarrow> None | VFloat f \<Rightarrow> if f_is_whole f then None else bad | _ \<Rightarrow> bad)
      else if t = ''FLOAT'' then (if isNumeric v then None else bad)
      else if t \<in> {''BOOL'', ''BOOLEAN''} then (case v of VBool _ \<Rightarrow> None | _ \<Rightarrow> bad)
      else if t \<in> {''VARCHAR'', ''STRING'', ''TEXT''} then
        (case v of
           VStr s \<Rightarrow>
             if equal_fold (col_type col) ''VARCHAR'' \<and> col_length col > 0 \<and> int (length s) > col_length col
             then Some (VarcharTooLong table (col_name col) (col_length col)) else None
         | _ \<Rightarrow> bad)
      else None)"

definition fill_default :: "column_meta \<Rightarrow> row \<Rightarrow> row" where
  "fill_default c row =
     (if map_of row (col_name c) = None \<and> col_default c \<noteq> VNil
      then AList.update (col_name c) (col_default c) row else row)"

fun check_columns :: "bytes \<Rightarrow> column_meta list \<Rightarrow> row \<Rightarrow> exec_error option" where
  "check_columns table [] row = None"
| "check_columns table (c # cs) row =
     (let v = row_value row (col_name c) in
      if (col_primary c \<or> \<not> col_nullable c) \<and> v = VNil then Some (NullConstraint (col_primary c) table (col_name c))
      else if v = VNil then check_columns table cs row
      else case validateColumnValue table c v of Some e \<Rightarrow> Some e | None \<Rightarrow> check_columns table cs row)"

text \<open>The identifier of the row and the row with its defaults.\<close>

definition validateRowForWrite ::
    "exec_lib \<Rightarrow> kv \<Rightarrow> table_meta \<Rightarrow> row \<Rightarrow> bytes \<Rightarrow> bool \<Rightarrow> exec_error + bytes \<times> row" where
  "validateRowForWrite lib s meta row0 oldID inserting =
     (let row = (if inserting then fold fill_default (tbl_columns meta) row0 else row0) in
      case find (\<lambda>n. n \<notin> set (map col_name (tbl_columns meta))) (map fst row) of
        Some n \<Rightarrow> Inl (ColumnNotInTable n (tbl_name meta))
      | None \<Rightarrow>
          (case check_columns (tbl_name meta) (tbl_columns meta) row of
             Some e \<Rightarrow> Inl e
           | None \<Rightarrow>
               let idColumn = rowIDColumnForMeta meta;
                   i = rowIDString lib (row_value row idColumn)
               in if i = [] then Inl (PrimaryKeyConstraint (tbl_name meta) idColumn)
                  else if i \<noteq> oldID \<and> engine_get s (EncodeKey (byte_of (tbl_prefix meta)) i) \<noteq> None
                  then Inl (PrimaryKeyConstraint (tbl_name meta) idColumn)
                  else Inr (i, row)))"

definition row_put :: "u8 \<Rightarrow> bytes \<Rightarrow> bytes \<Rightarrow> write_op" where
  "row_put p i data = \<lparr>op_type = OpPut, op_key = EncodeKey (byte_of p) i, op_value = data\<rparr>"

definition row_del :: "u8 \<Rightarrow> bytes \<Rightarrow> write_op" where
  "row_del p i = \<lparr>op_type = OpDelete, op_key = EncodeKey (byte_of p) i, op_value = []\<rparr>"

definition write_batch :: "executor \<Rightarrow> write_op list \<Rightarrow> executor" where
  "write_batch st ops = st\<lparr>ex_engine := engine_batch_write (ex_engine st) ops\<rparr>"

section \<open>INSERT\<close>

text \<open>\<open>util.NewUUID\<close> as the next of the identifiers to come.\<close>

definition take_uuid :: "exec_lib \<Rightarrow> executor \<Rightarrow> bytes \<times> executor" where
  "take_uuid lib st = (xl_uuid lib (ex_uuids st), st\<lparr>ex_uuids := ex_uuids st + 1\<rparr>)"

definition given_id :: "exec_lib \<Rightarrow> table_meta option \<Rightarrow> row \<Rightarrow> executor \<Rightarrow> bytes \<times> row \<times> executor" where
  "given_id lib meta row st =
     (let i = rowIDString lib (row_value row ''id'') in
      if i = [] \<and> tableHasColumn meta ''id''
      then let (u, st) = take_uuid lib st in (u, AList.update ''id'' (VStr u) row, st)
      else (i, row, st))"

definition insert_id :: "exec_lib \<Rightarrow> table_meta option \<Rightarrow> row \<Rightarrow> executor \<Rightarrow> (exec_error + bytes \<times> row) \<times> executor" where
  "insert_id lib meta row st =
     (case given_id lib meta row st of
        (i, row, st) \<Rightarrow>
          (case (case meta of None \<Rightarrow> Inr (i, row) | Some m \<Rightarrow> validateRowForWrite lib (ex_engine st) m row [] True) of
             Inl e \<Rightarrow> (Inl e, st)
           | Inr (i, row) \<Rightarrow>
               if i = [] then let (u, st) = take_uuid lib st in (Inr (u, AList.update ''id'' (VStr u) row), st)
               else (Inr (i, row), st)))"

definition insert_row ::
    "exec_lib \<Rightarrow> bytes \<Rightarrow> u8 \<Rightarrow> table_meta option \<Rightarrow> bytes list \<Rightarrow> expr list \<Rightarrow> executor \<Rightarrow> exec_error option \<times> executor" where
  "insert_row lib table p meta cols0 values st =
     (let cols = (case meta of Some m \<Rightarrow> if cols0 = [] then map col_name (tbl_columns m) else cols0 | None \<Rightarrow> cols0) in
      if length cols \<noteq> length values then (Some ValueCountMismatch, st)
      else
        let row = fold (\<lambda>(c, e). AList.update c (evalLiteral e)) (zip cols values) [] in
        case insert_id lib meta row st of
          (Inl e, st) \<Rightarrow> (Some e, st)
        | (Inr (i, row), st) \<Rightarrow>
            (case xl_row_enc lib row of
               None \<Rightarrow> (Some RowMarshal, st)
             | Some data \<Rightarrow>
                 (case InsertRowOps (xl_unicode lib) (ex_indexes st) (ex_engine st) table row i of
                    Inl e \<Rightarrow> (Some (IndexInsertFailed e), st)
                  | Inr ops \<Rightarrow> (None, write_batch st (row_put p i data # ops)))))"

fun insert_rows ::
    "exec_lib \<Rightarrow> bytes \<Rightarrow> u8 \<Rightarrow> table_meta option \<Rightarrow> bytes list \<Rightarrow> expr list list \<Rightarrow> int \<Rightarrow> executor \<Rightarrow>
       (exec_error + int) \<times> executor" where
  "insert_rows lib table p meta cols [] n st = (Inr n, st)"
| "insert_rows lib table p meta cols (values # rest) n st =
     (case insert_row lib table p meta cols values st of
        (Some e, st) \<Rightarrow> (Inl e, st)
      | (None, st) \<Rightarrow> insert_rows lib table p meta cols rest (n + 1) st)"

definition executeInsert ::
    "exec_lib \<Rightarrow> bytes \<Rightarrow> bytes list \<Rightarrow> expr list list \<Rightarrow> executor \<Rightarrow> (exec_error + exec_result) \<times> executor" where
  "executeInsert lib table cols values st =
     (let p = tablePrefix st table in
      if p = 0 then (Inl (UnknownTable table), st)
      else case insert_rows lib table p (user_table st table) cols values 0 st of
             (Inl e, st) \<Rightarrow> (Inl e, st)
           | (Inr n, st) \<Rightarrow> (Inr (affected_result n), st))"

section \<open>UPDATE\<close>

definition apply_set :: "exec_lib \<Rightarrow> (bytes \<times> expr) list \<Rightarrow> row \<Rightarrow> row" where
  "apply_set lib sets row = fold (\<lambda>(c, e) r. AList.update c (evalExpr (xl_go lib) e r) r) sets row"

text \<open>
  The index operations of an update. When the identifier changes, an error of \<open>InsertRowOps\<close> stays in the
  inner scope of the code and the operations are those of the deletion alone.
\<close>

definition update_index_ops ::
    "exec_lib \<Rightarrow> executor \<Rightarrow> bytes \<Rightarrow> row \<Rightarrow> row \<Rightarrow> bytes \<Rightarrow> bytes \<Rightarrow> index_error + write_op list" where
  "update_index_ops lib st table old new oldID newID =
     (let ul = xl_unicode lib; m = ex_indexes st; s = ex_engine st in
      if newID = oldID then UpdateRowOps ul m s table old new newID
      else Inr (DeleteRowOps ul m table old oldID @
                (case InsertRowOps ul m s table new newID of Inl _ \<Rightarrow> [] | Inr ops \<Rightarrow> ops)))"

definition id_column :: "table_meta option \<Rightarrow> bytes" where
  "id_column meta = (case meta of Some m \<Rightarrow> rowIDColumnForMeta m | None \<Rightarrow> ''id'')"

definition updated_id :: "exec_lib \<Rightarrow> kv \<Rightarrow> table_meta option \<Rightarrow> row \<Rightarrow> bytes \<Rightarrow> exec_error + bytes" where
  "updated_id lib s meta row oldID =
     (case meta of
        Some m \<Rightarrow> (case validateRowForWrite lib s m row oldID False of Inl e \<Rightarrow> Inl e | Inr (i, _) \<Rightarrow> Inr i)
      | None \<Rightarrow> Inr (rowIDString lib (row_value row (id_column meta))))"

text \<open>One row: an error, a row that is passed over, or a changed one.\<close>

definition update_row ::
    "exec_lib \<Rightarrow> bytes \<Rightarrow> u8 \<Rightarrow> table_meta option \<Rightarrow> (bytes \<times> expr) list \<Rightarrow> row \<Rightarrow> executor \<Rightarrow>
       (exec_error + bool) \<times> executor" where
  "update_row lib table p meta sets old st =
     (let row = apply_set lib sets old;
          oldID = rowIDString lib (row_value old (id_column meta))
      in if oldID = [] then (Inr False, st)
         else case updated_id lib (ex_engine st) meta row oldID of
             Inl e \<Rightarrow> (Inl e, st)
           | Inr newID \<Rightarrow>
               if newID = [] then (Inr False, st)
               else case xl_row_enc lib row of
                 None \<Rightarrow> (Inr False, st)
               | Some data \<Rightarrow>
                   (case update_index_ops lib st table old row oldID newID of
                      Inl e \<Rightarrow> (Inl (IndexUpdateFailed e), st)
                    | Inr ops \<Rightarrow>
                        (Inr True,
                         write_batch st ((if newID \<noteq> oldID then [row_del p oldID] else []) @ row_put p newID data # ops))))"

fun update_rows ::
    "exec_lib \<Rightarrow> bytes \<Rightarrow> u8 \<Rightarrow> table_meta option \<Rightarrow> (bytes \<times> expr) list \<Rightarrow> row list \<Rightarrow> int \<Rightarrow> executor \<Rightarrow>
       (exec_error + int) \<times> executor" where
  "update_rows lib table p meta sets [] n st = (Inr n, st)"
| "update_rows lib table p meta sets (row # rows) n st =
     (case update_row lib table p meta sets row st of
        (Inl e, st) \<Rightarrow> (Inl e, st)
      | (Inr changed, st) \<Rightarrow> update_rows lib table p meta sets rows (if changed then n + 1 else n) st)"

definition executeUpdate ::
    "exec_lib \<Rightarrow> bytes \<Rightarrow> (bytes \<times> expr) list \<Rightarrow> exec_result \<Rightarrow> executor \<Rightarrow> (exec_error + exec_result) \<times> executor" where
  "executeUpdate lib table sets input st =
     (let p = tablePrefix st table in
      if p = 0 then (Inl (UnknownTable table), st)
      else case update_rows lib table p (user_table st table) sets (rs_rows input) 0 st of
             (Inl e, st) \<Rightarrow> (Inl e, st)
           | (Inr n, st) \<Rightarrow> (Inr (affected_result n), st))"

section \<open>DELETE\<close>

fun delete_rows :: "exec_lib \<Rightarrow> bytes \<Rightarrow> u8 \<Rightarrow> row list \<Rightarrow> int \<Rightarrow> executor \<Rightarrow> int \<times> executor" where
  "delete_rows lib table p [] n st = (n, st)"
| "delete_rows lib table p (row # rows) n st =
     (case map_of row ''id'' of
        Some (VStr i) \<Rightarrow>
          delete_rows lib table p rows (n + 1)
            (write_batch st (row_del p i # DeleteRowOps (xl_unicode lib) (ex_indexes st) table row i))
      | _ \<Rightarrow> delete_rows lib table p rows n st)"

definition executeDelete ::
    "exec_lib \<Rightarrow> bytes \<Rightarrow> exec_result \<Rightarrow> executor \<Rightarrow> (exec_error + exec_result) \<times> executor" where
  "executeDelete lib table input st =
     (let p = tablePrefix st table in
      if p = 0 then (Inl (UnknownTable table), st)
      else let (n, st) = delete_rows lib table p (rs_rows input) 0 st in (Inr (affected_result n), st))"

section \<open>Tables\<close>

definition column_of_def :: "column_def \<Rightarrow> column_meta" where
  "column_of_def c =
     \<lparr>col_name = cd_name c, col_type = ct_name (cd_type c), col_length = ct_length (cd_type c),
      col_nullable = cd_nullable c, col_primary = cd_primary c,
      col_default = (case cd_default c of None \<Rightarrow> VNil | Some e \<Rightarrow> evalLiteral e)\<rparr>"

definition table_result :: "executor \<Rightarrow> tm_result \<Rightarrow> (exec_error + exec_result) \<times> executor" where
  "table_result st r =
     (case r of (res, tm, s) \<Rightarrow>
        (case res of Inl e \<Rightarrow> Inl (TableFailed e) | Inr _ \<Rightarrow> Inr (affected_result 0),
         st\<lparr>ex_tables := tm, ex_engine := s\<rparr>))"

definition executeCreateTable ::
    "exec_lib \<Rightarrow> bool \<Rightarrow> bytes \<Rightarrow> column_def list \<Rightarrow> executor \<Rightarrow> (exec_error + exec_result) \<times> executor" where
  "executeCreateTable lib ifNotExists table cols st =
     table_result st (tm_create (xl_table_enc lib) table (map column_of_def cols) ifNotExists (ex_tables st) (ex_engine st))"

definition drop_index :: "bytes \<Rightarrow> executor \<Rightarrow> executor" where
  "drop_index name st =
     (case im_Drop name True (ex_indexes st, ex_engine st) of (_, m, s) \<Rightarrow> st\<lparr>ex_indexes := m, ex_engine := s\<rparr>)"

definition executeDropTable ::
    "bool \<Rightarrow> bytes \<Rightarrow> executor \<Rightarrow> (exec_error + exec_result) \<times> executor" where
  "executeDropTable ifExists table st =
     (let st = fold (\<lambda>meta. drop_index (im_Name meta)) (ListByTable (ex_indexes st) table) st in
      table_result st (tm_drop table ifExists (ex_tables st) (ex_engine st)))"

definition executeAlterTable ::
    "exec_lib \<Rightarrow> bytes \<Rightarrow> sql_alter_action \<Rightarrow> executor \<Rightarrow> (exec_error + exec_result) \<times> executor" where
  "executeAlterTable lib table act st =
     (let alter = (\<lambda>a. table_result st (tm_alter (xl_table_enc lib) table a (ex_tables st) (ex_engine st)));
          indexed = (\<lambda>c. map im_Name (FindByColumn (ex_indexes st) table c))
      in case act of
        AddColumnAction c \<Rightarrow> alter (AddColumn (column_of_def c))
      | DropColumnAction c \<Rightarrow>
          if indexed c \<noteq> [] then (Inl (ColumnIndexed c (indexed c)), st) else alter (DropColumn c)
      | ModifyColumnAction c \<Rightarrow>
          if indexed (cd_name c) \<noteq> [] then
            (let current =
                   (case tm_get (ex_tables st) table of
                      None \<Rightarrow> []
                    | Some meta \<Rightarrow>
                        (case find (\<lambda>x. col_name x = cd_name c) (tbl_columns meta) of None \<Rightarrow> [] | Some x \<Rightarrow> col_type x))
             in if current \<noteq> [] \<and> \<not> equal_fold current (ct_name (cd_type c))
                then (Inl (TypeChangeIndexed (cd_name c) (indexed (cd_name c))), st)
                else if current = [] then (Inl (TypeUnknownIndexed (cd_name c) (indexed (cd_name c))), st)
                else alter (ModifyColumn (column_of_def c)))
          else alter (ModifyColumn (column_of_def c)))"

definition executeShowTables :: "executor \<Rightarrow> exec_result" where
  "executeShowTables st =
     query_result [''table_name''] (map (\<lambda>n. [(''table_name'', VStr n)]) (tm_list (ex_tables st)))"

definition describe_column :: "column_meta \<Rightarrow> row" where
  "describe_column c =
     [(''field'', VStr (col_name c)),
      (''type'', VStr (if col_length c > 0 then col_type c @ ''('' @ print_int (col_length c) @ '')'' else col_type c)),
      (''null'', VBool (col_nullable c)), (''key'', VBool (col_primary c)), (''default'', col_default c)]"

definition executeDescribeTable :: "bytes \<Rightarrow> executor \<Rightarrow> exec_error + exec_result" where
  "executeDescribeTable table st =
     (case tm_get (ex_tables st) table of
        None \<Rightarrow> Inl (NoTable table)
      | Some meta \<Rightarrow>
          Inr (query_result [''field'', ''type'', ''null'', ''key'', ''default''] (map describe_column (tbl_columns meta))))"

section \<open>Indexes\<close>

definition bytesContainsZero :: "bytes \<Rightarrow> bool" where
  "bytesContainsZero b \<longleftrightarrow> list_ex (\<lambda>c. c = NUL) b"

text \<open>The rows that fill a new index: those with a string identifier, under keys without a zero byte.\<close>

definition backfill_rows :: "exec_lib \<Rightarrow> kv \<Rightarrow> u8 \<Rightarrow> (row \<times> bytes) list" where
  "backfill_rows lib s p =
     List.map_filter
       (\<lambda>(k, v).
          if length k > 1 \<and> bytesContainsZero (tl k) then None
          else case xl_row_dec lib v of
                 None \<Rightarrow> None
               | Some row \<Rightarrow> (case map_of row ''id'' of Some (VStr i) \<Rightarrow> if i = [] then None else Some (row, i) | _ \<Rightarrow> None))
       (table_items s p)"

definition backfill_index :: "exec_lib \<Rightarrow> bytes \<Rightarrow> bytes \<Rightarrow> executor \<Rightarrow> (exec_error + exec_result) \<times> executor" where
  "backfill_index lib name table st =
     (let p = tablePrefix st table in
      if p = 0 then (Inr (affected_result 0), st)
      else
        let rows = backfill_rows lib (ex_engine st) p in
        case im_Get (ex_indexes st) name of
          None \<Rightarrow> (Inr (affected_result 0), st)
        | Some meta \<Rightarrow>
            if rows = [] then (Inr (affected_result 0), st)
            else case RebuildFromRows (xl_unicode lib) meta (map fst rows) (map snd rows) (ex_engine st) of
                   (Some e, s) \<Rightarrow> (Inl (BackfillFailed e), drop_index name (st\<lparr>ex_engine := s\<rparr>))
                 | (None, s) \<Rightarrow> (Inr (affected_result 0), st\<lparr>ex_engine := s\<rparr>))"

definition executeCreateIndex ::
    "exec_lib \<Rightarrow> bool \<Rightarrow> index_meta \<Rightarrow> executor \<Rightarrow> (exec_error + exec_result) \<times> executor" where
  "executeCreateIndex lib ifNotExists stmt st =
     (if tm_get (ex_tables st) (im_Table stmt) = None \<and> tablePrefix st (im_Table stmt) = 0
      then (Inl (NoTable (im_Table stmt)), st)
      else
        let meta = stmt\<lparr>im_Type := to_upper (im_Type stmt)\<rparr> in
        if im_Unique meta \<and> im_Type meta = TypeInverted then (Inl UniqueInvertedIndex, st)
        else case im_Create (xl_index_enc lib) meta ifNotExists (ex_indexes st, ex_engine st) of
               (Inl e, m, s) \<Rightarrow> (Inl (IndexFailed e), st\<lparr>ex_indexes := m, ex_engine := s\<rparr>)
             | (Inr _, m, s) \<Rightarrow> backfill_index lib (im_Name stmt) (im_Table stmt) (st\<lparr>ex_indexes := m, ex_engine := s\<rparr>))"

definition executeDropIndex :: "bool \<Rightarrow> bytes \<Rightarrow> executor \<Rightarrow> (exec_error + exec_result) \<times> executor" where
  "executeDropIndex ifExists name st =
     (case im_Drop name ifExists (ex_indexes st, ex_engine st) of
        (Inl e, m, s) \<Rightarrow> (Inl (IndexFailed e), st\<lparr>ex_indexes := m, ex_engine := s\<rparr>)
      | (Inr _, m, s) \<Rightarrow> (Inr (affected_result 0), st\<lparr>ex_indexes := m, ex_engine := s\<rparr>))"

definition show_index :: "index_meta \<Rightarrow> row" where
  "show_index m =
     [(''name'', VStr (im_Name m)), (''table'', VStr (im_Table m)), (''column'', VStr (im_Column m)),
      (''type'', VStr (im_Type m)), (''unique'', VBool (im_Unique m))]"

definition executeShowIndexes :: "bytes \<Rightarrow> executor \<Rightarrow> exec_result" where
  "executeShowIndexes table st =
     query_result [''name'', ''table'', ''column'', ''type'', ''unique'']
       (map show_index (if table \<noteq> [] then ListByTable (ex_indexes st) table else ListAll (ex_indexes st)))"

section \<open>Plans\<close>

text \<open>Continue with the result of the input, or stop with its error.\<close>

definition with_input ::
    "(exec_error + exec_result) \<times> executor \<Rightarrow>
     (exec_result \<Rightarrow> executor \<Rightarrow> (exec_error + exec_result) \<times> executor) \<Rightarrow> (exec_error + exec_result) \<times> executor" where
  "with_input r f = (case r of (Inl e, st) \<Rightarrow> (Inl e, st) | (Inr x, st) \<Rightarrow> f x st)"

fun Execute :: "exec_lib \<Rightarrow> plan_node \<Rightarrow> executor \<Rightarrow> (exec_error + exec_result) \<times> executor" where
  "Execute lib (ScanNode table alias flt) st = (executeScan lib st table alias flt, st)"
| "Execute lib (IndexScanNode node) st = (executeIndexScan lib st node, st)"
| "Execute lib (FilterNode n f) st = with_input (Execute lib n st) (\<lambda>r st. (Inr (executeFilter lib f r), st))"
| "Execute lib (ProjectNode n cols) st = with_input (Execute lib n st) (\<lambda>r st. (Inr (executeProject lib cols r), st))"
| "Execute lib (SortNode n order) st = with_input (Execute lib n st) (\<lambda>r st. (Inr (executeSort lib order r), st))"
| "Execute lib (ReverseNode n) st = with_input (Execute lib n st) (\<lambda>r st. (Inr (executeReverse r), st))"
| "Execute lib (IndexOrderedScanNode table alias name _ asc) st = (executeIndexOrderedScan lib st table alias name asc, st)"
| "Execute lib (LimitNode n limit offset) st =
     with_input (Execute lib n st) (\<lambda>r st. (Inr (executeLimit limit offset r), st))"
| "Execute lib (AggregateNode n aggs groupBy having) st =
     with_input (Execute lib n st) (\<lambda>r st. (executeAggregate lib aggs groupBy having r, st))"
| "Execute lib (JoinNode l r kind on) st =
     with_input (Execute lib l st) (\<lambda>a st. with_input (Execute lib r st) (\<lambda>b st. (Inr (executeJoin lib kind on a b), st)))"
| "Execute lib (UpdatePlan n stmt) st =
     with_input (Execute lib n st)
       (\<lambda>r st. case stmt of UpdateStmt table sets _ \<Rightarrow> executeUpdate lib table sets r st | _ \<Rightarrow> (Inl UnsupportedPlan, st))"
| "Execute lib (DeletePlan n stmt) st =
     with_input (Execute lib n st)
       (\<lambda>r st. case stmt of DeleteStmt table _ \<Rightarrow> executeDelete lib table r st | _ \<Rightarrow> (Inl UnsupportedPlan, st))"
| "Execute lib (InsertPlan stmt) st =
     (case stmt of InsertStmt table cols values \<Rightarrow> executeInsert lib table cols values st | _ \<Rightarrow> (Inl UnsupportedPlan, st))"
| "Execute lib (CreateTablePlan stmt) st =
     (case stmt of CreateTableStmt ine table cols \<Rightarrow> executeCreateTable lib ine table cols st | _ \<Rightarrow> (Inl UnsupportedPlan, st))"
| "Execute lib (DropTablePlan stmt) st =
     (case stmt of DropTableStmt ie table \<Rightarrow> executeDropTable ie table st | _ \<Rightarrow> (Inl UnsupportedPlan, st))"
| "Execute lib (AlterTablePlan stmt) st =
     (case stmt of AlterTableStmt table act \<Rightarrow> executeAlterTable lib table act st | _ \<Rightarrow> (Inl UnsupportedPlan, st))"
| "Execute lib ShowTablesPlan st = (Inr (executeShowTables st), st)"
| "Execute lib (DescribeTablePlan stmt) st =
     (case stmt of DescribeTableStmt table \<Rightarrow> (executeDescribeTable table st, st) | _ \<Rightarrow> (Inl UnsupportedPlan, st))"
| "Execute lib (CreateIndexPlan stmt) st =
     (case stmt of
        CreateIndexStmt ine name table col type uniq \<Rightarrow>
          executeCreateIndex lib ine
            \<lparr>im_Name = name, im_Table = table, im_Column = col, im_Type = type, im_Unique = uniq\<rparr> st
      | _ \<Rightarrow> (Inl UnsupportedPlan, st))"
| "Execute lib (DropIndexPlan stmt) st =
     (case stmt of DropIndexStmt ie name \<Rightarrow> executeDropIndex ie name st | _ \<Rightarrow> (Inl UnsupportedPlan, st))"
| "Execute lib (ShowIndexesPlan stmt) st =
     (case stmt of ShowIndexesStmt table \<Rightarrow> (Inr (executeShowIndexes table st), st) | _ \<Rightarrow> (Inl UnsupportedPlan, st))"

section \<open>Requests\<close>

text \<open>A request of \<^verbatim>\<open>handleQuery\<close> (\<^verbatim>\<open>api/http/router.go\<close>): parse, plan with the indexes there are, execute.\<close>

datatype query_error = SqlRequired | ParseFailed parse_error | ParserFuel | PlanFailed plan_error | ExecuteFailed exec_error

definition handleQuery :: "exec_lib \<Rightarrow> bytes \<Rightarrow> executor \<Rightarrow> (query_error + exec_result) \<times> executor" where
  "handleQuery lib body st =
     (if body = [] then (Inl SqlRequired, st)
      else case Parse body of
        PErr e \<Rightarrow> (Inl (ParseFailed e), st)
      | PFuel \<Rightarrow> (Inl ParserFuel, st)
      | POk stmt _ \<Rightarrow>
          (case Plan (Some (executorCatalog_FindByColumn st)) stmt of
             Inl e \<Rightarrow> (Inl (PlanFailed e), st)
           | Inr plan \<Rightarrow>
               (case Execute lib plan st of
                  (Inl e, st) \<Rightarrow> (Inl (ExecuteFailed e), st)
                | (Inr r, st) \<Rightarrow> (Inr r, st))))"

end
