(* ===== verification/SqlIndexProps.thy ===== *)
theory SqlIndexProps
  imports SqlIndex
begin

text \<open>
  What holds of the secondary indexes: the entries of the indexes of a table are exactly those of its
  rows, through inserts, updates and deletes; numbers are stored in their order; and where the byte form
  of a value breaks the lookups.
\<close>

unbundle bit_operations_syntax

section \<open>Entries\<close>

definition index_entries :: "kv \<Rightarrow> index_meta \<Rightarrow> bytes set" where
  "index_entries s meta = {k. prefix (indexDataPrefix meta) k \<and> engine_get s k \<noteq> None}"

text \<open>The indexes have distinct names without a zero byte.\<close>

definition metas_ok :: "index_meta list \<Rightarrow> bool" where
  "metas_ok metas \<longleftrightarrow> distinct (map im_Name metas) \<and> (\<forall>meta \<in> set metas. NUL \<notin> set (im_Name meta))"

definition rows_ok :: "(bytes \<Rightarrow> (bytes \<times> val) list option) \<Rightarrow> bool" where
  "rows_ok rows \<longleftrightarrow> (\<forall>i \<in> dom rows. i \<noteq> [] \<and> NUL \<notin> set i)"

definition keys_of_rows :: "unicode_lib \<Rightarrow> index_meta \<Rightarrow> (bytes \<Rightarrow> (bytes \<times> val) list option) \<Rightarrow> bytes set" where
  "keys_of_rows ul meta rows = {k. \<exists>i row. rows i = Some row \<and> k \<in> set (row_keys ul meta row i)}"

definition index_holds ::
    "unicode_lib \<Rightarrow> index_meta list \<Rightarrow> kv \<Rightarrow> (bytes \<Rightarrow> (bytes \<times> val) list option) \<Rightarrow> bool" where
  "index_holds ul metas s rows \<longleftrightarrow> (\<forall>meta \<in> set metas. index_entries s meta = keys_of_rows ul meta rows)"

lemma entry_in_prefix: "prefix (indexDataPrefix meta) (entryKey meta v i)"
  by (simp add: entryKey_def)

lemma append_last_sep:
  assumes "u @ a # r = v @ a # t" "a \<notin> set r" "a \<notin> set t"
  shows "u = v \<and> r = t"
proof -
  have "rev r @ a # rev u = rev t @ a # rev v"
    using arg_cong [OF assms(1), of rev] by simp
  then show ?thesis using append_sep_inject [of a "rev r" "rev t"] assms(2,3) by simp
qed

lemma entryKey_inject:
  "NUL \<notin> set i \<Longrightarrow> NUL \<notin> set j \<Longrightarrow> entryKey meta v i = entryKey meta w j \<longleftrightarrow> v = w \<and> i = j"
  using append_last_sep [of v NUL i w j] by (auto simp: entryKey_def)

lemma data_prefix_disjoint:
  assumes "NUL \<notin> set (im_Name a)" "NUL \<notin> set (im_Name b)" "im_Name a \<noteq> im_Name b"
  shows "\<not> prefix (indexDataPrefix a) (indexDataPrefix b @ r)"
proof -
  have "\<not> prefix (im_Name a @ [NUL]) (im_Name b @ NUL # r)"
    using prefix_sep_iff [OF assms(1,2)] assms(3) by simp
  then show ?thesis by (simp add: indexDataPrefix_def Let_def)
qed

lemma keys_shape: "k \<in> set (keysForValue ul meta v i) \<Longrightarrow> \<exists>w. k = entryKey meta w i"
  by (auto simp: keysForValue_def split: if_splits val.splits)

lemma row_keys_shape: "k \<in> set (row_keys ul meta row i) \<Longrightarrow> \<exists>w. k = entryKey meta w i"
  by (auto simp: row_keys_def dest: keys_shape split: option.splits)

lemma row_keys_other_id:
  "NUL \<notin> set i \<Longrightarrow> NUL \<notin> set j \<Longrightarrow> i \<noteq> j \<Longrightarrow> k \<in> set (row_keys ul meta row i) \<Longrightarrow>
     k \<notin> set (row_keys ul meta row' j)"
  by (metis entryKey_inject row_keys_shape)

lemma row_keys_other_index:
  assumes "metas_ok metas" "a \<in> set metas" "b \<in> set metas" "k \<in> set (row_keys ul b row i)"
    and "prefix (indexDataPrefix a) k"
  shows "a = b"
proof (rule ccontr)
  assume "a \<noteq> b"
  then have "im_Name a \<noteq> im_Name b" using assms(1-3) by (auto simp: metas_ok_def distinct_map inj_on_eq_iff)
  moreover obtain w where "k = indexDataPrefix b @ (w @ NUL # i)"
    using row_keys_shape [OF assms(4)] by (auto simp: entryKey_def)
  ultimately show False
    using data_prefix_disjoint [of a b] assms(1-3,5) by (auto simp: metas_ok_def)
qed

section \<open>Batches of index operations\<close>

lemma batch_del_put:
  "engine_get (engine_batch_write s (map del_op ds @ map put_op ps)) k =
     (if k \<in> set ps then Some [CHR 0x01] else if k \<in> set ds then None else engine_get s k)"
proof -
  have put: "engine_get (engine_batch_write s (map put_op ps)) k = (if k \<in> set ps then Some [CHR 0x01] else engine_get s k)"
    for s by (induction ps rule: rev_induct) (auto simp: batch_write_append engine_batch_write_def [of _ "[_]"] kv_simps
        put_op_def write_op_result_def, simp add: engine_batch_write_def)
  have del: "engine_get (engine_batch_write s (map del_op ds)) k = (if k \<in> set ds then None else engine_get s k)"
    by (induction ds rule: rev_induct) (auto simp: batch_write_append engine_batch_write_def [of _ "[_]"] kv_simps
        del_op_def write_op_result_def, simp add: engine_batch_write_def)
  show ?thesis by (simp add: batch_write_append put del)
qed

lemma insert_ops_keys:
  "insert_ops ul s metas row i ops = Inr ops' \<Longrightarrow>
     ops' = ops @ map put_op (concat (map (\<lambda>meta. row_keys ul meta row i) metas))"
  by (induction ul s metas row i ops rule: insert_ops.induct)
    (auto simp: row_keys_def split: option.splits)

lemma DeleteRowOps_keys:
  "DeleteRowOps ul m table row i =
     map del_op (concat (map (\<lambda>meta. row_keys ul meta row i) (ListByTable m table)))"
  by (simp add: DeleteRowOps_def map_concat comp_def)

text \<open>
  Deleting the keys of the old row (none for a new one) and putting those of the new row (none for a
  deleted one), for all indexes in one batch.
\<close>

definition opt_keys :: "unicode_lib \<Rightarrow> index_meta list \<Rightarrow> (bytes \<times> val) list option \<Rightarrow> bytes \<Rightarrow> bytes list" where
  "opt_keys ul metas r i =
     (case r of None \<Rightarrow> [] | Some row \<Rightarrow> concat (map (\<lambda>meta. row_keys ul meta row i) metas))"

lemma opt_keys_in_prefix:
  assumes "metas_ok metas" "meta \<in> set metas"
  shows "k \<in> set (opt_keys ul metas r i) \<and> prefix (indexDataPrefix meta) k \<longleftrightarrow>
     (\<exists>row. r = Some row \<and> k \<in> set (row_keys ul meta row i))"
proof (cases r)
  case (Some row)
  show ?thesis
  proof
    assume "k \<in> set (opt_keys ul metas r i) \<and> prefix (indexDataPrefix meta) k"
    then obtain b where "b \<in> set metas" "k \<in> set (row_keys ul b row i)" "prefix (indexDataPrefix meta) k"
      using Some by (auto simp: opt_keys_def)
    with row_keys_other_index [OF assms this(1,2,3)] Some show "\<exists>row. r = Some row \<and> k \<in> set (row_keys ul meta row i)"
      by auto
  next
    assume "\<exists>row. r = Some row \<and> k \<in> set (row_keys ul meta row i)"
    then show "k \<in> set (opt_keys ul metas r i) \<and> prefix (indexDataPrefix meta) k"
      using Some assms(2) row_keys_shape [of k ul meta row i] entry_in_prefix by (auto simp: opt_keys_def)
  qed
qed (simp add: opt_keys_def)

lemma index_holds_batch:
  assumes ok: "metas_ok metas" and rows: "rows_ok rows" and i: "NUL \<notin> set i"
    and holds: "index_holds ul metas s rows"
  shows "index_holds ul metas
           (engine_batch_write s (map del_op (opt_keys ul metas (rows i) i) @ map put_op (opt_keys ul metas r i)))
           (rows(i := r))"
  unfolding index_holds_def
proof
  fix meta assume meta: "meta \<in> set metas"
  let ?s' = "engine_batch_write s (map del_op (opt_keys ul metas (rows i) i) @ map put_op (opt_keys ul metas r i))"
  have old: "index_entries s meta = keys_of_rows ul meta rows" using holds meta by (simp add: index_holds_def)
  have other: "\<not> (rows i = Some row \<and> k \<in> set (row_keys ul meta row i))"
    if "rows j = Some row'" "k \<in> set (row_keys ul meta row' j)" "j \<noteq> i" for j row' row k
    using that row_keys_other_id [of j i k ul meta row' row] rows i by (auto simp: rows_ok_def)
  show "index_entries ?s' meta = keys_of_rows ul meta (rows(i := r))"
  proof (rule set_eqI)
    fix k
    have "k \<in> index_entries ?s' meta \<longleftrightarrow>
        (\<exists>row. r = Some row \<and> k \<in> set (row_keys ul meta row i)) \<or>
        (k \<in> index_entries s meta \<and> \<not> (\<exists>row. rows i = Some row \<and> k \<in> set (row_keys ul meta row i)))"
      using opt_keys_in_prefix [OF ok meta, of k ul r i] opt_keys_in_prefix [OF ok meta, of k ul "rows i" i]
      by (auto simp: index_entries_def batch_del_put)
    also have "\<dots> \<longleftrightarrow> k \<in> keys_of_rows ul meta (rows(i := r))"
      unfolding old keys_of_rows_def using other by (auto split: if_splits) metis+
    finally show "k \<in> index_entries ?s' meta \<longleftrightarrow> k \<in> keys_of_rows ul meta (rows(i := r))" .
  qed
qed

section \<open>The order of numbers\<close>

text \<open>The absolute value as a function of the lower 63 bits.\<close>

definition mag_of :: "nat \<Rightarrow> nat" where
  "mag_of m = (if m div 2 ^ 52 = 0 then m mod 2 ^ 52 else (2 ^ 52 + m mod 2 ^ 52) * 2 ^ (m div 2 ^ 52 - 1))"

lemma scaled_bounds:
  assumes "r < 2 ^ b"
  shows "2 ^ (b + e) \<le> (2 ^ b + r) * (2 :: nat) ^ e" "(2 ^ b + r) * 2 ^ e < 2 ^ (b + Suc e)"
proof -
  show "2 ^ (b + e) \<le> (2 ^ b + r) * (2 :: nat) ^ e" by (simp add: power_add)
  have "(2 ^ b + r) * 2 ^ e < (2 ^ b + 2 ^ b) * 2 ^ e" using assms by (intro mult_strict_right_mono) simp_all
  also have "\<dots> = 2 ^ (b + Suc e)" by (simp add: power_add)
  finally show "(2 ^ b + r) * 2 ^ e < 2 ^ (b + Suc e)" .
qed

lemma mag_of_bounds:
  "m div 2 ^ 52 = Suc e \<Longrightarrow> 2 ^ (52 + e) \<le> mag_of m"
  "m div 2 ^ 52 = e \<Longrightarrow> mag_of m < 2 ^ (52 + e)"
proof -
  have mod: "m mod 2 ^ 52 < 2 ^ 52" by (rule mod_less_divisor) simp
  show "2 ^ (52 + e) \<le> mag_of m" if "m div 2 ^ 52 = Suc e"
    using scaled_bounds(1) [OF mod, of e] that unfolding mag_of_def by (simp only: nat.simps if_False diff_Suc_1)
  show "mag_of m < 2 ^ (52 + e)" if "m div 2 ^ 52 = e"
  proof (cases e)
    case 0
    then have "mag_of m = m mod 2 ^ 52" using that unfolding mag_of_def by (simp only: simp_thms if_True)
    with mod 0 show ?thesis by (simp only: add_0_right)
  next
    case (Suc n)
    then show ?thesis using scaled_bounds(2) [OF mod, of n] that unfolding mag_of_def
      by (simp only: nat.simps if_False diff_Suc_1)
  qed
qed

lemma mag_of_strict: "m < m' \<Longrightarrow> mag_of m < mag_of m'"
proof -
  assume less: "m < m'"
  show ?thesis
  proof (cases "m div 2 ^ 52 = m' div 2 ^ 52")
    case True
    then have "m mod 2 ^ 52 < m' mod 2 ^ 52"
      using less by (metis div_mult_mod_eq nat_add_left_cancel_less)
    with less True show ?thesis unfolding mag_of_def by (simp only: if_cancel if_split) simp
  next
    case False
    then have lt: "m div 2 ^ 52 < m' div 2 ^ 52" using less div_le_mono [of m m' "2 ^ 52"] by linarith
    then obtain e where e: "m' div 2 ^ 52 = Suc e" using less_imp_Suc_add by blast
    have "mag_of m < 2 ^ (52 + m div 2 ^ 52)" by (rule mag_of_bounds) (rule refl)
    also have "\<dots> \<le> 2 ^ (52 + e)" using lt unfolding e by (intro power_increasing) simp_all
    also have "\<dots> \<le> mag_of m'" by (rule mag_of_bounds(1) [OF e])
    finally show ?thesis .
  qed
qed

lemma mag_of_less_iff: "mag_of m < mag_of m' \<longleftrightarrow> m < m'"
  using mag_of_strict by (metis linorder_less_linear order_less_asym)

lemma f_mag_mag_of: "f_mag w = mag_of (unat w mod 2 ^ 63)"
proof -
  have "unat w mod 2 ^ 63 div 2 ^ 52 = unat w div 2 ^ 52 mod 2048"
    using div_exp_mod_exp_eq [of "unat w" 52 11] by simp
  moreover have "unat w mod 2 ^ 63 mod 2 ^ 52 = unat w mod 2 ^ 52"
    by (simp add: mod_mod_cancel)
  ultimately show ?thesis by (simp add: f_mag_def f_exp_def f_man_def mag_of_def)
qed

lemma f_mag_pos: "f_mag w = 0 \<longleftrightarrow> unat w mod 2 ^ 63 = 0"
proof -
  have "mag_of 0 = 0" by (simp add: mag_of_def)
  then show ?thesis using mag_of_strict [of 0 "unat w mod 2 ^ 63"] unfolding f_mag_mag_of
    by (metis gr0I less_irrefl)
qed

lemma unat_flip_top: "\<not> f_neg w \<Longrightarrow> unat (w XOR 0x8000000000000000) = unat w + 2 ^ 63"
proof -
  assume pos: "\<not> f_neg w"
  have "unat (w div 2 ^ 63) = 0" using pos by (simp add: f_neg_def unat_div_distrib)
  then have "w div 2 ^ 63 = 0" by (simp only: unat_eq_zero)
  then have "\<not> bit w 63" by (simp add: bit_iff_odd)
  then have "w XOR 0x8000000000000000 = w + 2 ^ 63"
    using flip_bit_eq_xor [of 63 w] by (simp add: flip_bit_eq_if set_bit_eq)
  moreover have "unat (w + 2 ^ 63) = unat w + 2 ^ 63"
    using pos by (subst unat_add_lem [THEN iffD1]) (simp_all add: f_neg_def)
  ultimately show ?thesis by simp
qed

lemma unat_not: "unat (NOT (w :: u64)) = 2 ^ 64 - 1 - unat w"
proof -
  have "NOT w = - 1 - w" by (simp add: not_eq_complement)
  then have "unat (NOT w) = unat (- 1 :: u64) - unat w" by (simp only: unat_sub word_n1_ge)
  moreover have "unat (- 1 :: u64) = 2 ^ 64 - 1" by (simp add: unsigned_minus_1_eq_mask mask_eq_exp_minus_1)
  ultimately show ?thesis by simp
qed

text \<open>The numbers whose byte form is in their order: no NaN and not the negative zero.\<close>

definition orderly :: "f64 \<Rightarrow> bool" where
  "orderly w \<longleftrightarrow> \<not> f_is_nan w \<and> w \<noteq> 0x8000000000000000"

lemma unat_mod_top: "unat (w :: f64) mod 2 ^ 63 = (if f_neg w then unat w - 2 ^ 63 else unat w)"
proof (cases "f_neg w")
  case True
  then have "unat w mod 2 ^ 63 = (unat w - 2 ^ 63) mod 2 ^ 63" by (simp add: f_neg_def le_mod_geq)
  also have "\<dots> = unat w - 2 ^ 63" using unat_bound [of w] by (intro mod_less) simp
  finally show ?thesis using True by simp
qed (simp add: f_neg_def)

lemma orderly_mag_pos: "orderly w \<Longrightarrow> f_neg w \<Longrightarrow> 0 < f_mag w"
proof (rule ccontr)
  assume w: "orderly w" "f_neg w" "\<not> 0 < f_mag w"
  then have "unat w mod 2 ^ 63 = 0" using f_mag_pos [of w] by simp
  then have "unat w = unat (0x8000000000000000 :: f64)" using w(2) unat_mod_top [of w] by (simp add: f_neg_def)
  then have "w = 0x8000000000000000" by (rule word_unat_eq_iff [THEN iffD2])
  then show False using w(1) by (simp add: orderly_def)
qed

lemma order_bits_pos:
  assumes "orderly w"
  shows "unat (order_bits w) =
    (if f_neg w then 2 ^ 63 - 1 - unat w mod 2 ^ 63 else 2 ^ 63 + unat w mod 2 ^ 63)"
proof (cases "f_neg w")
  case True
  then have "order_bits w = NOT w"
    using orderly_mag_pos [OF assms True] by (simp add: order_bits_def f_val_def)
  moreover have "unat w < 2 ^ 64" using unat_bound [of w] by simp
  ultimately show ?thesis using True unat_mod_top [of w] by (simp add: unat_not f_neg_def)
next
  case False
  then have "order_bits w = w XOR 0x8000000000000000"
    using assms by (simp add: order_bits_def f_val_def orderly_def)
  with False show ?thesis using unat_mod_top [of w] by (simp add: unat_flip_top)
qed

lemma order_bits_less_iff:
  assumes "orderly a" "orderly b"
  shows "unat (order_bits a) < unat (order_bits b) \<longleftrightarrow> f_less a b"
proof -
  let ?m = "\<lambda>w :: f64. unat w mod 2 ^ 63"
  have bound: "?m w < 2 ^ 63" for w by (rule mod_less_divisor) simp
  have mag: "int (f_mag v) < int (f_mag w) \<longleftrightarrow> ?m v < ?m w" for v w
    by (simp only: f_mag_mag_of mag_of_less_iff of_nat_less_iff)
  have pos: "f_neg w \<Longrightarrow> 0 < int (f_mag w)" if "orderly w" for w using orderly_mag_pos [OF that] by simp
  have "unat (order_bits a) < unat (order_bits b) \<longleftrightarrow> f_val a < f_val b"
    unfolding order_bits_pos [OF assms(1)] order_bits_pos [OF assms(2)] f_val_def
    using mag [of a b] mag [of b a] bound [of a] bound [of b] pos [OF assms(1)] pos [OF assms(2)]
    by (cases "f_neg a"; cases "f_neg b") (simp_all only: if_True if_False, linarith+)
  then show ?thesis using assms by (simp add: f_less_def orderly_def)
qed

text \<open>Escaping zero bytes keeps the order of strings of the same length.\<close>

lemma escape_simps [simp]: "escape [] = []" "escape (c # s) = escape_byte c @ escape s"
  by (simp_all add: escape_def)

lemma escape_less_iff: "length s = length t \<Longrightarrow> escape s < escape t \<longleftrightarrow> s < t"
proof (induction s t rule: list_induct2)
  case (Cons c s d t)
  then show ?case using NUL_le_char [of c] NUL_le_char [of d] by (auto simp: escape_byte_def)
qed simp

text \<open>
  C28: the byte forms of two numbers are in the order of the numbers, so a range scan over an index finds
  the numbers of a range, for every pair but NaN and the negative zero.
\<close>

theorem number_encoding_ordered:
  assumes "\<not> f_is_nan a" "\<not> f_is_nan b" "a \<noteq> 0x8000000000000000" "b \<noteq> 0x8000000000000000"
  shows "EncodeValue (VFloat a) < EncodeValue (VFloat b) \<longleftrightarrow> f_less a b"
proof -
  have "unat w < 256 ^ 8" for w :: u64 using unat_bound [of w] by simp
  then show ?thesis
    using order_bits_less_iff [of a b] assms
    by (simp add: EncodeValue_def encodeNumber_def escape_less_iff be_bytes_less_iff orderly_def)
qed

section \<open>Inserts, updates and deletes\<close>

lemma write_ops_batch: "write_ops s ops = engine_batch_write s ops"
  by (simp add: write_ops_def engine_batch_write_def)

lemma InsertRowOps_keys:
  "InsertRowOps ul m s table row i = Inr ops \<Longrightarrow> ops = map put_op (opt_keys ul (ListByTable m table) (Some row) i)"
  by (auto simp: InsertRowOps_def opt_keys_def dest: insert_ops_keys)

lemma DeleteRowOps_opt_keys:
  "DeleteRowOps ul m table row i = map del_op (opt_keys ul (ListByTable m table) (Some row) i)"
  by (simp add: DeleteRowOps_keys opt_keys_def)

lemma opt_keys_None [simp]: "opt_keys ul metas None i = []"
  by (simp add: opt_keys_def)

lemma InsertRow_holds:
  assumes "metas_ok (ListByTable m table)" "rows_ok rows" "NUL \<notin> set i"
    "index_holds ul (ListByTable m table) s rows" "rows i = None" "InsertRow ul m table row i s = (None, s1)"
  shows "index_holds ul (ListByTable m table) s1 (rows(i \<mapsto> row))"
  using assms(5,6) index_holds_batch [OF assms(1-4), of "Some row"]
  by (auto simp: InsertRow_def write_ops_batch dest!: InsertRowOps_keys split: sum.splits)

text \<open>
  C27: the entries of the indexes of a table are exactly those of its rows, and stay so: a successful
  insert, update or delete of a row carries them to the new rows, and a rejected one leaves the store alone.
\<close>

theorem index_update_maintains:
  assumes ok: "metas_ok (ListByTable m table)" and rows: "rows_ok rows" and i: "NUL \<notin> set i"
    and holds: "index_holds ul (ListByTable m table) s rows"
  shows "(rows i = None \<longrightarrow> InsertRow ul m table row i s = (None, s1) \<longrightarrow>
            index_holds ul (ListByTable m table) s1 (rows(i \<mapsto> row))) \<and>
         (rows i = Some old \<longrightarrow> UpdateRow ul m table old row i s = (None, s2) \<longrightarrow>
            index_holds ul (ListByTable m table) s2 (rows(i \<mapsto> row))) \<and>
         (rows i = Some old \<longrightarrow>
            index_holds ul (ListByTable m table) (DeleteRow ul m table old i s) (rows(i := None))) \<and>
         (InsertRow ul m table row i s = (Some e, s3) \<longrightarrow> s3 = s) \<and>
         (UpdateRow ul m table old row i s = (Some e, s4) \<longrightarrow> s4 = s)"
proof -
  note batch = index_holds_batch [OF ok rows i holds]
  have "index_holds ul (ListByTable m table) s1 (rows(i \<mapsto> row))"
    if "rows i = None" "InsertRow ul m table row i s = (None, s1)"
    using that by (rule InsertRow_holds [OF ok rows i holds])
  moreover have "index_holds ul (ListByTable m table) s2 (rows(i \<mapsto> row))"
    if "rows i = Some old" "UpdateRow ul m table old row i s = (None, s2)"
    using that batch [of "Some row"]
    by (auto simp: UpdateRow_def UpdateRowOps_def write_ops_batch DeleteRowOps_opt_keys dest!: InsertRowOps_keys
        split: sum.splits)
  moreover have "index_holds ul (ListByTable m table) (DeleteRow ul m table old i s) (rows(i := None))"
    if "rows i = Some old"
    using that batch [of None] by (simp add: DeleteRow_def write_ops_batch DeleteRowOps_opt_keys)
  moreover have "InsertRow ul m table row i s = (Some e, s3) \<longrightarrow> s3 = s"
    by (auto simp: InsertRow_def split: sum.splits)
  moreover have "UpdateRow ul m table old row i s = (Some e, s4) \<longrightarrow> s4 = s"
    by (auto simp: UpdateRow_def split: sum.splits)
  ultimately show ?thesis by blast
qed

section \<open>Lookups\<close>

lemma prefix_entry_range: "in_prefix_range (entryKeyPrefix meta v) k \<longleftrightarrow> prefix (entryKeyPrefix meta v) k"
  by (rule in_prefix_range_exact) (simp add: entryKeyPrefix_def)

lemma set_scanRowIDs:
  assumes "kv_ok s"
  shows "set (scanRowIDs s (entryKeyPrefix meta v) 0) =
    {r. r \<noteq> [] \<and> entryKeyPrefix meta v @ r \<in> index_entries s meta}"
proof -
  let ?p = "entryKeyPrefix meta v"
  have dp: "prefix (indexDataPrefix meta) (?p @ r)" for r by (simp add: entryKeyPrefix_def)
  have "set (scanRowIDs s ?p 0) = {r. r \<noteq> [] \<and> (\<exists>k w. (k, w) \<in> set (prefix_items s ?p 0) \<and> r = trimPrefixRowID k ?p)}"
    using assms by (force simp: scanRowIDs_def prefix_scan_collects)
  also have "\<dots> = {r. r \<noteq> [] \<and> engine_get s (?p @ r) \<noteq> None}"
    by (auto simp: set_prefix_items_0 [OF assms] prefix_entry_range trimPrefixRowID_def prefix_def)
  finally show ?thesis using dp by (auto simp: index_entries_def)
qed

text \<open>
  A probe \<open>v\<close> is clear of a stored form \<open>w\<close> when \<open>v\<close> and a zero byte are not the front of \<open>w\<close> and more.
\<close>

definition clear_of :: "bytes \<Rightarrow> bytes \<Rightarrow> bool" where
  "clear_of v w \<longleftrightarrow> (\<forall>r r'. v @ NUL # r = w @ NUL # r' \<longrightarrow> v = w)"

lemma clear_of_zero_free: "NUL \<notin> set v \<Longrightarrow> NUL \<notin> set w \<Longrightarrow> clear_of v w"
  by (simp add: clear_of_def append_sep_inject)

lemma lookup_prefix:
  assumes "clear_of v w"
  shows "entryKeyPrefix meta v @ r = entryKey meta w i \<longleftrightarrow> v = w \<and> r = i"
  using assms by (auto simp: entryKeyPrefix_def entryKey_def clear_of_def)

definition plain_value :: "val \<Rightarrow> bool" where
  "plain_value v \<longleftrightarrow> (case v of VStr s \<Rightarrow> NUL \<notin> set s | _ \<Rightarrow> True)"

lemma escape_zero_free: "NUL \<notin> set s \<Longrightarrow> escape s = s"
  by (induction s) (auto simp: escape_byte_def)

lemma clear_of_escape: "length s = length t \<Longrightarrow> clear_of (escape s) (escape t)"
  unfolding clear_of_def
  by (induction s t rule: list_induct2) (auto simp: escape_byte_def split: if_splits)

lemma clear_of_Cons: "clear_of v w \<Longrightarrow> clear_of (c # v) (d # w)"
  by (auto simp: clear_of_def)

lemma encodeString_form: "NUL \<notin> set s \<Longrightarrow> encodeString s = tagString # map lower_byte s"
  using escape_zero_free [of "map lower_byte s"] zero_in_to_lower [of s] by (simp add: encodeString_def to_lower_def)

lemma EncodeValue_forms:
  assumes "plain_value v"
  obtains c where "EncodeValue v = [c]" "c \<in> {tagNull, tagFalse, tagTrue}"
  | b where "EncodeValue v = tagNumber # escape b" "length b = 8"
  | b where "EncodeValue v = tagString # b" "NUL \<notin> set b"
proof (cases v)
  case (VBool b)
  then show ?thesis using that(1) by (cases b) (simp_all add: EncodeValue_def)
next
  case (VStr s)
  then show ?thesis using that(3) assms zero_in_to_lower [of s]
    by (auto simp: EncodeValue_def encodeString_form plain_value_def to_lower_def)
qed (use that in \<open>auto simp: EncodeValue_def encodeNumber_def encodeString_form\<close>)

lemma clear_of_values: "plain_value v \<Longrightarrow> plain_value w \<Longrightarrow> clear_of (EncodeValue v) (EncodeValue w)"
proof (erule EncodeValue_forms [of v]; erule EncodeValue_forms [of w])
  fix b b' assume "EncodeValue v = tagNumber # escape b" "length b = 8" "EncodeValue w = tagNumber # escape b'" "length b' = 8"
  then show "clear_of (EncodeValue v) (EncodeValue w)" by (simp add: clear_of_Cons clear_of_escape)
next
  fix b b' assume "EncodeValue v = tagString # b" "NUL \<notin> set b" "EncodeValue w = tagString # b'" "NUL \<notin> set b'"
  then show "clear_of (EncodeValue v) (EncodeValue w)" by (simp add: clear_of_Cons clear_of_zero_free)
qed (auto simp: clear_of_def tagNull_def tagFalse_def tagTrue_def tagNumber_def tagString_def)

lemma lookup_equal_rows:
  assumes "kv_ok s" "meta \<in> set metas" "index_holds ul metas s rows" "rows_ok rows"
    and "im_Type meta = TypeHash \<or> im_Type meta = TypeBTree" "plain_value v"
    and plain: "\<forall>i row w. rows i = Some row \<longrightarrow> map_of row (im_Column meta) = Some w \<longrightarrow> plain_value w"
  shows "i \<in> set (LookupEqual s meta v) \<longleftrightarrow>
    (\<exists>row w. rows i = Some row \<and> map_of row (im_Column meta) = Some w \<and> EncodeValue w = EncodeValue v)"
proof -
  have types: "TypeHash \<noteq> TypeInverted" "TypeBTree \<noteq> TypeInverted"
    by (simp_all add: TypeHash_def TypeBTree_def TypeInverted_def)
  have keys: "set (row_keys ul meta row j) =
      {k. \<exists>w. map_of row (im_Column meta) = Some w \<and> k = entryKey meta (EncodeValue w) j}" for row j
    using assms(5) types by (cases "map_of row (im_Column meta)") (auto simp: row_keys_def keysForValue_def)
  have "i \<in> set (LookupEqual s meta v) \<longleftrightarrow>
      i \<noteq> [] \<and> entryKeyPrefix meta (EncodeValue v) @ i \<in> keys_of_rows ul meta rows"
    using assms(1-3) by (simp add: LookupEqual_def set_scanRowIDs index_holds_def)
  also have "\<dots> \<longleftrightarrow> i \<noteq> [] \<and> (\<exists>j row w. rows j = Some row \<and> map_of row (im_Column meta) = Some w \<and>
      entryKeyPrefix meta (EncodeValue v) @ i = entryKey meta (EncodeValue w) j)"
    by (auto simp: keys_of_rows_def keys)
  also have "\<dots> \<longleftrightarrow> i \<noteq> [] \<and> (\<exists>row w. rows i = Some row \<and> map_of row (im_Column meta) = Some w \<and>
      EncodeValue w = EncodeValue v)"
    using plain assms(6) by (metis (no_types, lifting) lookup_prefix clear_of_values)
  also have "\<dots> \<longleftrightarrow> (\<exists>row w. rows i = Some row \<and> map_of row (im_Column meta) = Some w \<and> EncodeValue w = EncodeValue v)"
    using assms(4) by (auto simp: rows_ok_def)
  finally show ?thesis .
qed

text \<open>
  On an index whose entries are those of the rows an equality lookup returns exactly the rows whose
  column has the same byte form as the probe, as long as no string holds a zero byte.
\<close>

lemma lookup_equal_exact:
  assumes "kv_ok s" "meta \<in> set metas" "index_holds ul metas s rows" "rows_ok rows"
    and "im_Type meta = TypeHash \<or> im_Type meta = TypeBTree" "plain_value v"
    and plain: "\<forall>i row w. rows i = Some row \<longrightarrow> map_of row (im_Column meta) = Some w \<longrightarrow> plain_value w"
  shows "i \<in> set (LookupEqual s meta v) \<longleftrightarrow>
    (\<exists>row w. rows i = Some row \<and> map_of row (im_Column meta) = Some w \<and> EncodeValue w = EncodeValue v)"
  by (rule lookup_equal_rows [OF assms])

text \<open>The rows whose text column holds a term.\<close>

definition lookup_form :: "unicode_lib \<Rightarrow> bytes \<Rightarrow> bytes" where
  "lookup_form ul t = str_to_lower ul (TrimSpace t)"

lemma set_LookupTerm:
  assumes "kv_ok s" "meta \<in> set metas" "index_holds ul metas s rows" "rows_ok rows"
    and "im_Type meta = TypeInverted" "lookup_form ul t \<noteq> []" "NUL \<notin> set (lookup_form ul t)"
  shows "i \<in> set (LookupTerm ul s meta t) \<longleftrightarrow>
    (\<exists>row d. rows i = Some row \<and> map_of row (im_Column meta) = Some (VStr d) \<and> lookup_form ul t \<in> set (index_Tokenize ul d))"
proof -
  let ?w = "lookup_form ul t"
  have keys: "set (row_keys ul meta row j) =
      {k. \<exists>d u. map_of row (im_Column meta) = Some (VStr d) \<and> u \<in> set (index_Tokenize ul d) \<and> k = entryKey meta u j}"
    for row j
    using assms(5)
    by (cases "map_of row (im_Column meta)"; cases "the (map_of row (im_Column meta))")
      (auto simp: row_keys_def keysForValue_def)
  have clear: "u \<in> set (index_Tokenize ul d) \<Longrightarrow> clear_of ?w u" for u d
    using assms(7) by (intro clear_of_zero_free) (auto dest: index_Tokenize_zero_free)
  have "i \<in> set (LookupTerm ul s meta t) \<longleftrightarrow> i \<noteq> [] \<and> entryKeyPrefix meta ?w @ i \<in> keys_of_rows ul meta rows"
    using assms(1-3,6) by (simp add: LookupTerm_def lookup_form_def Let_def set_scanRowIDs index_holds_def)
  also have "\<dots> \<longleftrightarrow> i \<noteq> [] \<and> (\<exists>j row d u. rows j = Some row \<and> map_of row (im_Column meta) = Some (VStr d) \<and>
      u \<in> set (index_Tokenize ul d) \<and> entryKeyPrefix meta ?w @ i = entryKey meta u j)"
    by (auto simp: keys_of_rows_def keys)
  also have "\<dots> \<longleftrightarrow> i \<noteq> [] \<and> (\<exists>row d. rows i = Some row \<and> map_of row (im_Column meta) = Some (VStr d) \<and>
      ?w \<in> set (index_Tokenize ul d))"
    using lookup_prefix clear by metis
  also have "\<dots> \<longleftrightarrow> (\<exists>row d. rows i = Some row \<and> map_of row (im_Column meta) = Some (VStr d) \<and>
      ?w \<in> set (index_Tokenize ul d))"
    using assms(4) by (auto simp: rows_ok_def)
  finally show ?thesis .
qed

text \<open>
  A full-text search returns exactly the rows whose text has all terms of the query in the form in
  which they are looked up. Terms are stored as they are and looked up in lower case, so a term that is
  not its own lower-case form (which only non-ASCII terms can be) finds no row, not even its own.
\<close>

lemma match_exact:
  assumes "kv_ok s" "meta \<in> set metas" "index_holds ul metas s rows" "rows_ok rows"
    and "im_Type meta = TypeInverted" "index_Tokenize ul q \<noteq> []"
    and lower: "\<forall>t \<in> set (index_Tokenize ul q). lookup_form ul t \<noteq> [] \<and> NUL \<notin> set (lookup_form ul t)"
  shows "i \<in> set (im_Match ul s meta q) \<longleftrightarrow>
    (\<exists>row d. rows i = Some row \<and> map_of row (im_Column meta) = Some (VStr d) \<and>
       lookup_form ul ` set (index_Tokenize ul q) \<subseteq> set (index_Tokenize ul d))"
proof -
  have look: "i \<in> set (LookupTerm ul s meta t) \<longleftrightarrow>
      (\<exists>row d. rows i = Some row \<and> map_of row (im_Column meta) = Some (VStr d) \<and> lookup_form ul t \<in> set (index_Tokenize ul d))"
    if "t \<in> set (index_Tokenize ul q)" for t
    using that lower by (intro set_LookupTerm [OF assms(1-5)]) blast+
  have "i \<in> set (im_Match ul s meta q) \<longleftrightarrow> (\<forall>t \<in> set (index_Tokenize ul q). i \<in> set (LookupTerm ul s meta t))"
    using assms(6) by (cases "index_Tokenize ul q") (auto simp: im_Match_def list_all_iff)
  also have "\<dots> \<longleftrightarrow> (\<forall>t \<in> set (index_Tokenize ul q). \<exists>row d. rows i = Some row \<and>
      map_of row (im_Column meta) = Some (VStr d) \<and> lookup_form ul t \<in> set (index_Tokenize ul d))"
    using look by simp
  also have "\<dots> \<longleftrightarrow> (\<exists>row d. rows i = Some row \<and> map_of row (im_Column meta) = Some (VStr d) \<and>
       lookup_form ul ` set (index_Tokenize ul q) \<subseteq> set (index_Tokenize ul d))"
  proof (cases "\<exists>row d. rows i = Some row \<and> map_of row (im_Column meta) = Some (VStr d)")
    case True
    then obtain row d where "rows i = Some row" "map_of row (im_Column meta) = Some (VStr d)" by blast
    then show ?thesis by auto
  next
    case False
    then show ?thesis using assms(6) by (metis list.set_intros(1) neq_Nil_conv)
  qed
  finally show ?thesis .
qed

section \<open>Unique indexes\<close>

lemma insert_ops_fails_iff:
  "(\<exists>e. insert_ops ul s metas row i ops = Inl e) \<longleftrightarrow>
     (\<exists>meta \<in> set metas. \<exists>v. map_of row (im_Column meta) = Some v \<and> validateUnique s meta v i \<noteq> None)"
  by (induction ul s metas row i ops rule: insert_ops.induct) (auto split: option.splits)

text \<open>
  A row is rejected exactly when a unique index of its table has another row whose column has the
  same byte form.
\<close>

lemma insert_rejects_duplicates:
  assumes "kv_ok s" "index_holds ul (ListByTable m table) s rows" "rows_ok rows"
    and types: "\<forall>meta \<in> set (ListByTable m table). im_Unique meta \<longrightarrow> im_Type meta = TypeHash \<or> im_Type meta = TypeBTree"
    and "\<forall>c v. map_of row c = Some v \<longrightarrow> plain_value v"
    and "\<forall>j row' c w. rows j = Some row' \<longrightarrow> map_of row' c = Some w \<longrightarrow> plain_value w"
  shows "(\<exists>e. InsertRowOps ul m s table row i = Inl e) \<longleftrightarrow>
    (\<exists>meta \<in> set (ListByTable m table). im_Unique meta \<and>
       (\<exists>v j row' w. map_of row (im_Column meta) = Some v \<and> j \<noteq> i \<and> rows j = Some row' \<and>
          map_of row' (im_Column meta) = Some w \<and> EncodeValue w = EncodeValue v))"
proof -
  have distinct: "TypeHash \<noteq> TypeInverted" "TypeBTree \<noteq> TypeInverted"
    by (simp_all add: TypeHash_def TypeBTree_def TypeInverted_def)
  have "validateUnique s meta v i \<noteq> None \<longleftrightarrow> im_Unique meta \<and>
      (\<exists>j row' w. j \<noteq> i \<and> rows j = Some row' \<and> map_of row' (im_Column meta) = Some w \<and> EncodeValue w = EncodeValue v)"
    if meta: "meta \<in> set (ListByTable m table)" and v: "map_of row (im_Column meta) = Some v" for meta v
  proof (cases "im_Unique meta")
    case True
    with types meta have type: "im_Type meta = TypeHash \<or> im_Type meta = TypeBTree" by blast
    have "j \<in> set (LookupEqual s meta v) \<longleftrightarrow>
        (\<exists>row' w. rows j = Some row' \<and> map_of row' (im_Column meta) = Some w \<and> EncodeValue w = EncodeValue v)" for j
      using assms(5,6) v by (intro lookup_equal_rows [OF assms(1) meta assms(2,3) type]) blast+
    with True type distinct show ?thesis by (auto simp: validateUnique_def list_ex_iff)
  qed (simp add: validateUnique_def)
  then show ?thesis unfolding InsertRowOps_def insert_ops_fails_iff by blast
qed

section \<open>Creating and dropping an index\<close>

lemma rebuild_ops_keys:
  "rebuild_ops ul meta rs seen ops = Inr ops' \<Longrightarrow>
     ops' = ops @ map put_op (concat (map (\<lambda>(row, i). row_keys ul meta row i) rs))"
  by (induction ul meta rs seen ops rule: rebuild_ops.induct) (auto simp: row_keys_def split: option.splits sum.splits)

text \<open>Filling a new index from the rows of the table makes its entries those of the rows.\<close>

lemma rebuild_indexes_rows:
  assumes "RebuildFromRows ul meta rows ids s = (None, s')" "length rows = length ids" "distinct ids"
    and "index_entries s meta = {}"
  shows "index_entries s' meta = keys_of_rows ul meta (map_of (zip ids rows))"
proof -
  let ?ks = "concat (map (\<lambda>(row, i). row_keys ul meta row i) (zip rows ids))"
  have s': "s' = engine_batch_write s (map del_op [] @ map put_op ?ks)"
    using assms(1,2) by (auto simp: RebuildFromRows_def write_ops_batch dest!: rebuild_ops_keys split: sum.splits)
  have rows: "map_of (zip ids rows) i = Some row \<longleftrightarrow> (row, i) \<in> set (zip rows ids)" for i row
    using assms(2,3) by (auto simp: map_of_eq_Some_iff in_set_zip)
  have shape: "prefix (indexDataPrefix meta) k" if k: "k \<in> set ?ks" for k
  proof -
    from k obtain row i where "k \<in> set (row_keys ul meta row i)" by auto
    from row_keys_shape [OF this] show ?thesis using entry_in_prefix by auto
  qed
  have get: "engine_get s' k = (if k \<in> set ?ks then Some [CHR 0x01] else engine_get s k)" for k
    unfolding s' batch_del_put by (simp only: list.set(1) empty_iff if_False)
  have "k \<in> index_entries s' meta \<longleftrightarrow> k \<in> set ?ks" for k
    using shape [of k] assms(4) unfolding index_entries_def mem_Collect_eq get
    by (cases "k \<in> set ?ks") (simp_all only: if_True if_False, blast+)
  then show ?thesis unfolding keys_of_rows_def rows by (auto intro!: set_eqI) blast
qed

text \<open>
  Dropping an index removes its metadata and all of its entries, and nothing else.
\<close>

lemma drop_index_removes_entries:
  assumes "kv_ok s" "map_of m name = Some meta" "im_Drop name ifExists (m, s) = (r, m', s')"
  shows "r = Inr () \<and> m' = AList.delete name m \<and> index_entries s' meta = {} \<and>
    (\<forall>k. k \<noteq> index_meta_key name \<longrightarrow> \<not> prefix (indexDataPrefix meta) k \<longrightarrow> engine_get s' k = engine_get s k)"
proof -
  let ?s1 = "engine_delete s (index_meta_key name)"
  let ?ks = "map fst (iter_collect (engine_prefix_scan ?s1 (indexDataPrefix meta) no_options))"
  have ok: "kv_ok ?s1" using assms(1) by (simp add: kv_simps)
  have range: "in_prefix_range (indexDataPrefix meta) k \<longleftrightarrow> prefix (indexDataPrefix meta) k" for k
    by (rule in_prefix_range_exact) (simp add: indexDataPrefix_def Let_def)
  have ks: "k \<in> set ?ks \<longleftrightarrow> prefix (indexDataPrefix meta) k \<and> engine_get ?s1 k \<noteq> None" for k
  proof -
    have "k \<in> set ?ks \<longleftrightarrow> (\<exists>v. (k, v) \<in> set (prefix_items ?s1 (indexDataPrefix meta) 0))"
      using ok by (force simp: prefix_scan_collects no_options_def)
    then show ?thesis by (auto simp: set_prefix_items_0 [OF ok] range)
  qed
  have s': "s' = engine_batch_write ?s1 (map del_op ?ks @ map put_op [])" "r = Inr ()" "m' = AList.delete name m"
    using assms(2,3) by (auto simp: im_Drop_def Let_def engine_batch_write_def split: if_splits)
  have get: "engine_get s' k = (if k \<in> set ?ks then None else engine_get ?s1 k)" for k
    unfolding s'(1) batch_del_put by simp
  have "index_entries s' meta = {}" unfolding index_entries_def using get ks by (metis (mono_tags, lifting) Collect_empty_eq)
  moreover have "engine_get s' k = engine_get s k" if "k \<noteq> index_meta_key name" "\<not> prefix (indexDataPrefix meta) k" for k
  proof -
    have "k \<notin> set ?ks" using ks [of k] that(2) by blast
    then have "engine_get s' k = engine_get ?s1 k" unfolding get by (simp only: if_False)
    then show ?thesis using that(1) assms(1) by (simp add: kv_simps)
  qed
  ultimately show ?thesis using s'(2,3) by blast
qed

section \<open>Witnesses\<close>

text \<open>Concrete tables of the letters of Latin-1, the letter E with an acute accent, and an index on a column.\<close>

definition latin1 :: unicode_lib where
  "latin1 = \<lparr>is_letter = (\<lambda>r. 0xC0 \<le> r \<and> r \<le> 0xFF), is_digit = (\<lambda>_. False), is_cjk = (\<lambda>_. False),
     is_punct = (\<lambda>_. False), is_symbol = (\<lambda>_. False),
     lower_rune = (\<lambda>r. if 0xC0 \<le> r \<and> r \<le> 0xDE then r + 32 else r)\<rparr>"

definition acute_upper :: bytes where "acute_upper = [CHR 0xC3, CHR 0x89]"
definition acute_lower :: bytes where "acute_lower = [CHR 0xC3, CHR 0xA9]"

definition index_c :: "bytes \<Rightarrow> bool \<Rightarrow> index_meta" where
  "index_c type uniq = \<lparr>im_Name = ''ix'', im_Table = ''t'', im_Column = ''c'', im_Type = type, im_Unique = uniq\<rparr>"

lemma acute_runes: "runes acute_upper = [0xC9]" "runes acute_lower = [0xE9]"
  "encode_rune 0xC9 = acute_upper" "encode_rune 0xE9 = acute_lower"
  by (simp_all add: acute_upper_def acute_lower_def runes.simps decode_rune_def cont_byte_def encode_rune_def char_of_eq_iff)

lemma acute_trim: "TrimSpace acute_upper = acute_upper" "TrimSpace acute_lower = acute_lower"
  by (simp_all add: acute_upper_def acute_lower_def TrimSpace_def trim_left.simps unicode_spaces_def)

lemma acute_terms: "index_Tokenize latin1 acute_upper = [acute_upper]" "index_Tokenize latin1 acute_lower = [acute_lower]"
  by (simp_all add: index_Tokenize_def acute_runes isASCIIWord_def isCJKWord_def latin1_def flushCJK_def
      flushASCII_def tokenizeCJK_def emit_term_def acute_trim isPunctuation_def isAllASCII_def)
    (simp_all add: acute_upper_def acute_lower_def)

lemma acute_form: "lookup_form latin1 acute_upper = acute_lower" "lookup_form latin1 acute_lower = acute_lower"
  by (simp_all add: lookup_form_def acute_trim str_to_lower_def acute_runes lower_of_def latin1_def)

lemma acute_neq: "acute_upper \<noteq> acute_lower" "acute_upper \<noteq> []" "acute_lower \<noteq> []" "NUL \<notin> set acute_lower"
  by (simp_all add: acute_upper_def acute_lower_def)

definition example_indexes :: "bytes \<Rightarrow> bool \<Rightarrow> index_manager" where
  "example_indexes type uniq = [(''ix'', index_c type uniq)]"

definition example_store :: "bytes \<Rightarrow> bool \<Rightarrow> val \<Rightarrow> kv" where
  "example_store type uniq v = snd (InsertRow latin1 (example_indexes type uniq) ''t'' [(''c'', v)] ''r1'' kv_empty)"

abbreviation example_rows :: "val \<Rightarrow> bytes \<Rightarrow> (bytes \<times> val) list option" where
  "example_rows v \<equiv> [''r1'' \<mapsto> [(''c'', v)]]"

lemma example_metas [simp]: "ListByTable (example_indexes type uniq) ''t'' = [index_c type uniq]"
  by (simp add: ListByTable_def example_indexes_def index_c_def)

lemma example_metas_ok [simp]: "metas_ok [index_c type uniq]"
  by (simp add: metas_ok_def index_c_def)

lemma example_rows_ok [simp]: "rows_ok (example_rows v)" "rows_ok Map.empty"
  by (simp_all add: rows_ok_def)

lemma index_entries_empty [simp]: "index_entries kv_empty meta = {}"
  by (simp add: index_entries_def engine_get_empty)

lemma index_holds_empty [simp]: "index_holds ul metas kv_empty Map.empty"
  by (simp add: index_holds_def keys_of_rows_def)

lemma validateUnique_empty: "im_Type meta \<noteq> TypeInverted \<or> \<not> im_Unique meta \<Longrightarrow> validateUnique kv_empty meta v i = None"
  by (simp add: validateUnique_def LookupEqual_def set_scanRowIDs list_ex_iff)

lemma example_insert:
  assumes "type \<noteq> TypeInverted \<or> \<not> uniq"
  shows "InsertRow latin1 (example_indexes type uniq) ''t'' [(''c'', v)] ''r1'' kv_empty = (None, example_store type uniq v)"
  using validateUnique_empty [of "index_c type uniq" v "''r1''"] assms
  by (simp add: example_store_def InsertRow_def InsertRowOps_def) (simp add: index_c_def)

lemma example_store_ok [simp]: "kv_ok (example_store type uniq v)"
  by (simp add: example_store_def InsertRow_def write_ops_batch kv_simps split: sum.split)

lemma example_holds:
  "type \<noteq> TypeInverted \<or> \<not> uniq \<Longrightarrow> index_holds latin1 [index_c type uniq] (example_store type uniq v) (example_rows v)"
  using InsertRow_holds [of "example_indexes type uniq" "''t''" Map.empty "''r1''" latin1 kv_empty] example_insert by simp

lemma example_case: "EncodeValue (VStr ''A'') = EncodeValue (VStr ''a'')"
proof -
  have "lower_byte (CHR ''A'') = CHR ''a''" by (simp add: lower_byte_def char_of_eq_iff)
  then show ?thesis by (simp add: EncodeValue_def encodeString_def lower_byte_def)
qed

lemma types_distinct: "TypeHash \<noteq> TypeInverted" "TypeBTree \<noteq> TypeInverted" "TypeBTree \<noteq> TypeHash"
  by (simp_all add: TypeHash_def TypeBTree_def TypeInverted_def)

theorem index_update_maintains_witness:
  "index_holds latin1 (ListByTable (example_indexes TypeBTree True) ''t'') (example_store TypeBTree True (VStr ''a''))
     (example_rows (VStr ''a''))"
  using index_update_maintains [of "example_indexes TypeBTree True" "''t''" Map.empty "''r1''" latin1 kv_empty
      "[(''c'', VStr ''a'')]" "example_store TypeBTree True (VStr ''a'')"] example_insert types_distinct
  by simp

theorem number_encoding_ordered_witness:
  "EncodeValue (VFloat 0xBFF0000000000000) < EncodeValue (VFloat 0x3FF0000000000000)"
proof -
  have "f_less 0xBFF0000000000000 0x3FF0000000000000" by (simp add: float_eval)
  then show ?thesis
    by (subst number_encoding_ordered) (simp_all add: f_is_nan_def f_exp_def f_man_def)
qed

text \<open>
  A zero byte in a string is stored as the two bytes 0x00 0xFF, of which the first also ends a value: the
  entry of a row with the value \<open>a\<close>, zero byte, \<open>b\<close> begins like those of the value \<open>a\<close>, and a
  unique index rejects \<open>a\<close> in another row.
\<close>

lemma zero_byte_breaks_unique:
  "fst (InsertRow latin1 (example_indexes TypeBTree True) ''t'' [(''c'', VStr ''a'')] ''r2''
     (example_store TypeBTree True (VStr [CHR ''a'', CHR 0x00, CHR ''b'']))) = Some (UniqueViolation ''ix'' ''c'')"
  by code_simp

text \<open>The negative zero is stored below every other number.\<close>

lemma negative_zero_below: "EncodeValue (VFloat 0x8000000000000000) < EncodeValue (VFloat 0xFFF0000000000000)"
proof -
  have "order_bits 0x8000000000000000 = 0" "order_bits 0xFFF0000000000000 = 0x000FFFFFFFFFFFFF"
    by (simp_all add: order_bits_def f_is_nan_def f_val_def f_neg_def f_mag_def f_exp_def f_man_def)
  then show ?thesis by (simp add: EncodeValue_def encodeNumber_def escape_less_iff be_bytes_less_iff)
qed

end
