(* ===== verification/SqlExecProps.thy ===== *)
theory SqlExecProps
  imports SqlWrite SqlIndexProps
begin

text \<open>
  What holds of executed statements.
\<close>

section \<open>The rows of a table\<close>

definition table_rows :: "exec_lib \<Rightarrow> kv \<Rightarrow> u8 \<Rightarrow> bytes \<Rightarrow> row option" where
  "table_rows lib s p i = Option.bind (engine_get s (EncodeKey (byte_of p) i)) (xl_row_dec lib)"

definition indexes_of :: "executor \<Rightarrow> bytes \<Rightarrow> index_meta list" where
  "indexes_of st table = ListByTable (ex_indexes st) table"

text \<open>
  The invariant of a table: its prefix is none of the index keys, its identifiers hold no zero byte,
  and the entries of its indexes are those of its rows.
\<close>

definition table_inv :: "exec_lib \<Rightarrow> executor \<Rightarrow> bytes \<Rightarrow> bool" where
  "table_inv lib st table \<longleftrightarrow>
     (let p = tablePrefix st table; rows = table_rows lib (ex_engine st) p in
      kv_ok (ex_engine st) \<and> p \<noteq> 0 \<and> byte_of p \<noteq> PrefixIndex \<and> metas_ok (indexes_of st table) \<and> rows_ok rows \<and>
      index_holds (xl_unicode lib) (indexes_of st table) (ex_engine st) rows)"

lemma set_table_items:
  "kv_ok s \<Longrightarrow> (k, v) \<in> set (table_items s p) \<longleftrightarrow> (\<exists>i. k = EncodeKey (byte_of p) i) \<and> engine_get s k = Some v"
proof -
  assume ok: "kv_ok s"
  have "table_items s p = prefix_items s [byte_of p] 0"
    using prefix_scan_collects [OF ok, of no_options "[byte_of p]"]
    by (simp add: table_items_def engine_prefix_scan_def no_options_def split: prod.splits)
  then show ?thesis
    using set_prefix_items_0 [OF ok] in_prefix_range_single by (auto simp: EncodeKey_def prefix_def)
qed

lemma set_decoded_items:
  "kv_ok s \<Longrightarrow> set (List.map_filter (\<lambda>(_, v). xl_row_dec lib v) (table_items s p)) = ran (table_rows lib s p)"
  unfolding set_map_filter table_rows_def ran_def bind_eq_Some_conv
  by (auto simp: set_table_items Bex_def)

section \<open>JSON\<close>

text \<open>\<open>encoding/json\<close> reads every number as a \<open>float64\<close>; text is kept when it is UTF-8.\<close>

fun jsonify :: "val \<Rightarrow> val" where
  "jsonify (VInt n) = VFloat (f_of_int n)"
| "jsonify (VList vs) = VList (map jsonify vs)"
| "jsonify (VObj o') = VObj (map (\<lambda>(k, v). (k, jsonify v)) o')"
| "jsonify v = v"

definition json_row :: "row \<Rightarrow> row" where
  "json_row row = map (\<lambda>(k, v). (k, jsonify v)) row"

definition valid_utf8 :: "bytes \<Rightarrow> bool" where
  "valid_utf8 s \<longleftrightarrow> concat (map encode_rune (runes s)) = s"

fun utf8_val :: "val \<Rightarrow> bool" where
  "utf8_val (VStr s) \<longleftrightarrow> valid_utf8 s"
| "utf8_val (VList vs) \<longleftrightarrow> list_all utf8_val vs"
| "utf8_val (VObj o') \<longleftrightarrow> list_all (\<lambda>(k, v). valid_utf8 k \<and> utf8_val v) o'"
| "utf8_val v \<longleftrightarrow> True"

definition utf8_row :: "row \<Rightarrow> bool" where
  "utf8_row row \<longleftrightarrow> list_all (\<lambda>(k, v). valid_utf8 k \<and> utf8_val v) row"

definition json_law :: "exec_lib \<Rightarrow> bool" where
  "json_law lib \<longleftrightarrow>
     (\<forall>row data. utf8_row row \<longrightarrow> xl_row_enc lib row = Some data \<longrightarrow>
        (\<exists>row'. xl_row_dec lib data = Some row' \<and> map_of row' = map_of (json_row row)))"

lemma map_of_json_row: "map_of (json_row row) c = map_option jsonify (map_of row c)"
  by (induction row) (auto simp: json_row_def)

lemma keysForValue_jsonify: "keysForValue ul meta (jsonify v) i = keysForValue ul meta v i"
  by (cases v) (auto simp: keysForValue_def EncodeValue_def)

lemma row_keys_json:
  "map_of row' = map_of (json_row row) \<Longrightarrow> row_keys ul meta row' i = row_keys ul meta row i"
  by (auto simp: row_keys_def map_of_json_row keysForValue_jsonify split: option.splits)

lemma row_keys_cong: "map_of row' = map_of row \<Longrightarrow> row_keys ul meta row' i = row_keys ul meta row i"
  by (simp add: row_keys_def)

lemma index_holds_cong:
  assumes "index_holds ul metas s rows"
    and "\<And>i. rel_option (\<lambda>r r'. \<forall>meta. row_keys ul meta r i = row_keys ul meta r' i) (rows i) (rows' i)"
  shows "index_holds ul metas s rows'"
proof -
  have "keys_of_rows ul meta rows' = keys_of_rows ul meta rows" for meta
  proof -
    have "(\<exists>r. rows i = Some r \<and> k \<in> set (row_keys ul meta r i)) \<longleftrightarrow>
        (\<exists>r. rows' i = Some r \<and> k \<in> set (row_keys ul meta r i))" for i k
      using assms(2) [of i] by (cases "rows i"; cases "rows' i") auto
    then show ?thesis unfolding keys_of_rows_def by blast
  qed
  with assms(1) show ?thesis by (simp add: index_holds_def)
qed

section \<open>Batches of a row and its index entries\<close>

lemma index_key_head: "prefix (indexDataPrefix meta) k \<Longrightarrow> \<exists>r. k = PrefixIndex # r"
  by (auto simp: indexDataPrefix_def Let_def prefix_def)

lemma opt_keys_head: "k \<in> set (opt_keys ul metas r i) \<Longrightarrow> \<exists>r. k = PrefixIndex # r"
proof -
  assume "k \<in> set (opt_keys ul metas r i)"
  then obtain row meta where "k \<in> set (row_keys ul meta row i)" by (auto simp: opt_keys_def split: option.splits)
  then obtain w where "k = entryKey meta w i" using row_keys_shape by blast
  then show ?thesis using index_key_head entry_in_prefix by blast
qed

lemma index_entries_row_ops:
  assumes "byte_of p \<noteq> PrefixIndex" "\<forall>w \<in> set ops. \<exists>i. op_key w = EncodeKey (byte_of p) i"
  shows "index_entries (engine_batch_write s ops) meta = index_entries s meta"
proof -
  have "engine_get (engine_batch_write s ops) k = engine_get s k" if "prefix (indexDataPrefix meta) k" for k
  proof -
    have "\<forall>w \<in> set ops. op_key w \<noteq> k" using index_key_head [OF that] assms by (auto simp: EncodeKey_def)
    then have "filter (\<lambda>w. op_key w = k) (rev ops) = []" by (simp add: filter_empty_conv)
    then show ?thesis by (simp add: engine_get_batch)
  qed
  then show ?thesis by (auto simp: index_entries_def)
qed

text \<open>
  One batch that changes the entry of a row and the index entries: deletes the old row (if there is one,
  under its identifier), puts the new one, and the index operations of both.
\<close>

definition row_ops :: "u8 \<Rightarrow> bytes \<Rightarrow> bytes option \<Rightarrow> write_op list" where
  "row_ops p i data = (case data of None \<Rightarrow> [row_del p i] | Some d \<Rightarrow> [row_put p i d])"

lemma opt_keys_cong: "rel_option (\<lambda>r r'. map_of r = map_of r') a b \<Longrightarrow> opt_keys ul metas a i = opt_keys ul metas b i"
  by (cases a; cases b) (simp_all add: opt_keys_def row_keys_def)

lemma engine_get_index_ops:
  "byte_of q \<noteq> PrefixIndex \<Longrightarrow>
     engine_get (engine_batch_write s (map del_op (opt_keys ul metas old i) @ map put_op (opt_keys ul metas new i))) (EncodeKey (byte_of q) j) =
       engine_get s (EncodeKey (byte_of q) j)"
  using opt_keys_head [of "EncodeKey (byte_of q) j"] by (auto simp: batch_del_put EncodeKey_def)

lemma engine_get_row_ops:
  "engine_get (engine_batch_write s (row_ops p i data)) k = (if k = EncodeKey (byte_of p) i then data else engine_get s k)"
  by (cases data) (simp_all add: row_ops_def row_del_def row_put_def engine_get_batch write_op_result_def)

lemma table_batch:
  assumes p: "byte_of p \<noteq> PrefixIndex" and ok: "metas_ok metas" and rows: "rows_ok (table_rows lib s p)"
    and i: "NUL \<notin> set i" and holds: "index_holds ul metas s (table_rows lib s p)"
    and old: "rel_option (\<lambda>r r'. map_of r = map_of r') old (table_rows lib s p i)"
    and new: "rel_option (\<lambda>r r'. map_of r' = map_of (json_row r)) new (Option.bind data (xl_row_dec lib))"
    and s': "s' = engine_batch_write s (row_ops p i data @ map del_op (opt_keys ul metas old i) @ map put_op (opt_keys ul metas new i))"
  shows "table_rows lib s' p = (table_rows lib s p)(i := Option.bind data (xl_row_dec lib))"
    and "index_holds ul metas s' (table_rows lib s' p)"
    and "byte_of q \<noteq> PrefixIndex \<Longrightarrow> q \<noteq> p \<Longrightarrow> table_rows lib s' q = table_rows lib s q"
proof -
  let ?s1 = "engine_batch_write s (row_ops p i data)"
  let ?keys = "map del_op (opt_keys ul metas old i) @ map put_op (opt_keys ul metas new i)"
  have s'2: "s' = engine_batch_write ?s1 ?keys" by (simp add: s' batch_write_append)
  have get: "engine_get s' (EncodeKey (byte_of q) j) =
      (if EncodeKey (byte_of q) j = EncodeKey (byte_of p) i then data else engine_get s (EncodeKey (byte_of q) j))"
    if "byte_of q \<noteq> PrefixIndex" for q j
    by (simp only: s'2 engine_get_index_ops [OF that] engine_get_row_ops)
  show rows': "table_rows lib s' p = (table_rows lib s p)(i := Option.bind data (xl_row_dec lib))"
    by (rule ext) (simp add: table_rows_def get [OF p])
  show "table_rows lib s' q = table_rows lib s q" if "byte_of q \<noteq> PrefixIndex" "q \<noteq> p"
    by (rule ext) (simp add: table_rows_def get [OF that(1)] that(2))
  have old_keys: "opt_keys ul metas old i = opt_keys ul metas (table_rows lib s p i) i"
    by (rule opt_keys_cong [OF old])
  have "index_holds ul metas ?s1 (table_rows lib s p)"
    using holds index_entries_row_ops [OF p] by (simp add: index_holds_def row_ops_def row_del_def row_put_def split: option.split)
  from index_holds_batch [OF ok rows i this, of new]
  have "index_holds ul metas s' ((table_rows lib s p)(i := new))" by (simp only: s'2 old_keys)
  then show "index_holds ul metas s' (table_rows lib s' p)"
    unfolding rows'
  proof (rule index_holds_cong)
    fix j
    show "rel_option (\<lambda>r r'. \<forall>meta. row_keys ul meta r j = row_keys ul meta r' j) (((table_rows lib s p)(i := new)) j)
        (((table_rows lib s p)(i := Option.bind data (xl_row_dec lib))) j)"
      using option.rel_mono_strong [OF new] row_keys_json by (simp add: option.rel_refl)
  qed
qed

section \<open>Plain values\<close>

text \<open>What a literal can be: no zero byte in its text and no list or object.\<close>

definition text_ok :: "bytes \<Rightarrow> bool" where
  "text_ok s \<longleftrightarrow> NUL \<notin> set s \<and> valid_utf8 s"

definition plain_val :: "val \<Rightarrow> bool" where
  "plain_val v \<longleftrightarrow> (case v of VStr s \<Rightarrow> text_ok s | VList _ \<Rightarrow> False | VObj _ \<Rightarrow> False | _ \<Rightarrow> True)"

definition plain_row :: "row \<Rightarrow> bool" where
  "plain_row row \<longleftrightarrow> (\<forall>(k, v) \<in> set row. valid_utf8 k \<and> plain_val v)"

definition plain_meta :: "table_meta \<Rightarrow> bool" where
  "plain_meta m \<longleftrightarrow> (\<forall>c \<in> set (tbl_columns m). valid_utf8 (col_name c) \<and> plain_val (col_default c))"

text \<open>Documented behaviour of the library: JSON, the digits of numbers, the form of a UUID.\<close>

definition lib_ok :: "exec_lib \<Rightarrow> bool" where
  "lib_ok lib \<longleftrightarrow>
     json_law lib \<and> (\<forall>f. NUL \<notin> set (xl_fmt_f lib f)) \<and> (\<forall>n. xl_uuid lib n \<noteq> [] \<and> text_ok (xl_uuid lib n))"

lemma plain_val_simps [simp]:
  "plain_val VNil" "plain_val (VBool b)" "plain_val (VInt n)" "plain_val (VFloat f)"
  "plain_val (VStr s) \<longleftrightarrow> text_ok s" "\<not> plain_val (VList vs)" "\<not> plain_val (VObj o')"
  by (simp_all add: plain_val_def)

lemma plain_row_update: "plain_row row \<Longrightarrow> valid_utf8 k \<Longrightarrow> plain_val v \<Longrightarrow> plain_row (AList.update k v row)"
  by (induction row) (auto simp: plain_row_def)

lemma plain_row_Nil [simp]: "plain_row []"
  by (simp add: plain_row_def)

lemma plain_row_utf8: "plain_row row \<Longrightarrow> utf8_row row"
proof -
  have "utf8_val v" if "plain_val v" for v using that by (cases v) (simp_all add: text_ok_def)
  then show "plain_row row \<Longrightarrow> utf8_row row" by (fastforce simp: plain_row_def utf8_row_def list_all_iff)
qed

lemma plain_row_value: "plain_row row \<Longrightarrow> plain_val (row_value row c)"
  by (auto simp: plain_row_def row_value_def split: option.split dest: map_of_SomeD)

lemma plain_fill_defaults:
  "\<forall>c \<in> set cs. valid_utf8 (col_name c) \<and> plain_val (col_default c) \<Longrightarrow> plain_row row \<Longrightarrow> plain_row (fold fill_default cs row)"
  by (induction cs arbitrary: row) (auto simp: fill_default_def plain_row_update)

lemma plain_literals:
  "\<forall>(c, e) \<in> set xs. valid_utf8 c \<and> plain_val (evalLiteral e) \<Longrightarrow> plain_row row \<Longrightarrow>
     plain_row (fold (\<lambda>(c, e). AList.update c (evalLiteral e)) xs row)"
  by (induction xs arbitrary: row) (auto simp: plain_row_update)

lemma print_int_no_zero: "NUL \<notin> set (print_int n)"
proof -
  have "NUL \<notin> set (decimal k)" for k using decimal_digits [of k] by (auto simp: list_all_iff isDigit_def)
  then show ?thesis by (simp add: print_int_def)
qed

lemma rowIDString_no_zero: "lib_ok lib \<Longrightarrow> plain_val v \<Longrightarrow> NUL \<notin> set (rowIDString lib v)"
  by (cases v) (auto simp: rowIDString_def lib_ok_def text_ok_def print_int_no_zero)

section \<open>INSERT\<close>

lemma take_uuid_frame:
  "take_uuid lib st = (u, st') \<Longrightarrow>
     ex_engine st' = ex_engine st \<and> ex_tables st' = ex_tables st \<and> ex_indexes st' = ex_indexes st"
  by (auto simp: take_uuid_def)

lemma validateRowForWrite_ok:
  assumes "validateRowForWrite lib s meta row oldID ins = Inr (i, row')"
  shows "row' = (if ins then fold fill_default (tbl_columns meta) row else row) \<and> i \<noteq> [] \<and>
    i = rowIDString lib (row_value row' (rowIDColumnForMeta meta)) \<and>
    (i \<noteq> oldID \<longrightarrow> engine_get s (EncodeKey (byte_of (tbl_prefix meta)) i) = None)"
  using assms by (auto simp: validateRowForWrite_def Let_def split: option.splits if_splits)

lemma valid_utf8_id: "valid_utf8 ''id''"
  by (simp add: valid_utf8_def runes.simps decode_rune_def encode_rune_def char_of_eq_iff)

lemma given_id_frame:
  assumes "given_id lib meta row st = (i, row', st')"
  shows "ex_engine st' = ex_engine st \<and> ex_tables st' = ex_tables st \<and> ex_indexes st' = ex_indexes st \<and>
    (lib_ok lib \<longrightarrow> plain_row row \<longrightarrow> plain_row row')"
  using assms
  by (auto simp: given_id_def take_uuid_def Let_def lib_ok_def valid_utf8_id intro!: plain_row_update split: if_splits)

lemma insert_id_frame:
  assumes "insert_id lib meta row st = (r, st')"
  shows "ex_engine st' = ex_engine st \<and> ex_tables st' = ex_tables st \<and> ex_indexes st' = ex_indexes st"
proof -
  obtain i row1 st1 where g: "given_id lib meta row st = (i, row1, st1)" by (metis prod_cases3)
  show ?thesis
    using assms given_id_frame [OF g]
    by (auto simp: insert_id_def g take_uuid_def Let_def split: if_splits sum.splits prod.splits)
qed

lemma insert_id_user:
  assumes "insert_id lib (Some meta) row st = (Inr (i, row'), st')" "lib_ok lib" "plain_meta meta" "plain_row row"
  shows "i \<noteq> [] \<and> NUL \<notin> set i \<and> plain_row row' \<and>
    engine_get (ex_engine st) (EncodeKey (byte_of (tbl_prefix meta)) i) = None"
proof -
  obtain j row1 st1 where g: "given_id lib (Some meta) row st = (j, row1, st1)" by (metis prod_cases3)
  have v: "validateRowForWrite lib (ex_engine st) meta row1 [] True = Inr (i, row')"
  proof (cases "validateRowForWrite lib (ex_engine st) meta row1 [] True")
    case (Inl e)
    then show ?thesis using assms(1) given_id_frame [OF g] by (simp add: insert_id_def g)
  next
    case (Inr x)
    obtain k row2 where x: "x = (k, row2)" by (cases x)
    then have "k \<noteq> []" using validateRowForWrite_ok Inr by blast
    then show ?thesis using assms(1) given_id_frame [OF g] Inr x by (simp add: insert_id_def g)
  qed
  note ok = validateRowForWrite_ok [OF v] and frame = given_id_frame [OF g]
  have row': "plain_row row'"
    using ok frame assms(2-4) plain_fill_defaults [of "tbl_columns meta" row1] by (simp add: plain_meta_def)
  moreover have "NUL \<notin> set i" using ok rowIDString_no_zero [OF assms(2) plain_row_value [OF row']] by metis
  ultimately show ?thesis using ok frame by metis
qed

lemma zip_all: "\<forall>x \<in> set xs. P x \<Longrightarrow> \<forall>y \<in> set ys. Q y \<Longrightarrow> \<forall>(x, y) \<in> set (zip xs ys). P x \<and> Q y"
  by (auto dest: set_zip_leftD set_zip_rightD)

text \<open>A rejected row leaves engine, tables and indexes alone; an accepted one is new and indexed.\<close>

lemma insert_row_rejected:
  assumes "insert_row lib table p meta cols values st = (Some e, st')"
  shows "ex_engine st' = ex_engine st \<and> ex_tables st' = ex_tables st \<and> ex_indexes st' = ex_indexes st"
  using assms insert_id_frame
  by (fastforce simp: insert_row_def Let_def split: if_splits prod.splits sum.splits option.splits)

lemma insert_row_accepted:
  assumes "insert_row lib table (tbl_prefix meta) (Some meta) cols values st = (None, st')"
    and lib: "lib_ok lib" and inv: "table_inv lib st table" and user: "user_table st table = Some meta"
    and plain: "plain_meta meta" "\<forall>c \<in> set cols. valid_utf8 c" "\<forall>e \<in> set values. plain_val (evalLiteral e)"
  shows "ex_tables st' = ex_tables st \<and> ex_indexes st' = ex_indexes st \<and> table_inv lib st' table \<and>
    (\<exists>i row. engine_get (ex_engine st) (EncodeKey (byte_of (tbl_prefix meta)) i) = None \<and>
       table_rows lib (ex_engine st') (tbl_prefix meta) = (table_rows lib (ex_engine st) (tbl_prefix meta))(i \<mapsto> row))"
proof -
  let ?p = "tbl_prefix meta"
  let ?cols = "if cols = [] then map col_name (tbl_columns meta) else cols"
  let ?row = "fold (\<lambda>(c, e). AList.update c (evalLiteral e)) (zip ?cols values) []"
  have "\<forall>c \<in> set ?cols. valid_utf8 c" using plain(1,2) by (auto simp: plain_meta_def)
  then have row: "plain_row ?row"
    using plain_literals [OF zip_all] plain(3) plain_row_Nil by blast
  obtain r st1 where ins: "insert_id lib (Some meta) ?row st = (r, st1)" by (meson surj_pair)
  have p: "tablePrefix st table = ?p"
    using user by (auto simp: user_table_def tablePrefix_def tm_prefix_def tm_get_def Let_def split: if_splits)
  obtain i row data ops where r: "r = Inr (i, row)" and data: "xl_row_enc lib row = Some data"
    and ops: "InsertRowOps (xl_unicode lib) (ex_indexes st1) (ex_engine st1) table row i = Inr ops"
    and st': "st' = write_batch st1 (row_put ?p i data # ops)"
    using assms(1) ins
    by (auto simp: insert_row_def Let_def split: if_splits sum.splits option.splits prod.splits)
  note frame = insert_id_frame [OF ins] and new = insert_id_user [OF ins [unfolded r] lib plain(1) row]
  obtain row' where dec: "xl_row_dec lib data = Some row'" "map_of row' = map_of (json_row row)"
    using lib data plain_row_utf8 new unfolding lib_ok_def json_law_def by blast
  let ?s = "ex_engine st" and ?metas = "indexes_of st table"
  have s': "ex_engine st' = engine_batch_write ?s
      (row_ops ?p i (Some data) @ map del_op (opt_keys (xl_unicode lib) ?metas None i) @ map put_op (opt_keys (xl_unicode lib) ?metas (Some row) i))"
    using frame InsertRowOps_keys [OF ops] by (simp add: st' write_batch_def row_ops_def indexes_of_def)
  have fresh: "table_rows lib ?s ?p i = None" using new by (simp add: table_rows_def)
  have inv': "kv_ok ?s" "?p \<noteq> 0" "byte_of ?p \<noteq> PrefixIndex" "metas_ok ?metas" "rows_ok (table_rows lib ?s ?p)"
    "index_holds (xl_unicode lib) ?metas ?s (table_rows lib ?s ?p)"
    using inv by (simp_all add: table_inv_def p Let_def)
  note batch = table_batch [OF inv'(3,4,5) _ inv'(6) _ _ s']
  have rows': "table_rows lib (ex_engine st') ?p = (table_rows lib ?s ?p)(i \<mapsto> row')"
    "index_holds (xl_unicode lib) ?metas (ex_engine st') (table_rows lib (ex_engine st') ?p)"
    using batch(1,2) new dec fresh by simp_all
  have st'eq: "ex_tables st' = ex_tables st" "ex_indexes st' = ex_indexes st"
    using frame by (simp_all add: st' write_batch_def)
  have "tablePrefix st' table = ?p" using p by (simp add: tablePrefix_def st'eq)
  moreover have "kv_ok (ex_engine st')" using inv'(1) by (simp add: s' kv_simps)
  moreover have "rows_ok (table_rows lib (ex_engine st') ?p)" using inv'(5) new by (auto simp: rows'(1) rows_ok_def)
  ultimately have "table_inv lib st' table"
    using inv'(2,3,4) rows'(2) by (simp add: table_inv_def Let_def indexes_of_def st'eq)
  then show ?thesis using st'eq new rows'(1) by blast
qed

lemma insert_rows_table:
  assumes "insert_rows lib table (tbl_prefix meta) (Some meta) cols vss n st = (r, st')"
    and "lib_ok lib" "table_inv lib st table" "user_table st table = Some meta" "plain_meta meta"
    and "\<forall>c \<in> set cols. valid_utf8 c" "\<forall>vs \<in> set vss. \<forall>e \<in> set vs. plain_val (evalLiteral e)"
  shows "table_inv lib st' table \<and> user_table st' table = Some meta \<and>
    table_rows lib (ex_engine st) (tbl_prefix meta) \<subseteq>\<^sub>m table_rows lib (ex_engine st') (tbl_prefix meta) \<and>
    (\<forall>k. r = Inr k \<longrightarrow> k = n + int (length vss) \<and>
       (\<exists>ids. distinct ids \<and> length ids = length vss \<and> set ids \<inter> dom (table_rows lib (ex_engine st) (tbl_prefix meta)) = {} \<and>
          dom (table_rows lib (ex_engine st') (tbl_prefix meta)) = dom (table_rows lib (ex_engine st) (tbl_prefix meta)) \<union> set ids))"
  using assms
proof (induction vss arbitrary: n st)
  case Nil
  then show ?case by auto
next
  case (Cons vs vss)
  let ?p = "tbl_prefix meta"
  obtain e st1 where one: "insert_row lib table ?p (Some meta) cols vs st = (e, st1)" by (meson surj_pair)
  show ?case
  proof (cases e)
    case (Some x)
    then have "r = Inl x" "st' = st1" using Cons.prems(1) one by simp_all
    moreover note insert_row_rejected [OF one [unfolded Some]]
    ultimately show ?thesis using Cons.prems(3,4)
      by (auto simp: table_inv_def tablePrefix_def indexes_of_def user_table_def)
  next
    case None
    have rest: "insert_rows lib table ?p (Some meta) cols vss (n + 1) st1 = (r, st')"
      using Cons.prems(1) one None by simp
    obtain i row where acc: "ex_tables st1 = ex_tables st" "ex_indexes st1 = ex_indexes st" "table_inv lib st1 table"
      "engine_get (ex_engine st) (EncodeKey (byte_of ?p) i) = None"
      "table_rows lib (ex_engine st1) ?p = (table_rows lib (ex_engine st) ?p)(i \<mapsto> row)"
      using insert_row_accepted [OF one [unfolded None] Cons.prems(2,3,4,5,6)] Cons.prems(7) by auto
    have fresh: "table_rows lib (ex_engine st) ?p i = None" using acc(4) by (simp add: table_rows_def)
    have "user_table st1 table = Some meta" using Cons.prems(4) acc(1) by (simp add: user_table_def)
    moreover have "\<forall>vs \<in> set vss. \<forall>e \<in> set vs. plain_val (evalLiteral e)" using Cons.prems(7) by simp
    ultimately have IH: "table_inv lib st' table" "user_table st' table = Some meta"
      "table_rows lib (ex_engine st1) ?p \<subseteq>\<^sub>m table_rows lib (ex_engine st') ?p"
      "\<And>k. r = Inr k \<Longrightarrow> k = n + 1 + int (length vss) \<and>
       (\<exists>ids. distinct ids \<and> length ids = length vss \<and> set ids \<inter> dom (table_rows lib (ex_engine st1) ?p) = {} \<and>
          dom (table_rows lib (ex_engine st') ?p) = dom (table_rows lib (ex_engine st1) ?p) \<union> set ids)"
      using Cons.IH [OF rest Cons.prems(2) acc(3) _ Cons.prems(5,6)] by blast+
    have "table_rows lib (ex_engine st) ?p \<subseteq>\<^sub>m table_rows lib (ex_engine st1) ?p"
      using fresh by (auto simp: acc(5) map_le_def)
    then have le: "table_rows lib (ex_engine st) ?p \<subseteq>\<^sub>m table_rows lib (ex_engine st') ?p"
      using IH(3) by (rule map_le_trans)
    have "\<exists>ids. distinct ids \<and> length ids = length (vs # vss) \<and> set ids \<inter> dom (table_rows lib (ex_engine st) ?p) = {} \<and>
        dom (table_rows lib (ex_engine st') ?p) = dom (table_rows lib (ex_engine st) ?p) \<union> set ids" if r: "r = Inr k" for k
    proof -
      obtain ids where "distinct ids" "length ids = length vss" "set ids \<inter> dom (table_rows lib (ex_engine st1) ?p) = {}"
        "dom (table_rows lib (ex_engine st') ?p) = dom (table_rows lib (ex_engine st1) ?p) \<union> set ids"
        using IH(4) [OF r] by blast
      then show ?thesis using fresh by (intro exI [of _ "i # ids"]) (auto simp: acc(5))
    qed
    then show ?thesis using IH(1,2) IH(4) le by auto
  qed
qed


section \<open>DELETE\<close>

lemma table_inv_simps:
  assumes "table_inv lib st table"
  shows "kv_ok (ex_engine st)" "tablePrefix st table \<noteq> 0" "byte_of (tablePrefix st table) \<noteq> PrefixIndex"
    "metas_ok (indexes_of st table)" "rows_ok (table_rows lib (ex_engine st) (tablePrefix st table))"
    "index_holds (xl_unicode lib) (indexes_of st table) (ex_engine st) (table_rows lib (ex_engine st) (tablePrefix st table))"
  using assms by (simp_all add: table_inv_def Let_def)

lemma write_batch_frame [simp]:
  "ex_tables (write_batch st ops) = ex_tables st" "ex_indexes (write_batch st ops) = ex_indexes st"
  "tablePrefix (write_batch st ops) = tablePrefix st" "indexes_of (write_batch st ops) = indexes_of st"
  "ex_engine (write_batch st ops) = engine_batch_write (ex_engine st) ops"
  by (auto simp: write_batch_def tablePrefix_def indexes_of_def)

text \<open>One batch of a row keeps the invariant of its table.\<close>

lemma table_inv_batch:
  assumes inv: "table_inv lib st table" and i: "NUL \<notin> set i" "i \<noteq> []"
    and old: "rel_option (\<lambda>r r'. map_of r = map_of r') old (table_rows lib (ex_engine st) (tablePrefix st table) i)"
    and new: "rel_option (\<lambda>r r'. map_of r' = map_of (json_row r)) new (Option.bind data (xl_row_dec lib))"
    and st': "st' = write_batch st (row_ops (tablePrefix st table) i data @
        map del_op (opt_keys (xl_unicode lib) (indexes_of st table) old i) @
        map put_op (opt_keys (xl_unicode lib) (indexes_of st table) new i))"
  shows "table_inv lib st' table" and "tablePrefix st' = tablePrefix st"
    and "table_rows lib (ex_engine st') (tablePrefix st table) =
      (table_rows lib (ex_engine st) (tablePrefix st table))(i := Option.bind data (xl_row_dec lib))"
proof -
  note inv' = table_inv_simps [OF inv]
  have "ex_engine st' = engine_batch_write (ex_engine st) (row_ops (tablePrefix st table) i data @
        map del_op (opt_keys (xl_unicode lib) (indexes_of st table) old i) @
        map put_op (opt_keys (xl_unicode lib) (indexes_of st table) new i))"
    by (simp add: st')
  note batch = table_batch [OF inv'(3,4,5) i(1) inv'(6) old new this]
  show rows: "table_rows lib (ex_engine st') (tablePrefix st table) =
      (table_rows lib (ex_engine st) (tablePrefix st table))(i := Option.bind data (xl_row_dec lib))"
    by (rule batch(1))
  show "tablePrefix st' = tablePrefix st" by (simp add: st')
  moreover have "indexes_of st' = indexes_of st" "kv_ok (ex_engine st')" using inv'(1) by (simp_all add: st' kv_simps)
  moreover have "rows_ok (table_rows lib (ex_engine st') (tablePrefix st table))"
    using inv'(5) i by (auto simp: rows rows_ok_def split: if_splits)
  ultimately show "table_inv lib st' table"
    using inv'(2-4) batch(2) by (simp add: table_inv_def Let_def)
qed

definition string_id :: "row \<Rightarrow> bytes" where
  "string_id row = (case map_of row ''id'' of Some (VStr i) \<Rightarrow> i | _ \<Rightarrow> [])"

lemma delete_rows_table:
  assumes "delete_rows lib table (tablePrefix st table) rs n st = (k, st')" "table_inv lib st table"
    and "distinct (map string_id rs)"
    and "\<forall>row \<in> set rs. map_of row ''id'' = Some (VStr (string_id row)) \<and>
           table_rows lib (ex_engine st) (tablePrefix st table) (string_id row) = Some row"
  shows "table_inv lib st' table \<and> tablePrefix st' = tablePrefix st \<and> k = n + int (length rs) \<and>
    table_rows lib (ex_engine st') (tablePrefix st table) =
      table_rows lib (ex_engine st) (tablePrefix st table) |` (- set (map string_id rs))"
  using assms
proof (induction rs arbitrary: n st)
  case Nil
  then show ?case by simp
next
  case (Cons row rs)
  let ?p = "tablePrefix st table" and ?i = "string_id row"
  let ?st1 = "write_batch st (row_del ?p ?i # DeleteRowOps (xl_unicode lib) (ex_indexes st) table row ?i)"
  have row: "map_of row ''id'' = Some (VStr ?i)" "table_rows lib (ex_engine st) ?p ?i = Some row"
    using Cons.prems(4) by simp_all
  have i: "NUL \<notin> set ?i" "?i \<noteq> []" using row(2) table_inv_simps(5) [OF Cons.prems(2)] by (auto simp: rows_ok_def)
  have batch: "?st1 = write_batch st (row_ops ?p ?i None @
      map del_op (opt_keys (xl_unicode lib) (indexes_of st table) (Some row) ?i) @
      map put_op (opt_keys (xl_unicode lib) (indexes_of st table) None ?i))"
    by (simp add: row_ops_def DeleteRowOps_opt_keys indexes_of_def)
  have old: "rel_option (\<lambda>r r'. map_of r = map_of r') (Some row) (table_rows lib (ex_engine st) ?p ?i)"
    by (simp add: row(2))
  have new: "rel_option (\<lambda>r r'. map_of r' = map_of (json_row r)) None (Option.bind None (xl_row_dec lib))" by simp
  note st1 = table_inv_batch [OF Cons.prems(2) i old new batch]
  have rows1: "table_rows lib (ex_engine ?st1) ?p = (table_rows lib (ex_engine st) ?p)(?i := None)"
    using st1(3) by (simp only: Option.bind.simps)
  have run: "delete_rows lib table (tablePrefix ?st1 table) rs (n + 1) ?st1 = (k, st')"
    using Cons.prems(1) row(1) by (simp only: st1(2) delete_rows.simps option.case val.case)
  have d: "distinct (map string_id rs)" using Cons.prems(3) by simp
  have rest: "\<forall>r \<in> set rs. map_of r ''id'' = Some (VStr (string_id r)) \<and>
      table_rows lib (ex_engine ?st1) (tablePrefix ?st1 table) (string_id r) = Some r"
  proof
    fix r assume r: "r \<in> set rs"
    then have "string_id r \<in> string_id ` set rs" "?i \<notin> string_id ` set rs" using Cons.prems(3) by simp_all
    then have "string_id r \<noteq> ?i" by metis
    then show "map_of r ''id'' = Some (VStr (string_id r)) \<and>
        table_rows lib (ex_engine ?st1) (tablePrefix ?st1 table) (string_id r) = Some r"
      using Cons.prems(4) r unfolding st1(2) rows1 by simp
  qed
  show ?case
    using Cons.IH [OF run st1(1) d rest] unfolding st1(2) rows1 by (auto simp: restrict_map_def fun_eq_iff)
qed

text \<open>The rows of a scan, and those a condition selects.\<close>

definition scanned_rows :: "exec_lib \<Rightarrow> executor \<Rightarrow> bytes \<Rightarrow> row list" where
  "scanned_rows lib st table =
     List.map_filter (\<lambda>(_, v). xl_row_dec lib v) (table_items (ex_engine st) (tablePrefix st table))"

definition selected :: "exec_lib \<Rightarrow> expr option \<Rightarrow> row \<Rightarrow> bool" where
  "selected lib cond row \<longleftrightarrow> (case cond of None \<Rightarrow> True | Some c \<Rightarrow> evalBool (xl_go lib) c row)"

lemma set_scanned_rows:
  "kv_ok (ex_engine st) \<Longrightarrow> set (scanned_rows lib st table) = ran (table_rows lib (ex_engine st) (tablePrefix st table))"
  by (simp add: scanned_rows_def set_decoded_items)

lemma executeScan_rows:
  "tablePrefix st table \<noteq> 0 \<Longrightarrow>
     executeScan lib st table [] cond =
       Inr (query_result (guessColumns (filter (selected lib cond) (scanned_rows lib st table)))
              (filter (selected lib cond) (scanned_rows lib st table)))"
proof -
  have [simp]: "aliased [] = (\<lambda>r. r)" by (simp add: aliased_def fun_eq_iff)
  have "selected lib None = (\<lambda>_. True)" "\<And>c. selected lib (Some c) = evalBool (xl_go lib) c"
    by (simp_all add: selected_def fun_eq_iff)
  then show "tablePrefix st table \<noteq> 0 \<Longrightarrow> ?thesis"
    by (cases cond) (simp_all add: executeScan_def Let_def scanned_rows_def filterRows_def)
qed

lemma condition_scan:
  assumes "tablePrefix st table \<noteq> 0"
  shows "\<exists>cols. Execute lib (case cond of Some w \<Rightarrow> FilterNode (ScanNode table [] None) w | None \<Rightarrow> ScanNode table [] None) st =
    (Inr (query_result cols (filter (selected lib cond) (scanned_rows lib st table))), st)"
proof -
  have "selected lib None = (\<lambda>_. True)" "\<And>c. selected lib (Some c) = evalBool (xl_go lib) c"
    by (simp_all add: selected_def fun_eq_iff)
  then show ?thesis
    using assms by (cases cond) (simp_all add: executeScan_rows with_input_def executeFilter_def filterRows_def query_result_def)
qed

lemma distinct_table_items: "kv_ok s \<Longrightarrow> distinct (table_items s p)"
proof -
  assume ok: "kv_ok s"
  have "table_items s p = prefix_items s [byte_of p] 0"
    using prefix_scan_collects [OF ok, of no_options "[byte_of p]"]
    by (simp add: table_items_def engine_prefix_scan_def no_options_def split: prod.splits)
  then show ?thesis
    using kv_ok_distinct [OF ok]
    by (auto simp: prefix_items_def scan_items_def scan_limit_def range_items_def distinct_map split: prod.split)
qed

lemma distinct_scanned:
  assumes "kv_ok (ex_engine st)"
    and ids: "\<And>i row. table_rows lib (ex_engine st) (tablePrefix st table) i = Some row \<Longrightarrow> key row = i"
  shows "distinct (map key (scanned_rows lib st table))"
proof -
  let ?p = "tablePrefix st table" and ?f = "\<lambda>(k, v). xl_row_dec lib v"
  let ?F = "filter (\<lambda>x. ?f x \<noteq> None) (table_items (ex_engine st) ?p)"
  have key: "k = EncodeKey (byte_of ?p) (key (the (?f (k, v)))) \<and> engine_get (ex_engine st) k = Some v"
    if "(k, v) \<in> set ?F" for k v
  proof -
    from that obtain i row where i: "k = EncodeKey (byte_of ?p) i" "engine_get (ex_engine st) k = Some v"
      "xl_row_dec lib v = Some row"
      by (auto simp: set_table_items [OF assms(1)])
    then have "key row = i" using ids [of i row] by (simp add: table_rows_def)
    with i show ?thesis by simp
  qed
  have "inj_on (\<lambda>x. key (the (?f x))) (set ?F)"
  proof (rule inj_onI)
    fix x y assume xy: "x \<in> set ?F" "y \<in> set ?F" "key (the (?f x)) = key (the (?f y))"
    obtain k v k' v' where p: "x = (k, v)" "y = (k', v')" by (meson surj_pair)
    have "k = k'" using key [OF xy(1) [unfolded p]] key [OF xy(2) [unfolded p]] xy(3) unfolding p by metis
    moreover have "v = v'"
      using key [OF xy(1) [unfolded p]] key [OF xy(2) [unfolded p]] \<open>k = k'\<close> by (metis option.inject)
    ultimately show "x = y" by (simp add: p)
  qed
  moreover have "distinct ?F" using distinct_table_items [OF assms(1)] by simp
  ultimately have "distinct (map (\<lambda>x. key (the (?f x))) ?F)" by (simp only: distinct_map simp_thms)
  then show ?thesis by (simp only: scanned_rows_def List.map_filter_def map_map comp_def)
qed

text \<open>
  C17: a \<open>DELETE\<close> on a table whose rows have string identifiers removes exactly the rows its condition
  selects, reports their number, and keeps the indexes of the table in step.
\<close>

theorem delete_removes_selected:
  assumes "table_inv lib st table"
    and ids: "\<forall>i row. table_rows lib (ex_engine st) (tablePrefix st table) i = Some row \<longrightarrow> map_of row ''id'' = Some (VStr i)"
    and run: "Execute lib (planDelete (DeleteStmt table cond)) st = (r, st')"
  shows "table_inv lib st' table \<and>
    table_rows lib (ex_engine st') (tablePrefix st table) =
      (\<lambda>i. case table_rows lib (ex_engine st) (tablePrefix st table) i of
             Some row \<Rightarrow> if selected lib cond row then None else Some row
           | None \<Rightarrow> None) \<and>
    r = Inr (affected_result (int (length (filter (selected lib cond) (scanned_rows lib st table)))))"
proof -
  note inv = table_inv_simps [OF assms(1)]
  let ?rs = "filter (selected lib cond) (scanned_rows lib st table)" and ?rows = "table_rows lib (ex_engine st) (tablePrefix st table)"
  have id: "string_id row = i" if "?rows i = Some row" for i row
    using ids that by (simp add: string_id_def)
  have d: "distinct (map string_id ?rs)"
    using distinct_scanned [OF inv(1), of lib table string_id] id by (simp add: distinct_map_filter)
  have sel: "row \<in> set ?rs \<longleftrightarrow> (\<exists>i. ?rows i = Some row) \<and> selected lib cond row" for row
    using set_scanned_rows [OF inv(1), of lib table] by (auto simp: ran_def)
  have rows: "\<forall>row \<in> set ?rs. map_of row ''id'' = Some (VStr (string_id row)) \<and> ?rows (string_id row) = Some row"
    using sel ids id by metis
  obtain k st1 where del: "delete_rows lib table (tablePrefix st table) ?rs 0 st = (k, st1)" by (meson surj_pair)
  obtain cols where scan: "Execute lib (case cond of Some w \<Rightarrow> FilterNode (ScanNode table [] None) w | None \<Rightarrow> ScanNode table [] None) st =
      (Inr (query_result cols ?rs), st)"
    using condition_scan [OF inv(2)] by blast
  have "r = Inr (affected_result k)" "st' = st1"
    using run inv(2) del scan by (simp_all add: planDelete_def Let_def with_input_def executeDelete_def query_result_def)
  moreover have "?rows |` (- set (map string_id ?rs)) =
      (\<lambda>i. case ?rows i of Some row \<Rightarrow> if selected lib cond row then None else Some row | None \<Rightarrow> None)"
  proof
    fix i
    have "i \<in> set (map string_id ?rs) \<longleftrightarrow> (\<exists>row. ?rows i = Some row \<and> selected lib cond row)"
      using sel id by (auto simp: image_iff)
    then show "(?rows |` (- set (map string_id ?rs))) i =
        (case ?rows i of Some row \<Rightarrow> if selected lib cond row then None else Some row | None \<Rightarrow> None)"
      by (cases "?rows i") (auto simp: restrict_map_def)
  qed
  ultimately show ?thesis using delete_rows_table [OF del assms(1) d rows] by simp
qed

text \<open>
  Rows whose identifier is not a JSON string are never deleted: on a table with an integer key every
  \<open>DELETE\<close> succeeds and changes nothing.
\<close>

lemma delete_spares_non_string_ids:
  assumes "kv_ok (ex_engine st)" "tablePrefix st table \<noteq> 0"
    and "\<forall>i row s. table_rows lib (ex_engine st) (tablePrefix st table) i = Some row \<longrightarrow> map_of row ''id'' \<noteq> Some (VStr s)"
  shows "Execute lib (planDelete (DeleteStmt table cond)) st = (Inr (affected_result 0), st)"
proof -
  let ?rs = "filter (selected lib cond) (scanned_rows lib st table)"
  have "delete_rows lib table p rs n st = (n, st)" if "\<forall>row \<in> set rs. \<forall>s. map_of row ''id'' \<noteq> Some (VStr s)" for p rs n
    using that by (induction rs) (auto split: option.split val.split)
  moreover have "\<forall>row \<in> set ?rs. \<forall>s. map_of row ''id'' \<noteq> Some (VStr s)"
    using assms(3) set_scanned_rows [OF assms(1), of lib table] by (auto simp: ran_def)
  ultimately have "delete_rows lib table (tablePrefix st table) ?rs 0 st = (0, st)" by blast
  moreover obtain cols where "Execute lib (case cond of Some w \<Rightarrow> FilterNode (ScanNode table [] None) w | None \<Rightarrow> ScanNode table [] None) st =
      (Inr (query_result cols ?rs), st)"
    using condition_scan [OF assms(2)] by blast
  ultimately show ?thesis
    using assms(2) by (simp add: planDelete_def Let_def with_input_def executeDelete_def query_result_def)
qed

section \<open>UPDATE\<close>

lemma row_value_apply_set:
  "c \<notin> fst ` set sets \<Longrightarrow> row_value (apply_set lib sets row) c = row_value row c"
proof (induction sets arbitrary: row)
  case (Cons x sets)
  obtain d e where x: "x = (d, e)" by (cases x)
  have "row_value (AList.update d (evalExpr (xl_go lib) e row) row) c = row_value row c"
    using Cons.prems by (simp add: x row_value_def update_conv')
  then show ?case using Cons.IH [of "AList.update d (evalExpr (xl_go lib) e row) row"] Cons.prems
    by (simp add: apply_set_def x)
qed (simp add: apply_set_def)

text \<open>What an update makes of a row; a row that cannot be marshalled is passed over.\<close>

definition set_row :: "exec_lib \<Rightarrow> (bytes \<times> expr) list \<Rightarrow> row \<Rightarrow> row" where
  "set_row lib sets row =
     (if xl_row_enc lib (apply_set lib sets row) = None then row else json_row (apply_set lib sets row))"

lemma update_row_table:
  assumes "update_row lib table (tablePrefix st table) meta sets old st = (res, st')"
    and inv: "table_inv lib st table" and law: "json_law lib" and utf8: "utf8_row (apply_set lib sets old)"
    and old: "table_rows lib (ex_engine st) (tablePrefix st table) i = Some old"
    and i: "rowIDString lib (row_value old (id_column meta)) = i" and sets: "id_column meta \<notin> fst ` set sets"
  shows "table_inv lib st' table \<and> ex_tables st' = ex_tables st \<and> ex_indexes st' = ex_indexes st \<and>
    (\<exists>row'. table_rows lib (ex_engine st') (tablePrefix st table) = (table_rows lib (ex_engine st) (tablePrefix st table))(i \<mapsto> row') \<and>
       (case res of Inl _ \<Rightarrow> row' = old | Inr _ \<Rightarrow> map_of row' = map_of (set_row lib sets old)))"
proof -
  let ?p = "tablePrefix st table" and ?row = "apply_set lib sets old" and ?ul = "xl_unicode lib"
  have ok: "i \<noteq> [] \<and> NUL \<notin> set i" using old table_inv_simps(5) [OF inv] by (auto simp: rows_ok_def)
  have id': "rowIDString lib (row_value ?row (id_column meta)) = i" using row_value_apply_set [OF sets] i by simp
  have newID: "j = i" if "updated_id lib (ex_engine st) meta ?row i = Inr j" for j
  proof (cases meta)
    case None
    then show ?thesis using that id' by (simp add: updated_id_def)
  next
    case (Some m)
    with that obtain x where "validateRowForWrite lib (ex_engine st) m ?row i False = Inr (j, x)"
      by (auto simp: updated_id_def split: sum.splits)
    from validateRowForWrite_ok [OF this] show ?thesis using id' Some by (simp add: id_column_def)
  qed
  have same: "(table_rows lib (ex_engine st) ?p)(i \<mapsto> old) = table_rows lib (ex_engine st) ?p"
    using old by (simp add: fun_upd_idem)
  have run: "update_row lib table ?p meta sets old st =
      (case updated_id lib (ex_engine st) meta ?row i of Inl e \<Rightarrow> (Inl e, st)
       | Inr newID \<Rightarrow> case xl_row_enc lib ?row of None \<Rightarrow> (Inr False, st)
         | Some data \<Rightarrow> (case update_index_ops lib st table old ?row i i of
               Inl e \<Rightarrow> (Inl (IndexUpdateFailed e), st)
             | Inr ops \<Rightarrow> (Inr True, write_batch st (row_put ?p i data # ops))))"
  proof (cases "updated_id lib (ex_engine st) meta ?row i")
    case (Inr j)
    then have "updated_id lib (ex_engine st) meta ?row i = Inr i" using newID by blast
    then show ?thesis using ok by (simp add: update_row_def Let_def i split: option.split sum.split)
  qed (simp add: update_row_def i ok)
  consider (invalid) e where "res = Inl e" "st' = st"
    | (unmarshalled) "xl_row_enc lib ?row = None" "res = Inr False" "st' = st"
    | (stored) data ins where "xl_row_enc lib ?row = Some data" "InsertRowOps ?ul (ex_indexes st) (ex_engine st) table ?row i = Inr ins"
        "res = Inr True" "st' = write_batch st (row_put ?p i data # DeleteRowOps ?ul (ex_indexes st) table old i @ ins)"
  proof (cases "updated_id lib (ex_engine st) meta ?row i")
    case (Inl e)
    then show ?thesis using assms(1) invalid [of e] unfolding run by simp
  next
    case (Inr j)
    show ?thesis
    proof (cases "xl_row_enc lib ?row")
      case None
      then show ?thesis using assms(1) Inr unmarshalled unfolding run by simp
    next
      case (Some data)
      show ?thesis
      proof (cases "InsertRowOps ?ul (ex_indexes st) (ex_engine st) table ?row i")
        case (Inl e)
        then show ?thesis
          using assms(1) Inr Some invalid [of "IndexUpdateFailed e"] unfolding run by (simp add: update_index_ops_def UpdateRowOps_def)
      next
        case (Inr ins)
        then show ?thesis
          using assms(1) \<open>updated_id lib (ex_engine st) meta ?row i = Inr j\<close> Some stored unfolding run
          by (simp add: update_index_ops_def UpdateRowOps_def)
      qed
    qed
  qed
  then show ?thesis
  proof cases
    case stored
    obtain row' where dec: "xl_row_dec lib data = Some row'" "map_of row' = map_of (json_row ?row)"
      using law utf8 stored(1) unfolding json_law_def by blast
    have batch: "st' = write_batch st (row_ops ?p i (Some data) @ map del_op (opt_keys ?ul (indexes_of st table) (Some old) i) @
        map put_op (opt_keys ?ul (indexes_of st table) (Some ?row) i))"
      using InsertRowOps_keys [OF stored(2)] by (simp add: stored(4) row_ops_def DeleteRowOps_opt_keys indexes_of_def)
    have rel: "rel_option (\<lambda>r r'. map_of r = map_of r') (Some old) (table_rows lib (ex_engine st) ?p i)"
      "rel_option (\<lambda>r r'. map_of r' = map_of (json_row r)) (Some ?row) (Option.bind (Some data) (xl_row_dec lib))"
      using old dec by simp_all
    note b = table_inv_batch [OF inv conjunct2 [OF ok] conjunct1 [OF ok] rel batch]
    have "table_rows lib (ex_engine st') ?p = (table_rows lib (ex_engine st) ?p)(i \<mapsto> row')"
      using b(3) dec(1) by simp
    moreover have "ex_tables st' = ex_tables st" "ex_indexes st' = ex_indexes st" by (simp_all add: stored(4))
    moreover have "map_of row' = map_of (set_row lib sets old)" by (simp add: set_row_def stored(1) dec(2))
    ultimately show ?thesis using b(1) stored(3) by auto
  next
    case unmarshalled
    then show ?thesis using inv same by (auto simp: set_row_def intro!: exI [of _ old])
  next
    case invalid
    then show ?thesis using inv same by (auto intro!: exI [of _ old])
  qed
qed

lemma update_rows_table:
  assumes "update_rows lib table (tablePrefix st table) meta sets rs n st = (res, st')"
    and "table_inv lib st table" "json_law lib" "id_column meta \<notin> fst ` set sets"
    and "distinct (map (\<lambda>row. rowIDString lib (row_value row (id_column meta))) rs)"
    and "\<forall>row \<in> set rs. utf8_row (apply_set lib sets row) \<and>
       table_rows lib (ex_engine st) (tablePrefix st table) (rowIDString lib (row_value row (id_column meta))) = Some row"
  shows "table_inv lib st' table \<and> tablePrefix st' table = tablePrefix st table \<and>
    (\<forall>i. i \<notin> (\<lambda>row. rowIDString lib (row_value row (id_column meta))) ` set rs \<longrightarrow>
       table_rows lib (ex_engine st') (tablePrefix st table) i = table_rows lib (ex_engine st) (tablePrefix st table) i) \<and>
    (\<forall>row \<in> set rs. \<exists>row'.
       table_rows lib (ex_engine st') (tablePrefix st table) (rowIDString lib (row_value row (id_column meta))) = Some row' \<and>
       (row' = row \<or> map_of row' = map_of (set_row lib sets row)) \<and>
       (\<forall>k. res = Inr k \<longrightarrow> map_of row' = map_of (set_row lib sets row)))"
  using assms
proof (induction rs arbitrary: n st)
  case Nil
  then show ?case by simp
next
  case (Cons row rs)
  let ?p = "tablePrefix st table" and ?id = "\<lambda>row. rowIDString lib (row_value row (id_column meta))"
  let ?R = "table_rows lib (ex_engine st) ?p"
  obtain c st1 where one: "update_row lib table ?p meta sets row st = (c, st1)" by (meson surj_pair)
  have row: "?R (?id row) = Some row" "utf8_row (apply_set lib sets row)" using Cons.prems(6) by simp_all
  obtain row1 where st1: "table_inv lib st1 table" "ex_tables st1 = ex_tables st" "ex_indexes st1 = ex_indexes st"
    "table_rows lib (ex_engine st1) ?p = ?R(?id row \<mapsto> row1)"
    and row1: "case c of Inl _ \<Rightarrow> row1 = row | Inr _ \<Rightarrow> map_of row1 = map_of (set_row lib sets row)"
    using update_row_table [OF one Cons.prems(2,3) row(2,1) refl Cons.prems(4)] by blast
  have p1: "tablePrefix st1 table = ?p" by (simp add: tablePrefix_def st1(2))
  show ?case
  proof (cases c)
    case (Inl e)
    then have "st' = st1" "res = Inl e" using Cons.prems(1) one by simp_all
    moreover have "table_rows lib (ex_engine st1) ?p = ?R" using Inl row1 row(1) by (simp add: st1(4) fun_upd_idem)
    ultimately show ?thesis using st1(1) p1 Cons.prems(6) by auto
  next
    case (Inr b)
    have run: "update_rows lib table (tablePrefix st1 table) meta sets rs (if b then n + 1 else n) st1 = (res, st')"
      using Cons.prems(1) one Inr by (simp add: p1)
    have d: "distinct (map ?id rs)" "?id row \<notin> ?id ` set rs" using Cons.prems(5) by simp_all
    have rest: "\<forall>r \<in> set rs. utf8_row (apply_set lib sets r) \<and> table_rows lib (ex_engine st1) (tablePrefix st1 table) (?id r) = Some r"
    proof
      fix r assume r: "r \<in> set rs"
      then have "?id r \<noteq> ?id row" using d(2) by (metis image_eqI)
      then show "utf8_row (apply_set lib sets r) \<and> table_rows lib (ex_engine st1) (tablePrefix st1 table) (?id r) = Some r"
        using Cons.prems(6) r by (simp add: p1 st1(4))
    qed
    note IH = Cons.IH [OF run st1(1) Cons.prems(3,4) d(1) rest, unfolded p1]
    have "table_rows lib (ex_engine st') ?p (?id row) = Some row1" using IH d(2) by (simp add: st1(4))
    moreover have "map_of row1 = map_of (set_row lib sets row)" using row1 Inr by simp
    ultimately have "\<forall>r \<in> set (row # rs). \<exists>row'. table_rows lib (ex_engine st') ?p (?id r) = Some row' \<and>
        (row' = r \<or> map_of row' = map_of (set_row lib sets r)) \<and> (\<forall>k. res = Inr k \<longrightarrow> map_of row' = map_of (set_row lib sets r))"
      using IH by simp
    moreover have "table_rows lib (ex_engine st') ?p i = ?R i" if "i \<notin> ?id ` set (row # rs)" for i
      using IH that by (simp add: st1(4))
    ultimately show ?thesis using IH by blast
  qed
qed

text \<open>
  C18: an \<open>UPDATE\<close> that does not assign the key column keeps the table in order: no row appears or
  disappears, rows that the condition does not select stay as they are, and the indexes follow. When it
  succeeds every selected row is what JSON makes of the row with its assignments; when it fails, each is
  that or as it was.
\<close>

theorem update_changes_selected:
  assumes inv: "table_inv lib st table" and law: "json_law lib"
    and sets: "id_column (user_table st table) \<notin> fst ` set sets"
    and ids: "\<forall>i row. table_rows lib (ex_engine st) (tablePrefix st table) i = Some row \<longrightarrow>
       rowIDString lib (row_value row (id_column (user_table st table))) = i"
    and utf8: "\<forall>i row. table_rows lib (ex_engine st) (tablePrefix st table) i = Some row \<longrightarrow> utf8_row (apply_set lib sets row)"
    and run: "Execute lib (planUpdate (UpdateStmt table sets cond)) st = (r, st')"
  shows "table_inv lib st' table \<and>
    (\<forall>i. rel_option (\<lambda>row row'. if selected lib cond row
            then (row' = row \<or> map_of row' = map_of (set_row lib sets row)) \<and>
                 (\<forall>res. r = Inr res \<longrightarrow> map_of row' = map_of (set_row lib sets row))
            else row' = row)
       (table_rows lib (ex_engine st) (tablePrefix st table) i) (table_rows lib (ex_engine st') (tablePrefix st table) i))"
proof -
  note inv' = table_inv_simps [OF inv]
  let ?meta = "user_table st table" and ?p = "tablePrefix st table"
  let ?id = "\<lambda>row. rowIDString lib (row_value row (id_column ?meta))"
  let ?rs = "filter (selected lib cond) (scanned_rows lib st table)" and ?R = "table_rows lib (ex_engine st) ?p"
  have d: "distinct (map ?id ?rs)"
    using distinct_scanned [OF inv'(1), of lib table ?id] ids by (simp add: distinct_map_filter)
  have sel: "row \<in> set ?rs \<longleftrightarrow> (\<exists>i. ?R i = Some row) \<and> selected lib cond row" for row
    using set_scanned_rows [OF inv'(1), of lib table] by (auto simp: ran_def)
  have rows: "\<forall>row \<in> set ?rs. utf8_row (apply_set lib sets row) \<and> ?R (?id row) = Some row"
    using sel ids utf8 by metis
  obtain k st1 where upd: "update_rows lib table ?p ?meta sets ?rs 0 st = (k, st1)" by (meson surj_pair)
  obtain cols where scan: "Execute lib (case cond of Some w \<Rightarrow> FilterNode (ScanNode table [] None) w | None \<Rightarrow> ScanNode table [] None) st =
      (Inr (query_result cols ?rs), st)"
    using condition_scan [OF inv'(2)] by blast
  have r: "r = map_sum id affected_result k" "st' = st1"
    using run inv'(2) upd scan
    by (simp_all add: planUpdate_def Let_def with_input_def executeUpdate_def query_result_def split: sum.splits)
  note U = update_rows_table [OF upd inv law sets d rows]
  have "rel_option (\<lambda>row row'. if selected lib cond row
            then (row' = row \<or> map_of row' = map_of (set_row lib sets row)) \<and>
                 (\<forall>res. r = Inr res \<longrightarrow> map_of row' = map_of (set_row lib sets row))
            else row' = row) (?R i) (table_rows lib (ex_engine st') ?p i)" for i
  proof (cases "i \<in> ?id ` set ?rs")
    case True
    then obtain row where row: "row \<in> set ?rs" "i = ?id row" by blast
    obtain row' where "table_rows lib (ex_engine st') ?p i = Some row'"
      "row' = row \<or> map_of row' = map_of (set_row lib sets row)"
      "\<forall>j. k = Inr j \<longrightarrow> map_of row' = map_of (set_row lib sets row)"
      using U row r(2) by blast
    then show ?thesis using rows row sel r(1) by (cases k) auto
  next
    case False
    then have "table_rows lib (ex_engine st') ?p i = ?R i" using U r(2) by blast
    moreover have "\<not> selected lib cond row" if "?R i = Some row" for row
      using False sel ids that by (metis image_eqI)
    ultimately show ?thesis by (cases "?R i") simp_all
  qed
  then show ?thesis using U r(2) by blast
qed

end
