(* ===== verification/SqlExecBugs.thy ===== *)
theory SqlExecBugs
  imports SqlExecProps
begin

text \<open>
  Statements that leave tables, indexes and their entries out of step.
\<close>

section \<open>A changed key and unique indexes\<close>

lemma batch_del: "engine_get (engine_batch_write s (map del_op ds)) k = (if k \<in> set ds then None else engine_get s k)"
  using batch_del_put [of s ds "[]"] by simp

lemma index_entry_row:
  assumes "table_inv lib st table" "meta \<in> set (indexes_of st table)" "NUL \<notin> set i"
    and "entryKey meta w i \<in> index_entries (ex_engine st) meta"
  shows "table_rows lib (ex_engine st) (tablePrefix st table) i \<noteq> None"
proof -
  note inv = table_inv_simps [OF assms(1)]
  have "entryKey meta w i \<in> keys_of_rows (xl_unicode lib) meta (table_rows lib (ex_engine st) (tablePrefix st table))"
    using inv(6) assms(2,4) by (simp add: index_holds_def)
  then obtain j row where j: "table_rows lib (ex_engine st) (tablePrefix st table) j = Some row"
    "entryKey meta w i \<in> set (row_keys (xl_unicode lib) meta row j)"
    by (auto simp: keys_of_rows_def)
  then obtain v where "entryKey meta w i = entryKey meta v j" using row_keys_shape by blast
  moreover have "NUL \<notin> set j" using inv(5) j(1) by (auto simp: rows_ok_def)
  ultimately have "i = j" using entryKey_inject assms(3) by blast
  with j(1) show ?thesis by simp
qed

text \<open>
  C19: when an \<open>UPDATE\<close> changes the key of a row, a violation of a unique index is not reported: the row is
  stored under its new key all the same, and without an entry in any index of the table.
\<close>

theorem changed_key_escapes_unique:
  assumes inv: "table_inv lib st table" and old: "table_rows lib (ex_engine st) (tablePrefix st table) oldID = Some row"
    and key: "rowIDString lib (row_value row (id_column meta)) = oldID"
    and newID: "updated_id lib (ex_engine st) meta (apply_set lib sets row) oldID = Inr newID" "newID \<noteq> oldID" "newID \<noteq> []" "NUL \<notin> set newID"
    and free: "table_rows lib (ex_engine st) (tablePrefix st table) newID = None"
    and unique: "InsertRowOps (xl_unicode lib) (ex_indexes st) (ex_engine st) table (apply_set lib sets row) newID = Inl e"
    and json: "xl_row_enc lib (apply_set lib sets row) = Some data" "xl_row_dec lib data = Some row'"
  shows "\<exists>st'. update_row lib table (tablePrefix st table) meta sets row st = (Inr True, st') \<and>
    table_rows lib (ex_engine st') (tablePrefix st table) newID = Some row' \<and>
    (\<forall>ix \<in> set (indexes_of st table). \<forall>w. entryKey ix w newID \<notin> index_entries (ex_engine st') ix)"
proof -
  let ?p = "tablePrefix st table" and ?ks = "opt_keys (xl_unicode lib) (indexes_of st table) (Some row) oldID"
  let ?ops = "row_del ?p oldID # row_put ?p newID data # map del_op ?ks"
  let ?st' = "write_batch st ?ops"
  note inv' = table_inv_simps [OF inv]
  have "oldID \<noteq> []" using inv'(5) old by (auto simp: rows_ok_def)
  then have run: "update_row lib table ?p meta sets row st = (Inr True, ?st')"
    using key newID json(1) unique
    by (simp add: update_row_def Let_def update_index_ops_def DeleteRowOps_opt_keys indexes_of_def)
  have get: "engine_get (ex_engine ?st') k =
      (if k \<in> set ?ks then None else if k = EncodeKey (byte_of ?p) newID then Some data
       else if k = EncodeKey (byte_of ?p) oldID then None else engine_get (ex_engine st) k)" for k
  proof -
    have "ex_engine ?st' = engine_batch_write (engine_batch_write (engine_batch_write (ex_engine st) (row_ops ?p oldID None))
        (row_ops ?p newID (Some data))) (map del_op ?ks)"
      by (simp add: row_ops_def flip: batch_write_append)
    then show ?thesis by (simp only: batch_del engine_get_row_ops)
  qed
  have "EncodeKey (byte_of ?p) newID \<notin> set ?ks"
    using opt_keys_head inv'(3) by (fastforce simp: EncodeKey_def)
  then have "table_rows lib (ex_engine ?st') ?p newID = Some row'"
    unfolding table_rows_def get using json(2) by simp
  moreover have "entryKey ix w newID \<notin> index_entries (ex_engine ?st') ix" if ix: "ix \<in> set (indexes_of st table)" for ix w
  proof
    assume "entryKey ix w newID \<in> index_entries (ex_engine ?st') ix"
    moreover have "entryKey ix w newID \<noteq> EncodeKey (byte_of ?p) j" for j
      using index_key_head [OF entry_in_prefix] inv'(3) by (metis EncodeKey_def list.inject)
    ultimately have "entryKey ix w newID \<in> index_entries (ex_engine st) ix"
      unfolding index_entries_def mem_Collect_eq get by (auto split: if_splits)
    then show False using index_entry_row [OF inv ix newID(4)] free by blast
  qed
  ultimately show ?thesis using run by blast
qed

section \<open>DROP TABLE of a built-in table\<close>

lemma drop_index_state:
  assumes "kv_ok (ex_engine st)" "map_of (ex_indexes st) name = Some meta"
  shows "ex_indexes (drop_index name st) = AList.delete name (ex_indexes st)" "ex_tables (drop_index name st) = ex_tables st"
    "index_entries (ex_engine (drop_index name st)) meta = {}" "kv_ok (ex_engine (drop_index name st))"
proof -
  obtain r m' s' where run: "im_Drop name True (ex_indexes st, ex_engine st) = (r, m', s')" by (metis prod_cases3)
  note d = drop_index_removes_entries [OF assms run]
  show "ex_indexes (drop_index name st) = AList.delete name (ex_indexes st)" "ex_tables (drop_index name st) = ex_tables st"
    "index_entries (ex_engine (drop_index name st)) meta = {}"
    using d by (simp_all add: drop_index_def run)
  show "kv_ok (ex_engine (drop_index name st))"
    using run assms by (auto simp: drop_index_def im_Drop_def Let_def kv_simps split: if_splits)
qed

lemma drop_indexes_state:
  assumes "kv_ok (ex_engine st)" "distinct (map im_Name ms)" "\<forall>meta \<in> set ms. map_of (ex_indexes st) (im_Name meta) = Some meta"
  shows "ex_indexes (fold (\<lambda>meta. drop_index (im_Name meta)) ms st) = fold (\<lambda>meta. AList.delete (im_Name meta)) ms (ex_indexes st) \<and>
    ex_tables (fold (\<lambda>meta. drop_index (im_Name meta)) ms st) = ex_tables st"
  using assms
proof (induction ms arbitrary: st)
  case (Cons meta ms)
  let ?st1 = "drop_index (im_Name meta) st"
  have "map_of (ex_indexes st) (im_Name meta) = Some meta" using Cons.prems(3) by simp
  note d = drop_index_state [OF Cons.prems(1) this]
  have "map_of (ex_indexes ?st1) (im_Name m) = Some m" if m: "m \<in> set ms" for m
  proof -
    have "im_Name m \<noteq> im_Name meta" using m Cons.prems(2) by (metis distinct.simps(2) image_eqI image_set list.map(2))
    then show ?thesis using m Cons.prems(3) by (simp add: d(1) delete_conv')
  qed
  then have "ex_indexes (fold (\<lambda>meta. drop_index (im_Name meta)) ms ?st1) = fold (\<lambda>meta. AList.delete (im_Name meta)) ms (ex_indexes ?st1) \<and>
      ex_tables (fold (\<lambda>meta. drop_index (im_Name meta)) ms ?st1) = ex_tables ?st1"
    using Cons.prems(2) by (intro Cons.IH d(4)) simp_all
  then show ?case by (simp add: d(1,2))
qed simp

lemma set_fold_delete: "set (fold (\<lambda>meta. AList.delete (im_Name meta)) ms m) = {(n, x) \<in> set m. n \<notin> im_Name ` set ms}"
  by (induction ms arbitrary: m) (auto simp: AList.delete_eq)

text \<open>
  \<open>DROP TABLE\<close> of a built-in table is refused, but only after all of its indexes have been dropped.
\<close>

lemma refused_drop_removes_indexes:
  assumes "kv_ok (ex_engine st)" "isBuiltinTable table" "tm_get (ex_tables st) table = Some meta"
    and "distinct (map fst (ex_indexes st))" "\<forall>(n, ix) \<in> set (ex_indexes st). im_Name ix = n"
  shows "\<exists>st'. executeDropTable ifExists table st = (Inl (TableFailed (BuiltinTable table)), st') \<and>
    indexes_of st' table = [] \<and> ex_tables st' = ex_tables st"
proof -
  let ?ms = "ListByTable (ex_indexes st) table"
  let ?st1 = "fold (\<lambda>meta. drop_index (im_Name meta)) ?ms st"
  have ms: "ix \<in> set ?ms \<longleftrightarrow> equal_fold (im_Table ix) table \<and> (im_Name ix, ix) \<in> set (ex_indexes st)" for ix
    using assms(5) by (force simp: ListByTable_def)
  have "map im_Name (map snd (ex_indexes st)) = map fst (ex_indexes st)"
    using assms(5) by auto
  then have d: "distinct (map im_Name ?ms)" using assms(4) by (simp only: ListByTable_def distinct_map_filter)
  have st1: "ex_indexes ?st1 = fold (\<lambda>meta. AList.delete (im_Name meta)) ?ms (ex_indexes st)" "ex_tables ?st1 = ex_tables st"
    using drop_indexes_state [OF assms(1) d] ms assms(4) by simp_all
  have "ix \<notin> set (ListByTable (ex_indexes ?st1) table)" for ix
  proof
    assume "ix \<in> set (ListByTable (ex_indexes ?st1) table)"
    then obtain n where n: "(n, ix) \<in> set (ex_indexes ?st1)" "equal_fold (im_Table ix) table"
      unfolding ListByTable_def by auto
    then have m: "(n, ix) \<in> set (ex_indexes st)" "n \<notin> im_Name ` set ?ms" unfolding st1(1) set_fold_delete by simp_all
    then have "ix \<in> set ?ms" "im_Name ix = n" using n(2) assms(5) ms by auto
    with m(2) show False by blast
  qed
  then have "ListByTable (ex_indexes ?st1) table = []" by (metis list.set_intros(1) neq_Nil_conv)
  moreover have "executeDropTable ifExists table st = (Inl (TableFailed (BuiltinTable table)), ?st1)"
  proof -
    have "tm_drop table ifExists (ex_tables ?st1) (ex_engine ?st1) = (Inl (BuiltinTable table), ex_tables ?st1, ex_engine ?st1)"
      using assms(2,3) st1(2) by (simp add: tm_drop_def tm_get_def)
    then show ?thesis unfolding executeDropTable_def Let_def by (simp add: table_result_def)
  qed
  ultimately show ?thesis using st1(2) by (simp add: indexes_of_def)
qed

section \<open>CREATE INDEX IF NOT EXISTS\<close>

text \<open>
  \<open>CREATE INDEX IF NOT EXISTS\<close> with the name of an index that exists, on whatever table, fills that
  index with the rows of the table of the statement.
\<close>

lemma if_not_exists_fills_other_index:
  assumes "im_Name stmt \<noteq> []" "im_Table stmt \<noteq> []" "im_Column stmt \<noteq> []" "tablePrefix st (im_Table stmt) \<noteq> 0"
    and "\<not> (im_Unique stmt \<and> to_upper (im_Type stmt) = TypeInverted)"
    and other: "im_Get (ex_indexes st) (im_Name stmt) = Some meta"
    and run: "executeCreateIndex lib True stmt st = (Inr r, st')"
    and row: "(row, i) \<in> set (backfill_rows lib (ex_engine st) (tablePrefix st (im_Table stmt)))"
    and k: "k \<in> set (row_keys (xl_unicode lib) meta row i)"
  shows "k \<in> index_entries (ex_engine st') meta"
proof -
  let ?rows = "backfill_rows lib (ex_engine st) (tablePrefix st (im_Table stmt))"
  let ?meta = "stmt\<lparr>im_Type := to_upper (im_Type stmt)\<rparr>"
  have "im_Create (xl_index_enc lib) ?meta True (ex_indexes st, ex_engine st) = (Inr (), ex_indexes st, ex_engine st)"
    using assms(1-3) other by (simp add: im_Create_def im_Get_def Let_def)
  then have "executeCreateIndex lib True stmt st = backfill_index lib (im_Name stmt) (im_Table stmt) st"
    using assms(4,5) unfolding executeCreateIndex_def Let_def by auto
  with run have fill: "backfill_index lib (im_Name stmt) (im_Table stmt) st = (Inr r, st')" by simp
  have "?rows \<noteq> []" using row by auto
  with fill obtain s where s: "RebuildFromRows (xl_unicode lib) meta (map fst ?rows) (map snd ?rows) (ex_engine st) = (None, s)"
    "st' = st\<lparr>ex_engine := s\<rparr>"
    using assms(4) other unfolding backfill_index_def Let_def by (auto split: if_splits prod.splits option.splits)
  then obtain ops where ops: "rebuild_ops (xl_unicode lib) meta ?rows [] [] = Inr ops" "s = engine_batch_write (ex_engine st) ops"
    unfolding RebuildFromRows_def zip_map_fst_snd by (auto simp: write_ops_batch split: sum.splits)
  let ?ks = "concat (map (\<lambda>(row, i). row_keys (xl_unicode lib) meta row i) ?rows)"
  have "s = engine_batch_write (ex_engine st) (map del_op [] @ map put_op ?ks)"
    using rebuild_ops_keys [OF ops(1)] ops(2) by simp
  moreover have "k \<in> set ?ks" using row k by force
  ultimately have "engine_get s k = Some [CHR 0x01]" by (simp only: batch_del_put if_True)
  moreover have "prefix (indexDataPrefix meta) k" using row_keys_shape [OF k] entry_in_prefix by auto
  ultimately show ?thesis by (simp add: index_entries_def s(2))
qed

end
