(* ===== verification/SqlQueryProps.thy ===== *)
theory SqlQueryProps
  imports SqlExecBugs "HOL-Library.Multiset"
begin

text \<open>
  What holds of executed queries: they change nothing, an indexed equality finds what its condition
  says (or, for text, more), sorting, grouping and aggregates.
\<close>

section \<open>Queries change nothing\<close>

fun is_query :: "plan_node \<Rightarrow> bool" where
  "is_query (ScanNode _ _ _) = True"
| "is_query (IndexScanNode _) = True"
| "is_query (FilterNode n _) = is_query n"
| "is_query (ProjectNode n _) = is_query n"
| "is_query (SortNode n _) = is_query n"
| "is_query (ReverseNode n) = is_query n"
| "is_query (IndexOrderedScanNode _ _ _ _ _) = True"
| "is_query (LimitNode n _ _) = is_query n"
| "is_query (AggregateNode n _ _ _) = is_query n"
| "is_query (JoinNode l r _ _) = (is_query l \<and> is_query r)"
| "is_query _ = False"

lemma snd_with_input: "snd (with_input p (\<lambda>r st. (f r, st))) = snd p"
  by (auto simp: with_input_def split: sum.split prod.split)

lemma query_keeps_state: "is_query n \<Longrightarrow> snd (Execute lib n st) = st"
proof (induction n arbitrary: st)
  case (JoinNode l r kind on)
  obtain a sa where l: "Execute lib l st = (a, sa)" by (meson surj_pair)
  obtain b sb where r: "Execute lib r st = (b, sb)" by (meson surj_pair)
  have "sa = st" "sb = st" using JoinNode.IH(1,2) [of st] JoinNode.prems by (simp_all add: l r)
  then show ?case using l r by (simp add: with_input_def split: sum.split)
qed (simp_all add: snd_with_input)

lemma is_query_injectReverse: "is_query n \<Longrightarrow> is_query (injectReverse n)"
  by (induction n rule: injectReverse.induct) auto

lemma is_query_joins: "is_query n \<Longrightarrow> is_query (plan_joins joins n)"
  by (induction joins arbitrary: n) (auto simp: plan_joins_def)

lemma is_query_order: "is_query n \<Longrightarrow> plan_order cat s frm n = (n', b) \<Longrightarrow> is_query n'"
  by (auto simp: plan_order_def Let_def is_query_injectReverse split: list.splits prod.splits option.splits if_splits)

lemma is_query_select: "planSelect cat s = Inr n \<Longrightarrow> is_query n"
proof -
  assume plan: "planSelect cat s = Inr n"
  obtain frm where frm: "sel_From s = Some frm" using plan by (cases "sel_From s") (auto simp: planSelect_def)
  obtain n0 c where src: "plan_source cat s frm = (n0, c)" by (meson surj_pair)
  have "is_query n0" using src by (auto simp: plan_source_def split: if_splits option.splits prod.splits)
  then have "is_query (plan_project s (plan_where s c (plan_joins (sel_Joins s) n0)))"
    using is_query_joins [of n0 "sel_Joins s"] by (simp add: plan_project_def plan_where_def split: option.split)
  moreover obtain n2 o2 where "plan_order cat s frm (plan_project s (plan_where s c (plan_joins (sel_Joins s) n0))) = (n2, o2)"
    by (meson surj_pair)
  ultimately show ?thesis
    using plan frm src is_query_order by (fastforce simp: planSelect_def plan_limit_def Let_def split: if_splits)
qed

fun only_reads :: "statement \<Rightarrow> bool" where
  "only_reads (Select _) = True"
| "only_reads ShowTablesStmt = True"
| "only_reads (DescribeTableStmt _) = True"
| "only_reads (ShowIndexesStmt _) = True"
| "only_reads _ = False"

text \<open>
  C20: a request whose text is no statement, or one that only reads, leaves engine, tables and indexes as
  they are, whatever plan is chosen for it.
\<close>

theorem reading_changes_nothing:
  assumes "\<forall>stmt rest. Parse body = POk stmt rest \<longrightarrow> only_reads stmt"
  shows "snd (handleQuery lib body st) = st"
proof (cases "Parse body")
  case (POk stmt rest)
  then have "only_reads stmt" using assms by blast
  then have "snd (Execute lib plan st) = st" if "Plan cat stmt = Inr plan" for cat plan
    using that query_keeps_state is_query_select by (cases stmt) (auto simp: Plan_def)
  then have "snd (case Execute lib plan st of (Inl e, st) \<Rightarrow> (Inl (ExecuteFailed e), st) | (Inr r, st) \<Rightarrow> (Inr r, st)) = st"
    if "Plan (Some (executorCatalog_FindByColumn st)) stmt = Inr plan" for plan
    using \<open>\<And>plan cat. Plan cat stmt = Inr plan \<Longrightarrow> snd (Execute lib plan st) = st\<close> [OF that]
    by (cases "Execute lib plan st") (auto split: sum.split)
  then show ?thesis by (simp add: handleQuery_def POk split: sum.split)
qed (simp_all add: handleQuery_def)

section \<open>Equality through an index\<close>

lemma aliased_Nil [simp]: "aliased [] = (\<lambda>r. r)"
  by (simp add: aliased_def fun_eq_iff)

lemma finite_table_rows: "finite (dom (table_rows lib s p))"
proof -
  have "dom (table_rows lib s p) \<subseteq> tl ` fst ` set s"
  proof
    fix i assume "i \<in> dom (table_rows lib s p)"
    then have "EncodeKey (byte_of p) i \<in> fst ` set s"
      by (force simp: table_rows_def engine_get_def bind_eq_Some_conv dest!: map_of_SomeD)
    then show "i \<in> tl ` fst ` set s" by (force simp: EncodeKey_def)
  qed
  then show ?thesis by (rule finite_subset) simp
qed

lemma set_of_mset_rows:
  assumes "mset xs = image_mset (\<lambda>i. the (R i)) (mset_set {i. \<exists>row. R i = Some row \<and> Q row})" "finite (dom R)"
  shows "set xs = {row \<in> ran R. Q row}"
proof -
  have "finite {i. \<exists>row. R i = Some row \<and> Q row}" using assms(2) by (rule rev_finite_subset) auto
  then have "set xs = (\<lambda>i. the (R i)) ` {i. \<exists>row. R i = Some row \<and> Q row}"
    using arg_cong [OF assms(1), of set_mset] by simp
  then show ?thesis by (force simp: ran_def)
qed

lemma fetch_rows_mset:
  assumes "\<forall>i \<in> set ids. table_rows lib s p i \<noteq> None"
  shows "mset (fetch_rows lib s p [] ids) = image_mset (\<lambda>i. the (table_rows lib s p i)) (mset_set (set ids))"
proof -
  have "fetch_rows lib s p [] ids = List.map_filter (table_rows lib s p) (first_occurrences ids)"
    unfolding fetch_rows_def
    by (rule arg_cong [of _ _ "\<lambda>f. List.map_filter f _"])
      (auto simp: table_rows_def option.map_ident fun_eq_iff split: option.split)
  also have "\<dots> = map (\<lambda>i. the (table_rows lib s p i)) (first_occurrences ids)"
    using assms by (auto simp: List.map_filter_def first_occurrences_def comp_def)
  finally show ?thesis
    using mset_set_set [of "remdups (rev ids)"] by (simp add: first_occurrences_def)
qed

lemma scanned_rows_mset:
  assumes "kv_ok (ex_engine st)"
  shows "mset (filter P (scanned_rows lib st table)) =
    image_mset (\<lambda>i. the (table_rows lib (ex_engine st) (tablePrefix st table) i))
      (mset_set {i. \<exists>row. table_rows lib (ex_engine st) (tablePrefix st table) i = Some row \<and> P row})"
proof -
  let ?p = "tablePrefix st table" and ?s = "ex_engine st"
  let ?R = "table_rows lib ?s ?p" and ?q = "\<lambda>(k, v). case xl_row_dec lib v of None \<Rightarrow> False | Some row \<Rightarrow> P row"
  let ?items = "filter ?q (table_items ?s ?p)" and ?id = "\<lambda>x :: bytes \<times> bytes. tl (fst x)"
  have item: "k = EncodeKey (byte_of ?p) (tl k) \<and> engine_get ?s k = Some v \<and> ?R (tl k) = xl_row_dec lib v"
    if "(k, v) \<in> set (table_items ?s ?p)" for k v
    using that by (auto simp: set_table_items [OF assms] table_rows_def EncodeKey_def)
  have "filter P (List.map_filter (\<lambda>(_, v). xl_row_dec lib v) xs) = map (\<lambda>(k, v). the (xl_row_dec lib v)) (filter ?q xs)" for xs :: "(bytes \<times> bytes) list"
    by (induction xs) (auto simp: List.map_filter_simps split: option.split)
  then have "filter P (scanned_rows lib st table) = map (\<lambda>(k, v). the (xl_row_dec lib v)) ?items"
    by (simp only: scanned_rows_def)
  also have "\<dots> = map (\<lambda>x. the (?R (?id x))) ?items"
  proof (intro map_cong refl)
    fix x assume "x \<in> set ?items"
    then have "(fst x, snd x) \<in> set (table_items ?s ?p)" by simp
    from item [OF this] show "(case x of (k, v) \<Rightarrow> the (xl_row_dec lib v)) = the (?R (?id x))"
      by (simp add: case_prod_beta)
  qed
  finally have "mset (filter P (scanned_rows lib st table)) = image_mset (\<lambda>i. the (?R i)) (mset (map ?id ?items))"
    by (simp only: mset_map multiset.map_comp comp_def)
  moreover have "inj_on ?id (set (table_items ?s ?p))"
  proof (rule inj_onI)
    fix x y assume "x \<in> set (table_items ?s ?p)" "y \<in> set (table_items ?s ?p)" "?id x = ?id y"
    moreover from this have "fst x = fst y"
      using item [of "fst x" "snd x"] item [of "fst y" "snd y"] by (metis prod.collapse)
    ultimately show "x = y" using item [of "fst x" "snd x"] item [of "fst y" "snd y"]
      by (metis option.inject prod.collapse)
  qed
  then have "inj_on ?id (set ?items)" by (rule inj_on_subset) auto
  then have "distinct (map ?id ?items)"
    using distinct_table_items [OF assms, of ?p] by (simp only: distinct_map distinct_filter simp_thms)
  moreover have "set (map ?id ?items) = {i. \<exists>row. ?R i = Some row \<and> P row}"
  proof (intro set_eqI iffI)
    fix i assume "i \<in> set (map ?id ?items)"
    then obtain k v where kv: "(k, v) \<in> set (table_items ?s ?p)" "?q (k, v)" "i = tl k" by auto
    then show "i \<in> {i. \<exists>row. ?R i = Some row \<and> P row}"
      using item [OF kv(1)] by (auto split: option.splits)
  next
    fix i assume "i \<in> {i. \<exists>row. ?R i = Some row \<and> P row}"
    then obtain row v where v: "engine_get ?s (EncodeKey (byte_of ?p) i) = Some v" "xl_row_dec lib v = Some row" "P row"
      by (auto simp: table_rows_def bind_eq_Some_conv)
    then have "(EncodeKey (byte_of ?p) i, v) \<in> set ?items" by (auto simp: set_table_items [OF assms])
    then show "i \<in> set (map ?id ?items)" by (force simp: EncodeKey_def)
  qed
  ultimately show ?thesis using mset_set_set [of "map ?id ?items"] by (simp only:)
qed

text \<open>\<open>SELECT * FROM table WHERE cond\<close>\<close>

definition star_where :: "bytes \<Rightarrow> expr \<Rightarrow> select_stmt" where
  "star_where table cond =
     SelectStmt False [(StarExpr, [])] (Some \<lparr>ref_name = table, ref_alias = []\<rparr>) [] (Some cond) [] None [] None None"

definition equals :: "bytes \<Rightarrow> expr \<Rightarrow> expr" where
  "equals col lit = BinaryExpr TOKEN_EQ (IdentifierExpr col []) lit"

lemma hasAggregates_star: "\<not> hasAggregates [(StarExpr, [])]"
  by (simp add: hasAggregates_def isAggregateExpr_def)

lemma plan_star_scan:
  "Plan None (Select (star_where table cond)) = Inr (ProjectNode (FilterNode (ScanNode table [] None) cond) [(StarExpr, [])])"
  using hasAggregates_star
  by (simp add: Plan_def star_where_def planSelect_def plan_source_def plan_joins_def plan_where_def isIndexNode_def
      plan_project_def plan_order_def plan_limit_def)

lemma plan_star_index:
  assumes "literalOf lit = Some v" "col \<noteq> []" "pickIndex cat table col ''EQ'' = Some idx"
  shows "Plan cat (Select (star_where table (equals col lit))) = Inr (ProjectNode
    (IndexScanNode ((index_scan_on \<lparr>ref_name = table, ref_alias = []\<rparr> (ii_Name idx) col IndexOpEqual)\<lparr>is_Equal := v\<rparr>))
    [(StarExpr, [])])"
proof -
  have "cat \<noteq> None" using assms(3) by (metis option.distinct(1) pickIndex_None)
  moreover have "tryIndexScan cat \<lparr>ref_name = table, ref_alias = []\<rparr> (equals col lit) =
      (Some ((index_scan_on \<lparr>ref_name = table, ref_alias = []\<rparr> (ii_Name idx) col IndexOpEqual)\<lparr>is_Equal := v\<rparr>), None)"
    using assms by (simp add: tryIndexScan_def equals_def matchIndexPredicate_def match_comparison_def extractColLiteral_def joinAnd_def
        literalOf_def)
  ultimately show ?thesis
    using hasAggregates_star
    by (simp add: Plan_def star_where_def planSelect_def plan_source_def plan_joins_def plan_where_def isIndexNode_def
        plan_project_def plan_order_def plan_limit_def)
qed

text \<open>The index manager's keys are the names of its indexes.\<close>

definition manager_ok :: "index_manager \<Rightarrow> bool" where
  "manager_ok m \<longleftrightarrow> distinct (map fst m) \<and> (\<forall>(n, meta) \<in> set m. n \<noteq> [] \<and> im_Name meta = n)"

text \<open>Every index of the column is a hash or a B-tree on the column as it is spelt.\<close>

definition equality_indexed :: "executor \<Rightarrow> bytes \<Rightarrow> bytes \<Rightarrow> bool" where
  "equality_indexed st table col \<longleftrightarrow>
     FindByColumn (ex_indexes st) table col \<noteq> [] \<and>
     (\<forall>meta \<in> set (FindByColumn (ex_indexes st) table col).
        im_Column meta = col \<and> (im_Type meta = TypeHash \<or> im_Type meta = TypeBTree))"

lemma picked_index:
  assumes "manager_ok (ex_indexes st)" "equality_indexed st table col"
  obtains idx meta where "pickIndex (Some (executorCatalog_FindByColumn st)) table col ''EQ'' = Some idx"
    "im_Get (ex_indexes st) (ii_Name idx) = Some meta" "ii_Name idx \<noteq> []" "meta \<in> set (FindByColumn (ex_indexes st) table col)"
proof -
  let ?cat = "executorCatalog_FindByColumn st table col"
  have ne: "?cat \<noteq> []" using assms(2) by (simp add: equality_indexed_def executorCatalog_FindByColumn_def)
  have all: "\<forall>m \<in> set ?cat. ii_Type m = ''BTREE'' \<or> ii_Type m = ''HASH''"
    using assms(2) by (auto simp: equality_indexed_def executorCatalog_FindByColumn_def TypeHash_def TypeBTree_def)
  then have "find (\<lambda>m. ii_Type m = ''BTREE'' \<or> ii_Type m = ''HASH'') ?cat \<noteq> None"
    using ne by (cases ?cat) (auto simp: find_None_iff)
  then obtain idx where idx: "pickIndex (Some (executorCatalog_FindByColumn st)) table col ''EQ'' = Some idx"
    using ne by (cases "find (\<lambda>m. ii_Type m = ''HASH'') ?cat") (auto simp: pickIndex_def)
  then have "idx \<in> set ?cat" using pickIndex_member by blast
  then obtain meta where meta: "meta \<in> set (FindByColumn (ex_indexes st) table col)" "ii_Name idx = im_Name meta"
    by (auto simp: executorCatalog_FindByColumn_def)
  then obtain n where n: "(n, meta) \<in> set (ex_indexes st)" by (auto simp: FindByColumn_def)
  then have "n \<noteq> []" "im_Name meta = n" "map_of (ex_indexes st) n = Some meta"
    using assms(1) by (auto simp: manager_ok_def intro: map_of_is_SomeI)
  then show ?thesis using that [OF idx] meta by (simp add: im_Get_def)
qed

lemma execute_star_index:
  assumes inv: "table_inv lib st table" and m: "manager_ok (ex_indexes st)" "equality_indexed st table col"
    and lit: "literalOf lit = Some v" "col \<noteq> []" and plain: "plain_value v"
      "\<forall>i row w. table_rows lib (ex_engine st) (tablePrefix st table) i = Some row \<longrightarrow> map_of row col = Some w \<longrightarrow> plain_value w"
  shows "\<exists>plan res. Plan (Some (executorCatalog_FindByColumn st)) (Select (star_where table (equals col lit))) = Inr plan \<and>
    Execute lib plan st = (Inr res, st) \<and>
    mset (rs_rows res) = image_mset (\<lambda>i. the (table_rows lib (ex_engine st) (tablePrefix st table) i))
      (mset_set {i. \<exists>row. table_rows lib (ex_engine st) (tablePrefix st table) i = Some row \<and>
         (\<exists>w. map_of row col = Some w \<and> EncodeValue w = EncodeValue v)})"
proof -
  note inv' = table_inv_simps [OF inv]
  let ?R = "table_rows lib (ex_engine st) (tablePrefix st table)"
  obtain idx meta where idx: "pickIndex (Some (executorCatalog_FindByColumn st)) table col ''EQ'' = Some idx"
    "im_Get (ex_indexes st) (ii_Name idx) = Some meta" "ii_Name idx \<noteq> []" "meta \<in> set (FindByColumn (ex_indexes st) table col)"
    by (rule picked_index [OF m])
  have meta: "im_Column meta = col" "im_Type meta = TypeHash \<or> im_Type meta = TypeBTree"
    using idx(4) m(2) by (auto simp: equality_indexed_def)
  have "meta \<in> set (indexes_of st table)" using idx(4) by (auto simp: FindByColumn_def indexes_of_def ListByTable_def)
  from lookup_equal_rows [OF inv'(1) this inv'(6,5) meta(2) plain(1) plain(2) [folded meta(1)]]
  have "i \<in> set (LookupEqual (ex_engine st) meta v) \<longleftrightarrow>
      (\<exists>row w. ?R i = Some row \<and> map_of row col = Some w \<and> EncodeValue w = EncodeValue v)" for i
    unfolding meta(1) .
  then have ids: "set (LookupEqual (ex_engine st) meta v) =
      {i. \<exists>row. ?R i = Some row \<and> (\<exists>w. map_of row col = Some w \<and> EncodeValue w = EncodeValue v)}"
    by blast
  let ?rows = "fetch_rows lib (ex_engine st) (tablePrefix st table) [] (LookupEqual (ex_engine st) meta v)"
  have "\<forall>i \<in> set (LookupEqual (ex_engine st) meta v). ?R i \<noteq> None" using ids by auto
  from fetch_rows_mset [OF this] have "mset ?rows = image_mset (\<lambda>i. the (?R i))
      (mset_set {i. \<exists>row. ?R i = Some row \<and> (\<exists>w. map_of row col = Some w \<and> EncodeValue w = EncodeValue v)})"
    by (simp only: ids)
  moreover have "Execute lib (ProjectNode
      (IndexScanNode ((index_scan_on \<lparr>ref_name = table, ref_alias = []\<rparr> (ii_Name idx) col IndexOpEqual)\<lparr>is_Equal := v\<rparr>))
      [(StarExpr, [])]) st = (Inr (query_result (guessColumns ?rows) ?rows), st)"
    using idx(2,3) inv'(2)
    by (simp add: with_input_def executeIndexScan_def scan_index_def scan_ids_def index_scan_on_def executeProject_def Let_def)
  ultimately show ?thesis
    using plan_star_index [OF lit idx(1)] by (auto simp: query_result_def)
qed

lemma execute_star_scan:
  assumes "table_inv lib st table"
  shows "\<exists>res. Execute lib (ProjectNode (FilterNode (ScanNode table [] None) cond) [(StarExpr, [])]) st = (Inr res, st) \<and>
    mset (rs_rows res) = image_mset (\<lambda>i. the (table_rows lib (ex_engine st) (tablePrefix st table) i))
      (mset_set {i. \<exists>row. table_rows lib (ex_engine st) (tablePrefix st table) i = Some row \<and> evalBool (xl_go lib) cond row})"
proof -
  note inv = table_inv_simps [OF assms]
  have sel: "selected lib (Some cond) = evalBool (xl_go lib) cond" by (simp add: selected_def fun_eq_iff)
  have "\<exists>res. Execute lib (ProjectNode (FilterNode (ScanNode table [] None) cond) [(StarExpr, [])]) st = (Inr res, st) \<and>
      rs_rows res = filter (evalBool (xl_go lib) cond) (scanned_rows lib st table)"
    using condition_scan [OF inv(2), of lib "Some cond"] unfolding sel
    by (auto simp: with_input_def executeProject_def query_result_def)
  then show ?thesis using scanned_rows_mset [OF inv(1)] by metis
qed

definition orderly_number :: "val \<Rightarrow> bool" where
  "orderly_number v \<longleftrightarrow> (case v of VInt n \<Rightarrow> orderly (f_of_int n) | VFloat f \<Rightarrow> orderly f | _ \<Rightarrow> False)"

lemma encodeNumber_eq_iff: "orderly a \<Longrightarrow> orderly b \<Longrightarrow> encodeNumber a = encodeNumber b \<longleftrightarrow> compareFloat a b = 0"
proof -
  assume o': "orderly a" "orderly b"
  have "unat w < 256 ^ 8" for w :: u64 using unat_bound [of w] by simp
  then have "encodeNumber v < encodeNumber w \<longleftrightarrow> f_less v w" if "orderly v" "orderly w" for v w
    using order_bits_less_iff [OF that] by (simp add: encodeNumber_def escape_less_iff be_bytes_less_iff)
  with o' show ?thesis by (metis compareFloat_def less_irrefl not_less_iff_gr_or_eq zero_neq_neg_one zero_neq_one)
qed

lemma orderly_equal_iff:
  "orderly_number v \<Longrightarrow> orderly_number w \<Longrightarrow> EncodeValue w = EncodeValue v \<longleftrightarrow> compareValues lib w v = 0"
  by (cases v; cases w)
    (simp_all add: orderly_number_def EncodeValue_def encodeNumber_eq_iff compareValues_def isNumeric_def toFloat_def)

lemma evalBool_equals:
  "literalOf lit = Some v \<Longrightarrow> evalBool lib (equals col lit) row \<longleftrightarrow> compareValues lib (row_value row col) v = 0"
  by (simp add: evalBool_def equals_def eval_literal evalBinaryOp_def row_value_def split: option.split)

text \<open>
  C21: on a column of numbers (no NaN, no negative zero) an index does not change the answer of an equality
  query: planned with the indexes of the executor and planned without, \<open>SELECT *\<close> returns the same rows,
  each as often.
\<close>

theorem index_agrees_on_numbers:
  assumes "table_inv lib st table" "manager_ok (ex_indexes st)" "equality_indexed st table col"
    and lit: "literalOf lit = Some v" "col \<noteq> []" "orderly_number v"
    and numbers: "\<forall>i row w. table_rows lib (ex_engine st) (tablePrefix st table) i = Some row \<longrightarrow> map_of row col = Some w \<longrightarrow> orderly_number w"
  shows "\<exists>plan res plan' res'.
    Plan (Some (executorCatalog_FindByColumn st)) (Select (star_where table (equals col lit))) = Inr plan \<and>
    Plan None (Select (star_where table (equals col lit))) = Inr plan' \<and> plan \<noteq> plan' \<and>
    Execute lib plan st = (Inr res, st) \<and> Execute lib plan' st = (Inr res', st) \<and> mset (rs_rows res) = mset (rs_rows res')"
proof -
  let ?R = "table_rows lib (ex_engine st) (tablePrefix st table)"
  have plain: "plain_value w" if "orderly_number w" for w using that by (cases w) (auto simp: orderly_number_def plain_value_def)
  then have "\<forall>i row w. ?R i = Some row \<longrightarrow> map_of row col = Some w \<longrightarrow> plain_value w" using numbers by blast
  from execute_star_index [OF assms(1-3) lit(1,2) plain [OF lit(3)] this]
  obtain plan res where A: "Plan (Some (executorCatalog_FindByColumn st)) (Select (star_where table (equals col lit))) = Inr plan"
    "Execute lib plan st = (Inr res, st)"
    "mset (rs_rows res) = image_mset (\<lambda>i. the (?R i)) (mset_set {i. \<exists>row. ?R i = Some row \<and>
         (\<exists>w. map_of row col = Some w \<and> EncodeValue w = EncodeValue v)})" by blast
  let ?plan = "ProjectNode (FilterNode (ScanNode table [] None) (equals col lit)) [(StarExpr, [])]"
  obtain res' where B: "Execute lib ?plan st = (Inr res', st)"
    "mset (rs_rows res') = image_mset (\<lambda>i. the (?R i))
      (mset_set {i. \<exists>row. ?R i = Some row \<and> evalBool (xl_go lib) (equals col lit) row})"
    using execute_star_scan [OF assms(1)] by blast
  have "compareValues (xl_go lib) VNil v \<noteq> 0" using lit(3) by (auto simp: compareValues_def orderly_number_def)
  then have "(\<exists>w. map_of row col = Some w \<and> EncodeValue w = EncodeValue v) \<longleftrightarrow> evalBool (xl_go lib) (equals col lit) row"
    if "?R i = Some row" for i row
    using that numbers orderly_equal_iff [OF lit(3)]
    by (cases "map_of row col") (auto simp: evalBool_equals [OF lit(1)] row_value_def)
  then have "{i. \<exists>row. ?R i = Some row \<and> (\<exists>w. map_of row col = Some w \<and> EncodeValue w = EncodeValue v)} =
      {i. \<exists>row. ?R i = Some row \<and> evalBool (xl_go lib) (equals col lit) row}" by blast
  then have same: "mset (rs_rows res) = mset (rs_rows res')" by (simp only: A(3) B(2))
  obtain idx meta where "pickIndex (Some (executorCatalog_FindByColumn st)) table col ''EQ'' = Some idx"
    by (rule picked_index [OF assms(2,3)])
  from plan_star_index [OF lit(1,2) this] have "plan \<noteq> ?plan" using A(1) by auto
  then show ?thesis using A(1,2) B(1) same plan_star_scan by blast
qed

text \<open>
  On a column of text the planner drops the condition it serves by an index although the index only
  knows the text in lower case: with an index the query returns the rows that agree up to case, without
  one those that agree.
\<close>

lemma index_equality_ignores_case:
  assumes "table_inv lib st table" "manager_ok (ex_indexes st)" "equality_indexed st table col"
    and "NUL \<notin> set s" "col \<noteq> []"
    and texts: "\<forall>i row. table_rows lib (ex_engine st) (tablePrefix st table) i = Some row \<longrightarrow>
       (\<exists>t. map_of row col = Some (VStr t) \<and> NUL \<notin> set t)"
  shows "\<exists>plan res plan' res'.
    Plan (Some (executorCatalog_FindByColumn st)) (Select (star_where table (equals col (StringLiteralExpr s)))) = Inr plan \<and>
    Plan None (Select (star_where table (equals col (StringLiteralExpr s)))) = Inr plan' \<and>
    Execute lib plan st = (Inr res, st) \<and> Execute lib plan' st = (Inr res', st) \<and>
    set (rs_rows res) = {row \<in> ran (table_rows lib (ex_engine st) (tablePrefix st table)).
       \<exists>t. map_of row col = Some (VStr t) \<and> map lower_byte t = map lower_byte s} \<and>
    set (rs_rows res') = {row \<in> ran (table_rows lib (ex_engine st) (tablePrefix st table)). map_of row col = Some (VStr s)}"
proof -
  let ?R = "table_rows lib (ex_engine st) (tablePrefix st table)" and ?lit = "StringLiteralExpr s"
  have lit: "literalOf ?lit = Some (VStr s)" by (simp add: literalOf_def)
  have "plain_value (VStr s)" using assms(4) by (simp add: plain_value_def)
  moreover have "\<forall>i row w. ?R i = Some row \<longrightarrow> map_of row col = Some w \<longrightarrow> plain_value w"
    using texts by (fastforce simp: plain_value_def)
  ultimately obtain plan res where A: "Plan (Some (executorCatalog_FindByColumn st)) (Select (star_where table (equals col ?lit))) = Inr plan"
    "Execute lib plan st = (Inr res, st)"
    "mset (rs_rows res) = image_mset (\<lambda>i. the (?R i)) (mset_set {i. \<exists>row. ?R i = Some row \<and>
         (\<exists>w. map_of row col = Some w \<and> EncodeValue w = EncodeValue (VStr s))})"
    using execute_star_index [OF assms(1-3) lit assms(5)] by blast
  obtain res' where B: "Execute lib (ProjectNode (FilterNode (ScanNode table [] None) (equals col ?lit)) [(StarExpr, [])]) st = (Inr res', st)"
    "mset (rs_rows res') = image_mset (\<lambda>i. the (?R i))
      (mset_set {i. \<exists>row. ?R i = Some row \<and> evalBool (xl_go lib) (equals col ?lit) row})"
    using execute_star_scan [OF assms(1)] by blast
  note rows = set_of_mset_rows [OF A(3) finite_table_rows] set_of_mset_rows [OF B(2) finite_table_rows]
  have "(\<exists>w. map_of row col = Some w \<and> EncodeValue w = EncodeValue (VStr s)) \<longleftrightarrow>
      (\<exists>t. map_of row col = Some (VStr t) \<and> map lower_byte t = map lower_byte s)"
    "evalBool (xl_go lib) (equals col ?lit) row \<longleftrightarrow> map_of row col = Some (VStr s)" if row: "row \<in> ran ?R" for row
  proof -
    obtain t where t: "map_of row col = Some (VStr t)" "NUL \<notin> set t" using row texts unfolding ran_def by blast
    show "(\<exists>w. map_of row col = Some w \<and> EncodeValue w = EncodeValue (VStr s)) \<longleftrightarrow>
        (\<exists>t. map_of row col = Some (VStr t) \<and> map lower_byte t = map lower_byte s)"
      using t assms(4) by (auto simp: EncodeValue_def encodeString_form)
    show "evalBool (xl_go lib) (equals col ?lit) row \<longleftrightarrow> map_of row col = Some (VStr s)"
      using t by (auto simp: evalBool_equals [OF lit] row_value_def compareValues_def isNumeric_def strings_Compare_def)
  qed
  then have "set (rs_rows res) = {row \<in> ran ?R. \<exists>t. map_of row col = Some (VStr t) \<and> map lower_byte t = map lower_byte s}"
    "set (rs_rows res') = {row \<in> ran ?R. map_of row col = Some (VStr s)}"
    unfolding rows by (simp_all cong: conj_cong)
  then show ?thesis using A(1,2) B(1) plan_star_scan by blast
qed

section \<open>Sorting\<close>

text \<open>What \<open>SliceStable\<close> needs of a comparison on the elements at hand.\<close>

definition weak_order_on :: "'a set \<Rightarrow> ('a \<Rightarrow> 'a \<Rightarrow> bool) \<Rightarrow> bool" where
  "weak_order_on A lt \<longleftrightarrow>
     (\<forall>x \<in> A. \<forall>y \<in> A. lt x y \<longrightarrow> \<not> lt y x) \<and>
     (\<forall>x \<in> A. \<forall>y \<in> A. \<forall>z \<in> A. \<not> lt x y \<longrightarrow> \<not> lt y z \<longrightarrow> \<not> lt x z)"

lemma mset_move_front [simp]: "mset (move_front lt x ys) = add_mset x (mset ys)"
  by (induction ys) auto

lemma set_move_front [simp]: "set (move_front lt x ys) = insert x (set ys)"
  by (induction ys) auto

lemma sorted_move_front:
  "weak_order_on A lt \<Longrightarrow> insert x (set ys) \<subseteq> A \<Longrightarrow> sorted_wrt (\<lambda>a b. \<not> lt a b) ys \<Longrightarrow>
     sorted_wrt (\<lambda>a b. \<not> lt a b) (move_front lt x ys)"
proof (induction ys)
  case (Cons y ys)
  then have in_A: "x \<in> A" "y \<in> A" "set ys \<subseteq> A" by simp_all
  show ?case
  proof (cases "lt x y")
    case True
    then have "\<not> lt y x" using Cons.prems(1) in_A unfolding weak_order_on_def by blast
    with True Cons in_A show ?thesis by simp
  next
    case False
    have "\<not> lt x z" if "z \<in> set ys" for z
    proof -
      have "\<not> lt y z" "z \<in> A" using Cons.prems(3) that in_A by auto
      then show ?thesis using Cons.prems(1) in_A(1,2) False unfolding weak_order_on_def by blast
    qed
    with False Cons.prems(3) show ?thesis by simp
  qed
qed simp

lemma filter_move_front:
  "\<forall>a b. E a \<longrightarrow> E b \<longrightarrow> \<not> lt a b \<Longrightarrow>
     filter E (move_front lt x ys) = (if E x then x # filter E ys else filter E ys)"
  by (induction ys) auto

lemma SliceStable_mset: "mset (SliceStable lt xs) = mset xs"
proof -
  have "mset (fold (move_front lt) xs acc) = mset xs + mset acc" for acc
    by (induction xs arbitrary: acc) simp_all
  then show ?thesis by (simp add: SliceStable_def)
qed

lemma SliceStable_sorted: "weak_order_on (set xs) lt \<Longrightarrow> sorted_wrt (\<lambda>a b. \<not> lt b a) (SliceStable lt xs)"
proof -
  assume w: "weak_order_on (set xs) lt"
  have "sorted_wrt (\<lambda>a b. \<not> lt a b) (fold (move_front lt) ys acc)"
    if "set ys \<union> set acc \<subseteq> set xs" "sorted_wrt (\<lambda>a b. \<not> lt a b) acc" for ys acc
    using that
  proof (induction ys arbitrary: acc)
    case (Cons y ys)
    have "sorted_wrt (\<lambda>a b. \<not> lt a b) (move_front lt y acc)" using Cons.prems by (intro sorted_move_front [OF w]) auto
    moreover have "set ys \<union> set (move_front lt y acc) \<subseteq> set xs" using Cons.prems(1) by simp
    ultimately show ?case using Cons.IH by simp
  qed simp
  from this [of xs "[]"] show ?thesis by (simp add: SliceStable_def sorted_wrt_rev)
qed

lemma SliceStable_stable:
  "\<forall>a b. E a \<longrightarrow> E b \<longrightarrow> \<not> lt a b \<Longrightarrow> filter E (SliceStable lt xs) = filter E xs"
proof -
  assume E: "\<forall>a b. E a \<longrightarrow> E b \<longrightarrow> \<not> lt a b"
  have "filter E (fold (move_front lt) ys acc) = rev (filter E ys) @ filter E acc" for ys acc
    by (induction ys arbitrary: acc) (simp_all add: filter_move_front [OF E])
  then show ?thesis by (simp add: SliceStable_def rev_filter [symmetric])
qed

text \<open>Values of one kind, \<open>NULL\<close> aside, compare as a total order compares.\<close>

definition one_kind :: "val set \<Rightarrow> bool" where
  "one_kind V \<longleftrightarrow>
     (\<forall>v \<in> V. v = VNil \<or> (\<exists>f. v = VFloat f \<and> \<not> f_is_nan f)) \<or>
     (\<forall>v \<in> V. v = VNil \<or> (\<exists>s. v = VStr s)) \<or> (\<forall>v \<in> V. v = VNil \<or> (\<exists>b. v = VBool b))"

lemma compare_trans:
  assumes "one_kind V" "a \<in> V" "b \<in> V" "c \<in> V" "compareValues lib a b \<le> 0" "compareValues lib b c \<le> 0"
  shows "compareValues lib a c \<le> 0"
proof -
  have nil: "compareValues lib VNil v \<le> 0" "compareValues lib v VNil \<le> 0 \<longleftrightarrow> v = VNil" for v
    by (simp_all add: compareValues_def)
  have num: "compareValues lib (VFloat x) (VFloat y) \<le> 0 \<longleftrightarrow> f_val x \<le> f_val y" if "\<not> f_is_nan x" "\<not> f_is_nan y" for x y
    using that by (simp add: compareValues_def isNumeric_def toFloat_def compareFloat_def f_less_def)
  have strs: "compareValues lib (VStr x) (VStr y) \<le> 0 \<longleftrightarrow> x \<le> y" for x y
    by (auto simp: compareValues_def isNumeric_def strings_Compare_def)
  have bools: "compareValues lib (VBool x) (VBool y) \<le> 0 \<longleftrightarrow> x \<le> y" for x y
    by (simp add: compareValues_def)
  from assms(1) consider "\<forall>v \<in> V. v = VNil \<or> (\<exists>f. v = VFloat f \<and> \<not> f_is_nan f)" | "\<forall>v \<in> V. v = VNil \<or> (\<exists>s. v = VStr s)"
    | "\<forall>v \<in> V. v = VNil \<or> (\<exists>b. v = VBool b)" unfolding one_kind_def by blast
  then show ?thesis
  proof cases
    case 1
    from bspec [OF this assms(2)] bspec [OF this assms(3)] bspec [OF this assms(4)] show ?thesis
      using assms(5,6) by (auto simp: nil num)
  next
    case 2
    from bspec [OF this assms(2)] bspec [OF this assms(3)] bspec [OF this assms(4)] show ?thesis
      using assms(5,6) by (auto simp: nil strs)
  next
    case 3
    from bspec [OF this assms(2)] bspec [OF this assms(3)] bspec [OF this assms(4)] show ?thesis
      using assms(5,6) by (auto simp: nil bools)
  qed
qed

lemma order_less_asym: "order_less lib order x y \<Longrightarrow> \<not> order_less lib order y x"
proof (induction order)
  case (Cons k order)
  obtain e asc where k: "k = (e, asc)" by (cases k)
  have "compareValues (xl_go lib) (evalExpr (xl_go lib) e y) (evalExpr (xl_go lib) e x) =
      - compareValues (xl_go lib) (evalExpr (xl_go lib) e x) (evalExpr (xl_go lib) e y)"
    by (rule compareValues_antisym)
  with Cons show ?case by (auto simp: k Let_def split: if_splits)
qed simp

lemma lexicographic_step:
  fixes u v w :: int
  assumes "u \<le> 0 \<Longrightarrow> v \<le> 0 \<Longrightarrow> w \<le> 0" "0 \<le> v \<Longrightarrow> 0 \<le> u \<Longrightarrow> 0 \<le> w" "v \<le> 0 \<Longrightarrow> 0 \<le> w \<Longrightarrow> 0 \<le> u"
    "w \<le> 0 \<Longrightarrow> 0 \<le> v \<Longrightarrow> u \<le> 0" "0 \<le> w \<Longrightarrow> u \<le> 0 \<Longrightarrow> 0 \<le> v" "0 \<le> u \<Longrightarrow> w \<le> 0 \<Longrightarrow> v \<le> 0"
    and "\<not> (if u = 0 then p else if asc then u < 0 else 0 < u)" "\<not> (if v = 0 then q else if asc then v < 0 else 0 < v)"
    and "\<not> p \<Longrightarrow> \<not> q \<Longrightarrow> \<not> r"
  shows "\<not> (if w = 0 then r else if asc then w < 0 else 0 < w)"
proof (cases asc)
  case True
  with assms(7,8) have pos: "0 \<le> u" "0 \<le> v" by (auto split: if_splits)
  have "w = 0 \<Longrightarrow> u = 0 \<and> v = 0" using assms(4,6) pos by force
  then show ?thesis using assms(2,7-9) pos True by auto
next
  case False
  with assms(7,8) have neg: "u \<le> 0" "v \<le> 0" by (auto split: if_splits)
  have "w = 0 \<Longrightarrow> u = 0 \<and> v = 0" using assms(3,5) neg by force
  then show ?thesis using assms(1,7-9) neg False by auto
qed

lemma order_less_weak:
  assumes "\<forall>(e, asc) \<in> set order. one_kind (evalExpr (xl_go lib) e ` A)"
  shows "weak_order_on A (order_less lib order)"
proof -
  have "\<not> order_less lib order x z"
    if "x \<in> A" "y \<in> A" "z \<in> A" "\<not> order_less lib order x y" "\<not> order_less lib order y z" for x y z
    using assms that(4,5)
  proof (induction order)
    case (Cons k order)
    obtain e asc where k: "k = (e, asc)" by (cases k)
    let ?c = "\<lambda>x y. compareValues (xl_go lib) (evalExpr (xl_go lib) e x) (evalExpr (xl_go lib) e y)"
    have anti: "?c v u = - ?c u v" for u v by (rule compareValues_antisym)
    have kind: "one_kind (evalExpr (xl_go lib) e ` A)" using Cons.prems(1) by (simp add: k)
    have trans: "?c u v \<le> 0 \<Longrightarrow> ?c v w \<le> 0 \<Longrightarrow> ?c u w \<le> 0" if "u \<in> A" "v \<in> A" "w \<in> A" for u v w
      using compare_trans [OF kind] that by blast
    have flip: "?c v u \<le> 0 \<longleftrightarrow> 0 \<le> ?c u v" for u v using anti [of u v] by linarith
    note mono = trans [OF \<open>x \<in> A\<close> \<open>y \<in> A\<close> \<open>z \<in> A\<close>] trans [OF \<open>z \<in> A\<close> \<open>y \<in> A\<close> \<open>x \<in> A\<close>, unfolded flip [of z y] flip [of y x] flip [of z x]]
      trans [OF \<open>y \<in> A\<close> \<open>z \<in> A\<close> \<open>x \<in> A\<close>, unfolded flip [of z x] flip [of y x]]
      trans [OF \<open>x \<in> A\<close> \<open>z \<in> A\<close> \<open>y \<in> A\<close>, unfolded flip [of z y]]
      trans [OF \<open>z \<in> A\<close> \<open>x \<in> A\<close> \<open>y \<in> A\<close>, unfolded flip [of z x] flip [of z y]]
      trans [OF \<open>y \<in> A\<close> \<open>x \<in> A\<close> \<open>z \<in> A\<close>, unfolded flip [of y x]]
    have "\<not> order_less lib order x y \<Longrightarrow> \<not> order_less lib order y z \<Longrightarrow> \<not> order_less lib order x z"
      using Cons.IH Cons.prems(1) by simp
    with lexicographic_step [of "?c x y" "?c y z" "?c x z", OF mono]
      Cons.prems(2,3) [unfolded k order_less.simps Let_def]
    have "\<not> (if ?c x z = 0 then order_less lib order x z else if asc then ?c x z < 0 else 0 < ?c x z)" by blast
    then show ?case by (simp only: k order_less.simps Let_def simp_thms)
  qed simp
  then show ?thesis unfolding weak_order_on_def using order_less_asym by blast
qed

abbreviation key_cmp :: "exec_lib \<Rightarrow> expr \<Rightarrow> row \<Rightarrow> row \<Rightarrow> int" where
  "key_cmp lib e a b \<equiv> compareValues (xl_go lib) (evalExpr (xl_go lib) e a) (evalExpr (xl_go lib) e b)"

text \<open>The first key in which two rows differ decides; the last position is the one before the key.\<close>

lemma not_order_less:
  assumes "\<not> order_less lib (pre @ (e, asc) # post) b a" "\<forall>(f, _) \<in> set pre. key_cmp lib f a b = 0"
  shows "if asc then key_cmp lib e a b \<le> 0 else 0 \<le> key_cmp lib e a b"
  using assms
proof (induction pre)
  case Nil
  then show ?case using compareValues_antisym [of "xl_go lib" "evalExpr (xl_go lib) e b" "evalExpr (xl_go lib) e a"]
    by (auto simp: Let_def split: if_splits)
next
  case (Cons k pre)
  then have "key_cmp lib (fst k) b a = 0"
    using compareValues_antisym [of "xl_go lib" "evalExpr (xl_go lib) (fst k) b" "evalExpr (xl_go lib) (fst k) a"] by auto
  then show ?case using Cons by (cases k) simp
qed

lemma key_cmp_tied: "key_cmp lib e a b = 0 \<longleftrightarrow> key_cmp lib e b a = 0"
  using compareValues_antisym [of "xl_go lib" "evalExpr (xl_go lib) e b" "evalExpr (xl_go lib) e a"] by auto

lemma tied_order_less: "\<forall>(e, _) \<in> set order. key_cmp lib e a b = 0 \<Longrightarrow> \<not> order_less lib order a b"
  by (induction order) auto

text \<open>
  C22: \<open>ORDER BY\<close> over values of one kind per column returns the rows of its input, each as often. Of two rows
  of the result the first key in which they differ puts the earlier one first, and rows that agree in all
  keys are in the order in which they came.
\<close>

theorem order_by_sorts:
  assumes "Execute lib n st = (Inr r, st')" "\<forall>(e, asc) \<in> set order. one_kind (evalExpr (xl_go lib) e ` set (rs_rows r))"
  shows "\<exists>r'. Execute lib (SortNode n order) st = (Inr r', st') \<and> mset (rs_rows r') = mset (rs_rows r) \<and>
    sorted_wrt (\<lambda>a b. \<forall>pre e asc post. order = pre @ (e, asc) # post \<longrightarrow> (\<forall>(f, _) \<in> set pre. key_cmp lib f a b = 0) \<longrightarrow>
       (if asc then key_cmp lib e a b \<le> 0 else 0 \<le> key_cmp lib e a b)) (rs_rows r') \<and>
    (\<forall>row \<in> set (rs_rows r). let tied = (\<lambda>x. x \<in> set (rs_rows r) \<and> (\<forall>(e, _) \<in> set order. key_cmp lib e x row = 0))
       in filter tied (rs_rows r') = filter tied (rs_rows r))"
proof -
  note w = order_less_weak [OF assms(2)]
  have stable: "filter tied (SliceStable (order_less lib order) (rs_rows r)) = filter tied (rs_rows r)"
    if row: "row \<in> set (rs_rows r)"
      and tied: "tied = (\<lambda>x. x \<in> set (rs_rows r) \<and> (\<forall>(e, _) \<in> set order. key_cmp lib e x row = 0))" for row tied
  proof (rule SliceStable_stable, intro allI impI)
    fix a b assume ab: "tied a" "tied b"
    have "\<forall>(e, _) \<in> set order. key_cmp lib e row b = 0"
      using ab(2) unfolding tied by (simp add: key_cmp_tied [of lib _ row b])
    then have "\<not> order_less lib order row b" by (rule tied_order_less)
    moreover have "\<not> order_less lib order a row" using ab(1) unfolding tied by (intro tied_order_less) blast
    ultimately show "\<not> order_less lib order a b" using ab w row unfolding tied weak_order_on_def by blast
  qed
  have sorted: "sorted_wrt (\<lambda>a b. \<forall>pre e asc post. order = pre @ (e, asc) # post \<longrightarrow> (\<forall>(f, _) \<in> set pre. key_cmp lib f a b = 0) \<longrightarrow>
       (if asc then key_cmp lib e a b \<le> 0 else 0 \<le> key_cmp lib e a b)) (SliceStable (order_less lib order) (rs_rows r))"
  proof (rule sorted_wrt_mono_rel [OF _ SliceStable_sorted [OF w]], intro allI impI)
    fix a b pre e asc post
    assume less: "\<not> order_less lib order b a" and key: "order = pre @ (e, asc) # post" "\<forall>(f, _) \<in> set pre. key_cmp lib f a b = 0"
    show "if asc then key_cmp lib e a b \<le> 0 else 0 \<le> key_cmp lib e a b"
      by (rule not_order_less [OF less [unfolded key(1)] key(2)])
  qed
  let ?r' = "executeSort lib order r"
  have rows: "rs_rows ?r' = SliceStable (order_less lib order) (rs_rows r)" by (simp add: executeSort_def)
  show ?thesis
  proof (intro exI conjI ballI)
    show "Execute lib (SortNode n order) st = (Inr ?r', st')" using assms(1) by (simp add: with_input_def)
    show "mset (rs_rows ?r') = mset (rs_rows r)" by (simp only: rows SliceStable_mset)
    fix row assume row: "row \<in> set (rs_rows r)"
    show "let tied = (\<lambda>x. x \<in> set (rs_rows r) \<and> (\<forall>(e, _) \<in> set order. key_cmp lib e x row = 0))
       in filter tied (rs_rows ?r') = filter tied (rs_rows r)"
      unfolding rows Let_def by (rule stable [OF row refl])
  qed (simp only: rows sorted)
qed

section \<open>Groups and aggregates\<close>

lemma first_occurrences_snoc: "first_occurrences (xs @ [x]) = (if x \<in> set xs then first_occurrences xs else first_occurrences xs @ [x])"
  by (simp add: first_occurrences_def)

lemma set_first_occurrences [simp]: "set (first_occurrences xs) = set xs"
  by (simp add: first_occurrences_def)

lemma map_of_map_pair: "map_of (map (\<lambda>k. (k, f k)) ks) k = (if k \<in> set ks then Some (f k) else None)"
  by (induction ks) auto

lemma update_map_pair: "distinct ks \<Longrightarrow> AList.update k v (map (\<lambda>k. (k, f k)) ks) =
  (if k \<in> set ks then map (\<lambda>j. (j, if j = k then v else f j)) ks else map (\<lambda>k. (k, f k)) ks @ [(k, v)])"
  by (induction ks) (auto simp: map_idI)

text \<open>
  C23: the groups of \<open>GROUP BY\<close> are, in the order of their first rows, the rows of each key in their order:
  no row is lost, none is in two groups.
\<close>

theorem groups_are_filters:
  "group_rows lib groupBy rows =
     map (\<lambda>k. (k, filter (\<lambda>r. groupKey lib r groupBy = k) rows)) (first_occurrences (map (\<lambda>r. groupKey lib r groupBy) rows))"
proof (induction rows rule: rev_induct)
  case (snoc r rows)
  let ?key = "\<lambda>r. groupKey lib r groupBy" and ?ks = "first_occurrences (map (\<lambda>r. groupKey lib r groupBy) rows)"
  have d: "distinct ?ks" by (simp add: first_occurrences_def)
  have "group_rows lib groupBy (rows @ [r]) = AList.update (?key r) (filter (\<lambda>x. ?key x = ?key r) rows @ [r])
      (map (\<lambda>k. (k, filter (\<lambda>x. ?key x = k) rows)) ?ks)"
  proof -
    have "filter (\<lambda>x. ?key x = ?key r) rows = []" if "?key r \<notin> set ?ks"
      using that unfolding set_first_occurrences set_map by (metis (mono_tags) filter_False imageI)
    then show ?thesis using snoc.IH by (auto simp: group_rows_def Let_def map_of_map_pair split: option.split)
  qed
  then show ?case
    by (auto simp: update_map_pair [OF d] first_occurrences_snoc)
qed (simp add: group_rows_def first_occurrences_def)

text \<open>
  \<open>MIN\<close> forgets what it has seen at every \<open>NULL\<close>: only the rows behind the last one count.
\<close>

lemma min_restarts_after_null:
  assumes "evalExpr lib e r = VNil"
  shows "aggregate lib ''MIN'' [e] (before @ r # after') = aggregate lib ''MIN'' [e] after'"
proof -
  have "fold_min lib (vs @ VNil # ws) = fold_min lib ws" for vs ws
  proof -
    have "m = VNil \<or> compareValues lib VNil m < 0" for m by (simp add: compareValues_def)
    then show ?thesis by (simp add: fold_min_def)
  qed
  moreover have "aggregate lib ''MIN'' [e] rows = AggVal (fold_min lib (map (evalExpr lib e) rows))" for rows
    by (simp add: aggregate_def)
  ultimately show ?thesis using assms by simp
qed

end
