(* ===== verification/SqlExecExamples.thy ===== *)
theory SqlExecExamples
  imports SqlQueryProps
begin

text \<open>
  A small database on which the properties of executed statements are applied: the user table \<open>t\<close> with the
  key \<open>id\<close> and the column \<open>c\<close>, a unique index on \<open>c\<close>, and a JSON of a handful of rows.
\<close>

section \<open>The database\<close>

definition demo_row :: "bytes \<Rightarrow> val \<Rightarrow> row" where
  "demo_row i v = [(''id'', VStr i), (''c'', v)]"

definition demo_codes :: "(row \<times> bytes) list" where
  "demo_codes =
     [(demo_row ''a'' (VStr ''x''), ''1''), (demo_row ''b'' (VStr ''y''), ''2''), (demo_row ''z'' (VStr ''y''), ''3''),
      (demo_row ''a'' (VStr ''z''), ''4''), (demo_row ''a'' (VFloat f_one), ''5''), ([(''id'', VFloat f_one)], ''6'')]"

definition demo_lib :: exec_lib where
  "demo_lib =
     \<lparr>xl_go = \<lparr>parse_float = \<lambda>_. (f_zero, False), fmt_v = \<lambda>_. []\<rparr>, xl_unicode = latin1,
      xl_fmt_g = \<lambda>_. ''1'', xl_fmt_f = \<lambda>_. ''1'', xl_odd_name = \<lambda>_. [],
      xl_row_enc = map_of demo_codes, xl_row_dec = map_of (map prod.swap demo_codes),
      xl_table_enc = \<lambda>_. Some [], xl_table_dec = \<lambda>_. None, xl_index_enc = \<lambda>_. Some [], xl_index_dec = \<lambda>_. None,
      xl_uuid = \<lambda>_. ''u''\<rparr>"

definition demo_table :: table_meta where
  "demo_table =
     \<lparr>tbl_name = ''t'', tbl_columns = [column ''id'' ''VARCHAR'' 64 False True, column ''c'' ''TEXT'' 0 True False], tbl_prefix = 0x30\<rparr>"

definition demo_start :: executor where
  "demo_start =
     \<lparr>ex_engine = kv_empty, ex_tables = \<lparr>tm_tables = [(''t'', demo_table)], tm_next = 0x31\<rparr>,
      ex_indexes = example_indexes TypeHash True, ex_uuids = 0\<rparr>"

definition demo_add :: "row \<Rightarrow> bytes \<Rightarrow> executor \<Rightarrow> executor" where
  "demo_add row i st =
     write_batch st (row_ops 0x30 i (xl_row_enc demo_lib row) @ map put_op (opt_keys latin1 [index_c TypeHash True] (Some row) i))"

lemma demo_json: "(row, data) \<in> set demo_codes \<Longrightarrow> xl_row_dec demo_lib data = Some row \<and> json_row row = row"
  by (auto simp: demo_codes_def demo_lib_def json_row_def demo_row_def)

lemma demo_law: "json_law demo_lib"
proof -
  have "(row, data) \<in> set demo_codes" if "xl_row_enc demo_lib row = Some data" for row data
    using that by (intro map_of_SomeD) (simp add: demo_lib_def)
  then show ?thesis unfolding json_law_def using demo_json by fastforce
qed

lemma demo_utf8: "text_ok ''a''" "text_ok ''b''" "text_ok ''u''" "text_ok ''x''" "text_ok ''y''" "text_ok ''z''" "valid_utf8 ''c''"
  by (simp_all add: text_ok_def valid_utf8_def runes.simps decode_rune_def encode_rune_def char_of_eq_iff)

lemma demo_lib_ok: "lib_ok demo_lib"
  using demo_law demo_utf8 by (simp add: lib_ok_def) (simp add: demo_lib_def)

lemma demo_unicode [simp]: "xl_unicode demo_lib = latin1"
  by (simp add: demo_lib_def)

lemma demo_frame:
  "ex_tables (demo_add row i st) = ex_tables st" "ex_indexes (demo_add row i st) = ex_indexes st"
  by (simp_all add: demo_add_def)

lemma demo_prefix: "ex_tables st = ex_tables demo_start \<Longrightarrow> tablePrefix st ''t'' = 0x30"
  by (simp add: tablePrefix_def tm_prefix_def demo_start_def demo_table_def)

lemma demo_user: "ex_tables st = ex_tables demo_start \<Longrightarrow> user_table st ''t'' = Some demo_table"
  by (simp add: user_table_def tm_get_def demo_start_def demo_table_def isUserTableMeta_def)

lemma demo_indexes: "ex_indexes st = ex_indexes demo_start \<Longrightarrow> indexes_of st ''t'' = [index_c TypeHash True]"
  by (simp add: indexes_of_def demo_start_def)

lemma demo_inv_start: "table_inv demo_lib demo_start ''t''" "table_rows demo_lib (ex_engine demo_start) p = Map.empty"
proof -
  have "byte_of 0x30 \<noteq> PrefixIndex" by (simp add: byte_of_def PrefixIndex_def char_of_eq_iff)
  moreover show rows: "table_rows demo_lib (ex_engine demo_start) p = Map.empty" for p
    by (simp add: table_rows_def demo_start_def engine_get_empty fun_eq_iff)
  moreover have "ex_engine demo_start = kv_empty" by (simp add: demo_start_def)
  ultimately show "table_inv demo_lib demo_start ''t''"
    using demo_prefix [of demo_start] demo_indexes [of demo_start]
    by (simp add: table_inv_def kv_simps)
qed

lemma demo_add_inv:
  assumes "table_inv demo_lib st ''t''" "ex_tables st = ex_tables demo_start" "ex_indexes st = ex_indexes demo_start"
    and "table_rows demo_lib (ex_engine st) 0x30 i = None" "(row, data) \<in> set demo_codes" "i \<noteq> []" "NUL \<notin> set i"
  shows "table_inv demo_lib (demo_add row i st) ''t''"
    "table_rows demo_lib (ex_engine (demo_add row i st)) 0x30 = (table_rows demo_lib (ex_engine st) 0x30)(i \<mapsto> row)"
proof -
  have enc: "xl_row_enc demo_lib row = Some data"
    using assms(5) by (auto simp: demo_lib_def demo_codes_def demo_row_def)
  have old: "rel_option (\<lambda>r r'. map_of r = map_of r') None (table_rows demo_lib (ex_engine st) (tablePrefix st ''t'') i)"
    using assms(4) demo_prefix [OF assms(2)] by simp
  have new: "rel_option (\<lambda>r r'. map_of r' = map_of (json_row r)) (Some row) (Option.bind (Some data) (xl_row_dec demo_lib))"
    using demo_json [OF assms(5)] by simp
  have st': "demo_add row i st = write_batch st (row_ops (tablePrefix st ''t'') i (Some data) @
        map del_op (opt_keys (xl_unicode demo_lib) (indexes_of st ''t'') None i) @
        map put_op (opt_keys (xl_unicode demo_lib) (indexes_of st ''t'') (Some row) i))"
    using demo_prefix [OF assms(2)] demo_indexes [OF assms(3)] by (simp add: demo_add_def enc)
  note b = table_inv_batch [OF assms(1,7,6) old new st']
  show "table_inv demo_lib (demo_add row i st) ''t''" by (rule b(1))
  show "table_rows demo_lib (ex_engine (demo_add row i st)) 0x30 = (table_rows demo_lib (ex_engine st) 0x30)(i \<mapsto> row)"
    using b(3) demo_json [OF assms(5)] demo_prefix [OF assms(2)] by simp
qed

text \<open>The table with one row, and with two.\<close>

definition demo_one :: "val \<Rightarrow> executor" where
  "demo_one v = demo_add (demo_row ''a'' v) ''a'' demo_start"

definition demo_two :: executor where
  "demo_two = demo_add (demo_row ''b'' (VStr ''y'')) ''b'' (demo_one (VStr ''x''))"

lemma demo_one:
  assumes "v \<in> {VStr ''x'', VStr ''z'', VFloat f_one}"
  shows "table_inv demo_lib (demo_one v) ''t''" "table_rows demo_lib (ex_engine (demo_one v)) 0x30 = [''a'' \<mapsto> demo_row ''a'' v]"
    "ex_tables (demo_one v) = ex_tables demo_start" "ex_indexes (demo_one v) = ex_indexes demo_start"
    "tablePrefix (demo_one v) ''t'' = 0x30"
proof -
  obtain data where "(demo_row ''a'' v, data) \<in> set demo_codes" using assms by (auto simp: demo_codes_def)
  from demo_add_inv [OF demo_inv_start(1) refl refl _ this, of "''a''"]
  show "table_inv demo_lib (demo_one v) ''t''" "table_rows demo_lib (ex_engine (demo_one v)) 0x30 = [''a'' \<mapsto> demo_row ''a'' v]"
    by (simp_all add: demo_one_def demo_inv_start(2))
  show t: "ex_tables (demo_one v) = ex_tables demo_start" "ex_indexes (demo_one v) = ex_indexes demo_start"
    by (simp_all add: demo_one_def demo_frame)
  show "tablePrefix (demo_one v) ''t'' = 0x30" by (rule demo_prefix [OF t(1)])
qed

lemma demo_two:
  "table_inv demo_lib demo_two ''t''"
  "table_rows demo_lib (ex_engine demo_two) 0x30 = [''a'' \<mapsto> demo_row ''a'' (VStr ''x''), ''b'' \<mapsto> demo_row ''b'' (VStr ''y'')]"
  "ex_tables demo_two = ex_tables demo_start" "ex_indexes demo_two = ex_indexes demo_start" "tablePrefix demo_two ''t'' = 0x30"
proof -
  note one = demo_one [of "VStr ''x''", simplified]
  have "(demo_row ''b'' (VStr ''y''), ''2'') \<in> set demo_codes" by (simp add: demo_codes_def)
  from demo_add_inv [OF one(1,3,4) _ this, of "''b''"]
  show "table_inv demo_lib demo_two ''t''"
    "table_rows demo_lib (ex_engine demo_two) 0x30 = [''a'' \<mapsto> demo_row ''a'' (VStr ''x''), ''b'' \<mapsto> demo_row ''b'' (VStr ''y'')]"
    by (simp_all add: demo_two_def one(2))
  show t: "ex_tables demo_two = ex_tables demo_start" "ex_indexes demo_two = ex_indexes demo_start"
    by (simp_all add: demo_two_def demo_frame one(3,4))
  show "tablePrefix demo_two ''t'' = 0x30" by (rule demo_prefix [OF t(1)])
qed

section \<open>Statements that write\<close>

lemma demo_plain: "plain_meta demo_table"
  using demo_utf8 valid_utf8_id by (simp add: plain_meta_def demo_table_def column_def)

lemma demo_types: "to_upper ''VARCHAR'' = ''VARCHAR''" "to_upper ''TEXT'' = ''TEXT''"
  by (simp_all add: to_upper_def upper_byte_def)

lemma demo_insert:
  "\<exists>st'. executeInsert demo_lib ''t'' [''id'', ''c''] [[StringLiteralExpr ''a'', StringLiteralExpr ''x'']] demo_start =
     (Inr (affected_result 1), st')"
proof -
  let ?row = "demo_row ''a'' (VStr ''x'')"
  have uniq: "validateUnique kv_empty (index_c TypeHash True) v i = None" for v i
    by (rule validateUnique_empty) (simp add: index_c_def types_distinct)
  have eng: "ex_engine demo_start = kv_empty" "ListByTable (ex_indexes demo_start) ''t'' = [index_c TypeHash True]"
    "tablePrefix demo_start ''t'' = 0x30" "user_table demo_start ''t'' = Some demo_table"
    using demo_indexes [of demo_start] by (simp_all add: demo_prefix demo_user indexes_of_def) (simp add: demo_start_def)
  have valid: "validateRowForWrite demo_lib kv_empty demo_table ?row [] True = Inr (''a'', ?row)"
    by (simp add: validateRowForWrite_def demo_table_def column_def demo_row_def fill_default_def row_value_def
        validateColumnValue_def rowIDColumnForMeta_def rowIDString_def engine_get_empty Let_def demo_types)
  have row: "fold (\<lambda>(c, e). AList.update c (evalLiteral e))
      (zip [''id'', ''c''] [StringLiteralExpr ''a'', StringLiteralExpr ''x'']) [] = ?row"
    by (simp add: demo_row_def evalLiteral_def)
  have given: "given_id demo_lib (Some demo_table) ?row demo_start = (''a'', ?row, demo_start)"
    by (simp add: given_id_def rowIDString_def row_value_def demo_row_def Let_def)
  have "insert_id demo_lib (Some demo_table) ?row demo_start = (Inr (''a'', ?row), demo_start)"
    by (simp add: insert_id_def given valid eng)
  moreover have "xl_row_enc demo_lib ?row = Some ''1''" by (simp add: demo_lib_def demo_codes_def demo_row_def)
  moreover have "\<exists>ops. InsertRowOps latin1 (ex_indexes demo_start) kv_empty ''t'' ?row ''a'' = Inr ops"
    by (simp add: InsertRowOps_def eng uniq split: option.split)
  ultimately obtain st' where "insert_row demo_lib ''t'' 0x30 (Some demo_table) [''id'', ''c'']
      [StringLiteralExpr ''a'', StringLiteralExpr ''x''] demo_start = (None, st')"
    using row by (auto simp: insert_row_def eng)
  then show ?thesis by (simp add: executeInsert_def eng)
qed


theorem delete_removes_selected_witness:
  "\<exists>r st'. Execute demo_lib (planDelete (DeleteStmt ''t'' None)) demo_two = (r, st') \<and> table_inv demo_lib st' ''t'' \<and>
     table_rows demo_lib (ex_engine st') 0x30 = Map.empty"
proof -
  obtain r st' where run: "Execute demo_lib (planDelete (DeleteStmt ''t'' None)) demo_two = (r, st')" by (meson surj_pair)
  have "\<forall>i row. table_rows demo_lib (ex_engine demo_two) (tablePrefix demo_two ''t'') i = Some row \<longrightarrow> map_of row ''id'' = Some (VStr i)"
    by (auto simp: demo_two demo_row_def)
  from delete_removes_selected [OF demo_two(1) this run] run show ?thesis
    by (auto simp: demo_two selected_def fun_eq_iff split: option.splits)
qed

theorem delete_spares_non_string_ids_witness:
  "\<exists>st. table_rows demo_lib (ex_engine st) 0x30 ''1'' = Some [(''id'', VFloat f_one)] \<and>
     Execute demo_lib (planDelete (DeleteStmt ''t'' None)) st = (Inr (affected_result 0), st)"
proof -
  let ?st = "demo_start\<lparr>ex_engine := [(EncodeKey (byte_of 0x30) ''1'', ''6'')]\<rparr>"
  have rows: "table_rows demo_lib [(EncodeKey (byte_of 0x30) ''1'', ''6'')] 0x30 = [''1'' \<mapsto> [(''id'', VFloat f_one)]]"
    by (simp add: fun_eq_iff table_rows_def engine_get_def EncodeKey_def demo_lib_def demo_codes_def)
  have p: "tablePrefix ?st ''t'' = 0x30" by (rule demo_prefix) simp
  have "Execute demo_lib (planDelete (DeleteStmt ''t'' None)) ?st = (Inr (affected_result 0), ?st)"
    by (rule delete_spares_non_string_ids) (simp_all add: p rows kv_ok_def)
  with rows show ?thesis by (intro exI [of _ ?st]) simp
qed

theorem update_changes_selected_witness:
  "\<exists>r st'. Execute demo_lib (planUpdate (UpdateStmt ''t'' [(''c'', StringLiteralExpr ''z'')] None)) (demo_one (VStr ''x'')) = (r, st') \<and>
     table_inv demo_lib st' ''t'' \<and>
     (\<exists>row. table_rows demo_lib (ex_engine st') 0x30 ''a'' = Some row \<and> map_of row ''id'' = Some (VStr ''a'') \<and>
        (\<forall>res. r = Inr res \<longrightarrow> map_of row ''c'' = Some (VStr ''z'')))"
proof -
  let ?st = "demo_one (VStr ''x'')" and ?sets = "[(''c'', StringLiteralExpr ''z'')]"
  obtain r st' where run: "Execute demo_lib (planUpdate (UpdateStmt ''t'' ?sets None)) ?st = (r, st')" by (meson surj_pair)
  note one = demo_one [of "VStr ''x''", simplified]
  have id: "id_column (user_table ?st ''t'') = ''id''"
    using demo_user [OF one(3)] by (simp add: id_column_def rowIDColumnForMeta_def demo_table_def column_def)
  have applied: "apply_set demo_lib ?sets (demo_row ''a'' (VStr ''x'')) = demo_row ''a'' (VStr ''z'')"
    by (simp add: apply_set_def demo_row_def)
  have "(demo_row ''a'' (VStr ''z''), ''4'') \<in> set demo_codes" by (simp add: demo_codes_def)
  note json = demo_json [OF this]
  have set: "set_row demo_lib ?sets (demo_row ''a'' (VStr ''x'')) = demo_row ''a'' (VStr ''z'')"
    using json by (simp add: set_row_def applied) (simp add: demo_lib_def demo_codes_def demo_row_def)
  have "utf8_row (demo_row ''a'' (VStr ''z''))"
    using demo_utf8 valid_utf8_id by (simp add: utf8_row_def demo_row_def text_ok_def)
  then have utf8: "\<forall>i row. table_rows demo_lib (ex_engine ?st) (tablePrefix ?st ''t'') i = Some row \<longrightarrow> utf8_row (apply_set demo_lib ?sets row)"
    by (auto simp: one(2,5) applied)
  have ids: "\<forall>i row. table_rows demo_lib (ex_engine ?st) (tablePrefix ?st ''t'') i = Some row \<longrightarrow>
      rowIDString demo_lib (row_value row (id_column (user_table ?st ''t''))) = i"
    by (auto simp: one(2,5) id demo_row_def row_value_def rowIDString_def)
  have "id_column (user_table ?st ''t'') \<notin> fst ` set ?sets" by (simp add: id)
  note U = update_changes_selected [OF one(1) demo_law this ids utf8 run, unfolded one(2,5)]
  have "table_inv demo_lib st' ''t''" using U by blast
  moreover from conjunct2 [OF U, rule_format, of "''a''"] obtain row where
    "table_rows demo_lib (ex_engine st') 0x30 ''a'' = Some row" "row = demo_row ''a'' (VStr ''x'') \<or> map_of row = map_of (demo_row ''a'' (VStr ''z''))"
    "\<forall>res. r = Inr res \<longrightarrow> map_of row = map_of (demo_row ''a'' (VStr ''z''))"
    by (auto simp: selected_def set option_rel_Some1)
  ultimately show ?thesis using run by (auto simp: demo_row_def)
qed

lemma validateUnique_other:
  "j \<in> set (LookupEqual s meta v) \<Longrightarrow> j \<noteq> i \<Longrightarrow> im_Unique meta \<Longrightarrow> validateUnique s meta v i \<noteq> None"
  by (auto simp: validateUnique_def list_ex_iff)

theorem changed_key_escapes_unique_witness:
  "\<exists>st'. update_row demo_lib ''t'' 0x30 None [(''id'', StringLiteralExpr ''z''), (''c'', StringLiteralExpr ''y'')]
       (demo_row ''a'' (VStr ''x'')) demo_two = (Inr True, st') \<and>
     table_rows demo_lib (ex_engine st') 0x30 ''z'' = Some (demo_row ''z'' (VStr ''y'')) \<and>
     (\<forall>w. entryKey (index_c TypeHash True) w ''z'' \<notin> index_entries (ex_engine st') (index_c TypeHash True))"
proof -
  let ?sets = "[(''id'', StringLiteralExpr ''z''), (''c'', StringLiteralExpr ''y'')]" and ?ix = "index_c TypeHash True"
  have new: "apply_set demo_lib ?sets (demo_row ''a'' (VStr ''x'')) = demo_row ''z'' (VStr ''y'')"
    by (simp add: apply_set_def demo_row_def)
  have ixs: "indexes_of demo_two ''t'' = [?ix]" by (rule demo_indexes [OF demo_two(4)])
  note inv = table_inv_simps [OF demo_two(1), unfolded demo_two(5) ixs demo_unicode]
  have "''b'' \<in> set (LookupEqual (ex_engine demo_two) ?ix (VStr ''y'')) \<longleftrightarrow>
      (\<exists>row w. table_rows demo_lib (ex_engine demo_two) 0x30 ''b'' = Some row \<and> map_of row (im_Column ?ix) = Some w \<and>
         EncodeValue w = EncodeValue (VStr ''y''))"
    by (rule lookup_equal_rows [OF inv(1) _ inv(6,5)]) (auto simp: demo_two(2) demo_row_def index_c_def plain_value_def split: if_splits)
  then have "''b'' \<in> set (LookupEqual (ex_engine demo_two) ?ix (VStr ''y''))"
    by (simp add: demo_two(2) demo_row_def index_c_def)
  then have "validateUnique (ex_engine demo_two) ?ix (VStr ''y'') ''z'' \<noteq> None"
    by (intro validateUnique_other [of "''b''"]) (simp_all add: index_c_def types_distinct)
  then have "\<exists>e. insert_ops latin1 (ex_engine demo_two) [?ix] (demo_row ''z'' (VStr ''y'')) ''z'' [] = Inl e"
    unfolding insert_ops_fails_iff by (auto simp: demo_row_def index_c_def)
  then obtain e where unique: "InsertRowOps (xl_unicode demo_lib) (ex_indexes demo_two) (ex_engine demo_two) ''t''
      (apply_set demo_lib ?sets (demo_row ''a'' (VStr ''x''))) ''z'' = Inl e"
    using ixs by (auto simp: new InsertRowOps_def indexes_of_def)
  have "(demo_row ''z'' (VStr ''y''), ''3'') \<in> set demo_codes" by (simp add: demo_codes_def)
  note json = demo_json [OF this]
  have enc: "xl_row_enc demo_lib (apply_set demo_lib ?sets (demo_row ''a'' (VStr ''x''))) = Some ''3''"
    unfolding new by (simp add: demo_lib_def demo_codes_def demo_row_def)
  have old: "table_rows demo_lib (ex_engine demo_two) (tablePrefix demo_two ''t'') ''a'' = Some (demo_row ''a'' (VStr ''x''))"
    by (simp add: demo_two)
  have free: "table_rows demo_lib (ex_engine demo_two) (tablePrefix demo_two ''t'') ''z'' = None" by (simp add: demo_two)
  have key: "rowIDString demo_lib (row_value (demo_row ''a'' (VStr ''x'')) (id_column None)) = ''a''"
    "updated_id demo_lib (ex_engine demo_two) None (apply_set demo_lib ?sets (demo_row ''a'' (VStr ''x''))) ''a'' = Inr ''z''"
    unfolding new by (simp_all add: id_column_def updated_id_def row_value_def demo_row_def rowIDString_def)
  show ?thesis
    using changed_key_escapes_unique [OF demo_two(1) old key _ _ _ free unique enc conjunct1 [OF json]]
    by (simp add: demo_two(5) ixs)
qed

theorem refused_drop_removes_indexes_witness:
  "\<exists>st st'. indexes_of st ''agent_memories'' \<noteq> [] \<and>
     executeDropTable False ''agent_memories'' st = (Inl (TableFailed (BuiltinTable ''agent_memories'')), st') \<and>
     indexes_of st' ''agent_memories'' = []"
proof -
  let ?ix = "(index_c TypeHash True)\<lparr>im_Table := ''agent_memories''\<rparr>"
  let ?st = "demo_start\<lparr>ex_indexes := [(''ix'', ?ix)],
    ex_tables := \<lparr>tm_tables = [(''agent_memories'', demo_table\<lparr>tbl_prefix := 2\<rparr>)], tm_next = 0x30\<rparr>\<rparr>"
  have "isBuiltinTable ''agent_memories''" by (simp add: isBuiltinTable_def to_lower_def lower_byte_def)
  moreover have "kv_ok (ex_engine ?st)" by (simp add: demo_start_def kv_simps)
  ultimately have "\<exists>st'. executeDropTable False ''agent_memories'' ?st = (Inl (TableFailed (BuiltinTable ''agent_memories'')), st') \<and>
      indexes_of st' ''agent_memories'' = [] \<and> ex_tables st' = ex_tables ?st"
    by (intro refused_drop_removes_indexes [where meta = "demo_table\<lparr>tbl_prefix := 2\<rparr>"]) (simp_all add: tm_get_def index_c_def)
  moreover have "indexes_of ?st ''agent_memories'' \<noteq> []" by (simp add: indexes_of_def ListByTable_def)
  ultimately show ?thesis by blast
qed

section \<open>Queries\<close>

lemma demo_manager: "manager_ok (ex_indexes demo_start)" "equality_indexed st ''t'' ''c''" if "ex_indexes st = ex_indexes demo_start"
proof -
  show "manager_ok (ex_indexes demo_start)" by (simp add: demo_start_def example_indexes_def manager_ok_def index_c_def)
  show "equality_indexed st ''t'' ''c''"
    by (simp add: that equality_indexed_def FindByColumn_def demo_start_def example_indexes_def index_c_def)
qed

lemma one_orderly: "orderly f_one"
  by (simp add: orderly_def f_one_def f_is_nan_def f_exp_def f_man_def)

theorem index_agrees_on_numbers_witness:
  "\<exists>plan res plan' res'.
     Plan (Some (executorCatalog_FindByColumn (demo_one (VFloat f_one)))) (Select (star_where ''t'' (equals ''c'' (FloatLiteralExpr f_one)))) = Inr plan \<and>
     Plan None (Select (star_where ''t'' (equals ''c'' (FloatLiteralExpr f_one)))) = Inr plan' \<and> plan \<noteq> plan' \<and>
     Execute demo_lib plan (demo_one (VFloat f_one)) = (Inr res, demo_one (VFloat f_one)) \<and>
     Execute demo_lib plan' (demo_one (VFloat f_one)) = (Inr res', demo_one (VFloat f_one)) \<and> mset (rs_rows res) = mset (rs_rows res')"
proof -
  note one = demo_one [of "VFloat f_one", simplified]
  have m: "manager_ok (ex_indexes (demo_one (VFloat f_one)))" "equality_indexed (demo_one (VFloat f_one)) ''t'' ''c''"
    using demo_manager [OF one(4)] by (simp_all add: one(4))
  have num: "orderly_number (VFloat f_one)" using one_orderly by (simp add: orderly_number_def)
  show ?thesis
    using num by (intro index_agrees_on_numbers [OF one(1) m]) (auto simp: literalOf_def one(2,5) demo_row_def)
qed

theorem index_equality_ignores_case_witness:
  "\<exists>plan res plan' res'.
     Plan (Some (executorCatalog_FindByColumn (demo_one (VStr ''x'')))) (Select (star_where ''t'' (equals ''c'' (StringLiteralExpr ''X'')))) = Inr plan \<and>
     Plan None (Select (star_where ''t'' (equals ''c'' (StringLiteralExpr ''X'')))) = Inr plan' \<and>
     Execute demo_lib plan (demo_one (VStr ''x'')) = (Inr res, demo_one (VStr ''x'')) \<and>
     Execute demo_lib plan' (demo_one (VStr ''x'')) = (Inr res', demo_one (VStr ''x'')) \<and>
     set (rs_rows res) = {demo_row ''a'' (VStr ''x'')} \<and> rs_rows res' = []"
proof -
  note one = demo_one [of "VStr ''x''", simplified]
  have m: "manager_ok (ex_indexes (demo_one (VStr ''x'')))" "equality_indexed (demo_one (VStr ''x'')) ''t'' ''c''"
    using demo_manager [OF one(4)] by (simp_all add: one(4))
  have "\<forall>i row. table_rows demo_lib (ex_engine (demo_one (VStr ''x''))) (tablePrefix (demo_one (VStr ''x'')) ''t'') i = Some row \<longrightarrow>
      (\<exists>t. map_of row ''c'' = Some (VStr t) \<and> NUL \<notin> set t)"
    by (auto simp: one(2,5) demo_row_def)
  note X = index_equality_ignores_case [OF one(1) m _ _ this, of "''X''", unfolded one(2,5)]
  have "{row \<in> ran [''a'' \<mapsto> demo_row ''a'' (VStr ''x'')]. \<exists>t. map_of row ''c'' = Some (VStr t) \<and> map lower_byte t = map lower_byte ''X''} =
      {demo_row ''a'' (VStr ''x'')}"
  proof -
    have "lower_byte (CHR ''x'') = CHR ''x''" "lower_byte (CHR ''X'') = CHR ''x''" by (simp_all add: lower_byte_def char_of_eq_iff)
    then show ?thesis by (auto simp: demo_row_def)
  qed
  moreover have "{row \<in> ran [''a'' \<mapsto> demo_row ''a'' (VStr ''x'')]. map_of row ''c'' = Some (VStr ''X'')} = {}"
    by (auto simp: demo_row_def)
  ultimately show ?thesis using X by (simp only: set_empty) simp
qed

lemma sorted_pair:
  assumes "distinct zs" "set zs = {x, y}" "sorted_wrt (\<lambda>a b. 0 \<le> (f a b :: int)) zs" "f x y = -1" "x \<noteq> y"
  shows "zs = [y, x]"
proof -
  have "length zs = 2" using distinct_card [OF assms(1)] assms(2,5) by simp
  then obtain a b where "zs = [a, b]" by (auto simp: numeral_2_eq_2 length_Suc_conv)
  then show ?thesis using assms by (auto simp: doubleton_eq_iff)
qed

theorem order_by_sorts_witness:
  "\<exists>r r'. Execute demo_lib (ScanNode ''t'' [] None) demo_two = (Inr r, demo_two) \<and>
     set (rs_rows r) = {demo_row ''a'' (VStr ''x''), demo_row ''b'' (VStr ''y'')} \<and>
     Execute demo_lib (SortNode (ScanNode ''t'' [] None) [(IdentifierExpr ''c'' [], False)]) demo_two = (Inr r', demo_two) \<and>
     rs_rows r' = [demo_row ''b'' (VStr ''y''), demo_row ''a'' (VStr ''x'')]"
proof -
  note inv = table_inv_simps [OF demo_two(1)]
  obtain r where r: "Execute demo_lib (ScanNode ''t'' [] None) demo_two = (Inr r, demo_two)" "rs_rows r = scanned_rows demo_lib demo_two ''t''"
    using executeScan_rows [of demo_two "''t''" demo_lib None] inv(2) by (simp add: query_result_def selected_def)
  then have rows: "set (rs_rows r) = {demo_row ''a'' (VStr ''x''), demo_row ''b'' (VStr ''y'')}"
    using set_scanned_rows [OF inv(1), of demo_lib "''t''"] by (auto simp: demo_two(2,5))
  have "\<forall>(e, asc) \<in> set [(IdentifierExpr ''c'' [], False)]. one_kind (evalExpr (xl_go demo_lib) e ` set (rs_rows r))"
    unfolding rows by (simp add: one_kind_def demo_row_def)
  from order_by_sorts [OF r(1) this] obtain r' where r':
    "Execute demo_lib (SortNode (ScanNode ''t'' [] None) [(IdentifierExpr ''c'' [], False)]) demo_two = (Inr r', demo_two)"
    "mset (rs_rows r') = mset (rs_rows r)"
    and pairs: "sorted_wrt (\<lambda>a b. \<forall>pre e asc post. [(IdentifierExpr ''c'' [], False)] = pre @ (e, asc) # post \<longrightarrow>
       (\<forall>(f, _) \<in> set pre. key_cmp demo_lib f a b = 0) \<longrightarrow>
       (if asc then key_cmp demo_lib e a b \<le> 0 else 0 \<le> key_cmp demo_lib e a b)) (rs_rows r')"
    by blast
  have sorted: "sorted_wrt (\<lambda>a b. 0 \<le> key_cmp demo_lib (IdentifierExpr ''c'' []) a b) (rs_rows r')"
    by (rule sorted_wrt_mono_rel [OF _ pairs]) (drule spec [of _ "[]"], drule spec [of _ "IdentifierExpr ''c'' []"], drule spec [of _ False], drule spec [of _ "[]"], simp)
  have "string_id row = i" if "table_rows demo_lib (ex_engine demo_two) (tablePrefix demo_two ''t'') i = Some row" for i row
    using that by (auto simp: demo_two(2,5) demo_row_def string_id_def split: if_splits)
  then have "distinct (map string_id (rs_rows r))" unfolding r(2) by (rule distinct_scanned [OF inv(1)])
  then have "distinct (rs_rows r)" by (simp add: distinct_map)
  then have two: "distinct (rs_rows r')" "set (rs_rows r') = {demo_row ''a'' (VStr ''x''), demo_row ''b'' (VStr ''y'')}"
    using r'(2) rows by (metis mset_eq_imp_distinct_iff, metis mset_eq_setD)
  have cmp: "key_cmp demo_lib (IdentifierExpr ''c'' []) (demo_row ''a'' (VStr ''x'')) (demo_row ''b'' (VStr ''y'')) = -1"
    by (simp add: demo_row_def compareValues_def isNumeric_def strings_Compare_def)
  have ne: "demo_row ''a'' (VStr ''x'') \<noteq> demo_row ''b'' (VStr ''y'')" by (simp add: demo_row_def)
  have "rs_rows r' = [demo_row ''b'' (VStr ''y''), demo_row ''a'' (VStr ''x'')]"
    using two sorted cmp ne by (rule sorted_pair)
  then show ?thesis using r(1) rows r'(1) by blast
qed

theorem reading_changes_nothing_witness: "snd (handleQuery demo_lib ''SHOW TABLES'' demo_two) = demo_two"
proof -
  have lex: "Tokenize ''SHOW TABLES'' = Inr [\<lparr>tok_type = TOKEN_SHOW, tok_lit = ''SHOW'', tok_pos = 0\<rparr>,
      \<lparr>tok_type = TOKEN_TABLES, tok_lit = ''TABLES'', tok_pos = 5\<rparr>, \<lparr>tok_type = TOKEN_EOF, tok_lit = [], tok_pos = 11\<rparr>]"
    by code_simp
  have "Parse ''SHOW TABLES'' = POk ShowTablesStmt [\<lparr>tok_type = TOKEN_EOF, tok_lit = [], tok_pos = 11\<rparr>]"
    by (simp add: Parse_def lex parse_tokens_def parseStatement_def parseShow_def parseShowTables_def with_peek_def Let_def pbind_def
        pexpect_def on_tok_def pret_def peek_def try_expect_def on_word_def opt_semicolon_def)
  then have "\<forall>stmt rest. Parse ''SHOW TABLES'' = POk stmt rest \<longrightarrow> only_reads stmt" by auto
  then show ?thesis by (rule reading_changes_nothing)
qed

end
