(* ===== verification/GraphStore.thy ===== *)
theory GraphStore
  imports Engine
begin

text \<open>
  Model of \<^verbatim>\<open>internal/graph/store.go\<close>: nodes and edges as JSON under the graph prefix of the engine, with
  key-only entries that index nodes by type and name and edges by their ends and type; neighbours,
  k-hop neighbours and shortest paths on top of them. \<open>encoding/json\<close> is the record \<open>graph_json\<close>.
\<close>

section \<open>Nodes and edges\<close>

record graph_node =
  gn_ID :: bytes
  gn_Type :: bytes
  gn_Name :: bytes
  gn_Properties :: "(bytes \<times> val) list"

record graph_edge =
  ge_ID :: bytes
  ge_Type :: bytes
  ge_FromID :: bytes
  ge_ToID :: bytes
  ge_Properties :: "(bytes \<times> val) list"
  ge_Weight :: u64

datatype direction = DirOut | DirIn | DirBoth

record graph_json =
  node_enc :: "graph_node \<Rightarrow> bytes option"
  node_dec :: "bytes \<Rightarrow> graph_node option"
  edge_enc :: "graph_edge \<Rightarrow> bytes option"
  edge_dec :: "bytes \<Rightarrow> graph_edge option"

datatype graph_error =
    NodeIDRequired
  | EdgeIDRequired
  | EndsRequired
  | GraphMarshal
  | NodeNotFound bytes
  | EdgeNotFound bytes
  | GraphUnmarshal
  | NoPath bytes bytes

section \<open>Storing\<close>

definition node_key :: "bytes \<Rightarrow> bytes" where
  "node_key i = EncodeKey PrefixGraph i"

definition edge_key :: "bytes \<Rightarrow> bytes" where
  "edge_key i = EncodeKey PrefixGraph (''edge:'' @ i)"

definition graph_index :: "bytes \<Rightarrow> bytes \<Rightarrow> bytes" where
  "graph_index field i = EncodeIndexKey PrefixGraph field i"

definition mark :: bytes where
  "mark = [CHR 0x01]"

definition AddNode :: "graph_json \<Rightarrow> graph_node \<Rightarrow> kv \<Rightarrow> graph_error option \<times> kv" where
  "AddNode lib node s =
     (if gn_ID node = [] then (Some NodeIDRequired, s)
      else case node_enc lib node of
        None \<Rightarrow> (Some GraphMarshal, s)
      | Some data \<Rightarrow>
          let s = engine_set s (node_key (gn_ID node)) data;
              s = engine_set s (graph_index (''type:'' @ gn_Type node) (gn_ID node)) mark;
              s = engine_set s (graph_index (''name:'' @ gn_Name node) (gn_ID node)) mark
          in (None, s))"

definition GetNode :: "graph_json \<Rightarrow> kv \<Rightarrow> bytes \<Rightarrow> graph_error + graph_node" where
  "GetNode lib s i =
     (case engine_get s (node_key i) of
        None \<Rightarrow> Inl (NodeNotFound i)
      | Some data \<Rightarrow> (case node_dec lib data of None \<Rightarrow> Inl GraphUnmarshal | Some node \<Rightarrow> Inr node))"

definition AddEdge :: "graph_json \<Rightarrow> graph_edge \<Rightarrow> kv \<Rightarrow> graph_error option \<times> kv" where
  "AddEdge lib edge s =
     (if ge_ID edge = [] then (Some EdgeIDRequired, s)
      else if ge_FromID edge = [] \<or> ge_ToID edge = [] then (Some EndsRequired, s)
      else case edge_enc lib edge of
        None \<Rightarrow> (Some GraphMarshal, s)
      | Some data \<Rightarrow>
          let s = engine_set s (edge_key (ge_ID edge)) data;
              s = engine_set s (graph_index (''out:'' @ ge_FromID edge) (ge_ID edge)) mark;
              s = engine_set s (graph_index (''in:'' @ ge_ToID edge) (ge_ID edge)) mark;
              s = engine_set s (graph_index (''etype:'' @ ge_Type edge) (ge_ID edge)) mark
          in (None, s))"

definition GetEdge :: "graph_json \<Rightarrow> kv \<Rightarrow> bytes \<Rightarrow> graph_error + graph_edge" where
  "GetEdge lib s i =
     (case engine_get s (edge_key i) of
        None \<Rightarrow> Inl (EdgeNotFound i)
      | Some data \<Rightarrow> (case edge_dec lib data of None \<Rightarrow> Inl GraphUnmarshal | Some edge \<Rightarrow> Inr edge))"

definition DeleteEdge :: "graph_json \<Rightarrow> bytes \<Rightarrow> kv \<Rightarrow> graph_error option \<times> kv" where
  "DeleteEdge lib i s =
     (case GetEdge lib s i of
        Inl e \<Rightarrow> (Some e, s)
      | Inr edge \<Rightarrow>
          let s = engine_delete s (edge_key i);
              s = engine_delete s (graph_index (''out:'' @ ge_FromID edge) (ge_ID edge));
              s = engine_delete s (graph_index (''in:'' @ ge_ToID edge) (ge_ID edge));
              s = engine_delete s (graph_index (''etype:'' @ ge_Type edge) (ge_ID edge))
          in (None, s))"

section \<open>Edges of a node\<close>

definition indexed_ids :: "kv \<Rightarrow> bytes \<Rightarrow> int \<Rightarrow> bytes list" where
  "indexed_ids s field limit =
     map (\<lambda>(k, _). DecodeIndexID k)
       (iter_collect (engine_prefix_scan s (graph_index field []) \<lparr>so_limit = limit, so_reverse = False\<rparr>))"

definition found :: "graph_error + 'a \<Rightarrow> 'a option" where
  "found r = (case r of Inl _ \<Rightarrow> None | Inr x \<Rightarrow> Some x)"

definition getEdgesByIndex :: "graph_json \<Rightarrow> kv \<Rightarrow> bytes \<Rightarrow> graph_edge list" where
  "getEdgesByIndex lib s field = List.map_filter (\<lambda>i. found (GetEdge lib s i)) (indexed_ids s field 0)"

definition GetOutEdges :: "graph_json \<Rightarrow> kv \<Rightarrow> bytes \<Rightarrow> graph_edge list" where
  "GetOutEdges lib s i = getEdgesByIndex lib s (''out:'' @ i)"

definition GetInEdges :: "graph_json \<Rightarrow> kv \<Rightarrow> bytes \<Rightarrow> graph_edge list" where
  "GetInEdges lib s i = getEdgesByIndex lib s (''in:'' @ i)"

definition GetEdges :: "graph_json \<Rightarrow> kv \<Rightarrow> bytes \<Rightarrow> graph_edge list" where
  "GetEdges lib s i = getEdgesByIndex lib s (''out:'' @ i) @ getEdgesByIndex lib s (''in:'' @ i)"

definition DeleteNode :: "graph_json \<Rightarrow> bytes \<Rightarrow> kv \<Rightarrow> graph_error option \<times> kv" where
  "DeleteNode lib i s =
     (case GetNode lib s i of
        Inl e \<Rightarrow> (Some e, s)
      | Inr node \<Rightarrow>
          let s = fold (\<lambda>edge s. snd (DeleteEdge lib (ge_ID edge) s)) (GetEdges lib s i) s;
              s = engine_delete s (node_key i);
              s = engine_delete s (graph_index (''type:'' @ gn_Type node) (gn_ID node));
              s = engine_delete s (graph_index (''name:'' @ gn_Name node) (gn_ID node))
          in (None, s))"

definition nodes_by_index :: "graph_json \<Rightarrow> kv \<Rightarrow> bytes \<Rightarrow> int \<Rightarrow> graph_node list" where
  "nodes_by_index lib s field limit = List.map_filter (\<lambda>i. found (GetNode lib s i)) (indexed_ids s field limit)"

definition FindNodesByType :: "graph_json \<Rightarrow> kv \<Rightarrow> bytes \<Rightarrow> int \<Rightarrow> graph_node list" where
  "FindNodesByType lib s t limit = nodes_by_index lib s (''type:'' @ t) limit"

definition FindNodesByName :: "graph_json \<Rightarrow> kv \<Rightarrow> bytes \<Rightarrow> int \<Rightarrow> graph_node list" where
  "FindNodesByName lib s n limit = nodes_by_index lib s (''name:'' @ n) limit"

definition FindEdgesByType :: "graph_json \<Rightarrow> kv \<Rightarrow> bytes \<Rightarrow> int \<Rightarrow> graph_edge list" where
  "FindEdgesByType lib s t limit = getEdgesByIndex lib s (''etype:'' @ t)"

section \<open>Neighbours\<close>

text \<open>The node at the other end of an edge of \<open>i\<close>, none when the direction does not fit.\<close>

definition other_end :: "direction \<Rightarrow> bytes \<Rightarrow> graph_edge \<Rightarrow> bytes option" where
  "other_end dir i edge =
     (case dir of
        DirOut \<Rightarrow> if ge_FromID edge \<noteq> i then None else Some (ge_ToID edge)
      | DirIn \<Rightarrow> if ge_ToID edge \<noteq> i then None else Some (ge_FromID edge)
      | DirBoth \<Rightarrow> if ge_FromID edge = i then Some (ge_ToID edge) else Some (ge_FromID edge))"

definition adjacent_ids :: "graph_json \<Rightarrow> kv \<Rightarrow> direction \<Rightarrow> bytes \<Rightarrow> bytes list" where
  "adjacent_ids lib s dir i = List.map_filter (other_end dir i) (GetEdges lib s i)"

fun neighbor_loop :: "graph_json \<Rightarrow> kv \<Rightarrow> bytes list \<Rightarrow> bytes list \<Rightarrow> graph_node list" where
  "neighbor_loop lib s seen [] = []"
| "neighbor_loop lib s seen (i # ids) =
     (if i \<in> set seen then neighbor_loop lib s seen ids
      else case found (GetNode lib s i) of
             None \<Rightarrow> neighbor_loop lib s (i # seen) ids
           | Some node \<Rightarrow> node # neighbor_loop lib s (i # seen) ids)"

definition GetNeighbors :: "graph_json \<Rightarrow> kv \<Rightarrow> bytes \<Rightarrow> direction \<Rightarrow> graph_node list" where
  "GetNeighbors lib s i dir = neighbor_loop lib s [] (adjacent_ids lib s dir i)"

text \<open>One hop: the nodes visited so far and those that are new.\<close>

fun visit_new :: "bytes list \<Rightarrow> bytes list \<times> bytes list \<Rightarrow> bytes list \<times> bytes list" where
  "visit_new [] vn = vn"
| "visit_new (i # ids) (visited, next') =
     (if i \<in> set visited then visit_new ids (visited, next') else visit_new ids (i # visited, next' @ [i]))"

definition hop :: "(bytes \<Rightarrow> bytes list) \<Rightarrow> bytes list \<times> bytes list \<Rightarrow> bytes list \<times> bytes list" where
  "hop adj vl = (case vl of (visited, level) \<Rightarrow> fold (\<lambda>i. visit_new (adj i)) level (visited, []))"

definition KHopNeighbors :: "graph_json \<Rightarrow> kv \<Rightarrow> bytes \<Rightarrow> int \<Rightarrow> direction \<Rightarrow> graph_node list" where
  "KHopNeighbors lib s i k dir =
     (if k \<le> 0 then []
      else let (_, level) = (hop (adjacent_ids lib s dir) ^^ nat k) ([i], [i])
           in List.map_filter (\<lambda>i. found (GetNode lib s i)) (sort level))"

section \<open>Shortest paths\<close>

text \<open>
  Breadth-first search. The edges of one node either end the search, with the parents known by then, or
  extend visited nodes, parents and queue.
\<close>

type_synonym parents = "(bytes \<times> bytes) list"

fun bfs_edges ::
    "bytes \<Rightarrow> bytes \<Rightarrow> bytes list \<Rightarrow> bytes list \<times> parents \<times> bytes list \<Rightarrow> parents + bytes list \<times> parents \<times> bytes list" where
  "bfs_edges to current [] st = Inr st"
| "bfs_edges to current (i # ids) (visited, parent, queue) =
     (if i \<in> set visited then bfs_edges to current ids (visited, parent, queue)
      else if i = to then Inl ((i, current) # parent)
      else bfs_edges to current ids (i # visited, (i, current) # parent, queue @ [i]))"

text \<open>The loop of the path: an absent parent reads as the empty string.\<close>

definition parent_of :: "parents \<Rightarrow> bytes \<Rightarrow> bytes" where
  "parent_of parent i = (case map_of parent i of Some p \<Rightarrow> p | None \<Rightarrow> [])"

partial_function (option) backtrack :: "parents \<Rightarrow> bytes \<Rightarrow> bytes list \<Rightarrow> bytes list option" where
  "backtrack parent p path = (if p = [] then Some path else backtrack parent (parent_of parent p) (p # path))"

partial_function (option) bfs ::
    "(bytes \<Rightarrow> bytes list) \<Rightarrow> bytes \<Rightarrow> bytes list \<times> parents \<times> bytes list \<Rightarrow> bytes list option option" where
  "bfs adj to st =
     (case st of (visited, parent, queue) \<Rightarrow>
        (case queue of
           [] \<Rightarrow> Some None
         | current # rest \<Rightarrow>
             (case bfs_edges to current (adj current) (visited, parent, rest) of
                Inl parent' \<Rightarrow> map_option Some (backtrack parent' (parent_of parent' to) [to])
              | Inr st' \<Rightarrow> bfs adj to st')))"

text \<open>\<open>None\<close> would be a search that does not end.\<close>

definition ShortestPath ::
    "graph_json \<Rightarrow> kv \<Rightarrow> bytes \<Rightarrow> bytes \<Rightarrow> direction \<Rightarrow> (graph_error + bytes list) option" where
  "ShortestPath lib s from to dir =
     (if from = to then Some (Inr [from])
      else map_option (\<lambda>r. case r of None \<Rightarrow> Inl (NoPath from to) | Some path \<Rightarrow> Inr path)
             (bfs (adjacent_ids lib s dir) to ([from], [], [from])))"

end
