(* ===== verification/GraphPaths.thy ===== *)
theory GraphPaths
  imports GraphStore
begin

text \<open>
  Breadth-first search and hops over any adjacency function: the search ends, and the path it returns is a
  shortest walk; after \<open>k\<close> hops the level holds the nodes at distance \<open>k\<close>.
\<close>

section \<open>Walks and distances\<close>

fun walk :: "(bytes \<Rightarrow> bytes list) \<Rightarrow> bytes list \<Rightarrow> bool" where
  "walk adj [] = False"
| "walk adj [x] = True"
| "walk adj (x # y # p) = (y \<in> set (adj x) \<and> walk adj (y # p))"

primrec steps :: "(bytes \<Rightarrow> bytes list) \<Rightarrow> bytes \<Rightarrow> nat \<Rightarrow> bytes set" where
  "steps adj from 0 = {from}"
| "steps adj from (Suc n) = (\<Union>u \<in> steps adj from n. set (adj u))"

lemma walk_snoc: "walk adj (p @ [x]) \<longleftrightarrow> p = [] \<or> walk adj p \<and> x \<in> set (adj (last p))"
  by (induction adj p rule: walk.induct) auto

lemma walk_steps: "walk adj p \<Longrightarrow> last p \<in> steps adj (hd p) (length p - 1)"
proof (induction p rule: rev_induct)
  case (snoc x p)
  show ?case
  proof (cases "p = []")
    case False
    then have "walk adj p" "x \<in> set (adj (last p))" using snoc.prems by (simp_all add: walk_snoc)
    moreover have "length p = Suc (length p - 1)" using False by (cases p) simp_all
    ultimately show ?thesis using snoc.IH False by (metis UN_I append_is_Nil_conv diff_Suc_1 hd_append2 last_snoc
          length_append_singleton steps.simps(2))
  qed simp
qed simp

section \<open>Breadth-first search\<close>

lemma bfs_edges_goes_on:
  "bfs_edges to current ids (V, P, q) = Inr (V', P', q') \<Longrightarrow> to \<notin> set V \<Longrightarrow>
     to \<notin> set ids \<and> (\<exists>new. q' = q @ new \<and> set V' = set V \<union> set new \<and> set new = set ids - set V \<and> distinct new \<and>
       (\<forall>v. map_of P' v = (if v \<in> set new then Some current else map_of P v)))"
proof (induction ids arbitrary: V P q)
  case (Cons i ids)
  show ?case
  proof (cases "i \<in> set V")
    case True
    then have "bfs_edges to current ids (V, P, q) = Inr (V', P', q')" using Cons.prems(1) by simp
    from Cons.IH [OF this Cons.prems(2)] obtain new where new: "q' = q @ new" "set V' = set V \<union> set new"
      "set new = set ids - set V" "distinct new" "\<forall>v. map_of P' v = (if v \<in> set new then Some current else map_of P v)"
      and to: "to \<notin> set ids" by blast
    have "to \<noteq> i" using True Cons.prems(2) by blast
    then show ?thesis using new to True by (intro conjI exI [of _ new]) auto
  next
    case False
    then have run: "bfs_edges to current ids (i # V, (i, current) # P, q @ [i]) = Inr (V', P', q')" "i \<noteq> to"
      using Cons.prems(1) by (auto split: if_splits)
    then have "to \<notin> set (i # V)" using Cons.prems(2) by simp
    from Cons.IH [OF run(1) this] obtain new where new: "q' = (q @ [i]) @ new" "set V' = set (i # V) \<union> set new"
      "set new = set ids - set (i # V)" "distinct new"
      "\<forall>v. map_of P' v = (if v \<in> set new then Some current else map_of ((i, current) # P) v)"
      and to: "to \<notin> set ids" by blast
    then show ?thesis using False run(2) by (intro conjI exI [of _ "i # new"]) auto
  qed
qed auto

lemma bfs_edges_found:
  "bfs_edges to current ids (V, P, q) = Inl P' \<Longrightarrow> to \<notin> set V \<Longrightarrow>
     to \<in> set ids \<and> map_of P' to = Some current \<and> (\<forall>v \<in> set V. map_of P' v = map_of P v)"
proof (induction ids arbitrary: V P q)
  case (Cons i ids)
  show ?case
  proof (cases "i \<in> set V")
    case True
    then show ?thesis using Cons.IH [of V P q] Cons.prems by simp
  next
    case False
    show ?thesis
    proof (cases "i = to")
      case True
      then show ?thesis using Cons.prems False by auto
    next
      case new: False
      then have "bfs_edges to current ids (i # V, (i, current) # P, q @ [i]) = Inl P'" using Cons.prems(1) False by simp
      from Cons.IH [OF this] show ?thesis using Cons.prems(2) new False by auto
    qed
  qed
qed simp

text \<open>
  The invariant, with the distance of every visited node: parents are one nearer, the queue is in the order of
  the distances, which differ by one at most, and what has left the queue has its neighbours visited.
\<close>

definition bfs_inv ::
    "(bytes \<Rightarrow> bytes list) \<Rightarrow> bytes \<Rightarrow> bytes \<Rightarrow> (bytes \<Rightarrow> nat) \<Rightarrow> bytes list \<times> parents \<times> bytes list \<Rightarrow> bool" where
  "bfs_inv adj from to L st \<longleftrightarrow>
     (case st of (V, P, q) \<Rightarrow>
        from \<in> set V \<and> L from = 0 \<and> map_of P from = None \<and> to \<notin> set V \<and> set q \<subseteq> set V \<and>
        (\<forall>v \<in> set V. v \<noteq> from \<longrightarrow> (\<exists>u \<in> set V. map_of P v = Some u \<and> v \<in> set (adj u) \<and> L v = Suc (L u))) \<and>
        sorted (map L q) \<and> (\<forall>x \<in> set q. \<forall>y \<in> set q. L y \<le> Suc (L x)) \<and>
        (\<forall>u \<in> set V - set q. (\<forall>x \<in> set q. L u \<le> L x) \<and> (\<forall>v \<in> set (adj u). v \<in> set V \<and> L v \<le> Suc (L u))))"

lemma bfs_frontier:
  "bfs_inv adj from to L (V, P, q) \<Longrightarrow> w \<in> steps adj from n \<Longrightarrow> w \<in> set V \<and> L w \<le> n \<or> (\<exists>x \<in> set q. L x \<le> n)"
proof (induction n arbitrary: w)
  case 0
  then show ?case by (simp add: bfs_inv_def)
next
  case (Suc n)
  then obtain u where u: "u \<in> steps adj from n" "w \<in> set (adj u)" by auto
  from Suc.IH [OF Suc.prems(1) u(1)] consider "\<exists>x \<in> set q. L x \<le> n" | "u \<in> set V" "L u \<le> n" "u \<notin> set q" by auto
  then show ?case
  proof cases
    case 2
    then have "w \<in> set V" "L w \<le> Suc (L u)" using Suc.prems(1) u(2) by (auto simp: bfs_inv_def)
    then show ?thesis using 2(2) by simp
  qed (auto intro: le_SucI)
qed

lemma bfs_backtrack:
  assumes "bfs_inv adj from to L (V, P, q)" "\<forall>v \<in> set V. map_of P' v = map_of P v" "[] \<notin> set V"
  shows "v \<in> set V \<Longrightarrow> \<exists>p. backtrack P' v path = Some (p @ path) \<and> walk adj p \<and> hd p = from \<and> last p = v \<and> length p = Suc (L v)"
proof (induction "L v" arbitrary: v path)
  case 0
  then have "v = from" using assms(1) by (auto simp: bfs_inv_def)
  moreover from this have "parent_of P' v = []" using assms(1,2) by (simp add: parent_of_def bfs_inv_def)
  moreover have "v \<noteq> []" using 0 assms(3) by blast
  moreover have "backtrack P' [] (v # path) = Some (v # path)" by (subst backtrack.simps) simp
  ultimately have "backtrack P' v path = Some ([v] @ path)" by (subst backtrack.simps) simp
  then show ?case using 0 \<open>v = from\<close> by (intro exI [of _ "[v]"]) simp
next
  case (Suc n)
  then have "v \<noteq> from" using assms(1) by (auto simp: bfs_inv_def)
  then obtain u where u: "u \<in> set V" "map_of P v = Some u" "v \<in> set (adj u)" "L v = Suc (L u)"
    using assms(1) Suc.prems by (auto simp: bfs_inv_def)
  then obtain p where p: "backtrack P' u (v # path) = Some (p @ v # path)" "walk adj p" "hd p = from" "last p = u" "length p = Suc (L u)"
    using Suc.hyps(1) [of u "v # path"] Suc.hyps(2) by auto
  have "v \<noteq> []" "parent_of P' v = u" using Suc.prems assms(2,3) u(2) by (auto simp: parent_of_def)
  then have "backtrack P' v path = Some ((p @ [v]) @ path)" using p(1) by (simp add: backtrack.simps [of P' v])
  moreover have "p \<noteq> []" using p(5) by auto
  ultimately show ?case using p u by (intro exI [of _ "p @ [v]"]) (auto simp: walk_snoc)
qed

lemma bfs_inv_next:
  assumes inv: "bfs_inv adj from to L (V, P, current # rest)"
    and run: "bfs_edges to current (adj current) (V, P, rest) = Inr (V', P', q')"
  obtains new where "bfs_inv adj from to (\<lambda>v. if v \<in> set new then Suc (L current) else L v) (V', P', q')"
    "q' = rest @ new" "set V' = set V \<union> set new" "set new = set (adj current) - set V" "distinct new"
proof -
  have to: "to \<notin> set V" using inv by (simp add: bfs_inv_def)
  from bfs_edges_goes_on [OF run to] obtain new where new: "q' = rest @ new" "set V' = set V \<union> set new"
    "set new = set (adj current) - set V" "distinct new" and P': "\<forall>v. map_of P' v = (if v \<in> set new then Some current else map_of P v)"
    and to': "to \<notin> set (adj current)" by blast
  let ?L = "\<lambda>v. if v \<in> set new then Suc (L current) else L v"
  have V: "from \<in> set V" "L from = 0" "map_of P from = None" "current \<in> set V" "set rest \<subseteq> set V"
    using inv by (simp_all add: bfs_inv_def)
  have par: "\<And>v. v \<in> set V \<Longrightarrow> v \<noteq> from \<Longrightarrow> \<exists>u \<in> set V. map_of P v = Some u \<and> v \<in> set (adj u) \<and> L v = Suc (L u)"
    using inv unfolding bfs_inv_def prod.case by blast
  have sorted: "sorted (map L rest)" "\<And>x. x \<in> set rest \<Longrightarrow> L current \<le> L x" "\<And>x. x \<in> set rest \<Longrightarrow> L x \<le> Suc (L current)"
    using inv by (simp_all add: bfs_inv_def)
  have old: "\<And>u x. u \<in> set V \<Longrightarrow> u \<notin> set (current # rest) \<Longrightarrow> x \<in> set (current # rest) \<Longrightarrow> L u \<le> L x"
      "\<And>u v. u \<in> set V \<Longrightarrow> u \<notin> set (current # rest) \<Longrightarrow> v \<in> set (adj u) \<Longrightarrow> v \<in> set V \<and> L v \<le> Suc (L u)"
    using inv unfolding bfs_inv_def prod.case by blast+
  have L: "?L v = L v" if "v \<in> set V" for v using that new(3) by simp
  have near: "L v \<le> Suc (L current)" if "v \<in> set V" for v
    using old(1) [of v current] sorted(3) [of v] that by (cases "v \<in> set (current # rest)") auto
  have "bfs_inv adj from to ?L (V', P', q')"
    unfolding bfs_inv_def prod.case
  proof (intro conjI)
    show "from \<in> set V'" "?L from = 0" "map_of P' from = None" "to \<notin> set V'" "set q' \<subseteq> set V'"
      using V to to' new P' L by auto
    show "\<forall>v \<in> set V'. v \<noteq> from \<longrightarrow> (\<exists>u \<in> set V'. map_of P' v = Some u \<and> v \<in> set (adj u) \<and> ?L v = Suc (?L u))"
    proof (intro ballI impI)
      fix v assume v: "v \<in> set V'" "v \<noteq> from"
      show "\<exists>u \<in> set V'. map_of P' v = Some u \<and> v \<in> set (adj u) \<and> ?L v = Suc (?L u)"
      proof (cases "v \<in> set new")
        case True
        then show ?thesis using V(4) new(2,3) P' L by (intro bexI [of _ current]) auto
      next
        case False
        then have "v \<in> set V" using v new(2) by blast
        from par [OF this v(2)] show ?thesis using P' False L new(2) \<open>v \<in> set V\<close> by fastforce
      qed
    qed
    have mapL: "map ?L rest = map L rest" "map ?L new = map (\<lambda>_. Suc (L current)) new"
      using L V(5) by (intro map_cong refl, blast) simp
    show "sorted (map ?L q')"
      unfolding new(1) map_append sorted_append mapL using sorted by (auto simp: map_replicate_const)
    show "\<forall>x \<in> set q'. \<forall>y \<in> set q'. ?L y \<le> Suc (?L x)"
    proof (intro ballI)
      fix x y assume "x \<in> set q'" "y \<in> set q'"
      then have "L current \<le> ?L x" "?L y \<le> Suc (L current)"
        using sorted(2,3) L V(5) by (auto simp: new(1))
      then show "?L y \<le> Suc (?L x)" by linarith
    qed
    show "\<forall>u \<in> set V' - set q'. (\<forall>x \<in> set q'. ?L u \<le> ?L x) \<and> (\<forall>v \<in> set (adj u). v \<in> set V' \<and> ?L v \<le> Suc (?L u))"
    proof
      fix u assume u: "u \<in> set V' - set q'"
      then have uV: "u \<in> set V" "u \<notin> set rest" "u \<notin> set new" using new(1,2) by auto
      have le: "?L u \<le> ?L x" if x: "x \<in> set q'" for x
      proof (cases "x \<in> set new")
        case True
        then show ?thesis using near [OF uV(1)] uV(3) by simp
      next
        case False
        then have "x \<in> set rest" using x new(1) by auto
        then show ?thesis using old(1) [OF uV(1), of x] sorted(2) uV False by (cases "u = current") auto
      qed
      have "v \<in> set V' \<and> ?L v \<le> Suc (?L u)" if v: "v \<in> set (adj u)" for v
      proof (cases "u = current")
        case True
        then show ?thesis using v new(2,3) near [of v] uV(3) by auto
      next
        case False
        then show ?thesis using old(2) [OF uV(1) _ v] uV new(2) L by auto
      qed
      with le show "(\<forall>x \<in> set q'. ?L u \<le> ?L x) \<and> (\<forall>v \<in> set (adj u). v \<in> set V' \<and> ?L v \<le> Suc (?L u))" by blast
    qed
  qed
  then show ?thesis using that new by blast
qed

text \<open>The search ends: every round takes one node off the queue and adds only nodes not visited before.\<close>

lemma bfs_correct:
  assumes U: "finite U" "\<And>u. set (adj u) \<subseteq> U" "[] \<notin> U" and ends: "from \<noteq> []" "from \<noteq> to"
    and inv: "bfs_inv adj from to L (V, P, q)" and V: "set V \<subseteq> insert from U"
  shows "\<exists>r. bfs adj to (V, P, q) = Some r \<and>
    (case r of None \<Rightarrow> \<forall>n. to \<notin> steps adj from n
     | Some p \<Rightarrow> walk adj p \<and> hd p = from \<and> last p = to \<and> (\<forall>n. to \<in> steps adj from n \<longrightarrow> length p \<le> Suc n))"
  using inv V
proof (induction "card (insert from U - set V) + length q" arbitrary: V P q L rule: less_induct)
  case less
  note inv = less.prems(1) and V = less.prems(2)
  have to: "to \<notin> set V" using inv by (simp add: bfs_inv_def)
  have nonempty: "[] \<notin> set V" using V U(3) ends(1) by auto
  show ?case
  proof (cases q)
    case Nil
    then have "to \<notin> steps adj from n" for n using bfs_frontier [OF inv, of to n] to by auto
    then show ?thesis using Nil by (subst bfs.simps) simp
  next
    case (Cons current rest)
    note inv' = inv [unfolded Cons]
    show ?thesis
    proof (cases "bfs_edges to current (adj current) (V, P, rest)")
      case (Inl P')
      note found = bfs_edges_found [OF Inl to]
      have cur: "current \<in> set V" using inv' by (simp add: bfs_inv_def)
      obtain p where p: "backtrack P' current [to] = Some (p @ [to])" "walk adj p" "hd p = from" "last p = current"
        "length p = Suc (L current)"
        using bfs_backtrack [OF inv' _ nonempty cur, of P' "[to]"] found by blast
      have "p \<noteq> []" using p(5) by auto
      then have "walk adj (p @ [to])" "hd (p @ [to]) = from" using p found by (simp_all add: walk_snoc)
      moreover have "length (p @ [to]) \<le> Suc n" if "to \<in> steps adj from n" for n
      proof (cases n)
        case 0
        then show ?thesis using that ends(2) by simp
      next
        case (Suc m)
        then obtain w where w: "w \<in> steps adj from m" "to \<in> set (adj w)" using \<open>to \<in> steps adj from n\<close> by auto
        have head: "L current \<le> L x" if "x \<in> set q" for x
          using that inv' by (auto simp: bfs_inv_def Cons)
        have "L current \<le> m"
          using bfs_frontier [OF inv w(1)] head to w(2) inv unfolding bfs_inv_def prod.case by (metis DiffI order_trans)
        then show ?thesis using Suc p(5) by simp
      qed
      moreover have "parent_of P' to = current" using found by (simp add: parent_of_def)
      ultimately show ?thesis using p(1) Cons Inl by (subst bfs.simps) simp
    next
      case (Inr st')
      obtain V' P' q' where st': "st' = (V', P', q')" by (cases st')
      obtain new where next': "bfs_inv adj from to (\<lambda>v. if v \<in> set new then Suc (L current) else L v) (V', P', q')"
        "q' = rest @ new" "set V' = set V \<union> set new" "set new = set (adj current) - set V" "distinct new"
        by (rule bfs_inv_next [OF inv' Inr [unfolded st']])
      have "set new \<subseteq> insert from U - set V" using next'(4) U(2) by blast
      moreover have "insert from U - set V' = (insert from U - set V) - set new" using next'(3) by blast
      ultimately have "card (insert from U - set V') + length new = card (insert from U - set V)"
        using card_Diff_subset [of "set new" "insert from U - set V"] card_mono [of "insert from U - set V" "set new"] U(1)
          distinct_card [OF next'(5)] by simp
      then have smaller: "card (insert from U - set V') + length q' < card (insert from U - set V) + length q"
        by (simp add: next'(2) Cons)
      have "set V' \<subseteq> insert from U" using V next'(3,4) U(2) by blast
      from less.hyps [OF smaller next'(1) this] show ?thesis
        using Cons Inr st' by (subst bfs.simps) simp
    qed
  qed
qed

section \<open>Hops\<close>

lemma visit_new_spec:
  "visit_new ids (V, q) = (V', q') \<Longrightarrow> set V' = set V \<union> set ids \<and> set q' = set q \<union> (set ids - set V)"
  by (induction ids arbitrary: V q) (auto split: if_splits)

lemma hop_spec:
  "hop adj (V, level) = (V', level') \<Longrightarrow>
     set V' = set V \<union> (\<Union>u \<in> set level. set (adj u)) \<and> set level' = (\<Union>u \<in> set level. set (adj u)) - set V"
proof -
  have "fold (\<lambda>i. visit_new (adj i)) us (V, q) = (V', q') \<Longrightarrow>
      set V' = set V \<union> (\<Union>u \<in> set us. set (adj u)) \<and> set q' = set q \<union> ((\<Union>u \<in> set us. set (adj u)) - set V)" for us V q V' q'
  proof (induction us arbitrary: V q)
    case (Cons u us)
    obtain V1 q1 where one: "visit_new (adj u) (V, q) = (V1, q1)" by (meson surj_pair)
    note visit_new_spec [OF one] Cons.IH [of V1 q1]
    then show ?case using Cons.prems one by auto
  qed simp
  from this [of level V "[]" V' level'] show "hop adj (V, level) = (V', level') \<Longrightarrow> ?thesis" by (simp add: hop_def)
qed

lemma union_without: "(\<And>u. u \<in> A \<Longrightarrow> f u \<subseteq> W) \<Longrightarrow> W \<union> (\<Union>u \<in> S - A. f u) = W \<union> (\<Union>u \<in> S. f u)"
  by blast

text \<open>The nodes that \<open>k\<close> steps reach and no fewer.\<close>

lemma hops_spec:
  "(hop adj ^^ k) ([i], [i]) = (V, level) \<Longrightarrow>
     set V = (\<Union>n \<le> k. steps adj i n) \<and> set level = steps adj i k - (\<Union>n < k. steps adj i n)"
proof (induction k arbitrary: V level)
  case 0
  then show ?case by auto
next
  case (Suc k)
  obtain V1 l1 where one: "(hop adj ^^ k) ([i], [i]) = (V1, l1)" by (meson surj_pair)
  then have "hop adj (V1, l1) = (V, level)" using Suc.prems by simp
  from hop_spec [OF this] have h: "set V = set V1 \<union> (\<Union>u \<in> set l1. set (adj u))"
    "set level = (\<Union>u \<in> set l1. set (adj u)) - set V1" by blast+
  let ?succ = "\<lambda>X. \<Union>u \<in> X. set (adj u)" and ?A = "\<Union>n < k. steps adj i n" and ?S = "steps adj i k"
  from Suc.IH [OF one] have V1: "set V1 = (\<Union>n \<le> k. steps adj i n)" and l1: "set l1 = ?S - ?A" by blast+
  have "set (adj u) \<subseteq> set V1" if "u \<in> ?A" for u
  proof -
    from that obtain n where n: "n < k" "u \<in> steps adj i n" by blast
    then have "set (adj u) \<subseteq> steps adj i (Suc n)" "Suc n \<le> k" by auto
    then show ?thesis unfolding V1 by blast
  qed
  from union_without [OF this] have succs: "set V1 \<union> ?succ (set l1) = set V1 \<union> ?succ ?S" unfolding l1 .
  have diff: "B - A = C - A" if "A \<union> B = A \<union> C" for A B C :: "bytes set" using that by blast
  have "(\<Union>n \<le> Suc k. steps adj i n) = set V1 \<union> ?succ ?S"
    by (simp only: atMost_Suc V1 UN_insert steps.simps Un_commute)
  moreover have "(\<Union>n < Suc k. steps adj i n) = set V1" by (simp only: lessThan_Suc_atMost V1)
  ultimately show ?case by (simp only: h succs diff [OF succs] steps.simps simp_thms)
qed

lemma visit_new_distinct:
  "visit_new ids (V, q) = (V', q') \<Longrightarrow> distinct q \<Longrightarrow> set q \<subseteq> set V \<Longrightarrow> distinct q' \<and> set q' \<subseteq> set V'"
  by (induction ids arbitrary: V q) (fastforce split: if_splits)+

lemma hop_distinct: "distinct (snd (hop adj vl))"
proof -
  have "fold (\<lambda>i. visit_new (adj i)) us (V, q) = (V', q') \<Longrightarrow> distinct q \<Longrightarrow> set q \<subseteq> set V \<Longrightarrow> distinct q'" for us V q V' q'
  proof (induction us arbitrary: V q)
    case (Cons u us)
    obtain V1 q1 where "visit_new (adj u) (V, q) = (V1, q1)" by (meson surj_pair)
    then show ?case using Cons.IH [of V1 q1] Cons.prems visit_new_distinct by auto
  qed simp
  then show ?thesis by (cases vl) (auto simp: hop_def, metis distinct.simps(1) empty_set empty_subsetI prod.collapse)
qed

lemma hops_distinct: "(hop adj ^^ k) ([i], [i]) = (V, level) \<Longrightarrow> distinct level"
  using hop_distinct [of adj "(hop adj ^^ (k - 1)) ([i], [i])"] by (cases k) auto

end
