(* ===== verification/GraphProps.thy ===== *)
theory GraphProps
  imports GraphPaths
begin

text \<open>
  What holds of the graph store: its index entries are those of the stored nodes and edges, as long as
  identifiers are fresh and hold no zero byte, and so edges, neighbours and paths are those of the stored graph.
\<close>

section \<open>The stored graph\<close>

definition stored_edge :: "graph_json \<Rightarrow> kv \<Rightarrow> bytes \<Rightarrow> graph_edge option" where
  "stored_edge lib s i = found (GetEdge lib s i)"

definition stored_node :: "graph_json \<Rightarrow> kv \<Rightarrow> bytes \<Rightarrow> graph_node option" where
  "stored_node lib s i = found (GetNode lib s i)"

definition edge_fields :: "graph_edge \<Rightarrow> bytes list" where
  "edge_fields e = [''out:'' @ ge_FromID e, ''in:'' @ ge_ToID e, ''etype:'' @ ge_Type e]"

definition node_fields :: "graph_node \<Rightarrow> bytes list" where
  "node_fields n = [''type:'' @ gn_Type n, ''name:'' @ gn_Name n]"

definition edge_ok :: "graph_edge \<Rightarrow> bool" where
  "edge_ok e \<longleftrightarrow> ge_ID e \<noteq> [] \<and> ge_FromID e \<noteq> [] \<and> ge_ToID e \<noteq> [] \<and>
     NUL \<notin> set (ge_FromID e) \<and> NUL \<notin> set (ge_ToID e) \<and> NUL \<notin> set (ge_Type e)"

definition node_id_ok :: "bytes \<Rightarrow> bool" where
  "node_id_ok i \<longleftrightarrow> i \<noteq> [] \<and> NUL \<notin> set i \<and> \<not> prefix ''edge:'' i"

definition node_ok :: "graph_node \<Rightarrow> bool" where
  "node_ok n \<longleftrightarrow> node_id_ok (gn_ID n) \<and> NUL \<notin> set (gn_Type n) \<and> NUL \<notin> set (gn_Name n)"

definition edge_field :: "bytes \<Rightarrow> bool" where
  "edge_field f \<longleftrightarrow> NUL \<notin> set f \<and> (prefix ''out:'' f \<or> prefix ''in:'' f \<or> prefix ''etype:'' f)"

definition node_field :: "bytes \<Rightarrow> bool" where
  "node_field f \<longleftrightarrow> NUL \<notin> set f \<and> (prefix ''type:'' f \<or> prefix ''name:'' f)"

definition graph_inv :: "graph_json \<Rightarrow> kv \<Rightarrow> bool" where
  "graph_inv lib s \<longleftrightarrow>
     kv_ok s \<and>
     (\<forall>i data. engine_get s (edge_key i) = Some data \<longrightarrow> (\<exists>e. edge_dec lib data = Some e \<and> ge_ID e = i \<and> edge_ok e)) \<and>
     (\<forall>f i. edge_field f \<longrightarrow>
        (engine_get s (graph_index f i) \<noteq> None \<longleftrightarrow> (\<exists>e. stored_edge lib s i = Some e \<and> f \<in> set (edge_fields e)))) \<and>
     (\<forall>i data. node_id_ok i \<longrightarrow> engine_get s (node_key i) = Some data \<longrightarrow>
        (\<exists>n. node_dec lib data = Some n \<and> gn_ID n = i \<and> node_ok n)) \<and>
     (\<forall>f i. node_field f \<longrightarrow>
        (engine_get s (graph_index f i) \<noteq> None \<longleftrightarrow>
           node_id_ok i \<and> (\<exists>n. stored_node lib s i = Some n \<and> f \<in> set (node_fields n))))"

text \<open>Documented behaviour of \<open>encoding/json\<close> on valid UTF-8: identifiers, types and names come back.\<close>

definition edge_round_trip :: "graph_json \<Rightarrow> graph_edge \<Rightarrow> bool" where
  "edge_round_trip lib e \<longleftrightarrow>
     (\<forall>data. edge_enc lib e = Some data \<longrightarrow>
        (\<exists>e'. edge_dec lib data = Some e' \<and> ge_ID e' = ge_ID e \<and> ge_FromID e' = ge_FromID e \<and> ge_ToID e' = ge_ToID e \<and>
           ge_Type e' = ge_Type e))"

definition node_round_trip :: "graph_json \<Rightarrow> graph_node \<Rightarrow> bool" where
  "node_round_trip lib n \<longleftrightarrow>
     (\<forall>data. node_enc lib n = Some data \<longrightarrow>
        (\<exists>n'. node_dec lib data = Some n' \<and> gn_ID n' = gn_ID n \<and> gn_Type n' = gn_Type n \<and> gn_Name n' = gn_Name n))"

section \<open>Keys\<close>

lemma graph_index_inject:
  "NUL \<notin> set f \<Longrightarrow> NUL \<notin> set g \<Longrightarrow> graph_index f i = graph_index g j \<longleftrightarrow> f = g \<and> i = j"
  by (simp add: graph_index_def EncodeIndexKey_inject)

lemma edge_key_inject [simp]: "edge_key i = edge_key j \<longleftrightarrow> i = j"
  by (simp add: edge_key_def)

lemma node_key_inject [simp]: "node_key i = node_key j \<longleftrightarrow> i = j"
  by (simp add: node_key_def)

lemma field_not_edge: "edge_field f \<or> node_field f \<Longrightarrow> graph_index f i \<noteq> edge_key j"
  by (auto simp: edge_field_def node_field_def graph_index_def edge_key_def EncodeIndexKey_def EncodeKey_def prefix_def)

lemma field_not_node: "node_id_ok j \<Longrightarrow> graph_index f i \<noteq> node_key j"
  unfolding graph_index_def node_key_def using EncodeIndexKey_neq_EncodeKey by (simp add: node_id_ok_def)

lemma node_not_edge: "node_id_ok i \<Longrightarrow> node_key i \<noteq> edge_key j"
  by (auto simp: node_id_ok_def node_key_def edge_key_def)

lemma fields_disjoint: "edge_field f \<Longrightarrow> node_field g \<Longrightarrow> f \<noteq> g"
  by (auto simp: edge_field_def node_field_def prefix_def)

lemma field_NUL: "edge_field f \<or> node_field f \<Longrightarrow> NUL \<notin> set f"
  by (auto simp: edge_field_def node_field_def)

lemma edge_fields_ok: "edge_ok e \<Longrightarrow> f \<in> set (edge_fields e) \<Longrightarrow> edge_field f"
  by (auto simp: edge_ok_def edge_fields_def edge_field_def)

lemma edge_key_no_field: "edge_ok e \<Longrightarrow> edge_key j \<notin> (\<lambda>f. graph_index f i) ` set (edge_fields e)"
  using edge_fields_ok field_not_edge by (metis imageE)

lemma node_fields_ok: "node_ok n \<Longrightarrow> f \<in> set (node_fields n) \<Longrightarrow> node_field f"
  by (auto simp: node_ok_def node_fields_def node_field_def)

lemma node_key_no_field: "node_id_ok j \<Longrightarrow> node_key j \<notin> (\<lambda>f. graph_index f i) ` set fs"
  using field_not_node by (metis imageE)

section \<open>Edges\<close>

lemma graph_inv_simps:
  assumes "graph_inv lib s"
  shows "kv_ok s"
    "\<And>i data. engine_get s (edge_key i) = Some data \<Longrightarrow> \<exists>e. edge_dec lib data = Some e \<and> ge_ID e = i \<and> edge_ok e"
    "\<And>f i. edge_field f \<Longrightarrow> engine_get s (graph_index f i) \<noteq> None \<longleftrightarrow> (\<exists>e. stored_edge lib s i = Some e \<and> f \<in> set (edge_fields e))"
    "\<And>i data. node_id_ok i \<Longrightarrow> engine_get s (node_key i) = Some data \<Longrightarrow> \<exists>n. node_dec lib data = Some n \<and> gn_ID n = i \<and> node_ok n"
    "\<And>f i. node_field f \<Longrightarrow> engine_get s (graph_index f i) \<noteq> None \<longleftrightarrow>
        node_id_ok i \<and> (\<exists>n. stored_node lib s i = Some n \<and> f \<in> set (node_fields n))"
  using assms unfolding graph_inv_def by blast+

lemma stored_edge_get: "stored_edge lib s i = Option.bind (engine_get s (edge_key i)) (edge_dec lib)"
  by (simp add: stored_edge_def found_def GetEdge_def split: option.split)

lemma stored_node_get: "stored_node lib s i = Option.bind (engine_get s (node_key i)) (node_dec lib)"
  by (simp add: stored_node_def found_def GetNode_def split: option.split)

lemma stored_edge_ok: "graph_inv lib s \<Longrightarrow> stored_edge lib s i = Some e \<Longrightarrow> ge_ID e = i \<and> edge_ok e"
  using graph_inv_simps(2) by (fastforce simp: stored_edge_get bind_eq_Some_conv)

text \<open>
  A change of one edge: the entry under its key becomes \<open>data\<close> and the index entries under its identifier are set
  (or deleted) for the fields of the edge that was or is there; everything else stays.
\<close>

lemma graph_inv_edge:
  assumes inv: "graph_inv lib s" and ok: "kv_ok s'"
    and key: "\<And>j. engine_get s' (edge_key j) = (if j = i then data else engine_get s (edge_key j))"
    and idx: "\<And>f j. edge_field f \<Longrightarrow> engine_get s' (graph_index f j) \<noteq> None \<longleftrightarrow>
        (if j = i then (\<exists>e. Option.bind data (edge_dec lib) = Some e \<and> f \<in> set (edge_fields e)) else engine_get s (graph_index f j) \<noteq> None)"
    and nodes: "\<And>j. node_id_ok j \<Longrightarrow> engine_get s' (node_key j) = engine_get s (node_key j)"
      "\<And>f j. node_field f \<Longrightarrow> engine_get s' (graph_index f j) = engine_get s (graph_index f j)"
    and new: "\<And>d. data = Some d \<Longrightarrow> \<exists>e. edge_dec lib d = Some e \<and> ge_ID e = i \<and> edge_ok e"
  shows "graph_inv lib s'"
  unfolding graph_inv_def
proof (intro conjI allI impI)
  note I = graph_inv_simps [OF inv]
  show "kv_ok s'" by (rule ok)
  show "\<exists>e. edge_dec lib d = Some e \<and> ge_ID e = j \<and> edge_ok e" if "engine_get s' (edge_key j) = Some d" for j d
    using that I(2) new by (auto simp: key split: if_splits)
  show "(engine_get s' (graph_index f j) \<noteq> None) = (\<exists>e. stored_edge lib s' j = Some e \<and> f \<in> set (edge_fields e))" if "edge_field f" for f j
    unfolding idx [OF that] using I(3) [OF that] by (auto simp: stored_edge_get key)
  show "\<exists>n. node_dec lib d = Some n \<and> gn_ID n = j \<and> node_ok n" if "node_id_ok j" "engine_get s' (node_key j) = Some d" for j d
    using that I(4) nodes(1) by simp
  have "stored_node lib s' j = stored_node lib s j" if "node_id_ok j" for j
    using nodes(1) [OF that] by (simp add: stored_node_get)
  then show "(engine_get s' (graph_index f j) \<noteq> None) = (node_id_ok j \<and> (\<exists>n. stored_node lib s' j = Some n \<and> f \<in> set (node_fields n)))"
    if "node_field f" for f j
    unfolding nodes(2) [OF that] I(5) [OF that] by auto
qed

lemma AddEdge_get:
  assumes "AddEdge lib e s = (None, s')"
  obtains data where "edge_enc lib e = Some data" "ge_ID e \<noteq> []" "ge_FromID e \<noteq> []" "ge_ToID e \<noteq> []" "kv_ok s \<Longrightarrow> kv_ok s'"
    "\<And>k. engine_get s' k = (if k \<in> (\<lambda>f. graph_index f (ge_ID e)) ` set (edge_fields e) then Some mark
        else if k = edge_key (ge_ID e) then Some data else engine_get s k)"
proof -
  obtain data where data: "edge_enc lib e = Some data" using assms by (auto simp: AddEdge_def split: if_splits option.splits)
  have "engine_get s' k = (if k \<in> (\<lambda>f. graph_index f (ge_ID e)) ` set (edge_fields e) then Some mark
        else if k = edge_key (ge_ID e) then Some data else engine_get s k)" for k
    using assms data by (auto simp: AddEdge_def Let_def kv_simps edge_fields_def split: if_splits)
  moreover have "kv_ok s \<Longrightarrow> kv_ok s'" using assms data by (auto simp: AddEdge_def Let_def kv_simps split: if_splits)
  ultimately show ?thesis using that data assms by (auto simp: AddEdge_def split: if_splits)
qed

lemma AddEdge_inv:
  assumes inv: "graph_inv lib s" and ok: "edge_ok e" "edge_round_trip lib e"
    and fresh: "\<forall>old. stored_edge lib s (ge_ID e) = Some old \<longrightarrow> edge_fields old = edge_fields e"
    and run: "AddEdge lib e s = (r, s')"
  shows "graph_inv lib s' \<and> (r = None \<longrightarrow>
    (\<exists>e'. ge_ID e' = ge_ID e \<and> edge_fields e' = edge_fields e \<and> stored_edge lib s' = (stored_edge lib s)(ge_ID e \<mapsto> e')))"
proof (cases r)
  case (Some x)
  then have "s' = s" using run by (auto simp: AddEdge_def Let_def split: if_splits option.splits)
  then show ?thesis using inv Some by simp
next
  case None
  obtain data where data: "edge_enc lib e = Some data" and kv: "kv_ok s'"
    and get: "\<And>k. engine_get s' k = (if k \<in> (\<lambda>f. graph_index f (ge_ID e)) ` set (edge_fields e) then Some mark
        else if k = edge_key (ge_ID e) then Some data else engine_get s k)"
    by (rule AddEdge_get [OF run [unfolded None]]) (use graph_inv_simps(1) [OF inv] in blast)
  obtain e' where e': "edge_dec lib data = Some e'" "ge_ID e' = ge_ID e" "edge_fields e' = edge_fields e" "edge_ok e'"
    using ok data by (auto simp: edge_round_trip_def edge_fields_def edge_ok_def)
  have idx: "graph_index f j \<in> (\<lambda>f. graph_index f (ge_ID e)) ` set (edge_fields e) \<longleftrightarrow> f \<in> set (edge_fields e) \<and> j = ge_ID e"
    if "edge_field f \<or> node_field f" for f j
    using that edge_fields_ok [OF ok(1)] field_NUL by (auto simp: graph_index_inject)
  have key: "engine_get s' (edge_key j) = (if j = ge_ID e then Some data else engine_get s (edge_key j))" for j
    using edge_key_no_field [OF ok(1)] by (simp add: get)
  have "graph_inv lib s'"
  proof (rule graph_inv_edge [OF inv kv key])
    fix f j assume f: "edge_field f"
    show "engine_get s' (graph_index f j) \<noteq> None \<longleftrightarrow>
        (if j = ge_ID e then (\<exists>x. Option.bind (Some data) (edge_dec lib) = Some x \<and> f \<in> set (edge_fields x)) else engine_get s (graph_index f j) \<noteq> None)"
    proof (cases "j = ge_ID e")
      case True
      have "f \<notin> set (edge_fields e) \<Longrightarrow> engine_get s (graph_index f (ge_ID e)) = None"
        using graph_inv_simps(3) [OF inv f, of "ge_ID e"] fresh by auto
      then show ?thesis using f True e' field_not_edge idx by (auto simp: get)
    next
      case False
      then show ?thesis using f field_not_edge idx by (simp add: get)
    qed
  next
    fix j assume "node_id_ok j"
    then show "engine_get s' (node_key j) = engine_get s (node_key j)"
      using node_key_no_field node_not_edge by (simp add: get)
  next
    fix f j assume "node_field f"
    then show "engine_get s' (graph_index f j) = engine_get s (graph_index f j)"
      using idx field_not_edge fields_disjoint edge_fields_ok [OF ok(1)] by (metis get)
  next
    fix d assume "Some data = Some d"
    then show "\<exists>x. edge_dec lib d = Some x \<and> ge_ID x = ge_ID e \<and> edge_ok x" using e' by auto
  qed
  moreover have "stored_edge lib s' = (stored_edge lib s)(ge_ID e \<mapsto> e')"
    by (rule ext) (simp add: stored_edge_get key e'(1))
  ultimately show ?thesis using e' by blast
qed

lemma DeleteEdge_inv:
  assumes inv: "graph_inv lib s" and run: "DeleteEdge lib i s = (r, s')"
  shows "graph_inv lib s' \<and> stored_edge lib s' = (stored_edge lib s)(i := None) \<and>
    (\<forall>j. node_id_ok j \<longrightarrow> engine_get s' (node_key j) = engine_get s (node_key j))"
proof (cases "stored_edge lib s i")
  case None
  then have "s' = s" using run by (auto simp: DeleteEdge_def stored_edge_def found_def split: sum.splits)
  then show ?thesis using inv None by (auto simp: fun_eq_iff)
next
  case (Some e)
  then have id: "ge_ID e = i" and ok: "edge_ok e" using stored_edge_ok [OF inv] by blast+
  have get: "engine_get s' k = (if k \<in> (\<lambda>f. graph_index f i) ` set (edge_fields e) then None
        else if k = edge_key i then None else engine_get s k)" for k
    using run Some id by (auto simp: DeleteEdge_def stored_edge_def found_def Let_def kv_simps edge_fields_def split: sum.splits)
  have kv: "kv_ok s'"
    using run Some graph_inv_simps(1) [OF inv]
    by (auto simp: DeleteEdge_def stored_edge_def found_def Let_def kv_simps split: sum.splits)
  have idx: "graph_index f j \<in> (\<lambda>f. graph_index f i) ` set (edge_fields e) \<longleftrightarrow> f \<in> set (edge_fields e) \<and> j = i"
    if "edge_field f \<or> node_field f" for f j
    using that edge_fields_ok [OF ok] field_NUL by (auto simp: graph_index_inject)
  have key: "engine_get s' (edge_key j) = (if j = i then None else engine_get s (edge_key j))" for j
    using edge_key_no_field [OF ok] by (simp add: get)
  have node: "engine_get s' (node_key j) = engine_get s (node_key j)" if "node_id_ok j" for j
    using node_key_no_field [OF that] node_not_edge [OF that] by (simp add: get)
  have "graph_inv lib s'"
  proof (rule graph_inv_edge [OF inv kv key])
    fix f j assume f: "edge_field f"
    show "engine_get s' (graph_index f j) \<noteq> None \<longleftrightarrow>
        (if j = i then (\<exists>x. Option.bind None (edge_dec lib) = Some x \<and> f \<in> set (edge_fields x)) else engine_get s (graph_index f j) \<noteq> None)"
    proof (cases "j = i")
      case True
      have "f \<notin> set (edge_fields e) \<Longrightarrow> engine_get s (graph_index f i) = None"
        using graph_inv_simps(3) [OF inv f, of i] Some by auto
      then show ?thesis using f True idx by (auto simp: get)
    next
      case False
      then show ?thesis using f field_not_edge idx by (simp add: get)
    qed
  next
    fix f j assume "node_field f"
    then show "engine_get s' (graph_index f j) = engine_get s (graph_index f j)"
      using idx field_not_edge fields_disjoint edge_fields_ok [OF ok] by (metis get)
  qed (use node in simp_all)
  moreover have "stored_edge lib s' = (stored_edge lib s)(i := None)"
    by (rule ext) (simp add: stored_edge_get key)
  ultimately show ?thesis using node by blast
qed

section \<open>Nodes\<close>

lemma graph_inv_node:
  assumes inv: "graph_inv lib s" and ok: "kv_ok s'" and i: "node_id_ok i"
    and key: "\<And>j. node_id_ok j \<Longrightarrow> engine_get s' (node_key j) = (if j = i then data else engine_get s (node_key j))"
    and idx: "\<And>f j. node_field f \<Longrightarrow> engine_get s' (graph_index f j) \<noteq> None \<longleftrightarrow>
        (if j = i then (\<exists>n. Option.bind data (node_dec lib) = Some n \<and> f \<in> set (node_fields n)) else engine_get s (graph_index f j) \<noteq> None)"
    and edges: "\<And>j. engine_get s' (edge_key j) = engine_get s (edge_key j)"
      "\<And>f j. edge_field f \<Longrightarrow> engine_get s' (graph_index f j) = engine_get s (graph_index f j)"
    and new: "\<And>d. data = Some d \<Longrightarrow> \<exists>n. node_dec lib d = Some n \<and> gn_ID n = i \<and> node_ok n"
  shows "graph_inv lib s'"
  unfolding graph_inv_def
proof (intro conjI allI impI)
  note I = graph_inv_simps [OF inv]
  show "kv_ok s'" by (rule ok)
  show "\<exists>e. edge_dec lib d = Some e \<and> ge_ID e = j \<and> edge_ok e" if "engine_get s' (edge_key j) = Some d" for j d
    using that I(2) by (simp add: edges)
  have "stored_edge lib s' j = stored_edge lib s j" for j by (simp add: stored_edge_get edges(1))
  then show "(engine_get s' (graph_index f j) \<noteq> None) = (\<exists>e. stored_edge lib s' j = Some e \<and> f \<in> set (edge_fields e))" if "edge_field f" for f j
    unfolding edges(2) [OF that] I(3) [OF that] by simp
  show "\<exists>n. node_dec lib d = Some n \<and> gn_ID n = j \<and> node_ok n" if "node_id_ok j" "engine_get s' (node_key j) = Some d" for j d
    using that I(4) new key [OF that(1)] by (auto split: if_splits)
  show "(engine_get s' (graph_index f j) \<noteq> None) = (node_id_ok j \<and> (\<exists>n. stored_node lib s' j = Some n \<and> f \<in> set (node_fields n)))"
    if f: "node_field f" for f j
  proof (cases "j = i")
    case True
    then show ?thesis unfolding idx [OF f] using i key [OF i] by (auto simp: stored_node_get)
  next
    case False
    have "node_id_ok j \<Longrightarrow> stored_node lib s' j = stored_node lib s j" using key False by (simp add: stored_node_get)
    then have "(node_id_ok j \<and> (\<exists>n. stored_node lib s' j = Some n \<and> f \<in> set (node_fields n))) =
        (node_id_ok j \<and> (\<exists>n. stored_node lib s j = Some n \<and> f \<in> set (node_fields n)))"
      by (cases "node_id_ok j") simp_all
    then show ?thesis by (simp only: idx [OF f] I(5) [OF f] False if_False)
  qed
qed

lemma AddNode_inv:
  assumes inv: "graph_inv lib s" and ok: "node_ok n" "node_round_trip lib n"
    and fresh: "\<forall>old. stored_node lib s (gn_ID n) = Some old \<longrightarrow> node_fields old = node_fields n"
    and run: "AddNode lib n s = (r, s')"
  shows "graph_inv lib s' \<and> stored_edge lib s' = stored_edge lib s"
proof (cases r)
  case (Some x)
  then have "s' = s" using run by (auto simp: AddNode_def Let_def split: if_splits option.splits)
  then show ?thesis using inv by simp
next
  case None
  then obtain data where data: "node_enc lib n = Some data" using run by (auto simp: AddNode_def split: if_splits option.splits)
  have get: "engine_get s' k = (if k \<in> (\<lambda>f. graph_index f (gn_ID n)) ` set (node_fields n) then Some mark
        else if k = node_key (gn_ID n) then Some data else engine_get s k)" for k
    using run None data by (auto simp: AddNode_def Let_def kv_simps node_fields_def split: if_splits)
  have kv: "kv_ok s'"
    using run None data graph_inv_simps(1) [OF inv] by (auto simp: AddNode_def Let_def kv_simps split: if_splits)
  have i: "node_id_ok (gn_ID n)" using ok(1) by (simp add: node_ok_def)
  obtain n' where n': "node_dec lib data = Some n'" "gn_ID n' = gn_ID n" "node_fields n' = node_fields n" "node_ok n'"
    using ok data by (auto simp: node_round_trip_def node_fields_def node_ok_def)
  have idx: "graph_index f j \<in> (\<lambda>f. graph_index f (gn_ID n)) ` set (node_fields n) \<longleftrightarrow> f \<in> set (node_fields n) \<and> j = gn_ID n"
    if "edge_field f \<or> node_field f" for f j
    using that node_fields_ok [OF ok(1)] field_NUL by (auto simp: graph_index_inject)
  have edge: "engine_get s' (edge_key j) = engine_get s (edge_key j)" for j
    using node_fields_ok [OF ok(1)] field_not_edge node_not_edge [OF i] by (auto simp: get) (metis field_not_edge)+
  have "graph_inv lib s'"
  proof (rule graph_inv_node [OF inv kv i, of "Some data"])
    fix j assume "node_id_ok j"
    then show "engine_get s' (node_key j) = (if j = gn_ID n then Some data else engine_get s (node_key j))"
      using node_key_no_field by (simp add: get)
  next
    fix f j assume f: "node_field f"
    show "engine_get s' (graph_index f j) \<noteq> None \<longleftrightarrow>
        (if j = gn_ID n then (\<exists>x. Option.bind (Some data) (node_dec lib) = Some x \<and> f \<in> set (node_fields x)) else engine_get s (graph_index f j) \<noteq> None)"
    proof (cases "j = gn_ID n")
      case True
      have "f \<notin> set (node_fields n) \<Longrightarrow> engine_get s (graph_index f (gn_ID n)) = None"
        using graph_inv_simps(5) [OF inv f, of "gn_ID n"] fresh by auto
      then show ?thesis using f True n' field_not_node [OF i] idx by (auto simp: get)
    next
      case False
      then show ?thesis using f field_not_node [OF i] idx by (simp add: get)
    qed
  next
    fix f j assume "edge_field f"
    then show "engine_get s' (graph_index f j) = engine_get s (graph_index f j)"
      using idx field_not_node [OF i] fields_disjoint node_fields_ok [OF ok(1)] by (metis get)
  next
    fix d assume "Some data = Some d"
    then show "\<exists>x. node_dec lib d = Some x \<and> gn_ID x = gn_ID n \<and> node_ok x" using n' by auto
  qed (rule edge)
  moreover have "stored_edge lib s' = stored_edge lib s" by (rule ext) (simp add: stored_edge_get edge)
  ultimately show ?thesis by blast
qed

section \<open>Edges through the index\<close>

lemma set_indexed_ids:
  assumes "kv_ok s" "NUL \<notin> set f"
  shows "set (indexed_ids s f 0) = {i. engine_get s (graph_index f i) \<noteq> None}"
  unfolding indexed_ids_def graph_index_def by (rule set_index_ids [OF assms])

lemma set_getEdgesByIndex:
  assumes inv: "graph_inv lib s" and f: "edge_field f"
  shows "set (getEdgesByIndex lib s f) = {e. \<exists>i. stored_edge lib s i = Some e \<and> f \<in> set (edge_fields e)}"
proof -
  have "set (getEdgesByIndex lib s f) = {e. \<exists>i \<in> set (indexed_ids s f 0). stored_edge lib s i = Some e}"
    by (force simp: getEdgesByIndex_def List.map_filter_def stored_edge_def)
  also have "\<dots> = {e. \<exists>i. stored_edge lib s i = Some e \<and> f \<in> set (edge_fields e)}"
    using set_indexed_ids [OF graph_inv_simps(1) [OF inv] field_NUL] f graph_inv_simps(3) [OF inv f] by auto
  finally show ?thesis .
qed

end
