(* ===== verification/GraphRun.thy ===== *)
theory GraphRun
  imports GraphProps
begin

text \<open>
  Runs of the graph store: the stores that its operations build, what deleting a node removes, and neighbours,
  hops and shortest paths as facts about the stored edges.
\<close>

section \<open>Deleting a node\<close>

lemma delete_edges:
  assumes "graph_inv lib s" and s': "s' = fold (\<lambda>edge s. snd (DeleteEdge lib (ge_ID edge) s)) es s"
  shows "graph_inv lib s' \<and> stored_edge lib s' = stored_edge lib s |` (- ge_ID ` set es) \<and>
    (\<forall>j. node_id_ok j \<longrightarrow> engine_get s' (node_key j) = engine_get s (node_key j))"
  using assms(1) unfolding s'
proof (induction es arbitrary: s)
  case (Cons e es)
  obtain r s1 where one: "DeleteEdge lib (ge_ID e) s = (r, s1)" by (meson surj_pair)
  note D = DeleteEdge_inv [OF Cons.prems one]
  then have "graph_inv lib s1" by blast
  from Cons.IH [OF this] D one show ?case by (auto simp: restrict_map_def fun_eq_iff)
qed (simp add: restrict_map_def)

lemma stored_edge_ran: "graph_inv lib s \<Longrightarrow> e \<in> ran (stored_edge lib s) \<longleftrightarrow> stored_edge lib s (ge_ID e) = Some e"
  using stored_edge_ok by (fastforce simp: ran_def)

lemma incident_ids:
  assumes "graph_inv lib s" "NUL \<notin> set i"
  shows "set (GetEdges lib s i) = {e \<in> ran (stored_edge lib s). ge_FromID e = i \<or> ge_ToID e = i}"
proof -
  have "edge_field (''out:'' @ i)" "edge_field (''in:'' @ i)" using assms(2) by (simp_all add: edge_field_def)
  then show ?thesis using set_getEdgesByIndex [OF assms(1)] by (auto simp: GetEdges_def edge_fields_def ran_def)
qed

lemma DeleteNode_inv:
  assumes inv: "graph_inv lib s" and i: "node_id_ok i" and run: "DeleteNode lib i s = (None, s')"
  shows "graph_inv lib s' \<and> stored_node lib s' i = None \<and>
    stored_edge lib s' = (\<lambda>j. case stored_edge lib s j of None \<Rightarrow> None
      | Some e \<Rightarrow> if ge_FromID e = i \<or> ge_ToID e = i then None else Some e)"
proof -
  obtain n where n: "stored_node lib s i = Some n"
    using run by (auto simp: DeleteNode_def stored_node_def found_def split: sum.splits)
  then have node: "gn_ID n = i" "node_ok n"
    using graph_inv_simps(4) [OF inv i] by (fastforce simp: stored_node_get bind_eq_Some_conv)+
  define s1 where "s1 = fold (\<lambda>edge s. snd (DeleteEdge lib (ge_ID edge) s)) (GetEdges lib s i) s"
  have D: "graph_inv lib s1" "stored_edge lib s1 = stored_edge lib s |` (- ge_ID ` set (GetEdges lib s i))"
    "\<And>j. node_id_ok j \<Longrightarrow> engine_get s1 (node_key j) = engine_get s (node_key j)"
    using delete_edges [OF inv s1_def] by blast+
  have n1: "stored_node lib s1 i = Some n" using n D(3) [OF i] by (simp add: stored_node_get)
  have get: "engine_get s' k = (if k \<in> (\<lambda>f. graph_index f i) ` set (node_fields n) then None
        else if k = node_key i then None else engine_get s1 k)" for k
    using run n node(1) graph_inv_simps(1) [OF D(1)]
    by (auto simp: DeleteNode_def stored_node_def found_def Let_def kv_simps node_fields_def s1_def split: sum.splits)
  have kv: "kv_ok s'"
    using run n graph_inv_simps(1) [OF D(1)]
    by (auto simp: DeleteNode_def stored_node_def found_def Let_def kv_simps s1_def split: sum.splits)
  have idx: "graph_index f j \<in> (\<lambda>f. graph_index f i) ` set (node_fields n) \<longleftrightarrow> f \<in> set (node_fields n) \<and> j = i"
    if "edge_field f \<or> node_field f" for f j
    using that node_fields_ok [OF node(2)] field_NUL by (auto simp: graph_index_inject)
  have key: "engine_get s' (node_key j) = (if j = i then None else engine_get s1 (node_key j))" if "node_id_ok j" for j
    using node_key_no_field [OF that] by (simp add: get)
  have edge: "engine_get s' (edge_key j) = engine_get s1 (edge_key j)" for j
    using node_fields_ok [OF node(2)] field_not_edge node_not_edge [OF i] by (metis get imageE)
  have "graph_inv lib s'"
  proof (rule graph_inv_node [OF D(1) kv i key])
    fix f j assume f: "node_field f"
    show "engine_get s' (graph_index f j) \<noteq> None \<longleftrightarrow>
        (if j = i then (\<exists>x. Option.bind None (node_dec lib) = Some x \<and> f \<in> set (node_fields x)) else engine_get s1 (graph_index f j) \<noteq> None)"
    proof (cases "j = i")
      case True
      have "f \<notin> set (node_fields n) \<Longrightarrow> engine_get s1 (graph_index f i) = None"
        using graph_inv_simps(5) [OF D(1) f, of i] n1 by auto
      then show ?thesis using f True idx by (auto simp: get)
    next
      case False
      then show ?thesis using f field_not_node [OF i] idx by (simp add: get)
    qed
  next
    fix f j assume "edge_field f"
    then show "engine_get s' (graph_index f j) = engine_get s1 (graph_index f j)"
      using idx field_not_node [OF i] fields_disjoint node_fields_ok [OF node(2)] by (metis get)
  qed (simp_all add: edge)
  moreover have "stored_node lib s' i = None" using key [OF i] by (simp add: stored_node_get)
  moreover have "stored_edge lib s' j = (case stored_edge lib s j of None \<Rightarrow> None
      | Some e \<Rightarrow> if ge_FromID e = i \<or> ge_ToID e = i then None else Some e)" for j
  proof -
    have "NUL \<notin> set i" using i by (simp add: node_id_ok_def)
    note ends = incident_ids [OF inv this]
    have "j \<in> ge_ID ` set (GetEdges lib s i) \<longleftrightarrow> (\<exists>e. stored_edge lib s j = Some e \<and> (ge_FromID e = i \<or> ge_ToID e = i))"
      unfolding ends using stored_edge_ran [OF inv] stored_edge_ok [OF inv] by (auto simp: image_iff)
    moreover have "stored_edge lib s' j = stored_edge lib s1 j" by (simp add: stored_edge_get edge)
    ultimately show ?thesis by (auto simp: D(2) restrict_map_def split: option.split)
  qed
  ultimately show ?thesis by blast
qed

section \<open>The stores that are built\<close>

text \<open>
  What the callers keep to: identifiers of nodes hold no zero byte and do not begin with \<open>edge:\<close>, and an
  identifier in use is added again only with the same type and name, or the same ends and type.
\<close>

inductive graph_reachable :: "graph_json \<Rightarrow> kv \<Rightarrow> bool" for lib where
  start: "graph_reachable lib kv_empty"
| add_node: "graph_reachable lib s \<Longrightarrow> node_ok n \<Longrightarrow> node_round_trip lib n \<Longrightarrow>
    (\<forall>old. stored_node lib s (gn_ID n) = Some old \<longrightarrow> node_fields old = node_fields n) \<Longrightarrow>
    graph_reachable lib (snd (AddNode lib n s))"
| add_edge: "graph_reachable lib s \<Longrightarrow> edge_ok e \<Longrightarrow> edge_round_trip lib e \<Longrightarrow>
    (\<forall>old. stored_edge lib s (ge_ID e) = Some old \<longrightarrow> edge_fields old = edge_fields e) \<Longrightarrow>
    graph_reachable lib (snd (AddEdge lib e s))"
| delete_node: "graph_reachable lib s \<Longrightarrow> node_id_ok i \<Longrightarrow> graph_reachable lib (snd (DeleteNode lib i s))"
| delete_edge: "graph_reachable lib s \<Longrightarrow> graph_reachable lib (snd (DeleteEdge lib i s))"

lemma graph_inv_empty: "graph_inv lib kv_empty"
  by (simp add: graph_inv_def stored_edge_get stored_node_get kv_ok_def kv_empty_def engine_get_def)

lemma DeleteNode_keeps: "graph_inv lib s \<Longrightarrow> node_id_ok i \<Longrightarrow> graph_inv lib (snd (DeleteNode lib i s))"
proof -
  assume inv: "graph_inv lib s" and i: "node_id_ok i"
  obtain r s' where run: "DeleteNode lib i s = (r, s')" by (meson surj_pair)
  show ?thesis
  proof (cases r)
    case None
    then show ?thesis using DeleteNode_inv [OF inv i] run by simp
  next
    case (Some e)
    then have "s' = s" using run by (auto simp: DeleteNode_def Let_def split: sum.splits)
    then show ?thesis using run inv by simp
  qed
qed

lemma graph_reachable_inv: "graph_reachable lib s \<Longrightarrow> graph_inv lib s"
proof (induction rule: graph_reachable.induct)
  case start
  then show ?case by (rule graph_inv_empty)
next
  case (add_node s n)
  then show ?case using AddNode_inv [OF add_node.IH add_node.hyps(2-4) prod.collapse [symmetric]] by blast
next
  case (add_edge s e)
  then show ?case using AddEdge_inv [OF add_edge.IH add_edge.hyps(2-4) prod.collapse [symmetric]] by blast
next
  case (delete_node s i)
  then show ?case using DeleteNode_keeps by blast
next
  case (delete_edge s i)
  then show ?case using DeleteEdge_inv [OF delete_edge.IH prod.collapse [symmetric]] by blast
qed

section \<open>What the indexes hold\<close>



text \<open>
  An edge that is stored a second time under its identifier, but from another node, stays listed among the
  outgoing edges of the node it no longer starts at: the old index entry is not removed.
\<close>

lemma readded_edge_stays_listed:
  assumes "kv_ok s" "edge_ok e" "edge_ok e'" "edge_round_trip lib e'"
    and same: "ge_ID e' = ge_ID e" and moved: "ge_FromID e' \<noteq> ge_FromID e"
    and run: "AddEdge lib e s = (None, s1)" "AddEdge lib e' s1 = (None, s2)"
  shows "\<exists>x \<in> set (GetOutEdges lib s2 (ge_FromID e)). ge_ID x = ge_ID e \<and> ge_FromID x = ge_FromID e' \<and> ge_FromID x \<noteq> ge_FromID e"
proof -
  let ?f = "''out:'' @ ge_FromID e"
  have f: "edge_field ?f" "NUL \<notin> set ?f" using assms(2) by (simp_all add: edge_field_def edge_ok_def)
  have s1: "kv_ok s1" "engine_get s1 (graph_index ?f (ge_ID e)) = Some mark"
    by (rule AddEdge_get [OF run(1)], use assms(1) in blast) (rule AddEdge_get [OF run(1)], simp add: edge_fields_def)
  obtain data where data: "edge_enc lib e' = Some data" and s2: "kv_ok s2"
    and get: "\<And>k. engine_get s2 k = (if k \<in> (\<lambda>f. graph_index f (ge_ID e')) ` set (edge_fields e') then Some mark
        else if k = edge_key (ge_ID e') then Some data else engine_get s1 k)"
    by (rule AddEdge_get [OF run(2)]) (use s1(1) in blast)
  obtain x where x: "edge_dec lib data = Some x" "ge_ID x = ge_ID e" "ge_FromID x = ge_FromID e'"
    using assms(4) data same by (auto simp: edge_round_trip_def)
  have "graph_index ?f (ge_ID e) \<noteq> edge_key (ge_ID e')" using field_not_edge f(1) by blast
  then have "engine_get s2 (graph_index ?f (ge_ID e)) \<noteq> None" using s1(2) by (simp only: get if_False) simp
  then have listed: "ge_ID e \<in> set (indexed_ids s2 ?f 0)" using set_indexed_ids [OF s2 f(2)] by simp
  have "stored_edge lib s2 (ge_ID e) = Some x" 
    using edge_key_no_field [OF assms(3)] x(1) by (simp only: stored_edge_get get same if_True if_False simp_thms bind.bind_lunit)
  with listed have "x \<in> set (GetOutEdges lib s2 (ge_FromID e))"
    unfolding GetOutEdges_def getEdgesByIndex_def List.map_filter_def stored_edge_def by force
  then show ?thesis using x(2,3) moved by (metis (no_types))
qed

text \<open>An edge whose identifier follows \<open>edge:\<close> in that of a node shares its key.\<close>

lemma node_overwrites_edge:
  assumes "kv_ok s" "gn_ID n = ''edge:'' @ i" "AddNode lib n s = (None, s')"
  shows "\<exists>data. node_enc lib n = Some data \<and> stored_edge lib s' i = edge_dec lib data"
proof -
  obtain data where data: "node_enc lib n = Some data" using assms(3) by (auto simp: AddNode_def split: if_splits option.splits)
  have type_not_edge: "edge_key j \<noteq> graph_index (''type:'' @ f) k" and name_not_edge: "edge_key j \<noteq> graph_index (''name:'' @ f) k" for f j k
    by (simp_all add: edge_key_def graph_index_def EncodeIndexKey_def EncodeKey_def)
  have key: "node_key (gn_ID n) = edge_key i" by (simp add: assms(2) node_key_def edge_key_def)
  have s': "s' = engine_set (engine_set (engine_set s (node_key (gn_ID n)) data) (graph_index (''type:'' @ gn_Type n) (gn_ID n)) mark)
      (graph_index (''name:'' @ gn_Name n) (gn_ID n)) mark"
    using assms(3) data by (simp add: AddNode_def split: if_splits)
  have "engine_get s' (edge_key i) = Some data"
    unfolding s' using assms(1) by (simp only: kv_simps type_not_edge name_not_edge key if_False if_True simp_thms)
  then show ?thesis using data by (simp add: stored_edge_get)
qed

end
