(* ===== verification/GraphQueries.thy ===== *)
theory GraphQueries
  imports GraphRun
begin

text \<open>
  Neighbours, hops and shortest paths of the graph store, as facts about the edges that are stored.
\<close>

section \<open>Links\<close>

definition linked :: "graph_json \<Rightarrow> kv \<Rightarrow> direction \<Rightarrow> bytes \<Rightarrow> bytes \<Rightarrow> bool" where
  "linked lib s dir u v \<longleftrightarrow>
     (\<exists>e \<in> ran (stored_edge lib s).
        dir \<noteq> DirIn \<and> ge_FromID e = u \<and> ge_ToID e = v \<or> dir \<noteq> DirOut \<and> ge_ToID e = u \<and> ge_FromID e = v)"

text \<open>A path: nodes each linked to the next.\<close>

definition path_between :: "graph_json \<Rightarrow> kv \<Rightarrow> direction \<Rightarrow> bytes \<Rightarrow> bytes \<Rightarrow> bytes list \<Rightarrow> bool" where
  "path_between lib s dir from to p \<longleftrightarrow> p \<noteq> [] \<and> hd p = from \<and> last p = to \<and> successively (linked lib s dir) p"

definition at_distance :: "graph_json \<Rightarrow> kv \<Rightarrow> direction \<Rightarrow> bytes \<Rightarrow> nat \<Rightarrow> bytes \<Rightarrow> bool" where
  "at_distance lib s dir i k j \<longleftrightarrow>
     (\<exists>p. path_between lib s dir i j p \<and> length p = Suc k) \<and> (\<forall>p. path_between lib s dir i j p \<longrightarrow> Suc k \<le> length p)"

definition edge_ends :: "graph_json \<Rightarrow> kv \<Rightarrow> bytes set" where
  "edge_ends lib s = ge_FromID ` ran (stored_edge lib s) \<union> ge_ToID ` ran (stored_edge lib s)"

lemma set_adjacent_ids:
  assumes "graph_inv lib s" "NUL \<notin> set u"
  shows "set (adjacent_ids lib s dir u) = {v. linked lib s dir u v}"
  unfolding adjacent_ids_def set_map_filter incident_ids [OF assms] linked_def
  by (cases dir) (auto simp: other_end_def split: if_splits)

lemma edges_stored: "set (getEdgesByIndex lib s f) \<subseteq> ran (stored_edge lib s)"
  by (auto simp: getEdgesByIndex_def set_map_filter stored_edge_def ran_def)

lemma adjacent_ends: "set (adjacent_ids lib s dir u) \<subseteq> edge_ends lib s"
proof -
  have "set (GetEdges lib s u) \<subseteq> ran (stored_edge lib s)" using edges_stored by (simp add: GetEdges_def)
  then show ?thesis
    by (cases dir) (auto simp: adjacent_ids_def set_map_filter other_end_def edge_ends_def split: if_splits)
qed

lemma finite_edge_ends: "finite (edge_ends lib s)"
proof -
  have "ran (stored_edge lib s) \<subseteq> the ` edge_dec lib ` ran (engine_get s)"
    by (force simp: ran_def stored_edge_get bind_eq_Some_conv)
  moreover have "finite (ran (engine_get s))" by (simp add: engine_get_def [abs_def] finite_ran finite_dom_map_of)
  ultimately show ?thesis unfolding edge_ends_def using finite_subset by blast
qed

lemma edge_ends_ok: "graph_inv lib s \<Longrightarrow> v \<in> edge_ends lib s \<Longrightarrow> v \<noteq> [] \<and> NUL \<notin> set v"
  using stored_edge_ok by (fastforce simp: edge_ends_def ran_def edge_ok_def)

lemma linked_end: "linked lib s dir u v \<Longrightarrow> v \<in> edge_ends lib s"
  by (auto simp: linked_def edge_ends_def)

lemma walk_path:
  assumes "graph_inv lib s"
  shows "NUL \<notin> set (hd p) \<Longrightarrow> walk (adjacent_ids lib s dir) p \<longleftrightarrow> p \<noteq> [] \<and> successively (linked lib s dir) p"
proof (induction "adjacent_ids lib s dir" p rule: walk.induct)
  case (3 x y p)
  have "y \<in> set (adjacent_ids lib s dir x) \<longleftrightarrow> linked lib s dir x y" using set_adjacent_ids [OF assms] 3 by simp
  moreover have "NUL \<notin> set y" if "linked lib s dir x y" using edge_ends_ok [OF assms] linked_end [OF that] by blast
  ultimately show ?case using 3 by auto
qed simp_all

lemma steps_walk: "v \<in> steps adj i n \<longleftrightarrow> (\<exists>p. walk adj p \<and> hd p = i \<and> last p = v \<and> length p = Suc n)"
proof
  show "v \<in> steps adj i n \<Longrightarrow> \<exists>p. walk adj p \<and> hd p = i \<and> last p = v \<and> length p = Suc n"
  proof (induction n arbitrary: v)
    case 0
    then show ?case by (intro exI [of _ "[i]"]) simp
  next
    case (Suc n)
    then obtain u where u: "u \<in> steps adj i n" "v \<in> set (adj u)" by auto
    from Suc.IH [OF u(1)] obtain p where "walk adj p" "hd p = i" "last p = u" "length p = Suc n" by blast
    note this u(2)
    moreover from this have "p \<noteq> []" by auto
    ultimately show ?case by (intro exI [of _ "p @ [v]"]) (auto simp: walk_snoc)
  qed
qed (use walk_steps in fastforce)

lemma steps_path:
  assumes "graph_inv lib s" "NUL \<notin> set i"
  shows "v \<in> steps (adjacent_ids lib s dir) i n \<longleftrightarrow> (\<exists>p. path_between lib s dir i v p \<and> length p = Suc n)"
  unfolding steps_walk path_between_def using walk_path [OF assms(1)] assms(2) by metis

section \<open>Shortest paths\<close>

text \<open>
  C29: a search for a path ends, and what it returns is a shortest path along stored edges, in the direction asked
  for; it reports that there is none exactly when there is none.
\<close>

theorem shortest_path_correct:
  assumes "graph_reachable lib s" "from \<noteq> []" "NUL \<notin> set from"
  shows "\<exists>r. ShortestPath lib s from to dir = Some r \<and>
    (case r of Inr p \<Rightarrow> path_between lib s dir from to p \<and> (\<forall>q. path_between lib s dir from to q \<longrightarrow> length p \<le> length q)
     | Inl e \<Rightarrow> e = NoPath from to \<and> (\<nexists>q. path_between lib s dir from to q))"
proof (cases "from = to")
  case True
  then show ?thesis by (auto simp: ShortestPath_def path_between_def Suc_le_eq)
next
  case False
  let ?adj = "adjacent_ids lib s dir"
  have inv: "graph_inv lib s" by (rule graph_reachable_inv [OF assms(1)])
  have nonempty: "[] \<notin> edge_ends lib s" using edge_ends_ok [OF inv] by blast
  have start: "bfs_inv ?adj from to (\<lambda>_. 0) ([from], [], [from])" using False by (simp add: bfs_inv_def)
  obtain r where r: "bfs ?adj to ([from], [], [from]) = Some r"
    "case r of None \<Rightarrow> \<forall>n. to \<notin> steps ?adj from n
     | Some p \<Rightarrow> walk ?adj p \<and> hd p = from \<and> last p = to \<and> (\<forall>n. to \<in> steps ?adj from n \<longrightarrow> length p \<le> Suc n)"
    using bfs_correct [OF finite_edge_ends adjacent_ends nonempty assms(2) False start] by auto
  note S = steps_path [OF inv assms(3), of to dir]
  have len: "\<exists>n. length q = Suc n" if "path_between lib s dir from to q" for q
    using that by (cases q) (auto simp: path_between_def)
  show ?thesis
  proof (cases r)
    case None
    then show ?thesis using r False S len by (fastforce simp: ShortestPath_def)
  next
    case (Some p)
    then have "walk ?adj p" "hd p = from" "last p = to" using r(2) by simp_all
    then have "path_between lib s dir from to p" using walk_path [OF inv] assms(3) by (simp add: path_between_def)
    moreover have "length p \<le> length q" if "path_between lib s dir from to q" for q
      using r(2) Some S len [OF that] that by force
    ultimately show ?thesis using r(1) Some False by (simp add: ShortestPath_def)
  qed
qed

section \<open>Hops and neighbours\<close>

lemma hops_distance:
  assumes "graph_inv lib s" "NUL \<notin> set i"
  shows "v \<in> steps (adjacent_ids lib s dir) i k - (\<Union>n < k. steps (adjacent_ids lib s dir) i n) \<longleftrightarrow> at_distance lib s dir i k v"
proof -
  have "(\<forall>n < k. \<nexists>p. path_between lib s dir i v p \<and> length p = Suc n) \<longleftrightarrow> (\<forall>p. path_between lib s dir i v p \<longrightarrow> Suc k \<le> length p)"
  proof (intro iffI allI impI)
    fix p assume "\<forall>n < k. \<nexists>p. path_between lib s dir i v p \<and> length p = Suc n" "path_between lib s dir i v p"
    then show "Suc k \<le> length p"
      by (metis Suc_leI length_Cons list.exhaust not_less_eq path_between_def linorder_not_less)
  qed fastforce
  then show ?thesis by (simp add: steps_path [OF assms] at_distance_def Ball_def)
qed

text \<open>
  A query for the neighbours at \<open>k\<close> hops returns the stored nodes whose shortest path from the start has exactly
  \<open>k\<close> edges: those that are nearer are left out. They come in the order of their identifiers.
\<close>

lemma khop_exact_distance:
  assumes "graph_reachable lib s" "NUL \<notin> set i" "0 < k"
  shows "\<exists>ids. KHopNeighbors lib s i k dir = List.map_filter (stored_node lib s) ids \<and> sorted ids \<and> distinct ids \<and>
    set ids = {j. at_distance lib s dir i (nat k) j}"
proof -
  have inv: "graph_inv lib s" by (rule graph_reachable_inv [OF assms(1)])
  obtain V level where run: "(hop (adjacent_ids lib s dir) ^^ nat k) ([i], [i]) = (V, level)" by (meson surj_pair)
  have "set (sort level) = {j. at_distance lib s dir i (nat k) j}"
    using hops_spec [OF run] hops_distance [OF inv assms(2)] by (simp only: set_sort Collect_mem_eq set_eq_iff mem_Collect_eq) blast
  moreover have "KHopNeighbors lib s i k dir = List.map_filter (stored_node lib s) (sort level)"
    using assms(3) run by (simp add: KHopNeighbors_def stored_node_def [abs_def])
  moreover have "distinct (sort level)" using hops_distinct [OF run] by simp
  ultimately show ?thesis by (metis sorted_sort)
qed

lemma neighbor_loop_spec:
  "set (neighbor_loop lib s seen ids) = {n. \<exists>j \<in> set ids - set seen. stored_node lib s j = Some n}"
  by (induction lib s seen ids rule: neighbor_loop.induct) (auto simp: stored_node_def split: option.split)

text \<open>
  The neighbours of a node are the stored nodes at the other end of a stored edge of it.
\<close>

lemma neighbors_exact:
  assumes "graph_reachable lib s" "NUL \<notin> set i"
  shows "set (GetNeighbors lib s i dir) = {n. \<exists>j. linked lib s dir i j \<and> stored_node lib s j = Some n}"
  using set_adjacent_ids [OF graph_reachable_inv [OF assms(1)] assms(2)] by (auto simp: GetNeighbors_def neighbor_loop_spec)

end
