(* ===== verification/DemoCodec.thy ===== *)
theory DemoCodec
  imports KeyEncode
begin

text \<open>A codec for the examples: parts that hold no zero byte, separated by zero bytes.\<close>

definition nul_part :: "bytes \<Rightarrow> bytes \<times> bytes" where
  "nul_part bs = (takeWhile (\<lambda>c. c \<noteq> NUL) bs, tl (dropWhile (\<lambda>c. c \<noteq> NUL) bs))"

lemma nul_part [simp]: "NUL \<notin> set a \<Longrightarrow> nul_part (a @ NUL # b) = (a, b)"
  unfolding nul_part_def by (induction a) auto

fun nul_split :: "bytes \<Rightarrow> bytes \<Rightarrow> bytes list" where
  "nul_split acc [] = []"
| "nul_split acc (c # cs) = (if c = NUL then rev acc # nul_split [] cs else nul_split (c # acc) cs)"

definition nul_join :: "bytes list \<Rightarrow> bytes" where
  "nul_join ns = concat (map (\<lambda>n. n @ [NUL]) ns)"

lemma nul_split_part: "NUL \<notin> set n \<Longrightarrow> nul_split acc (n @ NUL # bs) = (rev acc @ n) # nul_split [] bs"
  by (induction n arbitrary: acc) auto

lemma nul_split_join: "\<forall>n \<in> set ns. NUL \<notin> set n \<Longrightarrow> nul_split [] (nul_join ns) = ns"
  by (induction ns) (auto simp: nul_join_def nul_split_part)

text \<open>Integers in unary, after their sign.\<close>

definition unary :: "int \<Rightarrow> bytes" where
  "unary i = (if i < 0 then CHR ''-'' else CHR ''+'') # replicate (nat \<bar>i\<bar>) CHR ''x''"

definition of_unary :: "bytes \<Rightarrow> int" where
  "of_unary bs = (if hd bs = CHR ''-'' then - int (length (tl bs)) else int (length (tl bs)))"

lemma of_unary [simp]: "of_unary (unary i) = i"
  by (auto simp: unary_def of_unary_def)

lemma NUL_unary [simp]: "NUL \<notin> set (unary i)"
  by (auto simp: unary_def)

end
