(* ===== verification/GraphExamples.thy ===== *)
theory GraphExamples
  imports GraphQueries DemoCodec
begin

text \<open>
  A small graph on a concrete codec: three nodes and three edges, for the properties of the graph store.
\<close>

section \<open>The codec\<close>

definition demo_graph :: graph_json where
  "demo_graph =
     \<lparr>node_enc = \<lambda>n. Some (gn_ID n @ NUL # gn_Type n @ NUL # gn_Name n),
      node_dec = \<lambda>bs. (let (i, r) = nul_part bs; (t, n) = nul_part r
        in Some \<lparr>gn_ID = i, gn_Type = t, gn_Name = n, gn_Properties = []\<rparr>),
      edge_enc = \<lambda>e. Some (ge_ID e @ NUL # ge_Type e @ NUL # ge_FromID e @ NUL # ge_ToID e),
      edge_dec = \<lambda>bs. (let (i, r) = nul_part bs; (t, r) = nul_part r; (f, g) = nul_part r
        in Some \<lparr>ge_ID = i, ge_Type = t, ge_FromID = f, ge_ToID = g, ge_Properties = [], ge_Weight = 0\<rparr>)\<rparr>"

lemma demo_edge_round_trip: "edge_ok e \<Longrightarrow> NUL \<notin> set (ge_ID e) \<Longrightarrow> edge_round_trip demo_graph e"
  by (auto simp: edge_round_trip_def demo_graph_def edge_ok_def)

lemma demo_node_round_trip: "node_ok n \<Longrightarrow> node_round_trip demo_graph n"
  by (auto simp: node_round_trip_def demo_graph_def node_ok_def node_id_ok_def)

section \<open>The stores\<close>

definition demo_node :: "bytes \<Rightarrow> graph_node" where
  "demo_node i = \<lparr>gn_ID = i, gn_Type = ''doc'', gn_Name = ''n'', gn_Properties = []\<rparr>"

definition demo_edge :: "bytes \<Rightarrow> bytes \<Rightarrow> bytes \<Rightarrow> graph_edge" where
  "demo_edge i f t = \<lparr>ge_ID = i, ge_Type = ''cites'', ge_FromID = f, ge_ToID = t, ge_Properties = [], ge_Weight = 0\<rparr>"

definition demo_nodes :: kv where
  "demo_nodes = fold (\<lambda>i s. snd (AddNode demo_graph (demo_node i) s)) [''a'', ''b'', ''c''] kv_empty"

definition demo_edges :: kv where
  "demo_edges = fold (\<lambda>(i, f, t) s. snd (AddEdge demo_graph (demo_edge i f t) s))
     [(''1'', ''a'', ''b''), (''2'', ''b'', ''c''), (''3'', ''a'', ''d'')] demo_nodes"

lemma demo_nodes_reachable: "graph_reachable demo_graph demo_nodes"
proof -
  have add: "graph_reachable demo_graph (snd (AddNode demo_graph (demo_node i) s))"
    if "graph_reachable demo_graph s" "node_id_ok i" "stored_node demo_graph s i = None" for s i
    using that by (intro graph_reachable.add_node demo_node_round_trip) (simp_all add: demo_node_def node_ok_def)
  show ?thesis
    unfolding demo_nodes_def fold_simps comp_apply id_apply
    by (intro add graph_reachable.start) code_simp+
qed

lemma demo_edges_reachable: "graph_reachable demo_graph demo_edges"
proof -
  have add: "graph_reachable demo_graph (snd (AddEdge demo_graph (demo_edge i f t) s))"
    if "graph_reachable demo_graph s" "edge_ok (demo_edge i f t)" "NUL \<notin> set i" "stored_edge demo_graph s i = None" for s i f t
    using that by (intro graph_reachable.add_edge demo_edge_round_trip) (simp_all add: demo_edge_def)
  show ?thesis
    unfolding demo_edges_def fold_simps comp_apply id_apply prod.case
    by (intro add demo_nodes_reachable) code_simp+
qed

section \<open>The properties on it\<close>



lemma readded_edge_stays_listed_witness:
  "\<exists>x \<in> set (GetOutEdges demo_graph
       (snd (AddEdge demo_graph (demo_edge ''1'' ''c'' ''b'') (snd (AddEdge demo_graph (demo_edge ''1'' ''a'' ''b'') kv_empty)))) ''a'').
     ge_FromID x = ''c''"
proof -
  let ?e = "demo_edge ''1'' ''a'' ''b''" and ?e' = "demo_edge ''1'' ''c'' ''b''"
  let ?s1 = "snd (AddEdge demo_graph ?e kv_empty)"
  have ok: "kv_ok kv_empty" "edge_ok ?e" "edge_ok ?e'" "ge_ID ?e' = ge_ID ?e" "ge_FromID ?e' \<noteq> ge_FromID ?e"
    by code_simp+
  have "edge_round_trip demo_graph ?e'" by (rule demo_edge_round_trip [OF ok(3)]) code_simp
  moreover have "AddEdge demo_graph ?e kv_empty = (None, ?s1)" by code_simp
  moreover have "AddEdge demo_graph ?e' ?s1 = (None, snd (AddEdge demo_graph ?e' ?s1))" by code_simp
  ultimately show ?thesis
    using readded_edge_stays_listed [OF ok(1-3) _ ok(4,5)] by (fastforce simp: demo_edge_def)
qed

lemma demo_adjacent:
  "adjacent_ids demo_graph demo_edges DirOut ''a'' = [''b'', ''d'']"
  "adjacent_ids demo_graph demo_edges DirOut ''b'' = [''c'']"
  by code_simp+

lemma shortest_path_correct_witness:
  "\<exists>p. ShortestPath demo_graph demo_edges ''a'' ''c'' DirOut = Some (Inr p) \<and> path_between demo_graph demo_edges DirOut ''a'' ''c'' p \<and>
     (\<forall>q. path_between demo_graph demo_edges DirOut ''a'' ''c'' q \<longrightarrow> length p \<le> length q) \<and> p = [''a'', ''b'', ''c'']"
proof -
  have "ShortestPath demo_graph demo_edges ''a'' ''c'' DirOut = Some (Inr [''a'', ''b'', ''c''])"
    using demo_adjacent by (simp add: ShortestPath_def bfs.simps backtrack.simps parent_of_def)
  then show ?thesis using shortest_path_correct [OF demo_edges_reachable, of "''a''" "''c''" DirOut] by simp
qed

lemma khop_exact_distance_witness:
  "(\<exists>ids. KHopNeighbors demo_graph demo_edges ''a'' 2 DirOut = List.map_filter (stored_node demo_graph demo_edges) ids \<and>
     set ids = {j. at_distance demo_graph demo_edges DirOut ''a'' 2 j}) \<and>
   map gn_ID (KHopNeighbors demo_graph demo_edges ''a'' 2 DirOut) = [''c'']"
proof
  show "\<exists>ids. KHopNeighbors demo_graph demo_edges ''a'' 2 DirOut = List.map_filter (stored_node demo_graph demo_edges) ids \<and>
     set ids = {j. at_distance demo_graph demo_edges DirOut ''a'' 2 j}"
    using khop_exact_distance [OF demo_edges_reachable, of "''a''" 2 DirOut] by auto
  show "map gn_ID (KHopNeighbors demo_graph demo_edges ''a'' 2 DirOut) = [''c'']" by code_simp
qed

lemma neighbors_exact_witness:
  "set (GetNeighbors demo_graph demo_edges ''a'' DirOut) = {n. \<exists>j. linked demo_graph demo_edges DirOut ''a'' j \<and> stored_node demo_graph demo_edges j = Some n} \<and>
   map gn_ID (GetNeighbors demo_graph demo_edges ''a'' DirOut) = [''b'']"
proof
  show "set (GetNeighbors demo_graph demo_edges ''a'' DirOut) = {n. \<exists>j. linked demo_graph demo_edges DirOut ''a'' j \<and> stored_node demo_graph demo_edges j = Some n}"
    using neighbors_exact [OF demo_edges_reachable] by simp
  show "map gn_ID (GetNeighbors demo_graph demo_edges ''a'' DirOut) = [''b'']" by code_simp
qed

end
