(* ===== verification/GoHeap.thy ===== *)
theory GoHeap
  imports Prelude "HOL-Library.Multiset"
begin

text \<open>
  \<^verbatim>\<open>container/heap\<close> of the Go library on a slice: \<open>up\<close>, \<open>down\<close>, \<open>Push\<close> and \<open>Pop\<close> with the \<open>Less\<close> of the
  caller as an argument. With a \<open>Less\<close> that compares keys, \<open>Push\<close> and \<open>Pop\<close> keep the heap order and \<open>Pop\<close> takes an
  element of the least key.
\<close>

section \<open>Operations\<close>

definition swap_at :: "'a list \<Rightarrow> nat \<Rightarrow> nat \<Rightarrow> 'a list" where
  "swap_at h i j = h[i := h ! j, j := h ! i]"

definition parent_at :: "nat \<Rightarrow> nat" where
  "parent_at j = (j - 1) div 2"

function heap_up :: "('a \<Rightarrow> 'a \<Rightarrow> bool) \<Rightarrow> 'a list \<Rightarrow> nat \<Rightarrow> 'a list" where
  "heap_up le h j =
     (if parent_at j = j \<or> \<not> le (h ! j) (h ! parent_at j) then h
      else heap_up le (swap_at h (parent_at j) j) (parent_at j))"
  by auto
termination
  by (relation "measure (\<lambda>(_, _, j). j)") (auto simp: parent_at_def)

function heap_down :: "('a \<Rightarrow> 'a \<Rightarrow> bool) \<Rightarrow> 'a list \<Rightarrow> nat \<Rightarrow> nat \<Rightarrow> 'a list" where
  "heap_down le h i n =
     (let j1 = 2 * i + 1 in
      if j1 \<ge> n then h
      else let j = (if j1 + 1 < n \<and> le (h ! (j1 + 1)) (h ! j1) then j1 + 1 else j1) in
        if \<not> le (h ! j) (h ! i) then h else heap_down le (swap_at h i j) j n)"
  by auto
termination
  by (relation "measure (\<lambda>(_, _, i, n). n - i)") (auto split: if_splits)

definition heap_push :: "('a \<Rightarrow> 'a \<Rightarrow> bool) \<Rightarrow> 'a list \<Rightarrow> 'a \<Rightarrow> 'a list" where
  "heap_push le h x = heap_up le (h @ [x]) (length h)"

text \<open>Only on a heap that is not empty.\<close>

definition heap_pop :: "('a \<Rightarrow> 'a \<Rightarrow> bool) \<Rightarrow> 'a list \<Rightarrow> 'a \<times> 'a list" where
  "heap_pop le h =
     (let n = length h - 1; h = heap_down le (swap_at h 0 n) 0 n in (h ! n, take n h))"

declare heap_up.simps [simp del] heap_down.simps [simp del]

section \<open>Contents\<close>

lemma length_swap_at [simp]: "length (swap_at h i j) = length h"
  by (simp add: swap_at_def)

lemma swap_at_nth: "i < length h \<Longrightarrow> j < length h \<Longrightarrow> swap_at h i j ! k = (if k = j then h ! i else if k = i then h ! j else h ! k)"
  by (simp add: swap_at_def nth_list_update)

lemma mset_swap_at [simp]: "i < length h \<Longrightarrow> j < length h \<Longrightarrow> mset (swap_at h i j) = mset h"
  by (simp add: swap_at_def mset_swap)

lemma parent_less: "j \<noteq> 0 \<Longrightarrow> parent_at j < j"
  by (simp add: parent_at_def)

lemma parent_0 [simp]: "parent_at 0 = 0"
  by (simp add: parent_at_def)

lemma parent_fix: "parent_at j = j \<longleftrightarrow> j = 0"
  by (cases j) (auto simp: parent_at_def)

lemma parent_le: "parent_at j \<le> j"
  by (simp add: parent_at_def)

lemma mset_heap_up: "j < length h \<Longrightarrow> mset (heap_up le h j) = mset h"
proof (induction le h j rule: heap_up.induct)
  case (1 le h j)
  then show ?case using parent_le [of j] by (subst heap_up.simps) simp
qed

lemma heap_down_spec:
  "i < n \<Longrightarrow> n \<le> length h \<Longrightarrow> length (heap_down le h i n) = length h \<and> mset (heap_down le h i n) = mset h \<and>
     drop n (heap_down le h i n) = drop n h"
proof (induction le h i n rule: heap_down.induct)
  case (1 le h i n)
  have "drop n (swap_at h i j) = drop n h" if "i < n" "j < n" for j
    using that by (simp add: swap_at_def drop_update_swap)
  then show ?case using 1 by (subst (1 2 3) heap_down.simps) (auto simp: Let_def)
qed

section \<open>Order\<close>

definition is_heap :: "('a \<Rightarrow> 'k::linorder) \<Rightarrow> 'a list \<Rightarrow> bool" where
  "is_heap key h \<longleftrightarrow> (\<forall>i < length h. key (h ! parent_at i) \<le> key (h ! i))"

definition up_inv :: "('a \<Rightarrow> 'k::linorder) \<Rightarrow> 'a list \<Rightarrow> nat \<Rightarrow> bool" where
  "up_inv key h j \<longleftrightarrow>
     (\<forall>c < length h. (c \<noteq> j \<longrightarrow> key (h ! parent_at c) \<le> key (h ! c)) \<and>
        (parent_at c = j \<longrightarrow> key (h ! parent_at j) \<le> key (h ! c)))"

definition down_inv :: "('a \<Rightarrow> 'k::linorder) \<Rightarrow> 'a list \<Rightarrow> nat \<Rightarrow> nat \<Rightarrow> bool" where
  "down_inv key h i n \<longleftrightarrow>
     (\<forall>c < n. (parent_at c \<noteq> i \<longrightarrow> key (h ! parent_at c) \<le> key (h ! c)) \<and>
        (i \<noteq> 0 \<longrightarrow> parent_at c = i \<longrightarrow> key (h ! parent_at i) \<le> key (h ! c)))"

lemma heap_up_order:
  "le = (\<lambda>a b. key a < key b) \<Longrightarrow> j < length h \<Longrightarrow> up_inv key h j \<Longrightarrow> is_heap key (heap_up le h j)"
proof (induction le h j rule: heap_up.induct)
  case (1 le h j)
  note le = 1(2) and j = 1(3) and inv = 1(4)
  show ?case
  proof (cases "j = 0 \<or> \<not> key (h ! j) < key (h ! parent_at j)")
    case True
    then have "key (h ! parent_at j) \<le> key (h ! j)" by auto
    then have "is_heap key h" using inv by (auto simp: is_heap_def up_inv_def)
    then show ?thesis using True le by (subst heap_up.simps) (auto simp: parent_fix)
  next
    case False
    let ?p = "parent_at j" and ?h = "swap_at h (parent_at j) j"
    have p: "?p < j" "?p < length h" using False parent_less [of j] j by auto
    have "up_inv key ?h ?p"
      unfolding up_inv_def length_swap_at
    proof (intro allI impI conjI)
      fix c assume c: "c < length h" "c \<noteq> ?p"
      show "key (?h ! parent_at c) \<le> key (?h ! c)"
      proof (cases "c = j")
        case True
        then show ?thesis using False p j by (auto simp: swap_at_nth)
      next
        case other: False
        then have "key (h ! parent_at c) \<le> key (h ! c)" "parent_at c = j \<longrightarrow> key (h ! ?p) \<le> key (h ! c)"
          using inv c by (auto simp: up_inv_def)
        then show ?thesis using c other p j False by (auto simp: swap_at_nth)
      qed
    next
      fix c assume c: "c < length h" "parent_at c = ?p"
      have pp: "key (h ! parent_at ?p) \<le> key (h ! ?p)" "?p \<noteq> j" using inv p j by (auto simp: up_inv_def)
      have "parent_at ?p \<noteq> j" using parent_le [of ?p] p by linarith
      then have up: "?h ! parent_at ?p = (if parent_at ?p = ?p then h ! j else h ! parent_at ?p)" using p j by (simp add: swap_at_nth)
      show "key (?h ! parent_at ?p) \<le> key (?h ! c)"
      proof (cases "c = j \<or> c = ?p")
        case True
        then show ?thesis using up pp p j False c by (auto simp: swap_at_nth)
      next
        case other: False
        then have "key (h ! ?p) \<le> key (h ! c)" using inv c by (auto simp: up_inv_def)
        then show ?thesis using up pp p j False other by (auto simp: swap_at_nth parent_fix)
      qed
    qed
    then have "is_heap key (heap_up le ?h ?p)" using 1(1) False le p by (auto simp: parent_fix)
    then show ?thesis using False le by (subst heap_up.simps) (auto simp: parent_fix)
  qed
qed

lemma children: "parent_at c = i \<and> c \<noteq> 0 \<longleftrightarrow> c = 2 * i + 1 \<or> c = 2 * i + 2"
  by (auto simp: parent_at_def)

lemma down_inv_first: "down_inv key h i n \<Longrightarrow> c < n \<Longrightarrow> parent_at c \<noteq> i \<Longrightarrow> key (h ! parent_at c) \<le> key (h ! c)"
  by (simp add: down_inv_def)

lemma down_inv_second:
  "down_inv key h i n \<Longrightarrow> c < n \<Longrightarrow> parent_at c = i \<Longrightarrow> i \<noteq> 0 \<Longrightarrow> key (h ! parent_at i) \<le> key (h ! c)"
  by (simp add: down_inv_def)

lemma down_inv_done:
  assumes inv: "down_inv key h i n" and n: "n \<le> length h"
    and here: "\<And>c. c < n \<Longrightarrow> c \<noteq> 0 \<Longrightarrow> parent_at c = i \<Longrightarrow> key (h ! i) \<le> key (h ! c)"
  shows "is_heap key (take n h)"
  unfolding is_heap_def
proof (intro allI impI)
  fix c assume "c < length (take n h)"
  then have c: "c < n" using n by simp
  then have "parent_at c < n" using parent_le [of c] by linarith
  moreover have "key (h ! parent_at c) \<le> key (h ! c)"
  proof (cases "c = 0 \<or> parent_at c \<noteq> i")
    case True
    then show ?thesis using down_inv_first [OF inv c] by (cases "c = 0") simp_all
  next
    case False
    then show ?thesis using here [OF c] by simp
  qed
  ultimately show "key (take n h ! parent_at c) \<le> key (take n h ! c)" using c by simp
qed

text \<open>A smaller child is swapped with its parent.\<close>

lemma down_inv_swap:
  assumes inv: "down_inv key h i n" and n: "n \<le> length h" and j: "j < n" "parent_at j = i" "j \<noteq> 0"
    and least: "\<And>c. c < n \<Longrightarrow> c \<noteq> 0 \<Longrightarrow> parent_at c = i \<Longrightarrow> key (h ! j) \<le> key (h ! c)"
    and less: "key (h ! j) < key (h ! i)"
  shows "down_inv key (swap_at h i j) j n"
proof -
  let ?h = "swap_at h i j"
  have ij: "i < j" using parent_less [OF j(3)] j(2) by simp
  have nth: "?h ! k = (if k = j then h ! i else if k = i then h ! j else h ! k)" for k
    using ij j n by (simp add: swap_at_nth)
  have hi: "?h ! i = h ! j" and hj: "?h ! j = h ! i" using ij by (simp_all add: nth)
  have other: "?h ! k = h ! k" if "k \<noteq> i" "k \<noteq> j" for k using that by (simp add: nth)
  show ?thesis
    unfolding down_inv_def
  proof (intro allI impI conjI)
    fix c assume c: "c < n" "parent_at c \<noteq> j"
    consider "c = 0" | "c = j" | "c \<noteq> 0" "c = i" | "c \<noteq> 0" "c \<noteq> i" "c \<noteq> j" "parent_at c = i"
      | "c \<noteq> 0" "c \<noteq> i" "c \<noteq> j" "parent_at c \<noteq> i" by blast
    then show "key (?h ! parent_at c) \<le> key (?h ! c)"
    proof cases
      case 1
      then show ?thesis by simp
    next
      case 2
      then show ?thesis using less by (simp add: j(2) hi hj)
    next
      case 3
      then have p: "parent_at i < i" using parent_less by blast
      have "key (h ! parent_at i) \<le> key (h ! j)" using down_inv_second [OF inv j(1,2)] 3 by simp
      then show ?thesis using 3(2) p ij hi other [of "parent_at i"] by simp
    next
      case 4
      then show ?thesis using least [OF c(1)] hi other [of c] by simp
    next
      case 5
      then show ?thesis using down_inv_first [OF inv c(1)] other [of c] other [OF _ c(2)] by simp
    qed
  next
    fix c assume c: "c < n" "parent_at c = j"
    have "c \<noteq> 0" using c(2) j(3) parent_0 by metis
    then have "j < c" using parent_less c(2) by blast
    then show "key (?h ! parent_at j) \<le> key (?h ! c)"
      using down_inv_first [OF inv c(1)] c(2) j(2) ij hi other [of c] by simp
  qed
qed

lemma heap_down_order:
  "le = (\<lambda>a b. key a < key b) \<Longrightarrow> i < n \<Longrightarrow> n \<le> length h \<Longrightarrow> down_inv key h i n \<Longrightarrow> is_heap key (take n (heap_down le h i n))"
proof (induction le h i n rule: heap_down.induct)
  case (1 le h i n)
  note le = 1(2) and i = 1(3) and n = 1(4) and inv = 1(5)
  show ?case
  proof (cases "2 * i + 1 \<ge> n")
    case True
    then have "\<not> (c < n \<and> c \<noteq> 0 \<and> parent_at c = i)" for c using children [of c i] by linarith
    then have "is_heap key (take n h)" using down_inv_done [OF inv n] by blast
    then show ?thesis using True by (subst heap_down.simps) simp
  next
    case False
    define j where "j = (if 2 * i + 1 + 1 < n \<and> le (h ! (2 * i + 1 + 1)) (h ! (2 * i + 1)) then 2 * i + 1 + 1 else 2 * i + 1)"
    have j: "j < n" "parent_at j = i" "j \<noteq> 0" using False by (auto simp: j_def parent_at_def)
    have least: "key (h ! j) \<le> key (h ! c)" if "c < n" "c \<noteq> 0" "parent_at c = i" for c
    proof -
      have "c = 2 * i + 1 \<or> c = 2 * i + 2" using children [of c i] that by simp
      then show ?thesis using that(1) le by (auto simp: j_def not_less)
    qed
    have step: "heap_down le h i n = (if \<not> le (h ! j) (h ! i) then h else heap_down le (swap_at h i j) j n)"
      using False by (subst heap_down.simps) (simp only: j_def Let_def if_False)
    show ?thesis
    proof (cases "le (h ! j) (h ! i)")
      case stop: False
      have "is_heap key (take n h)"
      proof (rule down_inv_done [OF inv n])
        fix c assume "c < n" "c \<noteq> 0" "parent_at c = i"
        then have "key (h ! j) \<le> key (h ! c)" by (rule least)
        then show "key (h ! i) \<le> key (h ! c)" using stop le by simp
      qed
      then show ?thesis using step stop by simp
    next
      case swap: True
      then have "key (h ! j) < key (h ! i)" using le by simp
      from down_inv_swap [OF inv n j least this] have next': "down_inv key (swap_at h i j) j n" .
      have "is_heap key (take n (heap_down le (swap_at h i j) j n))"
        using 1(1) [OF refl False j_def _ le j(1) _ next'] swap n by simp
      then show ?thesis using step swap by simp
    qed
  qed
qed

lemma heap_push_spec:
  "is_heap key h \<Longrightarrow> le = (\<lambda>a b. key a < key b) \<Longrightarrow>
     is_heap key (heap_push le h x) \<and> mset (heap_push le h x) = add_mset x (mset h)"
proof -
  assume h: "is_heap key h" and le: "le = (\<lambda>a b. key a < key b)"
  have "up_inv key (h @ [x]) (length h)"
    unfolding up_inv_def
  proof (intro allI impI conjI)
    fix c assume "c < length (h @ [x])" "c \<noteq> length h"
    then have "c < length h" "parent_at c < length h" using parent_le [of c] by auto
    then show "key ((h @ [x]) ! parent_at c) \<le> key ((h @ [x]) ! c)" using h by (simp add: is_heap_def nth_append)
  next
    fix c assume "c < length (h @ [x])" "parent_at c = length h"
    then show "key ((h @ [x]) ! parent_at (length h)) \<le> key ((h @ [x]) ! c)"
      using parent_le [of c] parent_fix [of c] by (cases "c = length h") auto
  qed
  then show ?thesis using heap_up_order [OF le] by (simp add: heap_push_def mset_heap_up)
qed

lemma heap_least: "is_heap key h \<Longrightarrow> i < length h \<Longrightarrow> key (h ! 0) \<le> key (h ! i)"
proof (induction i rule: less_induct)
  case (less i)
  show ?case
  proof (cases "i = 0")
    case False
    then have "parent_at i < i" by (rule parent_less)
    then have "key (h ! 0) \<le> key (h ! parent_at i)" using less by simp
    also have "\<dots> \<le> key (h ! i)" using less.prems by (simp add: is_heap_def)
    finally show ?thesis .
  qed simp
qed

lemma heap_pop_spec:
  assumes "is_heap key h" "le = (\<lambda>a b. key a < key b)" "h \<noteq> []" "heap_pop le h = (x, h')"
  shows "is_heap key h' \<and> mset h = add_mset x (mset h') \<and> x = h ! 0 \<and> (\<forall>y \<in> set h. key x \<le> key y)"
proof -
  let ?n = "length h - 1"
  have n: "?n < length h" "0 < length h" using assms(3) by (simp_all add: length_greater_0_conv)
  let ?s = "swap_at h 0 ?n" and ?d = "heap_down le (swap_at h 0 ?n) 0 ?n"
  have spec: "length ?d = length h \<and> mset ?d = mset h \<and> drop ?n ?d = drop ?n ?s \<and> is_heap key (take ?n ?d)"
  proof (cases "?n = 0")
    case True
    then have "?d = ?s" by (subst heap_down.simps) simp
    then show ?thesis using True n by (simp add: is_heap_def)
  next
    case False
    have "down_inv key ?s 0 ?n"
      unfolding down_inv_def
    proof (intro allI impI conjI)
      fix c assume c: "c < ?n" "parent_at c \<noteq> 0"
      then have "c \<noteq> 0" using parent_0 by metis
      moreover have "parent_at c < ?n" using parent_le [of c] c by linarith
      ultimately show "key (?s ! parent_at c) \<le> key (?s ! c)"
        using c n assms(1) by (auto simp: swap_at_nth is_heap_def)
    qed simp
    then have "is_heap key (take ?n ?d)" using heap_down_order [OF assms(2), of 0 ?n ?s] False by simp
    then show ?thesis using heap_down_spec [of 0 ?n ?s le] False n by simp
  qed
  have x: "x = ?d ! ?n" "h' = take ?n ?d" using assms(4) by (simp_all add: heap_pop_def Let_def)
  have "?d ! ?n = ?s ! ?n" using spec n by (metis append_take_drop_id hd_drop_conv_nth length_swap_at)
  then have x0: "x = h ! 0" using n x by (simp add: swap_at_nth)
  have "?d = h' @ [x]" using spec n x by (metis Suc_pred' length_greater_0_conv take_all take_Suc_conv_app_nth le_refl)
  then have "mset h = add_mset x (mset h')" using spec by (metis mset_append add.commute mset_single_iff_right add_mset_add_single mset.simps)
  moreover have "\<forall>y \<in> set h. key x \<le> key y" using heap_least [OF assms(1)] x0 by (auto simp: in_set_conv_nth)
  ultimately show ?thesis using spec x x0 by simp
qed

end
