(* ===== verification/TaskQueue.thy ===== *)
theory TaskQueue
  imports GoHeap Engine
begin

text \<open>
  Model of \<^verbatim>\<open>internal/agent/taskqueue.go\<close>: tasks as JSON under the system prefix of the engine with an index
  by agent, and the queue of the pending ones as a binary heap in memory. \<open>encoding/json\<close> is the record
  \<open>task_json\<close>; instants are nanoseconds from the zero time; the clock and new identifiers are arguments. Callers do
  not change a task they have handed over.
\<close>

section \<open>Tasks\<close>

record task =
  tk_ID :: bytes
  tk_AgentID :: bytes
  tk_Name :: bytes
  tk_Description :: bytes
  tk_Priority :: int
  tk_Status :: bytes
  tk_Input :: val
  tk_Result :: val
  tk_Error :: bytes
  tk_DependsOn :: "bytes list"
  tk_DurationMs :: u64
  tk_CreatedAt :: int
  tk_StartedAt :: int
  tk_EndedAt :: "int option"

definition TaskPending :: bytes where "TaskPending = ''pending''"
definition TaskRunning :: bytes where "TaskRunning = ''running''"
definition TaskCompleted :: bytes where "TaskCompleted = ''completed''"
definition TaskFailed :: bytes where "TaskFailed = ''failed''"
definition TaskCancelled :: bytes where "TaskCancelled = ''cancelled''"

record task_json =
  task_enc :: "task \<Rightarrow> bytes option"
  task_dec :: "bytes \<Rightarrow> task option"

datatype task_error = TaskNotFound bytes | TaskMarshal | TaskUnmarshal

record task_queue =
  tq_engine :: kv
  tq_pq :: "task list"
  tq_notify :: bool
  tq_closed :: bool

definition NewTaskQueue :: "kv \<Rightarrow> task_queue" where
  "NewTaskQueue s = \<lparr>tq_engine = s, tq_pq = [], tq_notify = False, tq_closed = False\<rparr>"

section \<open>Storing\<close>

definition task_key :: "bytes \<Rightarrow> bytes" where
  "task_key i = EncodeKey PrefixSystem (''task:'' @ i)"

definition agent_task_key :: "bytes \<Rightarrow> bytes \<Rightarrow> bytes" where
  "agent_task_key a i = EncodeIndexKey PrefixSystem (''agenttask:'' @ a) i"

definition saveTask :: "task_json \<Rightarrow> task \<Rightarrow> kv \<Rightarrow> task_error option \<times> kv" where
  "saveTask lib task s =
     (case task_enc lib task of
        None \<Rightarrow> (Some TaskMarshal, s)
      | Some data \<Rightarrow>
          let s = engine_set s (task_key (tk_ID task)) data
          in (None, if tk_AgentID task \<noteq> [] then engine_set s (agent_task_key (tk_AgentID task) (tk_ID task)) [CHR 0x01] else s))"

definition GetTask :: "task_json \<Rightarrow> kv \<Rightarrow> bytes \<Rightarrow> task_error + task" where
  "GetTask lib s i =
     (case engine_get s (task_key i) of
        None \<Rightarrow> Inl (TaskNotFound i)
      | Some data \<Rightarrow> (case task_dec lib data of None \<Rightarrow> Inl TaskUnmarshal | Some task \<Rightarrow> Inr task))"

definition ListByAgent :: "task_json \<Rightarrow> kv \<Rightarrow> bytes \<Rightarrow> bytes \<Rightarrow> int \<Rightarrow> task list" where
  "ListByAgent lib s a status limit =
     List.map_filter
       (\<lambda>(k, _). case GetTask lib s (DecodeIndexID k) of
          Inl _ \<Rightarrow> None
        | Inr task \<Rightarrow> if status \<noteq> [] \<and> tk_Status task \<noteq> status then None else Some task)
       (iter_collect (engine_prefix_scan s (agent_task_key a []) \<lparr>so_limit = limit, so_reverse = False\<rparr>))"

section \<open>The queue\<close>

definition task_less :: "task \<Rightarrow> task \<Rightarrow> bool" where
  "task_less a b \<longleftrightarrow> tk_Priority a < tk_Priority b"

definition with_defaults :: "bytes \<Rightarrow> int \<Rightarrow> task \<Rightarrow> task" where
  "with_defaults uuid now task =
     (let task = (if tk_ID task = [] then task\<lparr>tk_ID := uuid\<rparr> else task);
          task = (if tk_Status task = [] then task\<lparr>tk_Status := TaskPending\<rparr> else task)
      in if tk_CreatedAt task = 0 then task\<lparr>tk_CreatedAt := now\<rparr> else task)"

definition Enqueue :: "task_json \<Rightarrow> bytes \<Rightarrow> int \<Rightarrow> task \<Rightarrow> task_queue \<Rightarrow> task_error option \<times> task_queue" where
  "Enqueue lib uuid now task q =
     (let task = with_defaults uuid now task in
      case saveTask lib task (tq_engine q) of
        (Some e, s) \<Rightarrow> (Some e, q\<lparr>tq_engine := s\<rparr>)
      | (None, s) \<Rightarrow> (None, q\<lparr>tq_engine := s, tq_pq := heap_push task_less (tq_pq q) task, tq_notify := True\<rparr>))"

text \<open>
  \<open>Dequeue\<close> takes a task if there is one (the result of saving it is dropped). Otherwise it takes the
  notification, if there is one, looks again and then waits: \<open>None\<close>, until another operation has run or the
  context ends.
\<close>

definition started :: "int \<Rightarrow> task \<Rightarrow> task" where
  "started now task = task\<lparr>tk_Status := TaskRunning, tk_StartedAt := now\<rparr>"

definition Dequeue :: "task_json \<Rightarrow> int \<Rightarrow> task_queue \<Rightarrow> task option \<times> task_queue" where
  "Dequeue lib now q =
     (if tq_pq q = [] then (None, q\<lparr>tq_notify := False\<rparr>)
      else let (task, pq) = heap_pop task_less (tq_pq q); task = started now task
        in (Some task, q\<lparr>tq_engine := snd (saveTask lib task (tq_engine q)), tq_pq := pq\<rparr>))"

text \<open>\<open>Duration\<close> and its \<open>Milliseconds\<close>: the difference is clamped to an \<open>int64\<close>, the division is towards zero.\<close>

definition sub_time :: "int \<Rightarrow> int \<Rightarrow> int" where
  "sub_time a b = max (- (2 ^ 63)) (min (2 ^ 63 - 1) (a - b))"

definition milliseconds :: "int \<Rightarrow> int" where
  "milliseconds d = (if d < 0 then - (- d div 1000000) else d div 1000000)"

definition ended :: "bytes \<Rightarrow> int \<Rightarrow> val \<Rightarrow> bytes \<Rightarrow> task \<Rightarrow> task" where
  "ended status now result reason task =
     (let task = task\<lparr>tk_Status := status, tk_EndedAt := Some now\<rparr>;
          task = (if result \<noteq> VNil then task\<lparr>tk_Result := result\<rparr> else task);
          task = (if reason \<noteq> [] then task\<lparr>tk_Error := reason\<rparr> else task)
      in if status = TaskCompleted \<and> tk_StartedAt task \<noteq> 0
         then task\<lparr>tk_DurationMs := word_of_int (milliseconds (sub_time now (tk_StartedAt task)))\<rparr> else task)"

definition updateStatus ::
    "task_json \<Rightarrow> int \<Rightarrow> bytes \<Rightarrow> bytes \<Rightarrow> val \<Rightarrow> bytes \<Rightarrow> task_queue \<Rightarrow> task_error option \<times> task_queue" where
  "updateStatus lib now i status result reason q =
     (case GetTask lib (tq_engine q) i of
        Inl e \<Rightarrow> (Some e, q)
      | Inr task \<Rightarrow> let (e, s) = saveTask lib (ended status now result reason task) (tq_engine q) in (e, q\<lparr>tq_engine := s\<rparr>))"

definition Complete :: "task_json \<Rightarrow> int \<Rightarrow> bytes \<Rightarrow> val \<Rightarrow> task_queue \<Rightarrow> task_error option \<times> task_queue" where
  "Complete lib now i result q = updateStatus lib now i TaskCompleted result [] q"

definition Fail :: "task_json \<Rightarrow> int \<Rightarrow> bytes \<Rightarrow> bytes \<Rightarrow> task_queue \<Rightarrow> task_error option \<times> task_queue" where
  "Fail lib now i reason q = updateStatus lib now i TaskFailed VNil reason q"

definition Cancel :: "task_json \<Rightarrow> int \<Rightarrow> bytes \<Rightarrow> task_queue \<Rightarrow> task_error option \<times> task_queue" where
  "Cancel lib now i q = updateStatus lib now i TaskCancelled VNil [] q"

definition queue_Len :: "task_queue \<Rightarrow> nat" where
  "queue_Len q = length (tq_pq q)"

definition queue_Close :: "task_queue \<Rightarrow> task_queue" where
  "queue_Close q = q\<lparr>tq_closed := True\<rparr>"

section \<open>Runs\<close>

text \<open>
  What \<open>encoding/json\<close> does for a task: identifier and agent come back, and the status when it is one of the
  five constants.
\<close>

definition task_statuses :: "bytes set" where
  "task_statuses = {TaskPending, TaskRunning, TaskCompleted, TaskFailed, TaskCancelled}"

definition task_round_trip :: "task_json \<Rightarrow> bytes \<Rightarrow> bytes \<Rightarrow> bool" where
  "task_round_trip lib i a \<longleftrightarrow>
     (\<forall>t data. tk_ID t = i \<longrightarrow> tk_AgentID t = a \<longrightarrow> task_enc lib t = Some data \<longrightarrow>
        (\<exists>t'. task_dec lib data = Some t' \<and> tk_ID t' = i \<and> tk_AgentID t' = a \<and>
           (tk_Status t \<in> task_statuses \<longrightarrow> tk_Status t' = tk_Status t)))"

definition stored_task :: "task_json \<Rightarrow> kv \<Rightarrow> bytes \<Rightarrow> task option" where
  "stored_task lib s i = (case GetTask lib s i of Inl _ \<Rightarrow> None | Inr t \<Rightarrow> Some t)"

text \<open>Operations, with new identifiers and the clock; a task in use is enqueued again only for the same agent.\<close>

inductive queue_reachable :: "task_json \<Rightarrow> task_queue \<Rightarrow> bool" for lib where
  new: "queue_reachable lib (NewTaskQueue kv_empty)"
| enqueue: "queue_reachable lib q \<Longrightarrow> task_round_trip lib i (tk_AgentID task) \<Longrightarrow> NUL \<notin> set (tk_AgentID task) \<Longrightarrow>
    i = tk_ID (with_defaults uuid now task) \<Longrightarrow>
    (\<forall>old. stored_task lib (tq_engine q) i = Some old \<longrightarrow> tk_AgentID old = tk_AgentID task) \<Longrightarrow>
    queue_reachable lib (snd (Enqueue lib uuid now task q))"
| dequeue: "queue_reachable lib q \<Longrightarrow> queue_reachable lib (snd (Dequeue lib now q))"
| update: "queue_reachable lib q \<Longrightarrow> queue_reachable lib (snd (updateStatus lib now i status result reason q))"
| close: "queue_reachable lib q \<Longrightarrow> queue_reachable lib (queue_Close q)"
| restart: "queue_reachable lib q \<Longrightarrow> queue_reachable lib (NewTaskQueue (tq_engine q))"

text \<open>Taking tasks until the queue is empty.\<close>

primrec drain :: "task_json \<Rightarrow> int \<Rightarrow> nat \<Rightarrow> task_queue \<Rightarrow> task list" where
  "drain lib now 0 q = []"
| "drain lib now (Suc n) q =
     (case Dequeue lib now q of (None, _) \<Rightarrow> [] | (Some t, q) \<Rightarrow> t # drain lib now n q)"

end
