(* ===== verification/TaskQueueProps.thy ===== *)
theory TaskQueueProps
  imports TaskQueue
begin

text \<open>
  What holds of the task queue: tasks leave it by priority, the index by agent lists the stored tasks of the
  agent, and a task that was cancelled leaves the queue all the same.
\<close>

section \<open>Order\<close>

lemma task_less_key: "task_less = (\<lambda>a b. tk_Priority a < tk_Priority b)"
  by (simp add: fun_eq_iff task_less_def)

lemma Dequeue_pops:
  assumes "is_heap tk_Priority (tq_pq q)" "tq_pq q \<noteq> []"
  obtains x pq where "Dequeue lib now q = (Some (started now x), q\<lparr>tq_engine := snd (saveTask lib (started now x) (tq_engine q)), tq_pq := pq\<rparr>)"
    "mset (tq_pq q) = add_mset x (mset pq)" "is_heap tk_Priority pq" "\<forall>y \<in> set (tq_pq q). tk_Priority x \<le> tk_Priority y"
proof -
  obtain x pq where pop: "heap_pop task_less (tq_pq q) = (x, pq)" by (meson surj_pair)
  have "Dequeue lib now q = (Some (started now x), q\<lparr>tq_engine := snd (saveTask lib (started now x) (tq_engine q)), tq_pq := pq\<rparr>)"
    using pop assms(2) by (simp add: Dequeue_def Let_def)
  with heap_pop_spec [OF assms(1) task_less_key assms(2) pop] show ?thesis by (blast intro: that)
qed

lemma started_fields [simp]:
  "tk_ID (started now t) = tk_ID t" "tk_AgentID (started now t) = tk_AgentID t" "tk_Status (started now t) = TaskRunning"
  "tk_Priority (started now t) = tk_Priority t"
  by (simp_all add: started_def)

lemma drain_heap:
  "is_heap tk_Priority (tq_pq q) \<Longrightarrow> n = length (tq_pq q) \<Longrightarrow>
     sorted (map tk_Priority (drain lib now n q)) \<and> mset (drain lib now n q) = image_mset (started now) (mset (tq_pq q))"
proof (induction n arbitrary: q)
  case (Suc n)
  then have "tq_pq q \<noteq> []" by auto
  then obtain x pq where step: "Dequeue lib now q = (Some (started now x), q\<lparr>tq_engine := snd (saveTask lib (started now x) (tq_engine q)), tq_pq := pq\<rparr>)"
    "mset (tq_pq q) = add_mset x (mset pq)" "is_heap tk_Priority pq" "\<forall>y \<in> set (tq_pq q). tk_Priority x \<le> tk_Priority y"
    using Dequeue_pops [OF Suc.prems(1)] by blast
  let ?q = "q\<lparr>tq_engine := snd (saveTask lib (started now x) (tq_engine q)), tq_pq := pq\<rparr>"
  have "length (tq_pq q) = Suc (length pq)" using arg_cong [OF step(2), of size] by simp
  then have IH: "sorted (map tk_Priority (drain lib now n ?q))" "mset (drain lib now n ?q) = image_mset (started now) (mset pq)"
    using Suc.IH [of ?q] step(3) Suc.prems(2) by simp_all
  have "set (drain lib now n ?q) = started now ` set pq" using arg_cong [OF IH(2), of set_mset] by simp
  moreover have "set pq \<subseteq> set (tq_pq q)" using arg_cong [OF step(2), of set_mset] by auto
  ultimately have "\<forall>t \<in> set (drain lib now n ?q). tk_Priority x \<le> tk_Priority t" using step(4) by auto
  then show ?case using step(1,2) IH by auto
qed simp

section \<open>The stored tasks\<close>

definition tasks_inv :: "task_json \<Rightarrow> kv \<Rightarrow> bool" where
  "tasks_inv lib s \<longleftrightarrow>
     kv_ok s \<and>
     (\<forall>i t. stored_task lib s i = Some t \<longrightarrow> tk_ID t = i \<and> NUL \<notin> set (tk_AgentID t) \<and> task_round_trip lib i (tk_AgentID t)) \<and>
     (\<forall>a i. NUL \<notin> set a \<longrightarrow> a \<noteq> [] \<longrightarrow>
        (engine_get s (agent_task_key a i) \<noteq> None \<longleftrightarrow> (\<exists>t. stored_task lib s i = Some t \<and> tk_AgentID t = a)))"

definition all_stored :: "task_json \<Rightarrow> kv \<Rightarrow> task set \<Rightarrow> bool" where
  "all_stored lib s A \<longleftrightarrow> (\<forall>t \<in> A. map_option tk_AgentID (stored_task lib s (tk_ID t)) = Some (tk_AgentID t))"

definition queue_inv :: "task_json \<Rightarrow> task_queue \<Rightarrow> bool" where
  "queue_inv lib q \<longleftrightarrow>
     is_heap tk_Priority (tq_pq q) \<and> tasks_inv lib (tq_engine q) \<and>
     all_stored lib (tq_engine q) (set (tq_pq q))"

lemma stored_task_get: "stored_task lib s i = Option.bind (engine_get s (task_key i)) (task_dec lib)"
  by (simp add: stored_task_def GetTask_def split: option.split)

lemma task_key_inject [simp]: "task_key i = task_key j \<longleftrightarrow> i = j"
  by (simp add: task_key_def)

lemma agent_task_key_inject:
  "NUL \<notin> set a \<Longrightarrow> NUL \<notin> set b \<Longrightarrow> agent_task_key a i = agent_task_key b j \<longleftrightarrow> a = b \<and> i = j"
  by (simp add: agent_task_key_def EncodeIndexKey_inject)

lemma agent_not_task [simp]: "agent_task_key a i \<noteq> task_key j" "task_key j \<noteq> agent_task_key a i"
  by (simp_all add: agent_task_key_def task_key_def EncodeIndexKey_def EncodeKey_def)

text \<open>A task saved under its agent.\<close>

lemma saveTask_inv:
  assumes inv: "tasks_inv lib s" and rt: "task_round_trip lib (tk_ID t) (tk_AgentID t)" and nul: "NUL \<notin> set (tk_AgentID t)"
    and same: "\<forall>old. stored_task lib s (tk_ID t) = Some old \<longrightarrow> tk_AgentID old = tk_AgentID t"
    and run: "saveTask lib t s = (r, s')"
  shows "tasks_inv lib s' \<and> (if r = None
    then \<exists>t'. stored_task lib s' = (stored_task lib s)(tk_ID t \<mapsto> t') \<and> tk_AgentID t' = tk_AgentID t \<and>
      (tk_Status t \<in> task_statuses \<longrightarrow> tk_Status t' = tk_Status t)
    else s' = s)"
proof (cases "task_enc lib t")
  case None
  then show ?thesis using inv run by (auto simp: saveTask_def)
next
  case (Some data)
  obtain t' where t': "task_dec lib data = Some t'" "tk_ID t' = tk_ID t" "tk_AgentID t' = tk_AgentID t"
    "tk_Status t \<in> task_statuses \<longrightarrow> tk_Status t' = tk_Status t"
    using rt Some unfolding task_round_trip_def by blast
  have r: "r = None" and s': "s' = (let s = engine_set s (task_key (tk_ID t)) data in
      if tk_AgentID t \<noteq> [] then engine_set s (agent_task_key (tk_AgentID t) (tk_ID t)) [CHR 0x01] else s)"
    using run Some by (auto simp: saveTask_def Let_def)
  have ok: "kv_ok s'" using inv by (simp add: s' Let_def tasks_inv_def kv_simps)
  have keys: "engine_get s' (task_key j) = (if j = tk_ID t then Some data else engine_get s (task_key j))" for j
    using inv by (simp add: s' Let_def tasks_inv_def kv_simps)
  have stored: "stored_task lib s' = (stored_task lib s)(tk_ID t \<mapsto> t')"
    by (rule ext) (simp add: stored_task_get keys t'(1))
  have index: "engine_get s' (agent_task_key a j) \<noteq> None \<longleftrightarrow> (\<exists>u. stored_task lib s' j = Some u \<and> tk_AgentID u = a)"
    if a: "NUL \<notin> set a" "a \<noteq> []" for a j
  proof -
    have "engine_get s' (agent_task_key a j) =
        (if tk_AgentID t \<noteq> [] \<and> tk_AgentID t = a \<and> tk_ID t = j then Some [CHR 0x01] else engine_get s (agent_task_key a j))"
      using inv a nul by (auto simp: s' Let_def tasks_inv_def kv_simps agent_task_key_inject)
    moreover have "engine_get s (agent_task_key a j) \<noteq> None \<longleftrightarrow> (\<exists>u. stored_task lib s j = Some u \<and> tk_AgentID u = a)"
      using inv a by (simp add: tasks_inv_def)
    ultimately show ?thesis using same t'(3) a(2) by (auto simp: stored)
  qed
  have "tasks_inv lib s'"
    unfolding tasks_inv_def
  proof (intro conjI allI impI)
    show "kv_ok s'" by (rule ok)
    show "(engine_get s' (agent_task_key a j) \<noteq> None) = (\<exists>u. stored_task lib s' j = Some u \<and> tk_AgentID u = a)"
      if "NUL \<notin> set a" "a \<noteq> []" for a j
      by (rule index [OF that])
  qed (use inv rt nul t' in \<open>auto simp: stored tasks_inv_def split: if_splits\<close>)
  then show ?thesis using stored t' r by auto
qed

lemma ended_fields [simp]:
  "tk_ID (ended st now r m t) = tk_ID t" "tk_AgentID (ended st now r m t) = tk_AgentID t" "tk_Status (ended st now r m t) = st"
  by (simp_all add: ended_def Let_def)

lemma default_fields [simp]: "tk_AgentID (with_defaults uuid now t) = tk_AgentID t"
  by (simp add: with_defaults_def Let_def)

text \<open>Saving a task that the queue or the store has keeps the tasks of the queue stored under their agents.\<close>

lemma queue_kept:
  assumes "tasks_inv lib s" "task_round_trip lib (tk_ID t) (tk_AgentID t)" "NUL \<notin> set (tk_AgentID t)"
    "\<forall>old. stored_task lib s (tk_ID t) = Some old \<longrightarrow> tk_AgentID old = tk_AgentID t" "saveTask lib t s = (r, s')"
    and kept: "all_stored lib s A"
  shows "all_stored lib s' A"
proof (cases "r = None")
  case True
  obtain t' where t': "stored_task lib s' = (stored_task lib s)(tk_ID t \<mapsto> t')" "tk_AgentID t' = tk_AgentID t"
    using saveTask_inv [OF assms(1-5)] True by auto
  show ?thesis
    unfolding all_stored_def
  proof
    fix x assume "x \<in> A"
    then obtain x' where x': "stored_task lib s (tk_ID x) = Some x'" "tk_AgentID x' = tk_AgentID x"
      using kept by (auto simp: all_stored_def)
    then show "map_option tk_AgentID (stored_task lib s' (tk_ID x)) = Some (tk_AgentID x)"
      using assms(4) t' by (cases "tk_ID x = tk_ID t") simp_all
  qed
qed (use saveTask_inv [OF assms(1-5)] kept in simp)

lemma all_stored_simps [simp]:
  "all_stored lib s {}"
  "all_stored lib s (insert x A) \<longleftrightarrow> map_option tk_AgentID (stored_task lib s (tk_ID x)) = Some (tk_AgentID x) \<and> all_stored lib s A"
  by (auto simp: all_stored_def)

lemma stored_ok:
  assumes "tasks_inv lib s" "stored_task lib s i = Some t"
  shows "tk_ID t = i" "NUL \<notin> set (tk_AgentID t)" "task_round_trip lib i (tk_AgentID t)"
  using assms by (auto simp: tasks_inv_def)

lemma Enqueue_inv:
  assumes inv: "queue_inv lib q" and rt: "task_round_trip lib i (tk_AgentID task)" "NUL \<notin> set (tk_AgentID task)"
    and i: "i = tk_ID (with_defaults uuid now task)"
    and same: "\<forall>old. stored_task lib (tq_engine q) i = Some old \<longrightarrow> tk_AgentID old = tk_AgentID task"
  shows "queue_inv lib (snd (Enqueue lib uuid now task q))"
proof -
  let ?t = "with_defaults uuid now task"
  obtain r s' where run: "saveTask lib ?t (tq_engine q) = (r, s')" by (meson surj_pair)
  have pre: "tasks_inv lib (tq_engine q)" "task_round_trip lib (tk_ID ?t) (tk_AgentID ?t)" "NUL \<notin> set (tk_AgentID ?t)"
    "\<forall>old. stored_task lib (tq_engine q) (tk_ID ?t) = Some old \<longrightarrow> tk_AgentID old = tk_AgentID ?t"
    using inv rt same by (simp_all add: queue_inv_def i)
  note saved = saveTask_inv [OF pre run]
  have kept: "all_stored lib s' (set (tq_pq q))"
    using queue_kept [OF pre run] inv by (simp add: queue_inv_def)
  show ?thesis
  proof (cases r)
    case (Some e)
    then show ?thesis using inv run saved kept by (simp add: Enqueue_def queue_inv_def)
  next
    case None
    have heap: "is_heap tk_Priority (heap_push task_less (tq_pq q) ?t)" "mset (heap_push task_less (tq_pq q) ?t) = add_mset ?t (mset (tq_pq q))"
      using heap_push_spec [OF _ task_less_key] inv by (auto simp: queue_inv_def)
    have "set (heap_push task_less (tq_pq q) ?t) = insert ?t (set (tq_pq q))" using arg_cong [OF heap(2), of set_mset] by simp
    then show ?thesis using None run saved kept heap(1) by (auto simp: Enqueue_def queue_inv_def)
  qed
qed

lemma Dequeue_inv:
  assumes inv: "queue_inv lib q"
  shows "queue_inv lib (snd (Dequeue lib now q))"
proof (cases "tq_pq q = []")
  case True
  then show ?thesis using inv by (simp add: Dequeue_def queue_inv_def)
next
  case False
  have "is_heap tk_Priority (tq_pq q)" using inv by (simp add: queue_inv_def)
  then obtain x pq where step: "Dequeue lib now q = (Some (started now x), q\<lparr>tq_engine := snd (saveTask lib (started now x) (tq_engine q)), tq_pq := pq\<rparr>)"
    "mset (tq_pq q) = add_mset x (mset pq)" "is_heap tk_Priority pq"
    using Dequeue_pops False by metis
  have set: "set (tq_pq q) = insert x (set pq)" using arg_cong [OF step(2), of set_mset] by simp
  obtain r s' where run: "saveTask lib (started now x) (tq_engine q) = (r, s')" by (meson surj_pair)
  obtain x' where x': "stored_task lib (tq_engine q) (tk_ID x) = Some x'" "tk_AgentID x' = tk_AgentID x"
    using inv by (auto simp: queue_inv_def set)
  have ok: "tasks_inv lib (tq_engine q)" using inv by (simp add: queue_inv_def)
  have pre: "task_round_trip lib (tk_ID (started now x)) (tk_AgentID (started now x))" "NUL \<notin> set (tk_AgentID (started now x))"
    "\<forall>old. stored_task lib (tq_engine q) (tk_ID (started now x)) = Some old \<longrightarrow> tk_AgentID old = tk_AgentID (started now x)"
    using stored_ok [OF ok x'(1)] x' by simp_all
  have "all_stored lib s' (set pq)"
    using queue_kept [OF ok pre run, of "set pq"] inv by (simp add: queue_inv_def set)
  then show ?thesis using step saveTask_inv [OF ok pre run] run by (simp add: queue_inv_def)
qed

lemma updateStatus_inv:
  assumes inv: "queue_inv lib q"
  shows "queue_inv lib (snd (updateStatus lib now i status result reason q))"
proof (cases "stored_task lib (tq_engine q) i")
  case None
  then show ?thesis using inv by (simp add: updateStatus_def stored_task_def split: sum.splits)
next
  case (Some t)
  let ?t = "ended status now result reason t"
  obtain r s' where run: "saveTask lib ?t (tq_engine q) = (r, s')" by (meson surj_pair)
  have ok: "tasks_inv lib (tq_engine q)" using inv by (simp add: queue_inv_def)
  have pre: "task_round_trip lib (tk_ID ?t) (tk_AgentID ?t)" "NUL \<notin> set (tk_AgentID ?t)"
    "\<forall>old. stored_task lib (tq_engine q) (tk_ID ?t) = Some old \<longrightarrow> tk_AgentID old = tk_AgentID ?t"
    using stored_ok [OF ok Some] Some by simp_all
  have "snd (updateStatus lib now i status result reason q) = q\<lparr>tq_engine := s'\<rparr>"
    using Some run by (simp add: updateStatus_def stored_task_def split: sum.splits)
  then show ?thesis using inv saveTask_inv [OF ok pre run] queue_kept [OF ok pre run, of "set (tq_pq q)"] by (simp add: queue_inv_def)
qed

lemma queue_reachable_inv: "queue_reachable lib q \<Longrightarrow> queue_inv lib q"
proof (induction rule: queue_reachable.induct)
  case new
  then show ?case
    by (simp add: queue_inv_def tasks_inv_def NewTaskQueue_def is_heap_def stored_task_get engine_get_def kv_empty_def kv_ok_def)
next
  case (enqueue q i task uuid now)
  then show ?case using Enqueue_inv by blast
next
  case (close q)
  then show ?case by (simp add: queue_inv_def queue_Close_def)
next
  case (restart q)
  then show ?case by (simp add: queue_inv_def NewTaskQueue_def is_heap_def)
qed (use Dequeue_inv updateStatus_inv in blast)+

section \<open>The properties\<close>

text \<open>
  C32: the tasks of a queue that has been built leave it in the order of their priorities, each once and as
  running, whatever was enqueued, taken, completed, failed or cancelled before.
\<close>

theorem queue_drains_by_priority:
  assumes "queue_reachable lib q"
  shows "sorted (map tk_Priority (drain lib now (queue_Len q) q)) \<and>
    mset (drain lib now (queue_Len q) q) = image_mset (started now) (mset (tq_pq q))"
  using drain_heap queue_reachable_inv [OF assms] by (simp add: queue_Len_def queue_inv_def)

text \<open>
  The tasks listed for an agent are the stored tasks of that agent, those with the status asked for if one is.
\<close>

lemma agent_tasks_listed:
  assumes "queue_reachable lib q" "NUL \<notin> set a" "a \<noteq> []"
  shows "set (ListByAgent lib (tq_engine q) a status 0) =
    {t \<in> ran (stored_task lib (tq_engine q)). tk_AgentID t = a \<and> (status = [] \<or> tk_Status t = status)}"
proof -
  let ?s = "tq_engine q"
  let ?items = "iter_collect (engine_prefix_scan ?s (agent_task_key a []) \<lparr>so_limit = 0, so_reverse = False\<rparr>)"
  have inv: "tasks_inv lib ?s" using queue_reachable_inv [OF assms(1)] by (simp add: queue_inv_def)
  have "set (map (\<lambda>(k, _). DecodeIndexID k) ?items) = {i. engine_get ?s (agent_task_key a i) \<noteq> None}"
    unfolding agent_task_key_def by (rule set_index_ids) (use inv assms(2) in \<open>simp_all add: tasks_inv_def\<close>)
  also have "\<dots> = {i. \<exists>t. stored_task lib ?s i = Some t \<and> tk_AgentID t = a}"
    using inv assms(2,3) by (simp add: tasks_inv_def)
  finally have ids: "set (map (\<lambda>(k, _). DecodeIndexID k) ?items) = {i. \<exists>t. stored_task lib ?s i = Some t \<and> tk_AgentID t = a}" .
  have "set (ListByAgent lib ?s a status 0) =
      {t. \<exists>i \<in> set (map (\<lambda>(k, _). DecodeIndexID k) ?items). stored_task lib ?s i = Some t \<and> (status = [] \<or> tk_Status t = status)}"
    unfolding ListByAgent_def set_map_filter
    by (simp add: case_prod_unfold stored_task_def sum.case_eq_if split: sum.split) (auto split: sum.splits if_splits)
  then show ?thesis unfolding ids by (auto simp: ran_def)
qed

text \<open>
  Cancelling a task leaves it in the queue: it is taken later like any other, and is then stored as running again.
\<close>

lemma cancelled_task_still_runs:
  assumes "queue_reachable lib q" "Cancel lib now i q = (None, q1)"
    and "Dequeue lib now' q1 = (Some t, q2)" "tk_ID t = i" "task_enc lib t \<noteq> None"
  shows "tq_pq q1 = tq_pq q \<and> map_option tk_Status (stored_task lib (tq_engine q1) i) = Some TaskCancelled \<and>
    map_option tk_Status (stored_task lib (tq_engine q2) i) = Some TaskRunning"
proof -
  have inv: "queue_inv lib q" by (rule queue_reachable_inv [OF assms(1)])
  then have ok: "tasks_inv lib (tq_engine q)" by (simp add: queue_inv_def)
  obtain old where old: "GetTask lib (tq_engine q) i = Inr old"
    using assms(2) by (auto simp: Cancel_def updateStatus_def split: sum.splits)
  then have st: "stored_task lib (tq_engine q) i = Some old" by (simp add: stored_task_def)
  let ?c = "ended TaskCancelled now VNil [] old"
  obtain s1 where run: "saveTask lib ?c (tq_engine q) = (None, s1)" and q1: "q1 = q\<lparr>tq_engine := s1\<rparr>"
    using assms(2) old by (auto simp: Cancel_def updateStatus_def split: prod.splits)
  have pre: "task_round_trip lib (tk_ID ?c) (tk_AgentID ?c)" "NUL \<notin> set (tk_AgentID ?c)"
    "\<forall>x. stored_task lib (tq_engine q) (tk_ID ?c) = Some x \<longrightarrow> tk_AgentID x = tk_AgentID ?c"
    using stored_ok [OF ok st] st by simp_all
  have one: "map_option tk_Status (stored_task lib s1 i) = Some TaskCancelled"
    using saveTask_inv [OF ok pre run] stored_ok(1) [OF ok st] by (auto simp: task_statuses_def)
  have inv1: "queue_inv lib q1" using updateStatus_inv [OF inv] assms(2) by (metis Cancel_def snd_conv)
  then have ok1: "tasks_inv lib s1" by (simp add: queue_inv_def q1)
  have "tq_pq q1 \<noteq> []" using assms(3) by (auto simp: Dequeue_def)
  then obtain x pq where x: "Dequeue lib now' q1 = (Some (started now' x), q1\<lparr>tq_engine := snd (saveTask lib (started now' x) s1), tq_pq := pq\<rparr>)"
    "mset (tq_pq q1) = add_mset x (mset pq)"
    using Dequeue_pops [of q1 lib now'] inv1 q1 by (metis queue_inv_def task_queue.simps(1) task_queue.surjective task_queue.update_convs(1))
  have "set (tq_pq q1) = insert x (set pq)" using arg_cong [OF x(2), of set_mset] by simp
  then obtain x' where x': "stored_task lib s1 (tk_ID x) = Some x'" "tk_AgentID x' = tk_AgentID x"
    using inv1 by (auto simp: queue_inv_def q1)
  have t: "t = started now' x" using x(1) assms(3) by simp
  obtain s2 where run2: "saveTask lib t s1 = (None, s2)" using assms(5) by (auto simp: saveTask_def Let_def)
  have pre2: "task_round_trip lib (tk_ID t) (tk_AgentID t)" "NUL \<notin> set (tk_AgentID t)"
    "\<forall>y. stored_task lib s1 (tk_ID t) = Some y \<longrightarrow> tk_AgentID y = tk_AgentID t"
    using stored_ok [OF ok1 x'(1)] x' by (simp_all add: t)
  have "map_option tk_Status (stored_task lib s2 i) = Some TaskRunning"
    using saveTask_inv [OF ok1 pre2 run2] assms(4) by (auto simp: task_statuses_def t)
  moreover have "tq_engine q2 = s2" using x(1) assms(3) run2 t by auto
  ultimately show ?thesis using one by (simp add: q1)
qed

end
