(* ===== verification/TaskExamples.thy ===== *)
theory TaskExamples
  imports TaskQueueProps DemoCodec
begin

text \<open>A queue of three tasks on a concrete codec, for the properties of the task queue.\<close>

definition blank_task :: task where
  "blank_task = \<lparr>tk_ID = [], tk_AgentID = [], tk_Name = [], tk_Description = [], tk_Priority = 0, tk_Status = [],
     tk_Input = VNil, tk_Result = VNil, tk_Error = [], tk_DependsOn = [], tk_DurationMs = 0, tk_CreatedAt = 0,
     tk_StartedAt = 0, tk_EndedAt = None\<rparr>"

text \<open>Tasks with an identifier and an agent of valid text (no zero byte here); the other fields are dropped.\<close>

definition demo_tasks :: task_json where
  "demo_tasks =
     \<lparr>task_enc = \<lambda>t. Some (tk_ID t @ NUL # tk_AgentID t @ NUL # tk_Status t),
      task_dec = \<lambda>bs. (let (i, r) = nul_part bs; (a, st) = nul_part r
        in Some (blank_task\<lparr>tk_ID := i, tk_AgentID := a, tk_Status := st\<rparr>))\<rparr>"

lemma demo_task_round_trip: "NUL \<notin> set i \<Longrightarrow> NUL \<notin> set a \<Longrightarrow> task_round_trip demo_tasks i a"
  by (auto simp: task_round_trip_def demo_tasks_def)

definition demo_task :: "bytes \<Rightarrow> int \<Rightarrow> task" where
  "demo_task i prio = blank_task\<lparr>tk_ID := i, tk_AgentID := ''bot'', tk_Priority := prio\<rparr>"

definition demo_queue :: task_queue where
  "demo_queue = fold (\<lambda>(i, prio) q. snd (Enqueue demo_tasks [] 5 (demo_task i prio) q)) [(''a'', 3), (''b'', 1), (''c'', 2)] (NewTaskQueue kv_empty)"

lemma demo_queue_reachable: "queue_reachable demo_tasks demo_queue"
proof -
  have add: "queue_reachable demo_tasks (snd (Enqueue demo_tasks [] 5 (demo_task i prio) q))"
    if "queue_reachable demo_tasks q" "i \<noteq> []" "NUL \<notin> set i" "stored_task demo_tasks (tq_engine q) i = None" for q i prio
    using that
    by (intro queue_reachable.enqueue [where i = i] demo_task_round_trip)
      (simp_all add: demo_task_def with_defaults_def blank_task_def Let_def)
  show ?thesis
    unfolding demo_queue_def fold_simps comp_apply id_apply prod.case
    by (intro add queue_reachable.new) code_simp+
qed

lemma queue_drains_by_priority_witness:
  "sorted (map tk_Priority (drain demo_tasks 7 (queue_Len demo_queue) demo_queue)) \<and>
   map tk_ID (drain demo_tasks 7 (queue_Len demo_queue) demo_queue) = [''b'', ''c'', ''a'']"
proof
  show "sorted (map tk_Priority (drain demo_tasks 7 (queue_Len demo_queue) demo_queue))"
    using queue_drains_by_priority [OF demo_queue_reachable] by blast
  show "map tk_ID (drain demo_tasks 7 (queue_Len demo_queue) demo_queue) = [''b'', ''c'', ''a'']" by code_simp
qed

lemma agent_tasks_listed_witness:
  "set (ListByAgent demo_tasks (tq_engine demo_queue) ''bot'' TaskPending 0) =
     {t \<in> ran (stored_task demo_tasks (tq_engine demo_queue)). tk_AgentID t = ''bot'' \<and> tk_Status t = TaskPending} \<and>
   map tk_ID (ListByAgent demo_tasks (tq_engine demo_queue) ''bot'' TaskPending 0) = [''a'', ''b'', ''c'']"
proof
  show "set (ListByAgent demo_tasks (tq_engine demo_queue) ''bot'' TaskPending 0) =
     {t \<in> ran (stored_task demo_tasks (tq_engine demo_queue)). tk_AgentID t = ''bot'' \<and> tk_Status t = TaskPending}"
    using agent_tasks_listed [OF demo_queue_reachable, of "''bot''" TaskPending] by (simp add: TaskPending_def)
  show "map tk_ID (ListByAgent demo_tasks (tq_engine demo_queue) ''bot'' TaskPending 0) = [''a'', ''b'', ''c'']" by code_simp
qed

lemma cancelled_task_still_runs_witness:
  "map_option tk_Status (stored_task demo_tasks (tq_engine (snd (Cancel demo_tasks 8 ''b'' demo_queue))) ''b'') = Some TaskCancelled \<and>
   map_option tk_Status (stored_task demo_tasks
     (tq_engine (snd (Dequeue demo_tasks 9 (snd (Cancel demo_tasks 8 ''b'' demo_queue))))) ''b'') = Some TaskRunning"
proof -
  let ?q1 = "snd (Cancel demo_tasks 8 ''b'' demo_queue)" and ?d = "Dequeue demo_tasks 9 (snd (Cancel demo_tasks 8 ''b'' demo_queue))"
  have "Cancel demo_tasks 8 ''b'' demo_queue = (None, ?q1)" by (rule prod_eqI) (code_simp, simp)
  moreover have "?d = (Some (the (fst ?d)), snd ?d)" by (rule prod_eqI) (code_simp, simp)
  moreover have "tk_ID (the (fst ?d)) = ''b''" "task_enc demo_tasks (the (fst ?d)) \<noteq> None" by (code_simp, simp add: demo_tasks_def)
  ultimately show ?thesis using cancelled_task_still_runs [OF demo_queue_reachable] by blast
qed

end
