(* ===== verification/AuditLog.thy ===== *)
theory AuditLog
  imports Engine
begin

text \<open>
  Model of \<^verbatim>\<open>internal/agent/audit.go\<close>: audit events as JSON under the system prefix with indexes by agent and by
  operation. \<open>encoding/json\<close> is the record \<open>audit_json\<close>; new identifiers and the clock are arguments.
\<close>

record audit_event =
  ae_ID :: bytes
  ae_AgentID :: bytes
  ae_SessionID :: bytes
  ae_Operation :: bytes
  ae_Resource :: bytes
  ae_Details :: "(bytes \<times> val) list"
  ae_Success :: bool
  ae_Error :: bytes
  ae_DurationMs :: u64
  ae_Timestamp :: int

definition OpPermission :: bytes where "OpPermission = ''permission.check''"

record audit_json =
  event_enc :: "audit_event \<Rightarrow> bytes option"
  event_dec :: "bytes \<Rightarrow> audit_event option"

datatype audit_error = EventMarshal | EventNotFound bytes | EventUnmarshal

definition audit_key :: "bytes \<Rightarrow> bytes" where
  "audit_key i = EncodeKey PrefixSystem (''audit:'' @ i)"

definition audit_agent_key :: "bytes \<Rightarrow> bytes \<Rightarrow> bytes" where
  "audit_agent_key a i = EncodeIndexKey PrefixSystem (''auditagent:'' @ a) i"

definition audit_op_key :: "bytes \<Rightarrow> bytes \<Rightarrow> bytes" where
  "audit_op_key op i = EncodeIndexKey PrefixSystem (''auditop:'' @ op) i"

definition event_defaults :: "bytes \<Rightarrow> int \<Rightarrow> audit_event \<Rightarrow> audit_event" where
  "event_defaults uuid now event =
     (let event = (if ae_ID event = [] then event\<lparr>ae_ID := uuid\<rparr> else event)
      in if ae_Timestamp event = 0 then event\<lparr>ae_Timestamp := now\<rparr> else event)"

definition audit_Log :: "audit_json \<Rightarrow> bytes \<Rightarrow> int \<Rightarrow> audit_event \<Rightarrow> kv \<Rightarrow> audit_error option \<times> kv" where
  "audit_Log lib uuid now event s =
     (let event = event_defaults uuid now event in
      case event_enc lib event of
        None \<Rightarrow> (Some EventMarshal, s)
      | Some data \<Rightarrow>
          let s = engine_set s (audit_key (ae_ID event)) data;
              s = (if ae_AgentID event \<noteq> [] then engine_set s (audit_agent_key (ae_AgentID event) (ae_ID event)) [CHR 0x01] else s)
          in (None, engine_set s (audit_op_key (ae_Operation event) (ae_ID event)) [CHR 0x01]))"

definition audit_Get :: "audit_json \<Rightarrow> kv \<Rightarrow> bytes \<Rightarrow> audit_error + audit_event" where
  "audit_Get lib s i =
     (case engine_get s (audit_key i) of
        None \<Rightarrow> Inl (EventNotFound i)
      | Some data \<Rightarrow> (case event_dec lib data of None \<Rightarrow> Inl EventUnmarshal | Some event \<Rightarrow> Inr event))"

definition listByPrefix :: "audit_json \<Rightarrow> kv \<Rightarrow> bytes \<Rightarrow> int \<Rightarrow> audit_event list" where
  "listByPrefix lib s p limit =
     List.map_filter (\<lambda>(k, _). case audit_Get lib s (DecodeIndexID k) of Inl _ \<Rightarrow> None | Inr event \<Rightarrow> Some event)
       (iter_collect (engine_prefix_scan s p \<lparr>so_limit = limit, so_reverse = False\<rparr>))"

definition audit_ListByAgent :: "audit_json \<Rightarrow> kv \<Rightarrow> bytes \<Rightarrow> int \<Rightarrow> audit_event list" where
  "audit_ListByAgent lib s a limit = listByPrefix lib s (audit_agent_key a []) limit"

definition ListByOperation :: "audit_json \<Rightarrow> kv \<Rightarrow> bytes \<Rightarrow> int \<Rightarrow> audit_event list" where
  "ListByOperation lib s op limit = listByPrefix lib s (audit_op_key op []) limit"

text \<open>The loop of \<open>ListRecent\<close> over the entries of the scan.\<close>

fun recent_loop :: "audit_json \<Rightarrow> int \<Rightarrow> int \<Rightarrow> audit_event list \<Rightarrow> (bytes \<times> bytes) list \<Rightarrow> audit_event list" where
  "recent_loop lib since limit events [] = events"
| "recent_loop lib since limit events ((_, v) # items) =
     (case event_dec lib v of
        None \<Rightarrow> recent_loop lib since limit events items
      | Some event \<Rightarrow>
          if ae_ID event = [] \<or> ae_Timestamp event < since then recent_loop lib since limit events items
          else let events = events @ [event] in
            if limit > 0 \<and> int (length events) \<ge> limit then events else recent_loop lib since limit events items)"

definition ListRecent :: "audit_json \<Rightarrow> kv \<Rightarrow> int \<Rightarrow> int \<Rightarrow> audit_event list" where
  "ListRecent lib s since limit =
     recent_loop lib since limit []
       (iter_collect (engine_prefix_scan s (EncodeKey PrefixSystem ''audit:'') \<lparr>so_limit = limit * 2, so_reverse = False\<rparr>))"

section \<open>Facts\<close>

lemma audit_Log_kv_ok: "kv_ok s \<Longrightarrow> kv_ok (snd (audit_Log lib uuid now event s))"
  by (simp add: audit_Log_def Let_def kv_simps split: option.split)

text \<open>Keys that are neither events nor their index entries are left alone.\<close>

lemma audit_Log_frame:
  assumes "kv_ok s" "\<not> prefix (EncodeKey PrefixSystem ''audit'') k"
  shows "engine_get (snd (audit_Log lib uuid now event s)) k = engine_get s k"
proof -
  have "prefix (EncodeKey PrefixSystem ''audit'') (audit_key i)" "prefix (EncodeKey PrefixSystem ''audit'') (audit_agent_key a i)"
    "prefix (EncodeKey PrefixSystem ''audit'') (audit_op_key a i)" for a i
    by (simp_all add: audit_key_def audit_agent_key_def audit_op_key_def EncodeIndexKey_def EncodeKey_def)
  then have "k \<noteq> audit_key i" "k \<noteq> audit_agent_key a i" "k \<noteq> audit_op_key a i" for a i using assms(2) by blast+
  then show ?thesis using assms(1) by (simp add: audit_Log_def Let_def kv_simps split: option.split)
qed

lemma audit_Log_stored:
  assumes "kv_ok s" "event_enc lib (event_defaults uuid now event) = Some data"
  shows "engine_get (snd (audit_Log lib uuid now event s)) (audit_key (ae_ID (event_defaults uuid now event))) = Some data"
proof -
  have "audit_key i \<noteq> audit_agent_key a j" "audit_key i \<noteq> audit_op_key a j" for i a j
    by (simp_all add: audit_key_def audit_agent_key_def audit_op_key_def EncodeIndexKey_def EncodeKey_def)
  then show ?thesis using assms by (simp add: audit_Log_def Let_def kv_simps)
qed

end
