(* ===== verification/Permission.thy ===== *)
theory Permission
  imports AuditLog "HOL-Library.AList"
begin

text \<open>
  Model of \<^verbatim>\<open>internal/agent/permission.go\<close>: roles and their assignment to agents, cached in memory and stored under
  the system prefix, and the decision whether an agent may act on a resource, which is logged when there is an audit
  logger. \<open>encoding/json\<close> is the record \<open>perm_json\<close>.
\<close>

section \<open>Rules\<close>

definition ActionRead :: bytes where "ActionRead = ''read''"
definition ActionWrite :: bytes where "ActionWrite = ''write''"
definition ActionAdmin :: bytes where "ActionAdmin = ''admin''"
definition ActionAll :: bytes where "ActionAll = ''*''"

definition ResourceSession :: bytes where "ResourceSession = ''session''"
definition ResourceMemory :: bytes where "ResourceMemory = ''memory''"
definition ResourceDecision :: bytes where "ResourceDecision = ''decision''"
definition ResourceRoom :: bytes where "ResourceRoom = ''room''"
definition ResourceTask :: bytes where "ResourceTask = ''task''"
definition ResourceQuery :: bytes where "ResourceQuery = ''query''"
definition ResourceAudit :: bytes where "ResourceAudit = ''audit''"
definition ResourceAll :: bytes where "ResourceAll = ''*''"

record permission =
  pm_Resource :: bytes
  pm_Action :: bytes
  pm_Scope :: bytes

record perm_role =
  pr_Name :: bytes
  pr_Description :: bytes
  pr_Permissions :: "permission list"
  pr_CreatedAt :: int
  pr_UpdatedAt :: int

definition matchResource :: "bytes \<Rightarrow> bytes \<Rightarrow> bool" where
  "matchResource pattern want \<longleftrightarrow> pattern = ResourceAll \<or> pattern = want"

definition matchAction :: "bytes \<Rightarrow> bytes \<Rightarrow> bool" where
  "matchAction pattern want \<longleftrightarrow> (if pattern = ActionAll \<or> pattern = want then True else pattern = ActionAdmin)"

definition matchScope :: "bytes \<Rightarrow> bytes \<Rightarrow> bool" where
  "matchScope pattern want =
     (if pattern = [] \<or> pattern = ''*'' then True
      else if suffix ''*'' pattern then prefix (butlast pattern) want
      else pattern = want)"

section \<open>The manager\<close>

record perm_json =
  role_enc :: "perm_role \<Rightarrow> bytes option"
  role_dec :: "bytes \<Rightarrow> perm_role option"
  names_enc :: "bytes list \<Rightarrow> bytes option"
  names_dec :: "bytes \<Rightarrow> bytes list option"

datatype perm_error = RoleNameRequired | AgentAndRoleRequired | RoleNotFound bytes | PermMarshal
  | PermissionDeniedError bytes bytes bytes bytes

record perm_manager =
  pm_engine :: kv
  pm_roles :: "(bytes \<times> perm_role) list"
  pm_agents :: "(bytes \<times> bytes list) list"
  pm_loaded :: bool

definition roleKey :: "bytes \<Rightarrow> bytes" where
  "roleKey name = EncodeKey PrefixSystem (''role:'' @ name)"

definition agentRolesKey :: "bytes \<Rightarrow> bytes" where
  "agentRolesKey a = EncodeKey PrefixSystem (''agentrole:'' @ a)"

definition putRole :: "perm_json \<Rightarrow> perm_role \<Rightarrow> kv \<Rightarrow> perm_error option \<times> kv" where
  "putRole lib role s =
     (case role_enc lib role of None \<Rightarrow> (Some PermMarshal, s) | Some data \<Rightarrow> (None, engine_set s (roleKey (pr_Name role)) data))"

definition putAgentRoles :: "perm_json \<Rightarrow> bytes \<Rightarrow> bytes list \<Rightarrow> kv \<Rightarrow> perm_error option \<times> kv" where
  "putAgentRoles lib a roles s =
     (if roles = [] then (None, engine_delete s (agentRolesKey a))
      else case names_enc lib roles of
        None \<Rightarrow> (Some PermMarshal, s)
      | Some data \<Rightarrow> (None, engine_set s (agentRolesKey a) data))"

definition CreateRole :: "perm_json \<Rightarrow> int \<Rightarrow> perm_role option \<Rightarrow> perm_manager \<Rightarrow> perm_error option \<times> perm_manager" where
  "CreateRole lib now r p =
     (case r of
        None \<Rightarrow> (Some RoleNameRequired, p)
      | Some role \<Rightarrow>
          if pr_Name role = [] then (Some RoleNameRequired, p)
          else
            let role = (if pr_CreatedAt role = 0 then role\<lparr>pr_CreatedAt := now\<rparr> else role);
                role = role\<lparr>pr_UpdatedAt := now\<rparr>
            in case putRole lib role (pm_engine p) of
                 (Some e, s) \<Rightarrow> (Some e, p\<lparr>pm_engine := s\<rparr>)
               | (None, s) \<Rightarrow> (None, p\<lparr>pm_engine := s, pm_roles := AList.update (pr_Name role) role (pm_roles p)\<rparr>))"

definition GetRole :: "bytes \<Rightarrow> perm_manager \<Rightarrow> perm_role option" where
  "GetRole name p = map_of (pm_roles p) name"

text \<open>In the unspecified order of a Go map.\<close>

definition ListRoles :: "perm_manager \<Rightarrow> perm_role list" where
  "ListRoles p = map snd (AList.clearjunk (pm_roles p))"

definition DeleteRole :: "bytes \<Rightarrow> perm_manager \<Rightarrow> perm_manager" where
  "DeleteRole name p = p\<lparr>pm_engine := engine_delete (pm_engine p) (roleKey name), pm_roles := AList.delete name (pm_roles p)\<rparr>"

definition RolesOf :: "bytes \<Rightarrow> perm_manager \<Rightarrow> bytes list" where
  "RolesOf a p = (case map_of (pm_agents p) a of None \<Rightarrow> [] | Some roles \<Rightarrow> roles)"

definition AssignRole :: "perm_json \<Rightarrow> bytes \<Rightarrow> bytes \<Rightarrow> perm_manager \<Rightarrow> perm_error option \<times> perm_manager" where
  "AssignRole lib a name p =
     (if a = [] \<or> name = [] then (Some AgentAndRoleRequired, p)
      else if map_of (pm_roles p) name = None then (Some (RoleNotFound name), p)
      else
        let roles = RolesOf a p in
        if name \<in> set roles then (None, p)
        else
          let roles = roles @ [name]; (e, s) = putAgentRoles lib a roles (pm_engine p)
          in (e, p\<lparr>pm_engine := s, pm_agents := AList.update a roles (pm_agents p)\<rparr>))"

definition RevokeRole :: "perm_json \<Rightarrow> bytes \<Rightarrow> bytes \<Rightarrow> perm_manager \<Rightarrow> perm_error option \<times> perm_manager" where
  "RevokeRole lib a name p =
     (let out = filter (\<lambda>r. r \<noteq> name) (RolesOf a p); (e, s) = putAgentRoles lib a out (pm_engine p)
      in (e, p\<lparr>pm_engine := s, pm_agents := AList.update a out (pm_agents p)\<rparr>))"

section \<open>Decisions\<close>

definition evaluate :: "bytes \<Rightarrow> bytes \<Rightarrow> bytes \<Rightarrow> bytes \<Rightarrow> perm_manager \<Rightarrow> bool" where
  "evaluate a resource action scope p \<longleftrightarrow>
     list_ex (\<lambda>name. case map_of (pm_roles p) name of
         None \<Rightarrow> False
       | Some role \<Rightarrow> list_ex (\<lambda>perm. matchResource (pm_Resource perm) resource \<and> matchAction (pm_Action perm) action \<and>
           matchScope (pm_Scope perm) scope) (pr_Permissions role)) (RolesOf a p)"

definition check_event :: "bytes \<Rightarrow> bytes \<Rightarrow> bytes \<Rightarrow> bytes \<Rightarrow> bool \<Rightarrow> int \<Rightarrow> audit_event" where
  "check_event a resource action scope allowed now =
     \<lparr>ae_ID = [], ae_AgentID = a, ae_SessionID = [], ae_Operation = OpPermission, ae_Resource = resource,
      ae_Details = [(''action'', VStr action), (''scope'', VStr scope)], ae_Success = allowed, ae_Error = [],
      ae_DurationMs = 0, ae_Timestamp = now\<rparr>"

text \<open>Without a logger \<open>audit\<close> is \<open>None\<close>; an error of the logger is dropped.\<close>

definition Check :: "audit_json option \<Rightarrow> bytes \<Rightarrow> int \<Rightarrow> bytes \<Rightarrow> bytes \<Rightarrow> bytes \<Rightarrow> bytes \<Rightarrow> perm_manager \<Rightarrow> bool \<times> perm_manager" where
  "Check audit uuid now a resource action scope p =
     (let allowed = evaluate a resource action scope p in
      (allowed,
       case audit of
         None \<Rightarrow> p
       | Some al \<Rightarrow> p\<lparr>pm_engine := snd (audit_Log al uuid now (check_event a resource action scope allowed now) (pm_engine p))\<rparr>))"

definition Require ::
    "audit_json option \<Rightarrow> bytes \<Rightarrow> int \<Rightarrow> bytes \<Rightarrow> bytes \<Rightarrow> bytes \<Rightarrow> bytes \<Rightarrow> perm_manager \<Rightarrow> perm_error option \<times> perm_manager" where
  "Require audit uuid now a resource action scope p =
     (let (ok, p) = Check audit uuid now a resource action scope p
      in (if ok then None else Some (PermissionDeniedError a resource action scope), p))"

section \<open>Loading\<close>

definition scanJSON :: "kv \<Rightarrow> bytes \<Rightarrow> (bytes \<times> bytes) list" where
  "scanJSON s p = iter_collect (engine_prefix_scan s p \<lparr>so_limit = 0, so_reverse = False\<rparr>)"

definition load_role :: "perm_json \<Rightarrow> bytes \<times> bytes \<Rightarrow> (bytes \<times> perm_role) list \<Rightarrow> (bytes \<times> perm_role) list" where
  "load_role lib kv roles = (case role_dec lib (snd kv) of None \<Rightarrow> roles | Some role \<Rightarrow> AList.update (pr_Name role) role roles)"

definition load_agent :: "perm_json \<Rightarrow> bytes \<times> bytes \<Rightarrow> (bytes \<times> bytes list) list \<Rightarrow> (bytes \<times> bytes list) list" where
  "load_agent lib kv agents =
     (let full = tl (fst kv) in
      if \<not> prefix ''agentrole:'' full then agents
      else case names_dec lib (snd kv) of
        None \<Rightarrow> agents
      | Some roles \<Rightarrow> AList.update (drop (length ''agentrole:'') full) roles agents)"

definition perm_load :: "perm_json \<Rightarrow> perm_manager \<Rightarrow> perm_manager" where
  "perm_load lib p =
     p\<lparr>pm_roles := fold (load_role lib) (scanJSON (pm_engine p) (EncodeKey PrefixSystem ''role:'')) (pm_roles p),
       pm_agents := fold (load_agent lib) (scanJSON (pm_engine p) (EncodeKey PrefixSystem ''agentrole:'')) (pm_agents p),
       pm_loaded := True\<rparr>"

definition may :: "bytes \<Rightarrow> bytes \<Rightarrow> permission" where
  "may resource action = \<lparr>pm_Resource = resource, pm_Action = action, pm_Scope = []\<rparr>"

definition builtin_role :: "bytes \<Rightarrow> bytes \<Rightarrow> permission list \<Rightarrow> perm_role" where
  "builtin_role name description ps =
     \<lparr>pr_Name = name, pr_Description = description, pr_Permissions = ps, pr_CreatedAt = 0, pr_UpdatedAt = 0\<rparr>"

definition builtin_roles :: "perm_role list" where
  "builtin_roles =
     [builtin_role ''admin'' ''Full access to all resources'' [may ResourceAll ActionAll],
      builtin_role ''writer'' ''Read and write business resources''
        [may ResourceSession ActionRead, may ResourceSession ActionWrite, may ResourceMemory ActionRead, may ResourceMemory ActionWrite,
         may ResourceDecision ActionRead, may ResourceDecision ActionWrite, may ResourceRoom ActionRead, may ResourceRoom ActionWrite,
         may ResourceTask ActionRead, may ResourceTask ActionWrite, may ResourceQuery ActionRead],
      builtin_role ''reader'' ''Read-only access to business resources''
        [may ResourceSession ActionRead, may ResourceMemory ActionRead, may ResourceDecision ActionRead,
         may ResourceRoom ActionRead, may ResourceTask ActionRead, may ResourceQuery ActionRead],
      builtin_role ''observer'' ''Read-only audit access'' [may ResourceAudit ActionRead]]"

fun ensure_loop :: "perm_json \<Rightarrow> int \<Rightarrow> perm_role list \<Rightarrow> perm_manager \<Rightarrow> perm_error option \<times> perm_manager" where
  "ensure_loop lib now [] p = (None, p)"
| "ensure_loop lib now (r # rs) p =
     (if map_of (pm_roles p) (pr_Name r) \<noteq> None then ensure_loop lib now rs p
      else case CreateRole lib now (Some r) p of
        (Some e, p) \<Rightarrow> (Some e, p)
      | (None, p) \<Rightarrow> ensure_loop lib now rs p)"

definition ensureBuiltins :: "perm_json \<Rightarrow> int \<Rightarrow> perm_manager \<Rightarrow> perm_error option \<times> perm_manager" where
  "ensureBuiltins lib now p = ensure_loop lib now builtin_roles p"

text \<open>The engine is left as it is then, and the manager is lost, when a built-in role cannot be stored.\<close>

definition NewPermissionManager :: "perm_json \<Rightarrow> int \<Rightarrow> kv \<Rightarrow> perm_error option \<times> perm_manager" where
  "NewPermissionManager lib now s =
     ensureBuiltins lib now (perm_load lib \<lparr>pm_engine = s, pm_roles = [], pm_agents = [], pm_loaded = False\<rparr>)"

end
