(* ===== verification/PermissionProps.thy ===== *)
theory PermissionProps
  imports Permission
begin

text \<open>
  What holds of permissions: the caches are what is stored, so that a restart keeps every decision as long as the
  built-in roles are there; and the ways in which rights come back that were taken away.
\<close>

section \<open>Runs\<close>

definition role_round_trip :: "perm_json \<Rightarrow> perm_role \<Rightarrow> bool" where
  "role_round_trip lib r \<longleftrightarrow>
     (\<forall>c u data. role_enc lib (r\<lparr>pr_CreatedAt := c, pr_UpdatedAt := u\<rparr>) = Some data \<longrightarrow>
        role_dec lib data = Some (r\<lparr>pr_CreatedAt := c, pr_UpdatedAt := u\<rparr>))"

text \<open>
  What \<open>encoding/json\<close> does: lists of names (of valid text, the set \<open>good\<close>) always have a text and come back, and so do
  the built-in roles.
\<close>

definition perm_codec :: "perm_json \<Rightarrow> bytes set \<Rightarrow> bool" where
  "perm_codec lib good \<longleftrightarrow>
     (\<forall>ns. set ns \<subseteq> good \<longrightarrow> (\<exists>data. names_enc lib ns = Some data \<and> names_dec lib data = Some ns)) \<and>
     (\<forall>r \<in> set builtin_roles. role_round_trip lib r)"

inductive perm_reachable :: "perm_json \<Rightarrow> bytes set \<Rightarrow> perm_manager \<Rightarrow> bool" for lib good where
  new: "NewPermissionManager lib now kv_empty = (None, p) \<Longrightarrow> perm_reachable lib good p"
| create: "perm_reachable lib good p \<Longrightarrow> role_round_trip lib r \<Longrightarrow> perm_reachable lib good (snd (CreateRole lib now (Some r) p))"
| delete: "perm_reachable lib good p \<Longrightarrow> perm_reachable lib good (DeleteRole name p)"
| assign: "perm_reachable lib good p \<Longrightarrow> name \<in> good \<Longrightarrow> perm_reachable lib good (snd (AssignRole lib a name p))"
| revoke: "perm_reachable lib good p \<Longrightarrow> perm_reachable lib good (snd (RevokeRole lib a name p))"
| check: "perm_reachable lib good p \<Longrightarrow> perm_reachable lib good (snd (Check audit uuid now a resource action scope p))"
| restart: "perm_reachable lib good p \<Longrightarrow> NewPermissionManager lib now (pm_engine p) = (None, p') \<Longrightarrow> perm_reachable lib good p'"

section \<open>Stored and cached\<close>

definition store_ok :: "perm_json \<Rightarrow> bytes set \<Rightarrow> kv \<Rightarrow> bool" where
  "store_ok lib good s \<longleftrightarrow>
     kv_ok s \<and>
     (\<forall>n v. engine_get s (roleKey n) = Some v \<longrightarrow> (\<exists>r. role_dec lib v = Some r \<and> pr_Name r = n)) \<and>
     (\<forall>a v. engine_get s (agentRolesKey a) = Some v \<longrightarrow> (\<exists>ns. names_dec lib v = Some ns \<and> set ns \<subseteq> good))"

definition stored_role :: "perm_json \<Rightarrow> kv \<Rightarrow> bytes \<Rightarrow> perm_role option" where
  "stored_role lib s n = Option.bind (engine_get s (roleKey n)) (role_dec lib)"

definition stored_names :: "perm_json \<Rightarrow> kv \<Rightarrow> bytes \<Rightarrow> bytes list" where
  "stored_names lib s a = (case Option.bind (engine_get s (agentRolesKey a)) (names_dec lib) of None \<Rightarrow> [] | Some ns \<Rightarrow> ns)"

definition perm_inv :: "perm_json \<Rightarrow> bytes set \<Rightarrow> perm_manager \<Rightarrow> bool" where
  "perm_inv lib good p \<longleftrightarrow>
     store_ok lib good (pm_engine p) \<and> (\<forall>n. map_of (pm_roles p) n = stored_role lib (pm_engine p) n) \<and>
     (\<forall>a. RolesOf a p = stored_names lib (pm_engine p) a)"

lemma roleKey_inject [simp]: "roleKey n = roleKey m \<longleftrightarrow> n = m"
  by (simp add: roleKey_def)

lemma agentRolesKey_inject [simp]: "agentRolesKey n = agentRolesKey m \<longleftrightarrow> n = m"
  by (simp add: agentRolesKey_def)

lemma role_not_agent [simp]: "roleKey n \<noteq> agentRolesKey a" "agentRolesKey a \<noteq> roleKey n"
  by (simp_all add: roleKey_def agentRolesKey_def EncodeKey_def)

lemma store_ok_simps:
  assumes "store_ok lib good s"
  shows "kv_ok s" "engine_get s (roleKey n) = Some v \<Longrightarrow> \<exists>r. role_dec lib v = Some r \<and> pr_Name r = n"
    "engine_get s (agentRolesKey a) = Some w \<Longrightarrow> \<exists>ns. names_dec lib w = Some ns \<and> set ns \<subseteq> good"
  using assms by (auto simp: store_ok_def)

lemma stored_names_good:
  assumes "store_ok lib good s"
  shows "set (stored_names lib s a) \<subseteq> good"
proof (cases "engine_get s (agentRolesKey a)")
  case (Some v)
  then obtain ns where "names_dec lib v = Some ns" "set ns \<subseteq> good" using store_ok_simps(3) [OF assms] by blast
  then show ?thesis using Some by (simp add: stored_names_def)
qed (simp add: stored_names_def)

text \<open>Writing and deleting one role, and the roles of one agent.\<close>

lemma set_role:
  assumes "store_ok lib good s" "role_dec lib data = Some r"
  shows "store_ok lib good (engine_set s (roleKey (pr_Name r)) data)"
    "stored_role lib (engine_set s (roleKey (pr_Name r)) data) = (stored_role lib s)(pr_Name r \<mapsto> r)"
    "stored_names lib (engine_set s (roleKey (pr_Name r)) data) = stored_names lib s"
  using assms by (auto simp: store_ok_def stored_role_def stored_names_def kv_simps fun_eq_iff)

lemma delete_role:
  assumes "store_ok lib good s"
  shows "store_ok lib good (engine_delete s (roleKey n))"
    "stored_role lib (engine_delete s (roleKey n)) = (stored_role lib s)(n := None)"
    "stored_names lib (engine_delete s (roleKey n)) = stored_names lib s"
  using assms by (auto simp: store_ok_def stored_role_def stored_names_def kv_simps fun_eq_iff)

lemma put_names:
  assumes "store_ok lib good s" "perm_codec lib good" "set ns \<subseteq> good" "putAgentRoles lib a ns s = (e, s')"
  shows "e = None" "store_ok lib good s'" "stored_role lib s' = stored_role lib s"
    "stored_names lib s' = (stored_names lib s)(a := ns)"
proof -
  obtain data where data: "names_enc lib ns = Some data" "names_dec lib data = Some ns"
    using assms(2,3) by (auto simp: perm_codec_def)
  have "e = None \<and> s' = (if ns = [] then engine_delete s (agentRolesKey a) else engine_set s (agentRolesKey a) data)"
    using assms(4) data by (auto simp: putAgentRoles_def split: if_splits)
  then show "e = None" "store_ok lib good s'" "stored_role lib s' = stored_role lib s"
    "stored_names lib s' = (stored_names lib s)(a := ns)"
    using assms(1,3) data by (auto simp: store_ok_def stored_role_def stored_names_def kv_simps fun_eq_iff)
qed

section \<open>Every operation keeps the caches in step\<close>

lemma CreateRole_inv:
  assumes inv: "perm_inv lib good p" and rt: "role_round_trip lib r"
  shows "perm_inv lib good (snd (CreateRole lib now (Some r) p))"
proof (cases "pr_Name r = []")
  case False
  define r' where "r' = (if pr_CreatedAt r = 0 then r\<lparr>pr_CreatedAt := now\<rparr> else r)\<lparr>pr_UpdatedAt := now\<rparr>"
  have r': "r' = r\<lparr>pr_CreatedAt := (if pr_CreatedAt r = 0 then now else pr_CreatedAt r), pr_UpdatedAt := now\<rparr>"
    by (cases r) (simp add: r'_def)
  have okS: "store_ok lib good (pm_engine p)" using inv by (simp add: perm_inv_def)
  have run: "CreateRole lib now (Some r) p = (case putRole lib r' (pm_engine p) of
        (Some e, s) \<Rightarrow> (Some e, p\<lparr>pm_engine := s\<rparr>)
      | (None, s) \<Rightarrow> (None, p\<lparr>pm_engine := s, pm_roles := AList.update (pr_Name r') r' (pm_roles p)\<rparr>))"
    using False by (simp only: CreateRole_def r'_def Let_def option.case if_False)
  show ?thesis
  proof (cases "role_enc lib r'")
    case None
    then show ?thesis using inv by (simp add: run putRole_def)
  next
    case (Some data)
    then have "role_dec lib data = Some r'" using rt unfolding role_round_trip_def r' by blast
    note S = set_role [OF okS this]
    show ?thesis
      using inv Some S by (simp add: run putRole_def perm_inv_def RolesOf_def AList.update_conv')
  qed
qed (use inv in \<open>simp add: CreateRole_def\<close>)

lemma DeleteRole_inv:
  assumes inv: "perm_inv lib good p"
  shows "perm_inv lib good (DeleteRole name p)"
proof -
  have "store_ok lib good (pm_engine p)" using inv by (simp add: perm_inv_def)
  from delete_role [OF this] inv show ?thesis by (simp add: DeleteRole_def perm_inv_def RolesOf_def AList.delete_conv')
qed

lemma names_inv:
  assumes inv: "perm_inv lib good p" and codec: "perm_codec lib good" and ns: "set ns \<subseteq> good"
    and run: "putAgentRoles lib a ns (pm_engine p) = (e, s)"
  shows "perm_inv lib good (p\<lparr>pm_engine := s, pm_agents := AList.update a ns (pm_agents p)\<rparr>)"
  using put_names [OF _ codec ns run] inv by (auto simp: perm_inv_def RolesOf_def AList.update_conv')

lemma AssignRole_inv:
  assumes inv: "perm_inv lib good p" and codec: "perm_codec lib good" and name: "name \<in> good"
  shows "perm_inv lib good (snd (AssignRole lib a name p))"
proof -
  obtain e s where run: "putAgentRoles lib a (RolesOf a p @ [name]) (pm_engine p) = (e, s)" by (meson surj_pair)
  have "set (RolesOf a p @ [name]) \<subseteq> good" using inv name stored_names_good by (simp add: perm_inv_def)
  from names_inv [OF inv codec this run] show ?thesis using inv run by (simp add: AssignRole_def Let_def)
qed

lemma RevokeRole_inv:
  assumes inv: "perm_inv lib good p" and codec: "perm_codec lib good"
  shows "perm_inv lib good (snd (RevokeRole lib a name p))"
proof -
  let ?ns = "filter (\<lambda>r. r \<noteq> name) (RolesOf a p)"
  obtain e s where run: "putAgentRoles lib a ?ns (pm_engine p) = (e, s)" by (meson surj_pair)
  have "set (RolesOf a p) \<subseteq> good" using inv stored_names_good by (simp add: perm_inv_def)
  then have "set ?ns \<subseteq> good" by auto
  from names_inv [OF inv codec this run] show ?thesis using run by (simp add: RevokeRole_def Let_def)
qed

lemma audit_frame:
  assumes "kv_ok s" and s': "s' = snd (audit_Log al uuid now ev s)"
  shows "engine_get s' (roleKey n) = engine_get s (roleKey n)" "engine_get s' (agentRolesKey a) = engine_get s (agentRolesKey a)"
  unfolding s'
  by (rule audit_Log_frame [OF assms(1)], simp add: roleKey_def agentRolesKey_def EncodeKey_def)+

lemma Check_inv: "perm_inv lib good p \<Longrightarrow> perm_inv lib good (snd (Check audit uuid now a resource action scope p))"
proof -
  assume inv: "perm_inv lib good p"
  then have ok: "kv_ok (pm_engine p)" by (simp add: perm_inv_def store_ok_def)
  show ?thesis
    using inv audit_frame [OF ok refl] audit_Log_kv_ok [OF ok]
    by (cases audit) (simp_all add: Check_def Let_def perm_inv_def store_ok_def stored_role_def stored_names_def RolesOf_def)
qed

section \<open>Loading\<close>

lemma set_scanJSON:
  assumes "kv_ok s"
  shows "(k, v) \<in> set (scanJSON s p) \<longleftrightarrow> in_prefix_range p k \<and> engine_get s k = Some v"
  using assms by (simp add: scanJSON_def prefix_scan_collects set_prefix_items_0)

lemma in_role_range: "in_prefix_range (EncodeKey PrefixSystem ''role:'') k \<longleftrightarrow> (\<exists>n. k = roleKey n)"
  by (subst in_prefix_range_exact) (auto simp: EncodeKey_def roleKey_def prefix_def)

lemma in_agent_range: "in_prefix_range (EncodeKey PrefixSystem ''agentrole:'') k \<longleftrightarrow> (\<exists>n. k = agentRolesKey n)"
  by (subst in_prefix_range_exact) (auto simp: EncodeKey_def agentRolesKey_def prefix_def)

lemma map_of_load_role:
  "\<forall>(k, v) \<in> set items. \<exists>r. role_dec lib v = Some r \<and> k = roleKey (pr_Name r) \<and> F (pr_Name r) = Some r \<Longrightarrow>
   map_of (fold (load_role lib) items roles) n = (if roleKey n \<in> fst ` set items then F n else map_of roles n)"
  by (induction items arbitrary: roles) (auto simp: load_role_def AList.update_conv')

lemma map_of_load_agent:
  "\<forall>(k, v) \<in> set items. \<exists>a ns. names_dec lib v = Some ns \<and> k = agentRolesKey a \<and> F a = Some ns \<Longrightarrow>
   map_of (fold (load_agent lib) items agents) a = (if agentRolesKey a \<in> fst ` set items then F a else map_of agents a)"
proof (induction items arbitrary: agents)
  case (Cons kv items)
  then obtain b ns v where kv: "kv = (agentRolesKey b, v)" "names_dec lib v = Some ns" "F b = Some ns" by (cases kv) auto
  have "load_agent lib kv agents = AList.update b ns agents"
    by (simp add: kv load_agent_def agentRolesKey_def EncodeKey_def)
  then show ?case using Cons kv by (auto simp: AList.update_conv')
qed simp

lemma perm_load_spec:
  assumes "store_ok lib good s"
  defines "p \<equiv> perm_load lib \<lparr>pm_engine = s, pm_roles = [], pm_agents = [], pm_loaded = False\<rparr>"
  shows "pm_engine p = s \<and> (\<forall>n. map_of (pm_roles p) n = stored_role lib s n) \<and> (\<forall>a. RolesOf a p = stored_names lib s a)"
proof -
  note ok = store_ok_simps [OF assms(1)]
  let ?R = "scanJSON s (EncodeKey PrefixSystem ''role:'')" and ?A = "scanJSON s (EncodeKey PrefixSystem ''agentrole:'')"
  have R: "\<exists>r. role_dec lib v = Some r \<and> k = roleKey (pr_Name r) \<and> stored_role lib s (pr_Name r) = Some r" if kv: "(k, v) \<in> set ?R" for k v
  proof -
    obtain n where n: "k = roleKey n" "engine_get s k = Some v" using kv by (auto simp: set_scanJSON [OF ok(1)] in_role_range)
    then obtain r where "role_dec lib v = Some r" "pr_Name r = n" using ok(2) by blast
    then show ?thesis using n by (simp add: stored_role_def)
  qed
  have A: "\<exists>a ns. names_dec lib v = Some ns \<and> k = agentRolesKey a \<and>
      Option.bind (engine_get s (agentRolesKey a)) (names_dec lib) = Some ns" if kv: "(k, v) \<in> set ?A" for k v
  proof -
    obtain a where a: "k = agentRolesKey a" "engine_get s k = Some v" using kv by (auto simp: set_scanJSON [OF ok(1)] in_agent_range)
    then obtain ns where "names_dec lib v = Some ns" using ok(3) by blast
    then show ?thesis using a by (intro exI [of _ a] exI [of _ ns]) simp
  qed
  have mem: "k \<in> fst ` set (scanJSON s q) \<longleftrightarrow> in_prefix_range q k \<and> (\<exists>v. engine_get s k = Some v)" for k q
    unfolding image_iff Bex_def by (auto simp: set_scanJSON [OF ok(1)])
  have "map_of (fold (load_role lib) ?R []) n = (if roleKey n \<in> fst ` set ?R then stored_role lib s n else None)" for n
    by (subst map_of_load_role [where F = "stored_role lib s"]) (use R in blast, simp)
  then have "map_of (pm_roles p) n = stored_role lib s n" for n
    by (auto simp: p_def perm_load_def mem in_role_range stored_role_def)
  moreover have "map_of (fold (load_agent lib) ?A []) a =
      (if agentRolesKey a \<in> fst ` set ?A then Option.bind (engine_get s (agentRolesKey a)) (names_dec lib) else None)" for a
    by (subst map_of_load_agent [where F = "\<lambda>a. Option.bind (engine_get s (agentRolesKey a)) (names_dec lib)"]) (use A in blast, simp)
  then have "RolesOf a p = stored_names lib s a" for a
    by (auto simp: p_def perm_load_def mem in_agent_range stored_names_def RolesOf_def)
  ultimately show ?thesis by (simp add: p_def perm_load_def)
qed

lemma load_inv:
  "store_ok lib good s \<Longrightarrow> perm_inv lib good (perm_load lib \<lparr>pm_engine = s, pm_roles = [], pm_agents = [], pm_loaded = False\<rparr>)"
  using perm_load_spec by (simp add: perm_inv_def)

lemma ensure_inv:
  "ensure_loop lib now rs p = (e, p') \<Longrightarrow> perm_inv lib good p \<Longrightarrow> \<forall>r \<in> set rs. role_round_trip lib r \<Longrightarrow> perm_inv lib good p'"
proof (induction lib now rs p rule: ensure_loop.induct)
  case (2 lib now r rs p)
  note inv = CreateRole_inv [OF 2(4), of r now]
  show ?case
  proof (cases "map_of (pm_roles p) (pr_Name r) \<noteq> None")
    case True
    then show ?thesis using 2 by simp
  next
    case False
    obtain e1 p1 where one: "CreateRole lib now (Some r) p = (e1, p1)" by (meson surj_pair)
    then have "perm_inv lib good p1" using inv 2(5) by simp
    then show ?thesis using 2 one False by (cases e1) auto
  qed
qed simp

lemma New_inv:
  assumes "store_ok lib good s" "perm_codec lib good" "NewPermissionManager lib now s = (e, p)"
  shows "perm_inv lib good p"
  using ensure_inv [OF assms(3) [unfolded NewPermissionManager_def ensureBuiltins_def] load_inv [OF assms(1)]] assms(2)
  by (simp add: perm_codec_def)

lemma store_ok_empty: "store_ok lib good kv_empty"
  by (simp add: store_ok_def engine_get_def kv_empty_def kv_ok_def)

lemma perm_reachable_inv:
  assumes "perm_reachable lib good p" and codec: "perm_codec lib good"
  shows "perm_inv lib good p"
  using assms(1)
proof (induction rule: perm_reachable.induct)
  case (new now p)
  then show ?case using New_inv [OF store_ok_empty codec] by blast
next
  case (create p r now)
  then show ?case using CreateRole_inv by blast
next
  case (delete p name)
  then show ?case using DeleteRole_inv by blast
next
  case (assign p name a)
  then show ?case using AssignRole_inv [OF _ codec] by blast
next
  case (revoke p a name)
  then show ?case using RevokeRole_inv [OF _ codec] by blast
next
  case (check p audit uuid now a resource action scope)
  then show ?case using Check_inv by blast
next
  case (restart p now p')
  then have "store_ok lib good (pm_engine p)" by (simp add: perm_inv_def)
  then show ?case using New_inv [OF _ codec restart(2)] by blast
qed

section \<open>What roles are there\<close>

lemma CreateRole_ok:
  assumes "CreateRole lib now (Some r) p = (None, p')"
  obtains r' where "pr_Permissions r' = pr_Permissions r" "pm_agents p' = pm_agents p"
    "pm_roles p' = AList.update (pr_Name r) r' (pm_roles p)"
proof -
  define r' where "r' = (if pr_CreatedAt r = 0 then r\<lparr>pr_CreatedAt := now\<rparr> else r)\<lparr>pr_UpdatedAt := now\<rparr>"
  have fields: "pr_Permissions r' = pr_Permissions r" "pr_Name r' = pr_Name r" by (simp_all add: r'_def)
  have "pr_Name r \<noteq> []" using assms by (auto simp: CreateRole_def)
  then have "CreateRole lib now (Some r) p = (case putRole lib r' (pm_engine p) of
        (Some e, s) \<Rightarrow> (Some e, p\<lparr>pm_engine := s\<rparr>)
      | (None, s) \<Rightarrow> (None, p\<lparr>pm_engine := s, pm_roles := AList.update (pr_Name r') r' (pm_roles p)\<rparr>))"
    by (simp only: CreateRole_def r'_def Let_def option.case if_False)
  then obtain s where "p' = p\<lparr>pm_engine := s, pm_roles := AList.update (pr_Name r') r' (pm_roles p)\<rparr>"
    using assms by (auto split: prod.splits option.splits)
  then show ?thesis using that [of r'] fields by simp
qed

lemma CreateRole_fails: "CreateRole lib now (Some r) p = (Some e, p') \<Longrightarrow> pm_agents p' = pm_agents p \<and> pm_roles p' = pm_roles p"
  by (auto simp: CreateRole_def Let_def split: if_splits prod.splits option.splits)

lemma ensure_keeps:
  "ensure_loop lib now rs p = (e, p') \<Longrightarrow>
     pm_agents p' = pm_agents p \<and> (map_of (pm_roles p) n = Some r \<longrightarrow> map_of (pm_roles p') n = Some r)"
proof (induction lib now rs p rule: ensure_loop.induct)
  case (2 lib now x rs p)
  show ?case
  proof (cases "map_of (pm_roles p) (pr_Name x)")
    case None
    obtain e1 p1 where one: "CreateRole lib now (Some x) p = (e1, p1)" by (meson surj_pair)
    show ?thesis
    proof (cases e1)
      case (Some e2)
      then show ?thesis using 2(3) None one CreateRole_fails [of lib now x p e2 p1] by auto
    next
      case ok: None
      then obtain x' where x': "pm_agents p1 = pm_agents p" "pm_roles p1 = AList.update (pr_Name x) x' (pm_roles p)"
        using one CreateRole_ok by blast
      have "ensure_loop lib now rs p1 = (e, p')" using 2(3) None one ok by simp
      then have "pm_agents p' = pm_agents p1 \<and> (map_of (pm_roles p1) n = Some r \<longrightarrow> map_of (pm_roles p') n = Some r)"
        using 2(2) [of e1 p1] None one ok by simp
      then show ?thesis using x' None by (cases "n = pr_Name x") (simp_all add: AList.update_conv')
    qed
  qed (use 2 in auto)
qed simp

lemma ensure_nothing:
  "\<forall>r \<in> set rs. map_of (pm_roles p) (pr_Name r) \<noteq> None \<Longrightarrow> ensure_loop lib now rs p = (None, p)"
  by (induction rs) auto

lemma evaluate_cong:
  "(\<And>n. GetRole n p = GetRole n q) \<Longrightarrow> RolesOf a p = RolesOf a q \<Longrightarrow> evaluate a resource action scope p = evaluate a resource action scope q"
  by (simp add: evaluate_def GetRole_def)

lemma evaluate_intro:
  assumes "name \<in> set (RolesOf a p)" "map_of (pm_roles p) name = Some role" "perm \<in> set (pr_Permissions role)"
    "matchResource (pm_Resource perm) resource" "matchAction (pm_Action perm) action" "matchScope (pm_Scope perm) scope"
  shows "evaluate a resource action scope p"
  unfolding evaluate_def list_ex_iff by (rule bexI [OF _ assms(1)]) (use assms(2-) in auto)

text \<open>Taking a role from an agent leaves it the rights of its other roles, and other agents theirs.\<close>

lemma revoke_exact:
  assumes "RevokeRole lib a name p = (e, p')"
  shows "RolesOf a p' = filter (\<lambda>r. r \<noteq> name) (RolesOf a p) \<and> (\<forall>b. b \<noteq> a \<longrightarrow> RolesOf b p' = RolesOf b p) \<and> pm_roles p' = pm_roles p"
  using assms by (auto simp: RevokeRole_def Let_def RolesOf_def AList.update_conv' split: prod.splits)

section \<open>The properties\<close>

text \<open>
  C33: while the built-in roles are there, a restart keeps roles, assignments and with them every decision, and
  changes nothing that is stored.
\<close>

theorem restart_keeps_decisions:
  assumes "perm_reachable lib good p" "perm_codec lib good" "\<forall>r \<in> set builtin_roles. GetRole (pr_Name r) p \<noteq> None"
  shows "\<exists>p'. NewPermissionManager lib now (pm_engine p) = (None, p') \<and> pm_engine p' = pm_engine p \<and>
    (\<forall>n. GetRole n p' = GetRole n p) \<and> (\<forall>a. RolesOf a p' = RolesOf a p) \<and>
    (\<forall>a resource action scope. evaluate a resource action scope p' = evaluate a resource action scope p)"
proof -
  let ?p = "perm_load lib \<lparr>pm_engine = pm_engine p, pm_roles = [], pm_agents = [], pm_loaded = False\<rparr>"
  have inv: "perm_inv lib good p" by (rule perm_reachable_inv [OF assms(1,2)])
  then have ok: "store_ok lib good (pm_engine p)" by (simp add: perm_inv_def)
  have same: "pm_engine ?p = pm_engine p" "\<And>n. GetRole n ?p = GetRole n p" "\<And>a. RolesOf a ?p = RolesOf a p"
    using perm_load_spec [OF ok] inv by (simp_all add: perm_inv_def GetRole_def)
  have "\<forall>r \<in> set builtin_roles. map_of (pm_roles ?p) (pr_Name r) \<noteq> None" using assms(3) same(2) by (simp only: GetRole_def)
  then have "NewPermissionManager lib now (pm_engine p) = (None, ?p)"
    unfolding NewPermissionManager_def ensureBuiltins_def by (rule ensure_nothing)
  then show ?thesis using same evaluate_cong [OF same(2,3)] by blast
qed

text \<open>
  Deleting a role does not take it from the agents that have it: when a role of that name is created again, they have
  what the new one allows, although nobody has assigned it.
\<close>

lemma recreated_role_regrants:
  assumes "name \<in> set (RolesOf a p)" "pr_Name r = name" "CreateRole lib now (Some r) (DeleteRole name p) = (None, p')"
    and perm: "perm \<in> set (pr_Permissions r)" "matchResource (pm_Resource perm) resource" "matchAction (pm_Action perm) action"
      "matchScope (pm_Scope perm) scope"
  shows "\<not> (\<exists>role. GetRole name (DeleteRole name p) = Some role) \<and> RolesOf a p' = RolesOf a p \<and> evaluate a resource action scope p'"
proof -
  obtain r' where r': "pr_Permissions r' = pr_Permissions r" "pm_agents p' = pm_agents (DeleteRole name p)"
    "pm_roles p' = AList.update (pr_Name r) r' (pm_roles (DeleteRole name p))"
    by (rule CreateRole_ok [OF assms(3)])
  have roles: "RolesOf a p' = RolesOf a p" using r'(2) by (simp add: RolesOf_def DeleteRole_def)
  have "map_of (pm_roles p') name = Some r'" using r'(3) assms(2) by (simp add: AList.update_conv')
  then have "evaluate a resource action scope p'" using evaluate_intro [of name a p' r' perm] assms(1) roles r'(1) perm by simp
  then show ?thesis using roles by (simp add: GetRole_def DeleteRole_def AList.delete_conv')
qed

text \<open>
  A built-in role that was deleted comes back at the next start, and an agent that had the role of the administrator
  may then do everything again.
\<close>

lemma deleted_admin_returns:
  assumes "perm_reachable lib good p" "perm_codec lib good" "GetRole ''admin'' p = None" "''admin'' \<in> set (RolesOf a p)"
    and start: "NewPermissionManager lib now (pm_engine p) = (None, p')"
  shows "evaluate a resource action scope p'"
proof -
  let ?p = "perm_load lib \<lparr>pm_engine = pm_engine p, pm_roles = [], pm_agents = [], pm_loaded = False\<rparr>"
  let ?admin = "builtin_role ''admin'' ''Full access to all resources'' [may ResourceAll ActionAll]"
  have inv: "perm_inv lib good p" by (rule perm_reachable_inv [OF assms(1,2)])
  then have ok: "store_ok lib good (pm_engine p)" by (simp add: perm_inv_def)
  have roles: "RolesOf a ?p = RolesOf a p" and none: "map_of (pm_roles ?p) ''admin'' = None"
    using perm_load_spec [OF ok] inv assms(3) by (simp_all add: perm_inv_def GetRole_def)
  obtain rs where rs: "builtin_roles = ?admin # rs" by (simp add: builtin_roles_def)
  have name: "pr_Name ?admin = ''admin''" by (simp add: builtin_role_def)
  obtain e p1 where one: "CreateRole lib now (Some ?admin) ?p = (e, p1)" by (meson surj_pair)
  have loop: "ensure_loop lib now (?admin # rs) ?p = (None, p')" using start by (simp only: NewPermissionManager_def ensureBuiltins_def rs)
  then have e: "e = None" "ensure_loop lib now rs p1 = (None, p')" using none name one by (auto split: option.splits)
  obtain r' where r': "pr_Permissions r' = pr_Permissions ?admin" "pm_agents p1 = pm_agents ?p"
    "pm_roles p1 = AList.update (pr_Name ?admin) r' (pm_roles ?p)"
    by (rule CreateRole_ok [OF one [unfolded e(1)]])
  have "map_of (pm_roles p1) ''admin'' = Some r'" using r'(3) name by (simp add: AList.update_conv')
  with ensure_keeps [OF e(2)] have "pm_agents p' = pm_agents p1" "map_of (pm_roles p') ''admin'' = Some r'" by blast+
  moreover have "RolesOf a p' = RolesOf a p" using calculation(1) r'(2) roles by (simp add: RolesOf_def)
  ultimately show ?thesis
    using evaluate_intro [of "''admin''" a p' r' "may ResourceAll ActionAll"] assms(4) r'(1)
    by (simp add: builtin_role_def may_def matchResource_def matchAction_def matchScope_def)
qed

text \<open>
  A decision is logged as it was taken: after a check the event is stored under its new identifier, with the agent, the
  resource and the outcome, and roles and assignments are as they were.
\<close>

lemma check_is_logged:
  assumes "perm_reachable lib good p" "perm_codec lib good" "uuid \<noteq> []" "now \<noteq> 0"
    and "Check (Some al) uuid now a resource action scope p = (allowed, p')"
    and "event_enc al ((check_event a resource action scope allowed now)\<lparr>ae_ID := uuid\<rparr>) = Some data"
  shows "engine_get (pm_engine p') (audit_key uuid) = Some data \<and> allowed = evaluate a resource action scope p' \<and>
    (\<forall>n. GetRole n p' = GetRole n p) \<and> (\<forall>b. RolesOf b p' = RolesOf b p)"
proof -
  have ok: "kv_ok (pm_engine p)" using perm_reachable_inv [OF assms(1,2)] by (simp add: perm_inv_def store_ok_def)
  let ?ev = "check_event a resource action scope allowed now"
  have allowed: "allowed = evaluate a resource action scope p"
    and p': "p' = p\<lparr>pm_engine := snd (audit_Log al uuid now ?ev (pm_engine p))\<rparr>"
    using assms(5) by (auto simp: Check_def Let_def)
  have ev: "event_defaults uuid now ?ev = ?ev\<lparr>ae_ID := uuid\<rparr>"
    using assms(4) by (simp add: event_defaults_def Let_def check_event_def)
  have "engine_get (pm_engine p') (audit_key uuid) = Some data"
    using audit_Log_stored [OF ok, of al uuid now ?ev data] assms(6) by (simp add: p' ev)
  then show ?thesis using allowed by (simp add: p' GetRole_def RolesOf_def evaluate_def)
qed

end
