(* ===== verification/PermissionExamples.thy ===== *)
theory PermissionExamples
  imports PermissionProps DemoCodec
begin

text \<open>
  Permissions on a concrete codec, which stores the name and the times of the built-in roles, for the properties of the
  permission manager.
\<close>

definition demo_perm :: perm_json where
  "demo_perm =
     \<lparr>role_enc = \<lambda>r. (if map_of (map (\<lambda>b. (pr_Name b, b)) builtin_roles) (pr_Name r) = Some (r\<lparr>pr_CreatedAt := 0, pr_UpdatedAt := 0\<rparr>)
        then Some (pr_Name r @ NUL # unary (pr_CreatedAt r) @ NUL # unary (pr_UpdatedAt r)) else None),
      role_dec = \<lambda>bs. (let (n, r) = nul_part bs; (c, u) = nul_part r
        in map_option (\<lambda>b. b\<lparr>pr_CreatedAt := of_unary c, pr_UpdatedAt := of_unary u\<rparr>) (map_of (map (\<lambda>b. (pr_Name b, b)) builtin_roles) n)),
      names_enc = \<lambda>ns. Some (nul_join ns),
      names_dec = \<lambda>bs. Some (nul_split [] bs)\<rparr>"

definition demo_good :: "bytes set" where
  "demo_good = {n. NUL \<notin> set n}"

lemma builtin_names: "r \<in> set builtin_roles \<Longrightarrow> NUL \<notin> set (pr_Name r)"
  by (auto simp: builtin_roles_def builtin_role_def)

lemma demo_role_round_trip: "r \<in> set builtin_roles \<Longrightarrow> role_round_trip demo_perm r"
  using builtin_names by (auto simp: role_round_trip_def demo_perm_def)

lemma demo_perm_codec: "perm_codec demo_perm demo_good"
  using demo_role_round_trip nul_split_join by (auto simp: perm_codec_def demo_perm_def demo_good_def subset_iff)

definition demo_perms :: perm_manager where
  "demo_perms = snd (NewPermissionManager demo_perm 5 kv_empty)"

definition demo_bot :: "bytes \<Rightarrow> perm_manager" where
  "demo_bot role = snd (AssignRole demo_perm ''bot'' role demo_perms)"

lemma demo_bot_reachable: "NUL \<notin> set role \<Longrightarrow> perm_reachable demo_perm demo_good (demo_bot role)"
proof -
  have "fst (NewPermissionManager demo_perm 5 kv_empty) = None" by code_simp
  then have "NewPermissionManager demo_perm 5 kv_empty = (None, demo_perms)" by (simp add: demo_perms_def prod_eq_iff)
  then show "NUL \<notin> set role \<Longrightarrow> perm_reachable demo_perm demo_good (demo_bot role)"
    unfolding demo_bot_def by (intro perm_reachable.assign perm_reachable.new) (simp_all add: demo_good_def)
qed

lemma restart_keeps_decisions_witness:
  "\<exists>p'. NewPermissionManager demo_perm 9 (pm_engine (demo_bot ''reader'')) = (None, p') \<and>
     evaluate ''bot'' ''task'' ''read'' [] p' = evaluate ''bot'' ''task'' ''read'' [] (demo_bot ''reader'') \<and>
     evaluate ''bot'' ''task'' ''read'' [] (demo_bot ''reader'')"
proof -
  have "perm_reachable demo_perm demo_good (demo_bot ''reader'')" by (rule demo_bot_reachable) simp
  moreover have "\<forall>r \<in> set builtin_roles. GetRole (pr_Name r) (demo_bot ''reader'') \<noteq> None" by code_simp
  moreover have "evaluate ''bot'' ''task'' ''read'' [] (demo_bot ''reader'')" by code_simp
  ultimately show ?thesis using restart_keeps_decisions [OF _ demo_perm_codec, of "demo_bot ''reader''" 9] by metis
qed

lemma recreated_role_regrants_witness:
  "evaluate ''bot'' ''audit'' ''read'' [] (snd (CreateRole demo_perm 9 (Some (builtin_role ''observer'' ''Read-only audit access'' [may ResourceAudit ActionRead]))
     (DeleteRole ''observer'' (demo_bot ''observer''))))"
proof -
  let ?r = "builtin_role ''observer'' ''Read-only audit access'' [may ResourceAudit ActionRead]"
  let ?c = "CreateRole demo_perm 9 (Some ?r) (DeleteRole ''observer'' (demo_bot ''observer''))"
  have "''observer'' \<in> set (RolesOf ''bot'' (demo_bot ''observer''))" by code_simp
  moreover have "fst ?c = None" by code_simp
  then have "?c = (None, snd ?c)" by (simp add: prod_eq_iff)
  moreover have "pr_Name ?r = ''observer''" "may ResourceAudit ActionRead \<in> set (pr_Permissions ?r)"
    "matchResource (pm_Resource (may ResourceAudit ActionRead)) ''audit''" "matchAction (pm_Action (may ResourceAudit ActionRead)) ''read''"
    "matchScope (pm_Scope (may ResourceAudit ActionRead)) []"
    by code_simp+
  ultimately show ?thesis using recreated_role_regrants by blast
qed

lemma deleted_admin_returns_witness:
  "\<not> evaluate ''bot'' ''task'' ''write'' [] (DeleteRole ''admin'' (demo_bot ''admin'')) \<and>
   evaluate ''bot'' ''task'' ''write'' [] (snd (NewPermissionManager demo_perm 9 (pm_engine (DeleteRole ''admin'' (demo_bot ''admin'')))))"
proof -
  let ?p = "DeleteRole ''admin'' (demo_bot ''admin'')"
  have "perm_reachable demo_perm demo_good ?p" by (intro perm_reachable.delete demo_bot_reachable) simp
  moreover have "GetRole ''admin'' ?p = None" "''admin'' \<in> set (RolesOf ''bot'' ?p)" by code_simp+
  moreover have "fst (NewPermissionManager demo_perm 9 (pm_engine ?p)) = None" by code_simp
  then have "NewPermissionManager demo_perm 9 (pm_engine ?p) = (None, snd (NewPermissionManager demo_perm 9 (pm_engine ?p)))"
    by (simp add: prod_eq_iff)
  moreover have "\<not> evaluate ''bot'' ''task'' ''write'' [] ?p" by code_simp
  ultimately show ?thesis using deleted_admin_returns [OF _ demo_perm_codec] by blast
qed

text \<open>A codec of audit events that keeps their identifier.\<close>

definition demo_audit :: audit_json where
  "demo_audit = \<lparr>event_enc = \<lambda>e. Some (ae_ID e), event_dec = \<lambda>_. None\<rparr>"

lemma check_is_logged_witness:
  "engine_get (pm_engine (snd (Check (Some demo_audit) ''u1'' 7 ''bot'' ''task'' ''read'' [] (demo_bot ''reader'')))) (audit_key ''u1'') = Some ''u1'' \<and>
   fst (Check (Some demo_audit) ''u1'' 7 ''bot'' ''task'' ''read'' [] (demo_bot ''reader''))"
proof -
  let ?c = "Check (Some demo_audit) ''u1'' 7 ''bot'' ''task'' ''read'' [] (demo_bot ''reader'')"
  have "perm_reachable demo_perm demo_good (demo_bot ''reader'')" by (rule demo_bot_reachable) simp
  from check_is_logged [OF this demo_perm_codec, of "''u1''" 7 demo_audit "''bot''" "''task''" "''read''" "[]" "fst ?c" "snd ?c" "''u1''"]
  have "engine_get (pm_engine (snd ?c)) (audit_key ''u1'') = Some ''u1''" by (simp add: demo_audit_def check_event_def)
  moreover have "fst ?c" by code_simp
  ultimately show ?thesis by blast
qed

end
