(* ===== verification/Lineage.thy ===== *)
theory Lineage
  imports Engine
begin

text \<open>
  Model of \<^verbatim>\<open>internal/knowledge/lineage.go\<close>: where data come from, as JSON under the lineage prefix, and the tree of
  the sources of one item down to a depth. \<open>encoding/json\<close> is the record \<open>lineage_json\<close>.
\<close>

section \<open>Records\<close>

record lineage_step =
  ls_Type :: bytes
  ls_Operation :: bytes
  ls_Parameters :: "(bytes \<times> val) list"
  ls_Timestamp :: int

record lineage =
  li_DataID :: bytes
  li_SourceType :: bytes
  li_SourceIDs :: "bytes list"
  li_Steps :: "lineage_step list"
  li_DecisionIDs :: "bytes list"
  li_CreatedAt :: int

datatype lineage_tree = LineageTree (lt_Lineage: lineage) (lt_Sources: "lineage_tree list")

record lineage_json =
  lineage_enc :: "lineage \<Rightarrow> bytes option"
  lineage_dec :: "bytes \<Rightarrow> lineage option"

datatype lineage_error = LineageMarshal | LineageNotFound bytes | LineageUnmarshal

definition lineage_key :: "bytes \<Rightarrow> bytes" where
  "lineage_key i = EncodeKey PrefixLineage i"

definition lineage_defaults :: "bytes \<Rightarrow> int \<Rightarrow> lineage \<Rightarrow> lineage" where
  "lineage_defaults uuid now l =
     (let l = (if li_DataID l = [] then l\<lparr>li_DataID := uuid\<rparr> else l)
      in if li_CreatedAt l = 0 then l\<lparr>li_CreatedAt := now\<rparr> else l)"

definition lineage_Record :: "lineage_json \<Rightarrow> bytes \<Rightarrow> int \<Rightarrow> lineage \<Rightarrow> kv \<Rightarrow> lineage_error option \<times> kv" where
  "lineage_Record lib uuid now l s =
     (let l = lineage_defaults uuid now l in
      case lineage_enc lib l of
        None \<Rightarrow> (Some LineageMarshal, s)
      | Some data \<Rightarrow> (None, engine_set s (lineage_key (li_DataID l)) data))"

definition lineage_Get :: "lineage_json \<Rightarrow> kv \<Rightarrow> bytes \<Rightarrow> lineage_error + lineage" where
  "lineage_Get lib s i =
     (case engine_get s (lineage_key i) of
        None \<Rightarrow> Inl (LineageNotFound i)
      | Some data \<Rightarrow> (case lineage_dec lib data of None \<Rightarrow> Inl LineageUnmarshal | Some l \<Rightarrow> Inr l))"

section \<open>Sources\<close>

definition is_found :: "lineage_error + 'a \<Rightarrow> 'a option" where
  "is_found r = (case r of Inl _ \<Rightarrow> None | Inr x \<Rightarrow> Some x)"

lemma map_filter_cong [fundef_cong]:
  "xs = ys \<Longrightarrow> (\<And>x. x \<in> set ys \<Longrightarrow> f x = g x) \<Longrightarrow> List.map_filter f xs = List.map_filter g ys"
  by (induction ys arbitrary: xs) (auto simp: List.map_filter_def)

function TraceUpstream :: "lineage_json \<Rightarrow> kv \<Rightarrow> bytes \<Rightarrow> int \<Rightarrow> lineage_error + lineage_tree" where
  "TraceUpstream lib s i depth =
     (case lineage_Get lib s i of
        Inl e \<Rightarrow> Inl e
      | Inr l \<Rightarrow>
          if depth \<le> 0 then Inr (LineageTree l [])
          else Inr (LineageTree l (List.map_filter (\<lambda>j. is_found (TraceUpstream lib s j (depth - 1))) (li_SourceIDs l))))"
  by auto
termination
  by (relation "measure (\<lambda>(_, _, _, depth). nat depth)") auto

declare TraceUpstream.simps [simp del]

definition ListByDecision :: "lineage_json \<Rightarrow> kv \<Rightarrow> bytes \<Rightarrow> lineage list" where
  "ListByDecision lib s d =
     List.map_filter
       (\<lambda>(_, v). case lineage_dec lib v of None \<Rightarrow> None | Some l \<Rightarrow> if d \<in> set (li_DecisionIDs l) then Some l else None)
       (iter_collect (engine_prefix_scan s [PrefixLineage] \<lparr>so_limit = 0, so_reverse = False\<rparr>))"

text \<open>\<open>Depth\<close> and \<open>AllIDs\<close> of a tree.\<close>

fun tree_Depth :: "lineage_tree \<Rightarrow> nat" where
  "tree_Depth (LineageTree l ts) = (if ts = [] then 1 else fold (\<lambda>d m. if d > m then d else m) (map tree_Depth ts) 0 + 1)"

fun tree_AllIDs :: "lineage_tree \<Rightarrow> bytes list" where
  "tree_AllIDs (LineageTree l ts) = li_DataID l # concat (map tree_AllIDs ts)"

section \<open>What a trace holds\<close>

definition stored_lineage :: "lineage_json \<Rightarrow> kv \<Rightarrow> bytes \<Rightarrow> lineage option" where
  "stored_lineage lib s i = is_found (lineage_Get lib s i)"

text \<open>What \<open>encoding/json\<close> does for an item of valid text: identifier, sources and decisions come back.\<close>

definition lineage_round_trip :: "lineage_json \<Rightarrow> lineage \<Rightarrow> bool" where
  "lineage_round_trip lib l \<longleftrightarrow>
     (\<forall>data. lineage_enc lib l = Some data \<longrightarrow>
        (\<exists>l'. lineage_dec lib data = Some l' \<and> li_DataID l' = li_DataID l \<and> li_SourceIDs l' = li_SourceIDs l \<and>
           li_DecisionIDs l' = li_DecisionIDs l))"

inductive lineage_reachable :: "lineage_json \<Rightarrow> kv \<Rightarrow> bool" for lib where
  empty: "lineage_reachable lib kv_empty"
| recorded: "lineage_reachable lib s \<Longrightarrow> lineage_round_trip lib (lineage_defaults uuid now l) \<Longrightarrow>
    lineage_reachable lib (snd (lineage_Record lib uuid now l s))"

text \<open>One step upstream: from a stored item to a stored source of it.\<close>

definition upstream :: "lineage_json \<Rightarrow> kv \<Rightarrow> bytes \<Rightarrow> bytes \<Rightarrow> bool" where
  "upstream lib s i j \<longleftrightarrow> (\<exists>l. stored_lineage lib s i = Some l \<and> j \<in> set (li_SourceIDs l) \<and> stored_lineage lib s j \<noteq> None)"

lemma stored_lineage_get: "stored_lineage lib s i = Option.bind (engine_get s (lineage_key i)) (lineage_dec lib)"
  by (simp add: stored_lineage_def lineage_Get_def is_found_def split: option.split)

lemma lineage_key_inject [simp]: "lineage_key i = lineage_key j \<longleftrightarrow> i = j"
  by (simp add: lineage_key_def)

lemma lineage_reachable_inv:
  "lineage_reachable lib s \<Longrightarrow> kv_ok s \<and> (\<forall>i l. stored_lineage lib s i = Some l \<longrightarrow> li_DataID l = i)"
proof (induction rule: lineage_reachable.induct)
  case empty
  then show ?case by (simp add: stored_lineage_get kv_ok_def kv_empty_def engine_get_def)
next
  case (recorded s uuid now l)
  let ?l = "lineage_defaults uuid now l"
  show ?case
  proof (cases "lineage_enc lib ?l")
    case (Some data)
    then obtain l' where "lineage_dec lib data = Some l'" "li_DataID l' = li_DataID ?l"
      using recorded.hyps(2) by (auto simp: lineage_round_trip_def)
    then show ?thesis using recorded.IH Some by (auto simp: lineage_Record_def stored_lineage_get kv_simps split: if_splits)
  qed (use recorded.IH in \<open>simp add: lineage_Record_def\<close>)
qed

lemma fold_max: "fold (\<lambda>d m. if d > m then d else m) ds m \<le> n \<longleftrightarrow> m \<le> (n :: nat) \<and> (\<forall>d \<in> set ds. d \<le> n)"
  by (induction ds arbitrary: m) auto

lemma TraceUpstream_error: "is_found (TraceUpstream lib s i depth) = None \<longleftrightarrow> stored_lineage lib s i = None"
  by (subst TraceUpstream.simps) (simp add: is_found_def stored_lineage_def split: sum.split)

lemma upstream_steps: "{k. \<exists>n \<le> Suc d. (R ^^ n) i k} = {k. k = i \<or> (\<exists>j. R i j \<and> (\<exists>n \<le> d. (R ^^ n) j k))}"
proof (intro set_eqI iffI; clarify)
  fix k n assume n: "n \<le> Suc d" "(R ^^ n) i k" and "\<nexists>j. R i j \<and> (\<exists>n \<le> d. (R ^^ n) j k)"
  then show "k = i" by (cases n) (simp, metis Suc_le_mono relpowp_Suc_D2)
next
  fix k assume "k = i \<or> (\<exists>j. R i j \<and> (\<exists>n \<le> d. (R ^^ n) j k))"
  then show "\<exists>n \<le> Suc d. (R ^^ n) i k"
  proof
    assume "k = i"
    then show ?thesis by (intro exI [of _ 0]) simp
  next
    assume "\<exists>j. R i j \<and> (\<exists>n \<le> d. (R ^^ n) j k)"
    then obtain j n where "R i j" "n \<le> d" "(R ^^ n) j k" by blast
    then show ?thesis using relpowp_Suc_I2 by (intro exI [of _ "Suc n"]) fastforce
  qed
qed

text \<open>
  C34: tracing where stored data come from always ends, even when items are their own sources, with a tree of at most one level
  more than the depth asked for, which names exactly the stored items that at most that many steps upstream lead to.
\<close>

theorem trace_upstream_exact:
  assumes "lineage_reachable lib s" "stored_lineage lib s i \<noteq> None"
  shows "\<exists>t. TraceUpstream lib s i depth = Inr t \<and> tree_Depth t \<le> nat depth + 1 \<and>
    set (tree_AllIDs t) = {j. \<exists>n \<le> nat depth. (upstream lib s ^^ n) i j}"
  using assms(2)
proof (induction "nat depth" arbitrary: i depth)
  case 0
  then obtain l where l: "lineage_Get lib s i = Inr l" by (auto simp: stored_lineage_def is_found_def split: sum.splits)
  then have "li_DataID l = i" using lineage_reachable_inv [OF assms(1)] by (simp add: stored_lineage_def is_found_def)
  then show ?case using l 0(1) by (subst TraceUpstream.simps) auto
next
  case (Suc d)
  obtain l where l: "lineage_Get lib s i = Inr l" using Suc.prems by (auto simp: stored_lineage_def is_found_def split: sum.splits)
  then have st: "stored_lineage lib s i = Some l" by (simp add: stored_lineage_def is_found_def)
  have id: "li_DataID l = i" using lineage_reachable_inv [OF assms(1)] st by blast
  let ?sub = "\<lambda>j. is_found (TraceUpstream lib s j (depth - 1))"
  let ?ts = "List.map_filter ?sub (li_SourceIDs l)"
  have pos: "\<not> depth \<le> 0" using Suc.hyps(2) by simp
  have run: "TraceUpstream lib s i depth = Inr (LineageTree l ?ts)"
    by (subst TraceUpstream.simps) (simp only: l sum.case pos if_False)
  have d: "d = nat (depth - 1)" using Suc.hyps(2) by simp
  have IH: "\<exists>t. ?sub j = Some t \<and> tree_Depth t \<le> d + 1 \<and> set (tree_AllIDs t) = {k. \<exists>n \<le> d. (upstream lib s ^^ n) j k}"
    if "stored_lineage lib s j \<noteq> None" for j
  proof -
    from Suc.hyps(1) [OF d that] obtain t where "TraceUpstream lib s j (depth - 1) = Inr t" "tree_Depth t \<le> d + 1"
      "set (tree_AllIDs t) = {k. \<exists>n \<le> d. (upstream lib s ^^ n) j k}" using d by auto
    then show ?thesis by (simp add: is_found_def)
  qed
  have ts: "t \<in> set ?ts \<longleftrightarrow> (\<exists>j. upstream lib s i j \<and> ?sub j = Some t)" for t
  proof -
    have "upstream lib s i j \<longleftrightarrow> j \<in> set (li_SourceIDs l) \<and> ?sub j \<noteq> None" for j
      unfolding upstream_def st using TraceUpstream_error by auto
    then show ?thesis unfolding set_map_filter by (simp only: mem_Collect_eq Bex_def) (metis option.distinct(1))
  qed
  have up: "stored_lineage lib s j \<noteq> None" if "upstream lib s i j" for j using that by (auto simp: upstream_def)
  have tree: "tree_Depth t \<le> d + 1" if "t \<in> set ?ts" for t
  proof -
    from that have "\<exists>j. upstream lib s i j \<and> ?sub j = Some t" by (simp only: ts)
    then obtain j where j: "upstream lib s i j" "?sub j = Some t" by (elim exE conjE)
    from IH [OF up [OF j(1)]] j(2) show ?thesis by auto
  qed
  have "k \<in> set (concat (map tree_AllIDs ?ts)) \<longleftrightarrow> (\<exists>j. upstream lib s i j \<and> (\<exists>n \<le> d. (upstream lib s ^^ n) j k))" for k
  proof -
    have "k \<in> set (concat (map tree_AllIDs ?ts)) \<longleftrightarrow> (\<exists>t j. upstream lib s i j \<and> ?sub j = Some t \<and> k \<in> set (tree_AllIDs t))"
      unfolding set_concat set_map by (simp only: UN_iff image_iff Bex_def ts) (intro iffI; elim exE conjE; blast)
    also have "\<dots> \<longleftrightarrow> (\<exists>j. upstream lib s i j \<and> (\<exists>n \<le> d. (upstream lib s ^^ n) j k))"
    proof (intro iffI; elim exE conjE)
      fix t j assume "upstream lib s i j" "?sub j = Some t" "k \<in> set (tree_AllIDs t)"
      then show "\<exists>j. upstream lib s i j \<and> (\<exists>n \<le> d. (upstream lib s ^^ n) j k)" using IH [OF up] by fastforce
    next
      fix j n assume j: "upstream lib s i j" "n \<le> d" "(upstream lib s ^^ n) j k"
      from IH [OF up [OF j(1)]] obtain t where "?sub j = Some t" "set (tree_AllIDs t) = {k. \<exists>n \<le> d. (upstream lib s ^^ n) j k}" by blast
      then show "\<exists>t j. upstream lib s i j \<and> ?sub j = Some t \<and> k \<in> set (tree_AllIDs t)" using j by blast
    qed
    finally show ?thesis .
  qed
  then have "set (tree_AllIDs (LineageTree l ?ts)) = {k. k = i \<or> (\<exists>j. upstream lib s i j \<and> (\<exists>n \<le> d. (upstream lib s ^^ n) j k))}"
    unfolding tree_AllIDs.simps using id by (simp only: list.set insert_iff set_eq_iff mem_Collect_eq) blast
  also have "\<dots> = {k. \<exists>n \<le> Suc d. (upstream lib s ^^ n) i k}" by (rule upstream_steps [symmetric])
  finally have ids: "set (tree_AllIDs (LineageTree l ?ts)) = {k. \<exists>n \<le> nat depth. (upstream lib s ^^ n) i k}" using Suc.hyps(2) by simp
  have "tree_Depth (LineageTree l ?ts) \<le> nat depth + 1" using tree Suc.hyps(2) [symmetric] by (simp add: fold_max)
  then show ?case using run ids by blast
qed

section \<open>Decisions\<close>

text \<open>The items of a decision are the stored ones that name it.\<close>

lemma decision_items_exact:
  assumes "lineage_reachable lib s"
  shows "set (ListByDecision lib s d) =
    {l. \<exists>k v. in_prefix_range [PrefixLineage] k \<and> engine_get s k = Some v \<and> lineage_dec lib v = Some l \<and> d \<in> set (li_DecisionIDs l)}"
proof -
  have "kv_ok s" using lineage_reachable_inv [OF assms] by blast
  then have items: "(k, v) \<in> set (iter_collect (engine_prefix_scan s [PrefixLineage] \<lparr>so_limit = 0, so_reverse = False\<rparr>)) \<longleftrightarrow>
      in_prefix_range [PrefixLineage] k \<and> engine_get s k = Some v" for k v
    by (simp add: prefix_scan_collects set_prefix_items_0)
  have "(case lineage_dec lib v of None \<Rightarrow> None | Some l \<Rightarrow> if d \<in> set (li_DecisionIDs l) then Some l else None) = Some l \<longleftrightarrow>
      lineage_dec lib v = Some l \<and> d \<in> set (li_DecisionIDs l)" for v l
    by (auto split: option.split)
  then show ?thesis unfolding ListByDecision_def set_map_filter Bex_def using items by (simp add: split_paired_Ex)
qed

end
