(* ===== verification/QueryStats.thy ===== *)
theory QueryStats
  imports Prelude "HOL-Library.AList" "HOL-Library.Multiset"
begin

text \<open>
  Model of \<^verbatim>\<open>internal/query/sql/stats.go\<close>: the window of the latest queries, its slow queries, frequent patterns and
  summary. \<open>sort.Slice\<close>, which is not stable, is an argument, and with it the order in which a Go map is read;
  durations and sums stay within \<open>int64\<close>.
\<close>

section \<open>The window\<close>

record query_record =
  qr_SQL :: bytes
  qr_DurationMs :: int
  qr_RowsReturned :: int
  qr_Table :: bytes
  qr_Timestamp :: int

record query_stats =
  qs_queries :: "query_record list"
  qs_maxSize :: int
  qs_slowMs :: int

definition NewQueryStats :: "int \<Rightarrow> int \<Rightarrow> query_stats" where
  "NewQueryStats maxSize slow =
     \<lparr>qs_queries = [], qs_maxSize = (if maxSize \<le> 0 then 1000 else maxSize), qs_slowMs = (if slow \<le> 0 then 100 else slow)\<rparr>"

definition stats_Record :: "query_record \<Rightarrow> query_stats \<Rightarrow> query_stats" where
  "stats_Record qr qs =
     (let queries = (if int (length (qs_queries qs)) \<ge> qs_maxSize qs then tl (qs_queries qs) else qs_queries qs)
      in qs\<lparr>qs_queries := queries @ [qr]\<rparr>)"

definition GetSlowQueries :: "(query_record list \<Rightarrow> query_record list) \<Rightarrow> int \<Rightarrow> query_stats \<Rightarrow> query_record list" where
  "GetSlowQueries sortq limit qs =
     (let slow = sortq (filter (\<lambda>q. qr_DurationMs q > qs_slowMs qs) (qs_queries qs))
      in if limit > 0 \<and> int (length slow) > limit then take (nat limit) slow else slow)"

section \<open>Patterns\<close>

definition isAlphaChar :: "char \<Rightarrow> bool" where
  "isAlphaChar c \<longleftrightarrow> CHR ''a'' \<le> c \<and> c \<le> CHR ''z'' \<or> CHR ''A'' \<le> c \<and> c \<le> CHR ''Z''"

text \<open>
  The loop over the bytes: the byte before, the quote of the string it is in, and whether the last byte written stands
  for a value.
\<close>

fun normalize_loop :: "char option \<Rightarrow> char option \<Rightarrow> bool \<Rightarrow> bytes \<Rightarrow> bytes" where
  "normalize_loop prev quote last' [] = []"
| "normalize_loop prev (Some q) last' (c # cs) = normalize_loop (Some c) (if c = q then None else Some q) last' cs"
| "normalize_loop prev None last' (c # cs) =
     (if c = CHR 0x27 \<or> c = CHR 0x22
      then (if last' then [] else [CHR ''?'']) @ normalize_loop (Some c) (Some c) True cs
      else if CHR ''0'' \<le> c \<and> c \<le> CHR ''9'' \<and> (case prev of None \<Rightarrow> True | Some p \<Rightarrow> \<not> (isAlphaChar p \<or> p = CHR ''_''))
      then (if last' then [] else [CHR ''?'']) @ normalize_loop (Some c) None True cs
      else c # normalize_loop (Some c) None False cs)"

definition normalizeSQL :: "bytes \<Rightarrow> bytes" where
  "normalizeSQL sql = normalize_loop None None False sql"

record query_pattern =
  qp_Pattern :: bytes
  qp_Count :: int
  qp_TotalMs :: int
  qp_AvgMs :: int
  qp_MaxMs :: int
  qp_LastSeen :: int

definition bump_pattern :: "query_record \<Rightarrow> (bytes \<times> query_pattern) list \<Rightarrow> (bytes \<times> query_pattern) list" where
  "bump_pattern q patterns =
     (let pattern = normalizeSQL (qr_SQL q) in
      case map_of patterns pattern of
        Some p \<Rightarrow>
          let p = p\<lparr>qp_Count := qp_Count p + 1, qp_TotalMs := qp_TotalMs p + qr_DurationMs q\<rparr>;
              p = (if qr_DurationMs q > qp_MaxMs p then p\<lparr>qp_MaxMs := qr_DurationMs q\<rparr> else p)
          in AList.update pattern p patterns
      | None \<Rightarrow>
          patterns @ [(pattern, \<lparr>qp_Pattern = pattern, qp_Count = 1, qp_TotalMs = qr_DurationMs q, qp_AvgMs = 0,
            qp_MaxMs = qr_DurationMs q, qp_LastSeen = qr_Timestamp q\<rparr>)])"

text \<open>Integer division towards zero.\<close>

definition int_quot :: "int \<Rightarrow> int \<Rightarrow> int" where
  "int_quot a n = (if a < 0 then - (- a div n) else a div n)"

definition GetTopQueries :: "(query_pattern list \<Rightarrow> query_pattern list) \<Rightarrow> int \<Rightarrow> query_stats \<Rightarrow> query_pattern list" where
  "GetTopQueries sortp limit qs =
     (let patterns = fold bump_pattern (qs_queries qs) [];
          result = sortp (map (\<lambda>(_, p). p\<lparr>qp_AvgMs := int_quot (qp_TotalMs p) (qp_Count p)\<rparr>) patterns)
      in if limit > 0 \<and> int (length result) > limit then take (nat limit) result else result)"

section \<open>Summary\<close>

record stats_summary =
  ss_TotalQueries :: int
  ss_AvgDurationMs :: int
  ss_MaxDurationMs :: int
  ss_MinDurationMs :: int
  ss_TotalRows :: int
  ss_SlowQueries :: int
  ss_SlowThresholdMs :: int

definition GetSummary :: "query_stats \<Rightarrow> stats_summary" where
  "GetSummary qs =
     (case qs_queries qs of
        [] \<Rightarrow> \<lparr>ss_TotalQueries = 0, ss_AvgDurationMs = 0, ss_MaxDurationMs = 0, ss_MinDurationMs = 0, ss_TotalRows = 0,
          ss_SlowQueries = 0, ss_SlowThresholdMs = 0\<rparr>
      | q0 # _ \<Rightarrow>
          let (totalMs, maxMs, minMs, totalRows, slowCount) =
              fold (\<lambda>q (totalMs, maxMs, minMs, totalRows, slowCount).
                  (totalMs + qr_DurationMs q, if qr_DurationMs q > maxMs then qr_DurationMs q else maxMs,
                   if qr_DurationMs q < minMs then qr_DurationMs q else minMs, totalRows + qr_RowsReturned q,
                   if qr_DurationMs q > qs_slowMs qs then slowCount + 1 else slowCount))
                (qs_queries qs) (0, 0, qr_DurationMs q0, 0, 0);
            n = int (length (qs_queries qs))
          in \<lparr>ss_TotalQueries = n, ss_AvgDurationMs = int_quot totalMs n, ss_MaxDurationMs = maxMs, ss_MinDurationMs = minMs,
               ss_TotalRows = totalRows, ss_SlowQueries = slowCount, ss_SlowThresholdMs = qs_slowMs qs\<rparr>)"

section \<open>Facts\<close>

text \<open>What \<open>sort.Slice\<close> promises.\<close>

definition slice_sorts :: "('a \<Rightarrow> 'a \<Rightarrow> bool) \<Rightarrow> ('a list \<Rightarrow> 'a list) \<Rightarrow> bool" where
  "slice_sorts le f \<longleftrightarrow> (\<forall>xs. mset (f xs) = mset xs \<and> sorted_wrt (\<lambda>a b. \<not> le b a) (f xs))"

definition slower :: "query_record \<Rightarrow> query_record \<Rightarrow> bool" where
  "slower a b \<longleftrightarrow> qr_DurationMs a > qr_DurationMs b"

definition more_frequent :: "query_pattern \<Rightarrow> query_pattern \<Rightarrow> bool" where
  "more_frequent a b \<longleftrightarrow> qp_Count a > qp_Count b"

lemma record_window:
  assumes "0 < m" "qs_maxSize qs = m" "qs_queries qs = drop (length rs - nat m) rs"
  shows "qs_queries (stats_Record r qs) = drop (length (rs @ [r]) - nat m) (rs @ [r]) \<and> qs_maxSize (stats_Record r qs) = m \<and>
    qs_slowMs (stats_Record r qs) = qs_slowMs qs"
proof (cases "length rs < nat m")
  case True
  then show ?thesis using assms by (auto simp: stats_Record_def Let_def)
next
  case False
  then have "int (length (qs_queries qs)) \<ge> m" using assms by simp
  moreover have "Suc (length rs - nat m) = Suc (length rs) - nat m" "0 < nat m" using False assms(1) by auto
  ultimately show ?thesis using assms False by (simp add: stats_Record_def Let_def tl_drop drop_Suc [symmetric])
qed

lemma fold_window:
  "0 < m \<Longrightarrow> qs_maxSize qs = m \<Longrightarrow> qs_queries qs = drop (length rs0 - nat m) rs0 \<Longrightarrow>
     qs_queries (fold stats_Record rs qs) = drop (length (rs0 @ rs) - nat m) (rs0 @ rs) \<and> qs_maxSize (fold stats_Record rs qs) = m \<and>
     qs_slowMs (fold stats_Record rs qs) = qs_slowMs qs"
proof (induction rs arbitrary: qs rs0)
  case (Cons r rs)
  note R = record_window [OF Cons.prems, of r]
  show ?case using Cons.IH [of "stats_Record r qs" "rs0 @ [r]"] Cons.prems(1) R by simp
qed simp

text \<open>
  Whatever was recorded, the statistics hold the latest queries, as many as the size allows, in order.
\<close>

lemma stats_hold_latest:
  "qs_queries (fold stats_Record rs (NewQueryStats n slow)) = drop (length rs - nat (if n \<le> 0 then 1000 else n)) rs"
  using fold_window [of "if n \<le> 0 then 1000 else n" "NewQueryStats n slow" "[]" rs] by (simp add: NewQueryStats_def)

lemma summary_fold:
  "fold (\<lambda>q (t, mx, mn, rows, sl). (t + qr_DurationMs q, if qr_DurationMs q > mx then qr_DurationMs q else mx,
       if qr_DurationMs q < mn then qr_DurationMs q else mn, rows + qr_RowsReturned q,
       if qr_DurationMs q > lim then sl + 1 else sl)) qs (t, mx, mn, rows, sl) = (t', mx', mn', rows', sl') \<Longrightarrow>
   t' = t + sum_list (map qr_DurationMs qs) \<and> (\<forall>q \<in> set qs. mn' \<le> qr_DurationMs q \<and> qr_DurationMs q \<le> mx') \<and>
   mx' \<in> insert mx (qr_DurationMs ` set qs) \<and> mn' \<in> insert mn (qr_DurationMs ` set qs) \<and> mx \<le> mx' \<and> mn' \<le> mn \<and>
   rows' = rows + sum_list (map qr_RowsReturned qs) \<and> sl' = sl + int (length (filter (\<lambda>q. qr_DurationMs q > lim) qs))"
proof (induction qs arbitrary: t mx mn rows sl)
  case (Cons q qs)
  let ?mx = "if qr_DurationMs q > mx then qr_DurationMs q else mx" and ?mn = "if qr_DurationMs q < mn then qr_DurationMs q else mn"
  from Cons.prems have "fold (\<lambda>q (t, mx, mn, rows, sl). (t + qr_DurationMs q, if qr_DurationMs q > mx then qr_DurationMs q else mx,
       if qr_DurationMs q < mn then qr_DurationMs q else mn, rows + qr_RowsReturned q,
       if qr_DurationMs q > lim then sl + 1 else sl)) qs
     (t + qr_DurationMs q, ?mx, ?mn, rows + qr_RowsReturned q, if qr_DurationMs q > lim then sl + 1 else sl) = (t', mx', mn', rows', sl')"
    by simp
  from Cons.IH [OF this] show ?case by (auto split: if_splits)
qed simp

lemma sum_bounds: "(\<forall>x \<in> set xs. a \<le> f x \<and> f x \<le> (b :: int)) \<Longrightarrow> a * int (length xs) \<le> sum_list (map f xs) \<and> sum_list (map f xs) \<le> b * int (length xs)"
  by (induction xs) (auto simp: algebra_simps)

lemma sum_update:
  "map_of ps k = Some p \<Longrightarrow> sum_list (map (\<lambda>(_, p). f p) (AList.update k p' ps)) = sum_list (map (\<lambda>(_, p). f p) ps) - f p + (f p' :: int)"
  by (induction ps) auto

lemma pattern_counts:
  "sum_list (map (\<lambda>(_, p). qp_Count p) (fold bump_pattern qs ps)) = sum_list (map (\<lambda>(_, p). qp_Count p) ps) + int (length qs)"
proof (induction qs arbitrary: ps)
  case (Cons q qs)
  have "sum_list (map (\<lambda>(_, p). qp_Count p) (bump_pattern q ps)) = sum_list (map (\<lambda>(_, p). qp_Count p) ps) + 1"
    by (auto simp: bump_pattern_def Let_def sum_update [where f = qp_Count] split: option.split)
  then show ?case using Cons by simp
qed simp

text \<open>The mean of a window lies between its bounds.\<close>

lemma mean_between:
  assumes "0 < n" "0 \<le> a" "a * n \<le> t" "t \<le> b * n"
  shows "a \<le> int_quot t n \<and> int_quot t n \<le> b"
proof -
  have "0 \<le> t" using assms(1-3) by (meson less_imp_le mult_nonneg_nonneg order_trans)
  moreover have "a * n div n \<le> t div n" by (rule zdiv_mono1 [OF assms(3,1)])
  moreover have "t div n \<le> b * n div n" by (rule zdiv_mono1 [OF assms(4,1)])
  moreover have "a * n div n = a" "b * n div n = b" using assms(1) by simp_all
  ultimately show ?thesis by (simp only: int_quot_def not_less [symmetric] if_False simp_thms)
qed

lemma summary_fields:
  assumes "qs_queries qs \<noteq> []" "\<forall>q \<in> set (qs_queries qs). 0 \<le> qr_DurationMs q"
  shows "ss_TotalQueries (GetSummary qs) = int (length (qs_queries qs))"
    "ss_AvgDurationMs (GetSummary qs) = int_quot (sum_list (map qr_DurationMs (qs_queries qs))) (int (length (qs_queries qs)))"
    "ss_SlowQueries (GetSummary qs) = int (length (filter (\<lambda>q. qr_DurationMs q > qs_slowMs qs) (qs_queries qs)))"
    "ss_MinDurationMs (GetSummary qs) \<in> qr_DurationMs ` set (qs_queries qs)"
    "ss_MaxDurationMs (GetSummary qs) \<in> qr_DurationMs ` set (qs_queries qs)"
    "\<forall>q \<in> set (qs_queries qs). ss_MinDurationMs (GetSummary qs) \<le> qr_DurationMs q \<and> qr_DurationMs q \<le> ss_MaxDurationMs (GetSummary qs)"
proof -
  obtain q0 rest where qs: "qs_queries qs = q0 # rest" using assms(1) by (cases "qs_queries qs") auto
  let ?n = "int (length (qs_queries qs))"
  obtain t mx mn rows sl where run: "fold (\<lambda>q (t, mx, mn, rows, sl). (t + qr_DurationMs q, if qr_DurationMs q > mx then qr_DurationMs q else mx,
       if qr_DurationMs q < mn then qr_DurationMs q else mn, rows + qr_RowsReturned q,
       if qr_DurationMs q > qs_slowMs qs then sl + 1 else sl)) (qs_queries qs) (0, 0, qr_DurationMs q0, 0, 0 :: int) = (t, mx, mn, rows, sl)"
    by (rule prod_cases5)
  have "GetSummary qs = (let (t, mx, mn, rows, sl) = (t, mx, mn, rows, sl); n = ?n in
      \<lparr>ss_TotalQueries = n, ss_AvgDurationMs = int_quot t n, ss_MaxDurationMs = mx, ss_MinDurationMs = mn,
       ss_TotalRows = rows, ss_SlowQueries = sl, ss_SlowThresholdMs = qs_slowMs qs\<rparr>)"
    unfolding GetSummary_def run [symmetric] by (simp only: qs list.case)
  then have sum: "GetSummary qs = \<lparr>ss_TotalQueries = ?n, ss_AvgDurationMs = int_quot t ?n, ss_MaxDurationMs = mx, ss_MinDurationMs = mn,
      ss_TotalRows = rows, ss_SlowQueries = sl, ss_SlowThresholdMs = qs_slowMs qs\<rparr>"
    by (simp only: Let_def prod.case)
  note F = summary_fold [OF run]
  note t = F [THEN conjunct1] and bounds = F [THEN conjunct2, THEN conjunct1]
    and ends = F [THEN conjunct2, THEN conjunct2, THEN conjunct1] F [THEN conjunct2, THEN conjunct2, THEN conjunct2, THEN conjunct1]
    and sl = F [THEN conjunct2, THEN conjunct2, THEN conjunct2, THEN conjunct2, THEN conjunct2, THEN conjunct2, THEN conjunct2]
  have q0: "q0 \<in> set (qs_queries qs)" by (simp add: qs)
  have mx: "mx \<in> qr_DurationMs ` set (qs_queries qs)"
  proof (cases "mx = 0")
    case True
    have "0 \<le> qr_DurationMs q0" "qr_DurationMs q0 \<le> mx" using bounds q0 assms(2) by blast+
    then have "qr_DurationMs q0 = mx" using True by simp
    then show ?thesis using q0 by blast
  next
    case False
    then show ?thesis using ends(1) by blast
  qed
  have mn: "mn \<in> qr_DurationMs ` set (qs_queries qs)" using ends(2) q0 by blast
  show "ss_TotalQueries (GetSummary qs) = ?n" by (simp add: sum)
  show "ss_AvgDurationMs (GetSummary qs) = int_quot (sum_list (map qr_DurationMs (qs_queries qs))) ?n" using t by (simp add: sum)
  show "ss_SlowQueries (GetSummary qs) = int (length (filter (\<lambda>q. qr_DurationMs q > qs_slowMs qs) (qs_queries qs)))"
    using sl by (simp add: sum)
  show "ss_MinDurationMs (GetSummary qs) \<in> qr_DurationMs ` set (qs_queries qs)" using mn by (simp add: sum)
  show "ss_MaxDurationMs (GetSummary qs) \<in> qr_DurationMs ` set (qs_queries qs)" using mx by (simp add: sum)
  show "\<forall>q \<in> set (qs_queries qs). ss_MinDurationMs (GetSummary qs) \<le> qr_DurationMs q \<and> qr_DurationMs q \<le> ss_MaxDurationMs (GetSummary qs)"
    using bounds by (simp add: sum)
qed

lemma slow_queries:
  assumes "slice_sorts slower sortq"
  shows "length (GetSlowQueries sortq 0 qs) = length (filter (\<lambda>q. qr_DurationMs q > qs_slowMs qs) (qs_queries qs)) \<and>
    sorted_wrt (\<ge>) (map qr_DurationMs (GetSlowQueries sortq 0 qs))"
proof -
  let ?s = "filter (\<lambda>q. qr_DurationMs q > qs_slowMs qs) (qs_queries qs)"
  have run: "GetSlowQueries sortq 0 qs = sortq ?s" by (simp add: GetSlowQueries_def)
  have sorts: "mset (sortq ?s) = mset ?s" "sorted_wrt (\<lambda>a b. \<not> slower b a) (sortq ?s)"
    using assms unfolding slice_sorts_def by blast+
  have "length (sortq ?s) = length ?s" using arg_cong [OF sorts(1), of size] unfolding size_mset .
  moreover have "sorted_wrt (\<ge>) (map qr_DurationMs (sortq ?s))" using sorts(2) unfolding sorted_wrt_map slower_def not_less .
  ultimately show ?thesis unfolding run by blast
qed

lemma pattern_total:
  assumes "slice_sorts more_frequent sortp"
  shows "sum_list (map qp_Count (GetTopQueries sortp 0 qs)) = int (length (qs_queries qs))"
proof -
  let ?ps = "map (\<lambda>(_, p). p\<lparr>qp_AvgMs := int_quot (qp_TotalMs p) (qp_Count p)\<rparr>) (fold bump_pattern (qs_queries qs) [])"
  have "mset (sortp ?ps) = mset ?ps" using assms unfolding slice_sorts_def by blast
  then have "sum_mset (mset (map qp_Count (sortp ?ps))) = sum_mset (mset (map qp_Count ?ps))" by (simp only: mset_map)
  then have "sum_list (map qp_Count (sortp ?ps)) = sum_list (map qp_Count ?ps)" unfolding sum_mset_sum_list .
  also have "map qp_Count ?ps = map (\<lambda>(_, p). qp_Count p) (fold bump_pattern (qs_queries qs) [])"
    unfolding map_map by (rule map_cong [OF refl]) auto
  finally show ?thesis using pattern_counts [of "qs_queries qs" "[]"] by (simp add: GetTopQueries_def Let_def)
qed

text \<open>
  The summary agrees with itself and with the lists: the mean lies between the shortest and the longest duration, both of
  which occurred, slow queries are counted as they are listed (longest first), and the patterns count every query once.
\<close>

lemma summary_consistent:
  assumes "qs_queries qs \<noteq> []" "\<forall>q \<in> set (qs_queries qs). 0 \<le> qr_DurationMs q"
    and "slice_sorts slower sortq" "slice_sorts more_frequent sortp"
  shows "ss_MinDurationMs (GetSummary qs) \<le> ss_AvgDurationMs (GetSummary qs) \<and>
    ss_AvgDurationMs (GetSummary qs) \<le> ss_MaxDurationMs (GetSummary qs) \<and>
    ss_MinDurationMs (GetSummary qs) \<in> qr_DurationMs ` set (qs_queries qs) \<and>
    ss_MaxDurationMs (GetSummary qs) \<in> qr_DurationMs ` set (qs_queries qs) \<and>
    ss_SlowQueries (GetSummary qs) = int (length (GetSlowQueries sortq 0 qs)) \<and>
    sorted_wrt (\<ge>) (map qr_DurationMs (GetSlowQueries sortq 0 qs)) \<and>
    sum_list (map qp_Count (GetTopQueries sortp 0 qs)) = ss_TotalQueries (GetSummary qs)"
proof -
  let ?n = "int (length (qs_queries qs))" and ?mn = "ss_MinDurationMs (GetSummary qs)" and ?mx = "ss_MaxDurationMs (GetSummary qs)"
  note F = summary_fields [OF assms(1,2)]
  have "0 \<le> ?mn" using F(4) assms(2) by auto
  moreover have "?mn * ?n \<le> sum_list (map qr_DurationMs (qs_queries qs))" "sum_list (map qr_DurationMs (qs_queries qs)) \<le> ?mx * ?n"
    using sum_bounds [OF F(6)] by simp_all
  moreover have "0 < ?n" using assms(1) by simp
  ultimately have "?mn \<le> ss_AvgDurationMs (GetSummary qs) \<and> ss_AvgDurationMs (GetSummary qs) \<le> ?mx"
    unfolding F(2) using mean_between by blast
  then show ?thesis using F slow_queries [OF assms(3)] pattern_total [OF assms(4)] by simp
qed

section \<open>Normalising again changes nothing\<close>

definition in_name :: "char option \<Rightarrow> bool" where
  "in_name prev = (case prev of None \<Rightarrow> False | Some p \<Rightarrow> isAlphaChar p \<or> p = CHR ''_'')"

lemma in_name_digit: "(case prev of None \<Rightarrow> True | Some p \<Rightarrow> \<not> (isAlphaChar p \<or> p = CHR ''_'')) \<longleftrightarrow> \<not> in_name prev"
  by (simp add: in_name_def split: option.split)

lemma no_name: "\<not> in_name (Some (CHR 0x27))" "\<not> in_name (Some (CHR 0x22))" "CHR ''0'' \<le> c \<Longrightarrow> c \<le> CHR ''9'' \<Longrightarrow> \<not> in_name (Some c)"
  by (auto simp: in_name_def isAlphaChar_def less_eq_char_def)

lemma placeholder: "normalize_loop p None l (CHR ''?'' # cs) = CHR ''?'' # normalize_loop (Some (CHR ''?'')) None False cs"
  by (simp add: less_eq_char_def)

lemma kept_byte:
  assumes "c \<noteq> CHR 0x27" "c \<noteq> CHR 0x22" "\<not> (CHR ''0'' \<le> c \<and> c \<le> CHR ''9'' \<and> \<not> in_name prev)"
  shows "normalize_loop prev None l (c # cs) = c # normalize_loop (Some c) None False cs"
  using assms by (simp only: normalize_loop.simps in_name_digit simp_thms if_False)

lemma normalize_again:
  "(quote = None \<Longrightarrow> in_name prev \<Longrightarrow> in_name p) \<Longrightarrow> (\<forall>q. quote = Some q \<longrightarrow> q = CHR 0x27 \<or> q = CHR 0x22) \<Longrightarrow>
     normalize_loop p None l (normalize_loop prev quote last' cs) = normalize_loop prev quote last' cs"
proof (induction prev quote last' cs arbitrary: p l rule: normalize_loop.induct)
  case (2 prev q last' c cs)
  then show ?case using no_name by (cases "c = q") auto
next
  case (3 prev last' c cs)
  consider "c = CHR 0x27 \<or> c = CHR 0x22" | "c \<noteq> CHR 0x27" "c \<noteq> CHR 0x22" "CHR ''0'' \<le> c" "c \<le> CHR ''9''" "\<not> in_name prev"
    | "c \<noteq> CHR 0x27" "c \<noteq> CHR 0x22" "\<not> (CHR ''0'' \<le> c \<and> c \<le> CHR ''9'' \<and> \<not> in_name prev)" by blast
  then show ?case
  proof cases
    case 1
    have IH: "normalize_loop p None l (normalize_loop (Some c) (Some c) True cs) = normalize_loop (Some c) (Some c) True cs" for p l
      using 3(1) [of p l] 1 by simp
    show ?thesis using 1 IH by (auto simp: placeholder)
  next
    case 2
    have IH: "normalize_loop p None l (normalize_loop (Some c) None True cs) = normalize_loop (Some c) None True cs" for p l
      using 3(2) [of p l] 2 no_name(3) [of c] by (simp add: in_name_digit)
    show ?thesis using 2 IH by (simp add: in_name_digit placeholder)
  next
    case keep: 3
    have IH: "normalize_loop (Some c) None False (normalize_loop (Some c) None False cs) = normalize_loop (Some c) None False cs"
      using 3(3) [of "Some c" False] keep by (simp add: in_name_digit)
    have p: "\<not> (CHR ''0'' \<le> c \<and> c \<le> CHR ''9'' \<and> \<not> in_name p)" using keep(3) 3(4) by blast
    show ?thesis by (simp only: kept_byte [OF keep] kept_byte [OF keep(1,2) p] IH)
  qed
qed simp

lemma normalize_idempotent: "normalizeSQL (normalizeSQL sql) = normalizeSQL sql"
  unfolding normalizeSQL_def by (rule normalize_again) auto

end
