(* ===== verification/ServiceExamples.thy ===== *)
theory ServiceExamples
  imports Lineage QueryStats DemoCodec
begin

text \<open>Small inputs for the properties of lineage traces and query statistics.\<close>

section \<open>A lineage with a cycle\<close>

definition demo_item :: "bytes \<Rightarrow> bytes list \<Rightarrow> lineage" where
  "demo_item i srcs = \<lparr>li_DataID = i, li_SourceType = ''derived'', li_SourceIDs = srcs, li_Steps = [], li_DecisionIDs = [], li_CreatedAt = 1\<rparr>"

definition demo_lineage :: lineage_json where
  "demo_lineage =
     \<lparr>lineage_enc = \<lambda>l. (if l = demo_item (li_DataID l) (li_SourceIDs l) then Some (li_DataID l @ NUL # nul_join (li_SourceIDs l)) else None),
      lineage_dec = \<lambda>bs. (let (i, r) = nul_part bs in Some (demo_item i (nul_split [] r)))\<rparr>"

definition demo_sources :: kv where
  "demo_sources = fold (\<lambda>(i, srcs) s. snd (lineage_Record demo_lineage [] 1 (demo_item i srcs) s))
     [(''a'', [''b'', ''x'']), (''b'', [''c'', ''a'']), (''c'', [])] kv_empty"

lemma demo_sources_reachable: "lineage_reachable demo_lineage demo_sources"
proof -
  have add: "lineage_reachable demo_lineage (snd (lineage_Record demo_lineage [] 1 (demo_item i srcs) s))"
    if "lineage_reachable demo_lineage s" "i \<noteq> []" "NUL \<notin> set i" "\<forall>j \<in> set srcs. NUL \<notin> set j" for s i srcs
    using that
    by (intro lineage_reachable.recorded)
      (auto simp: lineage_round_trip_def demo_lineage_def lineage_defaults_def demo_item_def nul_split_join split: if_splits)
  show ?thesis
    unfolding demo_sources_def fold_simps comp_apply id_apply prod.case
    by (intro add lineage_reachable.empty) simp_all
qed

lemma trace_upstream_exact_witness:
  "\<exists>t. TraceUpstream demo_lineage demo_sources ''a'' 2 = Inr t \<and> tree_Depth t \<le> 3 \<and>
     set (tree_AllIDs t) = {j. \<exists>n \<le> 2. (upstream demo_lineage demo_sources ^^ n) ''a'' j} \<and>
     tree_AllIDs t = [''a'', ''b'', ''c'', ''a'']"
proof -
  have "stored_lineage demo_lineage demo_sources ''a'' \<noteq> None" by code_simp
  then obtain t where t: "TraceUpstream demo_lineage demo_sources ''a'' 2 = Inr t" "tree_Depth t \<le> 3"
    "set (tree_AllIDs t) = {j. \<exists>n \<le> 2. (upstream demo_lineage demo_sources ^^ n) ''a'' j}"
    using trace_upstream_exact [OF demo_sources_reachable, of "''a''" 2] by auto
  have "map_option tree_AllIDs (is_found (TraceUpstream demo_lineage demo_sources ''a'' 2)) = Some [''a'', ''b'', ''c'', ''a'']"
    by code_simp
  then show ?thesis using t by (simp add: is_found_def)
qed

section \<open>Statistics\<close>

definition demo_query :: "bytes \<Rightarrow> int \<Rightarrow> query_record" where
  "demo_query sql ms = \<lparr>qr_SQL = sql, qr_DurationMs = ms, qr_RowsReturned = 1, qr_Table = ''t'', qr_Timestamp = 0\<rparr>"

definition demo_stats :: query_stats where
  "demo_stats = fold stats_Record [demo_query ''q'' 9, demo_query ''a = 1'' 300, demo_query ''a = 27'' 10, demo_query ''b'' 200] (NewQueryStats 3 100)"

lemma sorts_slower: "slice_sorts slower (sort_key (\<lambda>q. - qr_DurationMs q))"
proof -
  have "sorted_wrt (\<lambda>a b. \<not> slower b a) (sort_key (\<lambda>q. - qr_DurationMs q) xs)" for xs
    using sorted_sort_key [of "\<lambda>q. - qr_DurationMs q" xs] by (simp add: sorted_wrt_map slower_def not_less)
  then show ?thesis by (simp add: slice_sorts_def)
qed

lemma sorts_frequent: "slice_sorts more_frequent (sort_key (\<lambda>p. - qp_Count p))"
proof -
  have "sorted_wrt (\<lambda>a b. \<not> more_frequent b a) (sort_key (\<lambda>p. - qp_Count p) xs)" for xs
    using sorted_sort_key [of "\<lambda>p. - qp_Count p" xs] by (simp add: sorted_wrt_map more_frequent_def not_less)
  then show ?thesis by (simp add: slice_sorts_def)
qed

lemma summary_consistent_witness:
  "ss_MinDurationMs (GetSummary demo_stats) \<le> ss_AvgDurationMs (GetSummary demo_stats) \<and>
   sum_list (map qp_Count (GetTopQueries (sort_key (\<lambda>p. - qp_Count p)) 0 demo_stats)) = ss_TotalQueries (GetSummary demo_stats) \<and>
   map qp_Pattern (GetTopQueries (sort_key (\<lambda>p. - qp_Count p)) 0 demo_stats) = [''a = ?'', ''b''] \<and>
   map qr_DurationMs (GetSlowQueries (sort_key (\<lambda>q. - qr_DurationMs q)) 0 demo_stats) = [300, 200]"
proof -
  have "qs_queries demo_stats \<noteq> []" by code_simp
  moreover have "\<forall>q \<in> set (qs_queries demo_stats). 0 \<le> qr_DurationMs q" by code_simp
  moreover have "map qp_Pattern (GetTopQueries (sort_key (\<lambda>p. - qp_Count p)) 0 demo_stats) = [''a = ?'', ''b'']" by code_simp
  moreover have "map qr_DurationMs (GetSlowQueries (sort_key (\<lambda>q. - qr_DurationMs q)) 0 demo_stats) = [300, 200]" by code_simp
  ultimately show ?thesis using summary_consistent [OF _ _ sorts_slower sorts_frequent, of demo_stats] by blast
qed

end
