(* ===== verification/CachedStore.thy ===== *)
theory CachedStore
  imports Cache Engine
begin

text \<open>
  An engine behind a cache: the contract of the cache as a locale, and what a client that writes through it keeps. The
  cache of \<^verbatim>\<open>internal/storage/cache.go\<close> meets the contract.
\<close>

section \<open>The contract\<close>

text \<open>\<open>look\<close> is what the cache holds; setting a key may drop others.\<close>

locale cache_contract =
  fixes look :: "'c \<Rightarrow> bytes \<Rightarrow> bytes option"
    and get :: "'c \<Rightarrow> bytes \<Rightarrow> bytes option \<times> 'c"
    and put :: "'c \<Rightarrow> bytes \<Rightarrow> bytes \<Rightarrow> 'c"
    and del :: "'c \<Rightarrow> bytes \<Rightarrow> 'c"
    and inv :: "'c \<Rightarrow> bool"
  assumes get_look: "inv c \<Longrightarrow> fst (get c k) = look c k"
    and look_get: "inv c \<Longrightarrow> look (snd (get c k)) = look c"
    and look_put: "inv c \<Longrightarrow> look (put c k v) j = Some w \<Longrightarrow> (if j = k then w = v else look c j = Some w)"
    and look_del: "inv c \<Longrightarrow> look (del c k) = (look c)(k := None)"
    and inv_get: "inv c \<Longrightarrow> inv (snd (get c k))"
    and inv_put: "inv c \<Longrightarrow> inv (put c k v)"
    and inv_del: "inv c \<Longrightarrow> inv (del c k)"
    and put_look: "inv c \<Longrightarrow> look (put c k v) k = Some v"
begin

text \<open>The cache holds only what the store \<open>s\<close> (a map) holds, under keys of \<open>K\<close>.\<close>

definition coherent :: "bytes set \<Rightarrow> (bytes \<Rightarrow> bytes option) \<Rightarrow> 'c \<Rightarrow> bool" where
  "coherent K s c \<longleftrightarrow> inv c \<and> (\<forall>k v. look c k = Some v \<longrightarrow> k \<in> K \<and> s k = Some v)"

lemma coherent_inv: "coherent K s c \<Longrightarrow> inv c"
  by (simp add: coherent_def)

lemma hit: "coherent K s c \<Longrightarrow> fst (get c k) = Some v \<Longrightarrow> s k = Some v"
  by (simp add: coherent_def get_look)

lemma coherent_get: "coherent K s c \<Longrightarrow> coherent K s (snd (get c k))"
  by (simp add: coherent_def look_get inv_get)

lemma coherent_fill: "coherent K s c \<Longrightarrow> k \<in> K \<Longrightarrow> s k = Some v \<Longrightarrow> coherent K s (put c k v)"
  using look_put [of c k v] by (fastforce simp: coherent_def inv_put split: if_splits)

lemma coherent_write: "coherent K s c \<Longrightarrow> k \<in> K \<Longrightarrow> coherent K (s(k \<mapsto> v)) (put c k v)"
  using look_put [of c k v] by (fastforce simp: coherent_def inv_put split: if_splits)

lemma coherent_delete: "coherent K s c \<Longrightarrow> coherent K (s(k := None)) (del c k)"
  by (auto simp: coherent_def look_del inv_del)

text \<open>Keys outside \<open>K\<close> may change.\<close>

lemma coherent_other: "coherent K s c \<Longrightarrow> (\<And>k. k \<in> K \<Longrightarrow> s' k = s k) \<Longrightarrow> coherent K s' c"
  by (auto simp: coherent_def)

text \<open>A key that is held is answered from the cache, whatever the store has come to hold since.\<close>

lemma stale: "inv c \<Longrightarrow> fst (get (put c k v) k) = Some v"
  by (simp add: get_look inv_put put_look)

end

section \<open>The LRU cache\<close>

lemma map_of_lru_forget: "map_of (lru_forget k l) = (map_of l)(k := None)"
  by (rule ext, induction l) (auto simp: lru_forget_def)

lemma map_of_butlast:
  assumes "map_of (butlast l) j = Some w"
  shows "map_of l j = Some w"
proof -
  have "l \<noteq> []" using assms by auto
  then have "map_of l = map_of [last l] ++ map_of (butlast l)" by (metis append_butlast_last_id map_of_append)
  then show ?thesis using assms by (simp add: map_add_find_right)
qed

interpretation lru: cache_contract "\<lambda>c. map_of (cache_abs c)" cache_get cache_set cache_delete cache_inv
proof
  fix c k v j w
  assume inv: "cache_inv c"
  show "fst (cache_get c k) = map_of (cache_abs c) k"
    by (simp add: cache_get_abs(1) [OF inv] lru_get_def split: option.split)
  show "map_of (cache_abs (snd (cache_get c k))) = map_of (cache_abs c)"
    by (auto simp: cache_get_abs(2) [OF inv] lru_get_def map_of_lru_forget fun_eq_iff split: option.split)
  show "map_of (cache_abs (cache_set c k v)) j = Some w \<Longrightarrow> if j = k then w = v else map_of (cache_abs c) j = Some w"
    using map_of_butlast by (auto simp: cache_set_abs [OF inv] lru_set_def map_of_lru_forget split: if_splits)
  show "map_of (cache_abs (cache_set c k v)) k = Some v"
    by (simp add: cache_set_abs [OF inv] lru_set_def)
  show "map_of (cache_abs (cache_delete c k)) = (map_of (cache_abs c))(k := None)"
    by (simp add: cache_delete_abs [OF inv] map_of_lru_forget)
qed (simp_all add: cache_inv_get cache_inv_set cache_inv_delete)

end
