(* ===== verification/Sessions.thy ===== *)
theory Sessions
  imports CachedStore
begin

text \<open>
  Model of \<^verbatim>\<open>internal/agent/session.go\<close>, \<^verbatim>\<open>session_enhanced.go\<close> and the sessions of \<^verbatim>\<open>internal/model\<close>: sessions as JSON
  under the session prefix with an index by agent, written through the cache; quotas, state transitions and the expiry of
  sessions. \<open>encoding/json\<close> is the record \<open>session_json\<close>, with what it makes of the bytes of a string; new identifiers
  and the clock are arguments.
\<close>

section \<open>Sessions\<close>

definition SessionActive :: bytes where "SessionActive = ''active''"
definition SessionPaused :: bytes where "SessionPaused = ''paused''"
definition SessionCompleted :: bytes where "SessionCompleted = ''completed''"
definition SessionFailed :: bytes where "SessionFailed = ''failed''"

record agent_session =
  se_ID :: bytes
  se_AgentID :: bytes
  se_State :: bytes
  se_Context :: "(bytes \<times> val) list"
  se_Metadata :: "(bytes \<times> val) list option"
  se_CreatedAt :: int
  se_UpdatedAt :: int

record session_json =
  session_enc :: "agent_session \<Rightarrow> bytes option"
  session_dec :: "bytes \<Rightarrow> agent_session option"
  session_utf8 :: "bytes \<Rightarrow> bytes"

datatype session_error = SessionMarshal | SessionNotFound bytes | SessionUnmarshal
  | QuotaReached bytes int | StateTransition bytes bytes

record session_store =
  sm_engine :: kv
  sm_cache :: cache

definition NewSession :: "int \<Rightarrow> bytes \<Rightarrow> (bytes \<times> val) list option \<Rightarrow> agent_session" where
  "NewSession now a metadata =
     \<lparr>se_ID = [], se_AgentID = a, se_State = SessionActive, se_Context = [], se_Metadata = metadata, se_CreatedAt = now, se_UpdatedAt = now\<rparr>"

definition session_key :: "bytes \<Rightarrow> bytes" where
  "session_key i = EncodeKey PrefixSession i"

definition agent_session_key :: "bytes \<Rightarrow> bytes \<Rightarrow> bytes" where
  "agent_session_key a i = EncodeIndexKey PrefixSession a i"

definition session_Create ::
    "session_json \<Rightarrow> bytes \<Rightarrow> int \<Rightarrow> bytes \<Rightarrow> (bytes \<times> val) list option \<Rightarrow> session_store \<Rightarrow> (session_error + agent_session) \<times> session_store" where
  "session_Create lib uuid now a metadata st =
     (let s = (NewSession now a metadata)\<lparr>se_ID := uuid\<rparr> in
      case session_enc lib s of
        None \<Rightarrow> (Inl SessionMarshal, st)
      | Some data \<Rightarrow>
          let key = session_key (se_ID s);
              kv = engine_set (sm_engine st) key data;
              kv = engine_set kv (agent_session_key (se_AgentID s) (se_ID s)) [CHR 0x01]
          in (Inr s, st\<lparr>sm_engine := kv, sm_cache := cache_set (sm_cache st) key data\<rparr>))"

definition session_decode :: "session_json \<Rightarrow> bytes \<Rightarrow> session_error + agent_session" where
  "session_decode lib data = (case session_dec lib data of None \<Rightarrow> Inl SessionUnmarshal | Some s \<Rightarrow> Inr s)"

definition session_Get :: "session_json \<Rightarrow> bytes \<Rightarrow> session_store \<Rightarrow> (session_error + agent_session) \<times> session_store" where
  "session_Get lib i st =
     (let key = session_key i; (hit, c) = cache_get (sm_cache st) key; st = st\<lparr>sm_cache := c\<rparr> in
      case hit of
        Some data \<Rightarrow> (session_decode lib data, st)
      | None \<Rightarrow>
          (case engine_get (sm_engine st) key of
             None \<Rightarrow> (Inl (SessionNotFound i), st)
           | Some data \<Rightarrow> (session_decode lib data, st\<lparr>sm_cache := cache_set (sm_cache st) key data\<rparr>)))"

definition session_Update :: "session_json \<Rightarrow> agent_session \<Rightarrow> session_store \<Rightarrow> session_error option \<times> session_store" where
  "session_Update lib s st =
     (case session_enc lib s of
        None \<Rightarrow> (Some SessionMarshal, st)
      | Some data \<Rightarrow>
          let key = session_key (se_ID s)
          in (None, st\<lparr>sm_engine := engine_set (sm_engine st) key data, sm_cache := cache_set (sm_cache st) key data\<rparr>))"

definition session_Delete :: "session_json \<Rightarrow> bytes \<Rightarrow> session_store \<Rightarrow> session_error option \<times> session_store" where
  "session_Delete lib i st =
     (case session_Get lib i st of
        (Inl e, st) \<Rightarrow> (Some e, st)
      | (Inr s, st) \<Rightarrow>
          let key = session_key i;
              kv = engine_delete (sm_engine st) key;
              kv = engine_delete kv (agent_session_key (se_AgentID s) (se_ID s))
          in (None, st\<lparr>sm_engine := kv, sm_cache := cache_delete (sm_cache st) key\<rparr>))"

text \<open>The sessions of a list of identifiers, each through the cache; those that are not found are left out.\<close>

fun session_get_all :: "session_json \<Rightarrow> bytes list \<Rightarrow> session_store \<Rightarrow> agent_session list \<times> session_store" where
  "session_get_all lib [] st = ([], st)"
| "session_get_all lib (i # ids) st =
     (let (r, st) = session_Get lib i st; (rest, st) = session_get_all lib ids st
      in (case r of Inl _ \<Rightarrow> rest | Inr s \<Rightarrow> s # rest, st))"

definition session_ListByAgent :: "session_json \<Rightarrow> bytes \<Rightarrow> int \<Rightarrow> session_store \<Rightarrow> agent_session list \<times> session_store" where
  "session_ListByAgent lib a limit st =
     session_get_all lib
       (map (\<lambda>(k, _). DecodeIndexID k)
         (iter_collect (engine_prefix_scan (sm_engine st) (agent_session_key a []) \<lparr>so_limit = limit, so_reverse = False\<rparr>))) st"

definition session_ListAll :: "session_json \<Rightarrow> int \<Rightarrow> session_store \<Rightarrow> agent_session list" where
  "session_ListAll lib limit st =
     List.map_filter (\<lambda>(k, v). if NUL \<in> set (tl k) then None else session_dec lib v)
       (iter_collect (engine_prefix_scan (sm_engine st) [PrefixSession] \<lparr>so_limit = limit, so_reverse = False\<rparr>))"

definition session_UpdateState :: "session_json \<Rightarrow> bytes \<Rightarrow> bytes \<Rightarrow> session_store \<Rightarrow> session_error option \<times> session_store" where
  "session_UpdateState lib i state st =
     (case session_Get lib i st of
        (Inl e, st) \<Rightarrow> (Some e, st)
      | (Inr s, st) \<Rightarrow> session_Update lib (s\<lparr>se_State := state\<rparr>) st)"

section \<open>Quotas and transitions\<close>

record session_config =
  sc_Timeout :: int
  sc_CleanupInterval :: int
  sc_MaxSessionsPerAgent :: int

definition DefaultSessionConfig :: session_config where
  "DefaultSessionConfig = \<lparr>sc_Timeout = 24 * 3600000000000, sc_CleanupInterval = 10 * 60000000000, sc_MaxSessionsPerAgent = 100\<rparr>"

definition validTransitions :: "bytes \<Rightarrow> bytes list option" where
  "validTransitions =
     [SessionActive \<mapsto> [SessionPaused, SessionCompleted, SessionFailed],
      SessionPaused \<mapsto> [SessionActive, SessionFailed],
      SessionCompleted \<mapsto> [],
      SessionFailed \<mapsto> [SessionActive]]"

definition canTransition :: "bytes \<Rightarrow> bytes \<Rightarrow> bool" where
  "canTransition from to = (case validTransitions from of None \<Rightarrow> False | Some targets \<Rightarrow> to \<in> set targets)"

definition TransitionState :: "session_json \<Rightarrow> int \<Rightarrow> bytes \<Rightarrow> bytes \<Rightarrow> session_store \<Rightarrow> session_error option \<times> session_store" where
  "TransitionState lib now i newState st =
     (case session_Get lib i st of
        (Inl e, st) \<Rightarrow> (Some e, st)
      | (Inr s, st) \<Rightarrow>
          if \<not> canTransition (se_State s) newState then (Some (StateTransition (se_State s) newState), st)
          else session_Update lib (s\<lparr>se_State := newState, se_UpdatedAt := now\<rparr>) st)"

definition session_Pause :: "session_json \<Rightarrow> int \<Rightarrow> bytes \<Rightarrow> session_store \<Rightarrow> session_error option \<times> session_store" where
  "session_Pause lib now i st = TransitionState lib now i SessionPaused st"

definition session_Resume :: "session_json \<Rightarrow> int \<Rightarrow> bytes \<Rightarrow> session_store \<Rightarrow> session_error option \<times> session_store" where
  "session_Resume lib now i st = TransitionState lib now i SessionActive st"

definition session_Complete :: "session_json \<Rightarrow> int \<Rightarrow> bytes \<Rightarrow> session_store \<Rightarrow> session_error option \<times> session_store" where
  "session_Complete lib now i st = TransitionState lib now i SessionCompleted st"

definition session_Fail :: "session_json \<Rightarrow> int \<Rightarrow> bytes \<Rightarrow> session_store \<Rightarrow> session_error option \<times> session_store" where
  "session_Fail lib now i st = TransitionState lib now i SessionFailed st"

definition Heartbeat :: "session_json \<Rightarrow> int \<Rightarrow> bytes \<Rightarrow> session_store \<Rightarrow> session_error option \<times> session_store" where
  "Heartbeat lib now i st =
     (case session_Get lib i st of
        (Inl e, st) \<Rightarrow> (Some e, st)
      | (Inr s, st) \<Rightarrow> session_Update lib (s\<lparr>se_UpdatedAt := now\<rparr>) st)"

definition is_live :: "agent_session \<Rightarrow> bool" where
  "is_live s \<longleftrightarrow> se_State s = SessionActive \<or> se_State s = SessionPaused"

definition ListActiveByAgent :: "session_json \<Rightarrow> bytes \<Rightarrow> session_store \<Rightarrow> agent_session list \<times> session_store" where
  "ListActiveByAgent lib a st = (let (all, st) = session_ListByAgent lib a 0 st in (filter is_live all, st))"

definition enhanced_Create ::
    "session_json \<Rightarrow> session_config \<Rightarrow> bytes \<Rightarrow> int \<Rightarrow> bytes \<Rightarrow> (bytes \<times> val) list option \<Rightarrow> session_store \<Rightarrow>
       (session_error + agent_session) \<times> session_store" where
  "enhanced_Create lib cfg uuid now a metadata st =
     (if sc_MaxSessionsPerAgent cfg > 0
      then let (sessions, st) = ListActiveByAgent lib a st in
        if int (length sessions) \<ge> sc_MaxSessionsPerAgent cfg then (Inl (QuotaReached a (sc_MaxSessionsPerAgent cfg)), st)
        else session_Create lib uuid now a metadata st
      else session_Create lib uuid now a metadata st)"

text \<open>
  One round of the clean-up: sessions that have not been updated for longer than the timeout have failed. \<open>clock\<close> is
  the time at which a session's transition is made; the difference of two times saturates.
\<close>

definition expire_session ::
    "session_json \<Rightarrow> session_config \<Rightarrow> int \<Rightarrow> (bytes \<Rightarrow> int) \<Rightarrow> agent_session \<Rightarrow> session_store \<Rightarrow> session_store" where
  "expire_session lib cfg now clock s st =
     (if \<not> is_live s then st
      else if max (- (2 ^ 63)) (min (2 ^ 63 - 1) (now - se_UpdatedAt s)) > sc_Timeout cfg
        then snd (TransitionState lib (clock (se_ID s)) (se_ID s) SessionFailed st) else st)"

definition cleanupExpired :: "session_json \<Rightarrow> session_config \<Rightarrow> int \<Rightarrow> (bytes \<Rightarrow> int) \<Rightarrow> session_store \<Rightarrow> session_store" where
  "cleanupExpired lib cfg now clock st = fold (expire_session lib cfg now clock) (session_ListAll lib 0 st) st"

end
