(* ===== verification/SessionsProps.thy ===== *)
theory SessionsProps
  imports Sessions
begin

text \<open>
  The cache in front of the sessions cannot be seen: every run answers, and leaves the engine, as the operations written
  without a cache do. On those the state machine of the sessions is proved.
\<close>

section \<open>The operations without a cache\<close>

definition plain_Get :: "session_json \<Rightarrow> bytes \<Rightarrow> kv \<Rightarrow> session_error + agent_session" where
  "plain_Get lib i kv =
     (case engine_get kv (session_key i) of None \<Rightarrow> Inl (SessionNotFound i) | Some data \<Rightarrow> session_decode lib data)"

definition plain_Update :: "session_json \<Rightarrow> agent_session \<Rightarrow> kv \<Rightarrow> session_error option \<times> kv" where
  "plain_Update lib s kv =
     (case session_enc lib s of
        None \<Rightarrow> (Some SessionMarshal, kv)
      | Some data \<Rightarrow> (None, engine_set kv (session_key (se_ID s)) data))"

text \<open>Change the session that is stored under an identifier, unless the change is refused.\<close>

definition plain_change ::
    "session_json \<Rightarrow> bytes \<Rightarrow> (agent_session \<Rightarrow> session_error + agent_session) \<Rightarrow> kv \<Rightarrow> session_error option \<times> kv" where
  "plain_change lib i f kv =
     (case plain_Get lib i kv of
        Inl e \<Rightarrow> (Some e, kv)
      | Inr s \<Rightarrow> (case f s of Inl e \<Rightarrow> (Some e, kv) | Inr s \<Rightarrow> plain_Update lib s kv))"

definition plain_Create ::
    "session_json \<Rightarrow> bytes \<Rightarrow> int \<Rightarrow> bytes \<Rightarrow> (bytes \<times> val) list option \<Rightarrow> kv \<Rightarrow> (session_error + agent_session) \<times> kv" where
  "plain_Create lib uuid now a metadata kv =
     (let s = (NewSession now a metadata)\<lparr>se_ID := uuid\<rparr> in
      case plain_Update lib s kv of
        (Some e, kv) \<Rightarrow> (Inl e, kv)
      | (None, kv) \<Rightarrow> (Inr s, engine_set kv (agent_session_key a uuid) [CHR 0x01]))"

definition plain_Delete :: "session_json \<Rightarrow> bytes \<Rightarrow> kv \<Rightarrow> session_error option \<times> kv" where
  "plain_Delete lib i kv =
     (case plain_Get lib i kv of
        Inl e \<Rightarrow> (Some e, kv)
      | Inr s \<Rightarrow> (None, engine_delete (engine_delete kv (session_key i)) (agent_session_key (se_AgentID s) (se_ID s))))"

definition move_state :: "int \<Rightarrow> bytes \<Rightarrow> agent_session \<Rightarrow> session_error + agent_session" where
  "move_state now state s =
     (if canTransition (se_State s) state then Inr (s\<lparr>se_State := state, se_UpdatedAt := now\<rparr>)
      else Inl (StateTransition (se_State s) state))"

definition plain_ListByAgent :: "session_json \<Rightarrow> bytes \<Rightarrow> int \<Rightarrow> kv \<Rightarrow> agent_session list" where
  "plain_ListByAgent lib a limit kv =
     List.map_filter (\<lambda>i. case plain_Get lib i kv of Inl _ \<Rightarrow> None | Inr s \<Rightarrow> Some s)
       (map (\<lambda>(k, _). DecodeIndexID k)
         (iter_collect (engine_prefix_scan kv (agent_session_key a []) \<lparr>so_limit = limit, so_reverse = False\<rparr>)))"

definition plain_ListAll :: "session_json \<Rightarrow> int \<Rightarrow> kv \<Rightarrow> agent_session list" where
  "plain_ListAll lib limit kv =
     List.map_filter (\<lambda>(k, v). if NUL \<in> set (tl k) then None else session_dec lib v)
       (iter_collect (engine_prefix_scan kv [PrefixSession] \<lparr>so_limit = limit, so_reverse = False\<rparr>))"

definition overdue :: "session_config \<Rightarrow> int \<Rightarrow> agent_session \<Rightarrow> bool" where
  "overdue cfg now s \<longleftrightarrow> is_live s \<and> max (- (2 ^ 63)) (min (2 ^ 63 - 1) (now - se_UpdatedAt s)) > sc_Timeout cfg"

definition plain_cleanup :: "session_json \<Rightarrow> session_config \<Rightarrow> int \<Rightarrow> (bytes \<Rightarrow> int) \<Rightarrow> kv \<Rightarrow> kv" where
  "plain_cleanup lib cfg now clock kv =
     fold (\<lambda>s kv. snd (plain_change lib (se_ID s) (move_state (clock (se_ID s)) SessionFailed) kv))
       (filter (overdue cfg now) (plain_ListAll lib 0 kv)) kv"

section \<open>Sequences of operations\<close>

datatype session_op =
    OpCreate bytes int bytes "(bytes \<times> val) list option"
  | OpGet bytes
  | OpUpdate agent_session
  | OpUpdateState bytes bytes
  | OpDeleteSession bytes
  | OpTransition int bytes bytes
  | OpHeartbeat int bytes
  | OpList bytes int
  | OpListActive bytes
  | OpListAll int
  | OpCleanup int "bytes \<Rightarrow> int"

datatype session_reply = OneSession "session_error + agent_session" | Outcome "session_error option" | Sessions "agent_session list"

text \<open>The checked manager answers: it creates within the quota.\<close>

fun session_step :: "session_json \<Rightarrow> session_config \<Rightarrow> session_op \<Rightarrow> session_store \<Rightarrow> session_reply \<times> session_store" where
  "session_step lib cfg (OpCreate uuid now a m) st = map_prod OneSession (\<lambda>st. st) (enhanced_Create lib cfg uuid now a m st)"
| "session_step lib cfg (OpGet i) st = map_prod OneSession (\<lambda>st. st) (session_Get lib i st)"
| "session_step lib cfg (OpUpdate s) st = map_prod Outcome (\<lambda>st. st) (session_Update lib s st)"
| "session_step lib cfg (OpUpdateState i state) st = map_prod Outcome (\<lambda>st. st) (session_UpdateState lib i state st)"
| "session_step lib cfg (OpDeleteSession i) st = map_prod Outcome (\<lambda>st. st) (session_Delete lib i st)"
| "session_step lib cfg (OpTransition now i state) st = map_prod Outcome (\<lambda>st. st) (TransitionState lib now i state st)"
| "session_step lib cfg (OpHeartbeat now i) st = map_prod Outcome (\<lambda>st. st) (Heartbeat lib now i st)"
| "session_step lib cfg (OpList a limit) st = map_prod Sessions (\<lambda>st. st) (session_ListByAgent lib a limit st)"
| "session_step lib cfg (OpListActive a) st = map_prod Sessions (\<lambda>st. st) (ListActiveByAgent lib a st)"
| "session_step lib cfg (OpListAll limit) st = (Sessions (session_ListAll lib limit st), st)"
| "session_step lib cfg (OpCleanup now clock) st = (Outcome None, cleanupExpired lib cfg now clock st)"

fun plain_step :: "session_json \<Rightarrow> session_config \<Rightarrow> session_op \<Rightarrow> kv \<Rightarrow> session_reply \<times> kv" where
  "plain_step lib cfg (OpCreate uuid now a m) kv =
     (let n = int (length (filter is_live (plain_ListByAgent lib a 0 kv))); most = sc_MaxSessionsPerAgent cfg in
      if most > 0 \<and> n \<ge> most then (OneSession (Inl (QuotaReached a most)), kv)
      else map_prod OneSession (\<lambda>kv. kv) (plain_Create lib uuid now a m kv))"
| "plain_step lib cfg (OpGet i) kv = (OneSession (plain_Get lib i kv), kv)"
| "plain_step lib cfg (OpUpdate s) kv = map_prod Outcome (\<lambda>kv. kv) (plain_Update lib s kv)"
| "plain_step lib cfg (OpUpdateState i state) kv =
     map_prod Outcome (\<lambda>kv. kv) (plain_change lib i (\<lambda>s. Inr (s\<lparr>se_State := state\<rparr>)) kv)"
| "plain_step lib cfg (OpDeleteSession i) kv = map_prod Outcome (\<lambda>kv. kv) (plain_Delete lib i kv)"
| "plain_step lib cfg (OpTransition now i state) kv = map_prod Outcome (\<lambda>kv. kv) (plain_change lib i (move_state now state) kv)"
| "plain_step lib cfg (OpHeartbeat now i) kv =
     map_prod Outcome (\<lambda>kv. kv) (plain_change lib i (\<lambda>s. Inr (s\<lparr>se_UpdatedAt := now\<rparr>)) kv)"
| "plain_step lib cfg (OpList a limit) kv = (Sessions (plain_ListByAgent lib a limit kv), kv)"
| "plain_step lib cfg (OpListActive a) kv = (Sessions (filter is_live (plain_ListByAgent lib a 0 kv)), kv)"
| "plain_step lib cfg (OpListAll limit) kv = (Sessions (plain_ListAll lib limit kv), kv)"
| "plain_step lib cfg (OpCleanup now clock) kv = (Outcome None, plain_cleanup lib cfg now clock kv)"

fun run_steps :: "('o \<Rightarrow> 's \<Rightarrow> 'r \<times> 's) \<Rightarrow> 'o list \<Rightarrow> 's \<Rightarrow> 'r list \<times> 's" where
  "run_steps f [] s = ([], s)"
| "run_steps f (x # xs) s = (let (r, s) = f x s; (rs, s) = run_steps f xs s in (r # rs, s))"

section \<open>Invariant\<close>

text \<open>What \<open>encoding/json\<close> keeps: strings of ASCII characters, and every string it has itself produced.\<close>

definition json_keeps_text :: "session_json \<Rightarrow> bool" where
  "json_keeps_text lib \<longleftrightarrow>
     (\<forall>t. (\<forall>c \<in> set t. byte_val c < 128) \<longrightarrow> session_utf8 lib t = t) \<and>
     (\<forall>d s. session_dec lib d = Some s \<longrightarrow> session_utf8 lib (se_ID s) = se_ID s \<and> session_utf8 lib (se_State s) = se_State s) \<and>
     (\<forall>s d s'. session_enc lib s = Some d \<and> session_dec lib d = Some s' \<longrightarrow>
        se_ID s' = session_utf8 lib (se_ID s) \<and> se_State s' = session_utf8 lib (se_State s))"

definition id_ok :: "session_json \<Rightarrow> bytes \<Rightarrow> bool" where
  "id_ok lib i \<longleftrightarrow> NUL \<notin> set i \<and> session_utf8 lib i = i"

fun session_op_ok :: "session_json \<Rightarrow> session_op \<Rightarrow> bool" where
  "session_op_ok lib (OpCreate uuid now a m) \<longleftrightarrow> id_ok lib uuid \<and> NUL \<notin> set a"
| "session_op_ok lib (OpUpdate s) \<longleftrightarrow> id_ok lib (se_ID s)"
| "session_op_ok lib (OpGet i) \<longleftrightarrow> NUL \<notin> set i"
| "session_op_ok lib (OpUpdateState i state) \<longleftrightarrow> NUL \<notin> set i"
| "session_op_ok lib (OpDeleteSession i) \<longleftrightarrow> NUL \<notin> set i"
| "session_op_ok lib (OpTransition now i state) \<longleftrightarrow> NUL \<notin> set i"
| "session_op_ok lib (OpHeartbeat now i) \<longleftrightarrow> NUL \<notin> set i"
| "session_op_ok lib (OpList a limit) \<longleftrightarrow> NUL \<notin> set a"
| "session_op_ok lib (OpListActive a) \<longleftrightarrow> NUL \<notin> set a"
| "session_op_ok lib (OpListAll limit) \<longleftrightarrow> True"
| "session_op_ok lib (OpCleanup now clock) \<longleftrightarrow> True"

text \<open>Every stored session carries the identifier it is stored under, and the index lists only such identifiers.\<close>

definition sessions_ok :: "session_json \<Rightarrow> kv \<Rightarrow> bool" where
  "sessions_ok lib kv \<longleftrightarrow>
     kv_ok kv \<and>
     (\<forall>a i. NUL \<notin> set a \<and> engine_get kv (agent_session_key a i) \<noteq> None \<longrightarrow> NUL \<notin> set i) \<and>
     (\<forall>i d s. NUL \<notin> set i \<and> engine_get kv (session_key i) = Some d \<and> session_dec lib d = Some s \<longrightarrow> se_ID s = i)"

definition session_keys :: "bytes set" where
  "session_keys = {session_key i | i. NUL \<notin> set i}"

definition session_inv :: "session_json \<Rightarrow> session_store \<Rightarrow> bool" where
  "session_inv lib st \<longleftrightarrow> sessions_ok lib (sm_engine st) \<and> lru.coherent session_keys (engine_get (sm_engine st)) (sm_cache st)"

lemma session_keys_iff [simp]: "session_key i \<in> session_keys \<longleftrightarrow> NUL \<notin> set i"
  by (auto simp: session_keys_def session_key_def)

lemma agent_key_neq [simp]: "NUL \<notin> set i \<Longrightarrow> agent_session_key a j \<noteq> session_key i" "NUL \<notin> set i \<Longrightarrow> session_key i \<noteq> agent_session_key a j"
  using EncodeIndexKey_neq_EncodeKey by (metis agent_session_key_def session_key_def)+

lemma session_key_inject [simp]: "session_key i = session_key j \<longleftrightarrow> i = j"
  by (simp add: session_key_def)

lemma agent_key_inject [simp]:
  "NUL \<notin> set a \<Longrightarrow> NUL \<notin> set b \<Longrightarrow> agent_session_key a i = agent_session_key b j \<longleftrightarrow> a = b \<and> i = j"
  by (simp add: agent_session_key_def EncodeIndexKey_inject)

lemma sessions_ok_kv: "sessions_ok lib kv \<Longrightarrow> kv_ok kv"
  by (simp add: sessions_ok_def)

lemma plain_Get_id: "sessions_ok lib kv \<Longrightarrow> NUL \<notin> set i \<Longrightarrow> plain_Get lib i kv = Inr s \<Longrightarrow> se_ID s = i"
  by (auto simp: sessions_ok_def plain_Get_def session_decode_def split: option.splits)

lemma plain_Get_utf8:
  "json_keeps_text lib \<Longrightarrow> plain_Get lib i kv = Inr s \<Longrightarrow> session_utf8 lib (se_ID s) = se_ID s \<and> session_utf8 lib (se_State s) = se_State s"
  by (auto simp: json_keeps_text_def plain_Get_def session_decode_def split: option.splits)

lemma sessions_ok_write:
  assumes "json_keeps_text lib" "sessions_ok lib kv" "id_ok lib (se_ID s)" "session_enc lib s = Some d"
  shows "sessions_ok lib (engine_set kv (session_key (se_ID s)) d)"
  using assms unfolding sessions_ok_def json_keeps_text_def id_ok_def by (auto simp: kv_simps split: if_splits)

lemma sessions_ok_index:
  assumes "sessions_ok lib kv" "NUL \<notin> set a" "NUL \<notin> set i"
  shows "sessions_ok lib (engine_set kv (agent_session_key a i) v)"
  using assms unfolding sessions_ok_def by (auto simp: kv_simps split: if_splits)

lemma sessions_ok_delete: "sessions_ok lib kv \<Longrightarrow> sessions_ok lib (engine_delete kv k)"
  unfolding sessions_ok_def by (auto simp: kv_simps split: if_splits)

section \<open>Each operation and its plain form\<close>

definition agrees :: "session_json \<Rightarrow> ('r \<times> session_store) \<Rightarrow> ('r \<times> kv) \<Rightarrow> bool" where
  "agrees lib x y \<longleftrightarrow> fst x = fst y \<and> sm_engine (snd x) = snd y \<and> session_inv lib (snd x)"

lemma agrees_elim:
  assumes "agrees lib x (r, kv)"
  obtains st where "x = (r, st)" "sm_engine st = kv" "session_inv lib st"
  using assms by (cases x) (auto simp: agrees_def)

lemma Get_agrees:
  assumes "session_inv lib st" "NUL \<notin> set i"
  shows "agrees lib (session_Get lib i st) (plain_Get lib i (sm_engine st), sm_engine st)"
proof -
  obtain h c where g: "cache_get (sm_cache st) (session_key i) = (h, c)" by force
  have ok: "sessions_ok lib (sm_engine st)" and coh: "lru.coherent session_keys (engine_get (sm_engine st)) (sm_cache st)"
    using assms(1) by (simp_all add: session_inv_def)
  have c: "lru.coherent session_keys (engine_get (sm_engine st)) c"
    using lru.coherent_get [OF coh, of "session_key i"] g by simp
  have hit: "h = Some v \<Longrightarrow> engine_get (sm_engine st) (session_key i) = Some v" for v
    using lru.hit [OF coh, of "session_key i" v] g by simp
  show ?thesis
    using ok c hit assms(2)
    by (auto simp: agrees_def session_Get_def g plain_Get_def session_inv_def Let_def intro!: lru.coherent_fill split: option.split)
qed

lemma Update_agrees:
  assumes "json_keeps_text lib" "session_inv lib st" "id_ok lib (se_ID s)"
  shows "agrees lib (session_Update lib s st) (plain_Update lib s (sm_engine st))"
proof (cases "session_enc lib s")
  case None
  then show ?thesis using assms by (simp add: agrees_def session_Update_def plain_Update_def)
next
  case (Some d)
  have coh: "lru.coherent session_keys (engine_get (sm_engine st)) (sm_cache st)"
    using assms(2) by (simp add: session_inv_def)
  have "engine_get (engine_set (sm_engine st) k d) = (engine_get (sm_engine st))(k \<mapsto> d)" for k
    by (simp add: fun_eq_iff kv_simps)
  then show ?thesis
    using assms sessions_ok_write [OF assms(1) _ assms(3) Some] lru.coherent_write [OF coh]
    by (simp add: agrees_def session_Update_def plain_Update_def Some session_inv_def id_ok_def Let_def)
qed


text \<open>A change of a stored session: what the code does with its result is the plain change.\<close>

lemma change_agrees:
  assumes keeps: "json_keeps_text lib" and inv: "session_inv lib st" and i: "NUL \<notin> set i"
    and f: "\<And>s s'. f s = Inr s' \<Longrightarrow> se_ID s' = se_ID s"
  shows "agrees lib
     (case session_Get lib i st of
        (Inl e, st) \<Rightarrow> (Some e, st)
      | (Inr s, st) \<Rightarrow> (case f s of Inl e \<Rightarrow> (Some e, st) | Inr s \<Rightarrow> session_Update lib s st))
     (plain_change lib i f (sm_engine st))"
proof -
  obtain st' where g: "session_Get lib i st = (plain_Get lib i (sm_engine st), st')"
    and st': "sm_engine st' = sm_engine st" "session_inv lib st'"
    using Get_agrees [OF inv i] by (rule agrees_elim)
  have ok: "sessions_ok lib (sm_engine st)" using inv by (simp add: session_inv_def)
  have "agrees lib (session_Update lib s' st') (plain_Update lib s' (sm_engine st))"
    if "plain_Get lib i (sm_engine st) = Inr s" "f s = Inr s'" for s s'
  proof -
    have "id_ok lib (se_ID s')"
      using plain_Get_id [OF ok i that(1)] plain_Get_utf8 [OF keeps that(1)] f [OF that(2)] i by (simp add: id_ok_def)
    then show ?thesis using Update_agrees [OF keeps st'(2)] st'(1) by simp
  qed
  then show ?thesis
    using st' by (auto simp: g plain_change_def agrees_def split: sum.split)
qed

lemma UpdateState_agrees:
  assumes "json_keeps_text lib" "session_inv lib st" "NUL \<notin> set i"
  shows "agrees lib (session_UpdateState lib i state st) (plain_change lib i (\<lambda>s. Inr (s\<lparr>se_State := state\<rparr>)) (sm_engine st))"
  using change_agrees [where f = "\<lambda>s. Inr (s\<lparr>se_State := state\<rparr>)", OF assms] by (simp add: session_UpdateState_def cong: sum.case_cong prod.case_cong)

lemma Heartbeat_agrees:
  assumes "json_keeps_text lib" "session_inv lib st" "NUL \<notin> set i"
  shows "agrees lib (Heartbeat lib now i st) (plain_change lib i (\<lambda>s. Inr (s\<lparr>se_UpdatedAt := now\<rparr>)) (sm_engine st))"
  using change_agrees [where f = "\<lambda>s. Inr (s\<lparr>se_UpdatedAt := now\<rparr>)", OF assms] by (simp add: Heartbeat_def cong: sum.case_cong prod.case_cong)

lemma Transition_agrees:
  assumes "json_keeps_text lib" "session_inv lib st" "NUL \<notin> set i"
  shows "agrees lib (TransitionState lib now i state st) (plain_change lib i (move_state now state) (sm_engine st))"
proof -
  have eq: "TransitionState lib now i state st =
     (case session_Get lib i st of
        (Inl e, st) \<Rightarrow> (Some e, st)
      | (Inr s, st) \<Rightarrow> (case move_state now state s of Inl e \<Rightarrow> (Some e, st) | Inr s \<Rightarrow> session_Update lib s st))"
    by (simp add: TransitionState_def move_state_def split: prod.split sum.split)
  show ?thesis
    unfolding eq by (rule change_agrees [OF assms]) (auto simp: move_state_def split: if_splits)
qed

lemma Create_agrees:
  assumes keeps: "json_keeps_text lib" and inv: "session_inv lib st" and ok: "id_ok lib uuid" "NUL \<notin> set a"
  shows "agrees lib (session_Create lib uuid now a m st) (plain_Create lib uuid now a m (sm_engine st))"
proof -
  define s where "s = (NewSession now a m)\<lparr>se_ID := uuid\<rparr>"
  have s: "se_ID s = uuid" "se_AgentID s = a" by (simp_all add: s_def NewSession_def)
  have up: "agrees lib (session_Update lib s st) (plain_Update lib s (sm_engine st))"
    using Update_agrees [OF keeps inv] ok(1) s(1) by simp
  have uuid: "NUL \<notin> set uuid" using ok(1) by (simp add: id_ok_def)
  show ?thesis
  proof (cases "session_enc lib s")
    case None
    then show ?thesis
      using inv by (simp add: session_Create_def plain_Create_def plain_Update_def agrees_def flip: s_def)
  next
    case (Some d)
    let ?kv = "engine_set (sm_engine st) (session_key uuid) d"
    let ?c = "cache_set (sm_cache st) (session_key uuid) d"
    have kv: "sessions_ok lib ?kv" "lru.coherent session_keys (engine_get ?kv) ?c"
      using up Some s(1) by (simp_all add: agrees_def session_Update_def plain_Update_def session_inv_def Let_def)
    have "sessions_ok lib (engine_set ?kv (agent_session_key a uuid) v)" for v
      using sessions_ok_index [OF kv(1) ok(2) uuid] .
    moreover have "lru.coherent session_keys (engine_get (engine_set ?kv (agent_session_key a uuid) v)) ?c" for v
      by (rule lru.coherent_other [OF kv(2)]) (auto simp: session_keys_def kv_simps)
    ultimately show ?thesis
      by (simp add: session_Create_def plain_Create_def plain_Update_def Some s agrees_def session_inv_def Let_def flip: s_def)
  qed
qed

lemma Delete_agrees:
  assumes inv: "session_inv lib st" and i: "NUL \<notin> set i"
  shows "agrees lib (session_Delete lib i st) (plain_Delete lib i (sm_engine st))"
proof -
  obtain st' where g: "session_Get lib i st = (plain_Get lib i (sm_engine st), st')"
    and st': "sm_engine st' = sm_engine st" "session_inv lib st'"
    using Get_agrees [OF inv i] by (rule agrees_elim)
  have coh: "lru.coherent session_keys (engine_get (sm_engine st)) (sm_cache st')"
    and ok: "sessions_ok lib (sm_engine st)"
    using st' by (simp_all add: session_inv_def)
  have "lru.coherent session_keys (engine_get (engine_delete (engine_delete (sm_engine st) (session_key i)) k)) (cache_delete (sm_cache st') (session_key i))"
    if "k \<notin> session_keys" for k
    using that by (intro lru.coherent_other [OF lru.coherent_delete [OF coh, of "session_key i"]]) (auto simp: kv_simps)
  moreover have "agent_session_key a j \<notin> session_keys" for a j
    using agent_key_neq(1) by (auto simp: session_keys_def simp del: agent_key_neq)
  ultimately show ?thesis
    using st' sessions_ok_delete [OF sessions_ok_delete [OF ok]]
    by (auto simp: session_Delete_def g plain_Delete_def agrees_def session_inv_def Let_def split: sum.split)
qed

text \<open>The lists.\<close>

lemma get_all_agrees:
  assumes "session_inv lib st" "\<forall>i \<in> set ids. NUL \<notin> set i"
  shows "agrees lib (session_get_all lib ids st)
    (List.map_filter (\<lambda>i. case plain_Get lib i (sm_engine st) of Inl _ \<Rightarrow> None | Inr s \<Rightarrow> Some s) ids, sm_engine st)"
  using assms
proof (induction ids arbitrary: st)
  case Nil
  then show ?case by (simp add: agrees_def map_filter_simps)
next
  case (Cons i ids)
  obtain st1 where g: "session_Get lib i st = (plain_Get lib i (sm_engine st), st1)"
    and st1: "sm_engine st1 = sm_engine st" "session_inv lib st1"
    using Get_agrees [OF Cons.prems(1), of i] Cons.prems(2) by (auto elim!: agrees_elim)
  obtain st2 where r: "session_get_all lib ids st1 =
      (List.map_filter (\<lambda>i. case plain_Get lib i (sm_engine st) of Inl _ \<Rightarrow> None | Inr s \<Rightarrow> Some s) ids, st2)"
    and st2: "sm_engine st2 = sm_engine st" "session_inv lib st2"
    using Cons.IH [OF st1(2)] Cons.prems(2) st1(1) by (auto elim!: agrees_elim)
  show ?case
    using st2 by (simp add: g r agrees_def map_filter_simps split: sum.split)
qed

lemma listed_ids_ok:
  assumes ok: "sessions_ok lib kv" and a: "NUL \<notin> set a"
    and i: "i \<in> set (map (\<lambda>(k, _). DecodeIndexID k)
      (iter_collect (engine_prefix_scan kv (agent_session_key a []) \<lparr>so_limit = n, so_reverse = False\<rparr>)))"
  shows "NUL \<notin> set i"
proof -
  have kv: "kv_ok kv" using ok by (rule sessions_ok_kv)
  have "set (prefix_items kv p n) \<subseteq> set (prefix_items kv p 0)" for p
    by (auto simp: prefix_items_def scan_items_def scan_limit_def split: prod.splits dest: in_set_takeD)
  then have "set (map f (prefix_items kv p n)) \<subseteq> set (map f (prefix_items kv p 0))" for p and f :: "bytes \<times> bytes \<Rightarrow> bytes"
    by (simp add: image_mono)
  then have "i \<in> set (map (\<lambda>(k, _). DecodeIndexID k)
      (iter_collect (engine_prefix_scan kv (agent_session_key a []) \<lparr>so_limit = 0, so_reverse = False\<rparr>)))"
    using i kv by (auto simp only: prefix_scan_collects scan_options.simps not_False_eq_True)
  then have "engine_get kv (agent_session_key a i) \<noteq> None"
    unfolding agent_session_key_def set_index_ids [OF kv a] by simp
  then show ?thesis using ok a unfolding sessions_ok_def by blast
qed

lemma ListByAgent_agrees:
  assumes "session_inv lib st" "NUL \<notin> set a"
  shows "agrees lib (session_ListByAgent lib a limit st) (plain_ListByAgent lib a limit (sm_engine st), sm_engine st)"
proof -
  have "sessions_ok lib (sm_engine st)" using assms(1) by (simp add: session_inv_def)
  then show ?thesis
    unfolding session_ListByAgent_def plain_ListByAgent_def
    using listed_ids_ok [OF _ assms(2)] by (intro get_all_agrees [OF assms(1)]) blast
qed

lemma ListActive_agrees:
  assumes "session_inv lib st" "NUL \<notin> set a"
  shows "agrees lib (ListActiveByAgent lib a st) (filter is_live (plain_ListByAgent lib a 0 (sm_engine st)), sm_engine st)"
  using ListByAgent_agrees [OF assms, of 0] by (auto simp: agrees_def ListActiveByAgent_def split: prod.split)

lemma enhanced_Create_agrees:
  assumes keeps: "json_keeps_text lib" and inv: "session_inv lib st" and ok: "id_ok lib uuid" "NUL \<notin> set a"
  shows "agrees lib (map_prod OneSession (\<lambda>st. st) (enhanced_Create lib cfg uuid now a m st))
    (plain_step lib cfg (OpCreate uuid now a m) (sm_engine st))"
proof -
  obtain st' where l: "ListActiveByAgent lib a st = (filter is_live (plain_ListByAgent lib a 0 (sm_engine st)), st')"
    and st': "sm_engine st' = sm_engine st" "session_inv lib st'"
    using ListActive_agrees [OF inv ok(2)] by (rule agrees_elim)
  show ?thesis
    using Create_agrees [OF keeps st'(2) ok, of now m] Create_agrees [OF keeps inv ok, of now m] st'
    by (simp add: enhanced_Create_def l agrees_def Let_def)
qed

text \<open>The clean-up works through a list made before it begins.\<close>

lemma ListAll_ids:
  assumes ok: "sessions_ok lib kv" and s: "s \<in> set (plain_ListAll lib limit kv)"
  shows "NUL \<notin> set (se_ID s) \<and> (\<exists>d. engine_get kv (session_key (se_ID s)) = Some d \<and> session_dec lib d = Some s)"
proof -
  have kv: "kv_ok kv" using ok by (rule sessions_ok_kv)
  obtain k v where kvi: "(k, v) \<in> set (prefix_items kv [PrefixSession] limit)" "NUL \<notin> set (tl k)" "session_dec lib v = Some s"
    using s kv by (auto simp: plain_ListAll_def prefix_scan_collects set_map_filter split: if_splits)
  then have "(k, v) \<in> set (prefix_items kv [PrefixSession] 0)"
    by (auto simp: prefix_items_def scan_items_def scan_limit_def split: prod.splits if_splits dest: in_set_takeD)
  then have "prefix [PrefixSession] k" "engine_get kv k = Some v"
    using kv by (auto simp: set_prefix_items_0 in_prefix_range_single)
  then obtain i where "k = session_key i" by (auto simp: prefix_def session_key_def EncodeKey_def)
  then show ?thesis using kvi ok \<open>engine_get kv k = Some v\<close>
    unfolding sessions_ok_def by (auto simp: session_key_def EncodeKey_def)
qed

lemma expire_agrees:
  assumes "json_keeps_text lib" "session_inv lib st" "NUL \<notin> set (se_ID s)"
  shows "session_inv lib (expire_session lib cfg now clock s st) \<and>
    sm_engine (expire_session lib cfg now clock s st) =
      (if overdue cfg now s then snd (plain_change lib (se_ID s) (move_state (clock (se_ID s)) SessionFailed) (sm_engine st)) else sm_engine st)"
proof (cases "overdue cfg now s")
  case True
  then have "expire_session lib cfg now clock s st = snd (TransitionState lib (clock (se_ID s)) (se_ID s) SessionFailed st)"
    by (simp only: expire_session_def overdue_def simp_thms if_True if_False)
  then show ?thesis using True Transition_agrees [OF assms, of "clock (se_ID s)" SessionFailed] by (simp add: agrees_def)
next
  case False
  then have "expire_session lib cfg now clock s st = st"
    by (simp only: expire_session_def overdue_def de_Morgan_conj simp_thms split: if_split) blast
  then show ?thesis using False assms(2) by simp
qed

lemma expire_fold:
  assumes "\<forall>s \<in> set ss. NUL \<notin> set (se_ID s)" "json_keeps_text lib" "session_inv lib st"
  shows "session_inv lib (fold (expire_session lib cfg now clock) ss st) \<and>
    sm_engine (fold (expire_session lib cfg now clock) ss st) =
      fold (\<lambda>s kv. snd (plain_change lib (se_ID s) (move_state (clock (se_ID s)) SessionFailed) kv))
        (filter (overdue cfg now) ss) (sm_engine st)"
  using assms
proof (induction ss arbitrary: st)
  case (Cons s ss)
  have s: "session_inv lib (expire_session lib cfg now clock s st)"
    "sm_engine (expire_session lib cfg now clock s st) =
      (if overdue cfg now s then snd (plain_change lib (se_ID s) (move_state (clock (se_ID s)) SessionFailed) (sm_engine st)) else sm_engine st)"
    using expire_agrees [OF Cons.prems(2,3), of s] Cons.prems(1) by simp_all
  then show ?case using Cons.IH [OF _ Cons.prems(2) s(1)] Cons.prems(1) by simp
qed simp

lemma cleanup_agrees:
  assumes "json_keeps_text lib" "session_inv lib st"
  shows "sm_engine (cleanupExpired lib cfg now clock st) = plain_cleanup lib cfg now clock (sm_engine st) \<and>
    session_inv lib (cleanupExpired lib cfg now clock st)"
proof -
  have list: "session_ListAll lib 0 st = plain_ListAll lib 0 (sm_engine st)"
    by (simp add: session_ListAll_def plain_ListAll_def)
  have "\<forall>s \<in> set (plain_ListAll lib 0 (sm_engine st)). NUL \<notin> set (se_ID s)"
    using assms(2) ListAll_ids by (auto simp: session_inv_def)
  then show ?thesis
    unfolding cleanupExpired_def plain_cleanup_def list using expire_fold assms by blast
qed

lemma step_agrees:
  assumes "json_keeps_text lib" "session_inv lib st" "session_op_ok lib x"
  shows "agrees lib (session_step lib cfg x st) (plain_step lib cfg x (sm_engine st))"
proof -
  have wrap: "agrees lib p q \<Longrightarrow> agrees lib (map_prod f (\<lambda>st. st) p) (map_prod f (\<lambda>kv. kv) q)" for f :: "'r \<Rightarrow> session_reply" and p q
    by (cases p; cases q) (simp add: agrees_def)
  show ?thesis
  proof (cases x)
    case (OpCreate uuid now a m)
    then show ?thesis using enhanced_Create_agrees assms by simp
  next
    case (OpCleanup now clock)
    then show ?thesis using cleanup_agrees [OF assms(1,2)] by (simp add: agrees_def)
  next
    case (OpListAll limit)
    then show ?thesis using assms by (simp add: agrees_def session_ListAll_def plain_ListAll_def)
  next
    case (OpGet i)
    then show ?thesis using wrap [OF Get_agrees [OF assms(2)], of i OneSession] assms(3) by simp
  next
    case (OpList a n)
    then show ?thesis using wrap [OF ListByAgent_agrees [OF assms(2)], of a Sessions] assms(3) by simp
  next
    case (OpListActive a)
    then show ?thesis using wrap [OF ListActive_agrees [OF assms(2)], of a Sessions] assms(3) by simp
  qed (use assms in \<open>auto intro!: wrap Update_agrees UpdateState_agrees Delete_agrees Transition_agrees Heartbeat_agrees\<close>)
qed


section \<open>Runs\<close>

lemma new_store_inv: "sessions_ok lib kv \<Longrightarrow> session_inv lib \<lparr>sm_engine = kv, sm_cache = NewCache n\<rparr>"
  by (simp add: session_inv_def lru.coherent_def new_cache_sel)

lemma run_agrees:
  assumes "json_keeps_text lib" "session_inv lib st" "\<forall>x \<in> set ops. session_op_ok lib x"
  shows "agrees lib (run_steps (session_step lib cfg) ops st) (run_steps (plain_step lib cfg) ops (sm_engine st))"
  using assms(2,3)
proof (induction ops arbitrary: st)
  case Nil
  then show ?case by (simp add: agrees_def)
next
  case (Cons x ops)
  obtain r kv where p: "plain_step lib cfg x (sm_engine st) = (r, kv)" by force
  obtain st1 where x: "session_step lib cfg x st = (r, st1)" "sm_engine st1 = kv" "session_inv lib st1"
    using step_agrees [OF assms(1) Cons.prems(1), of x cfg] Cons.prems(2) p by (auto elim!: agrees_elim)
  have "agrees lib (run_steps (session_step lib cfg) ops st1) (run_steps (plain_step lib cfg) ops kv)"
    using Cons.IH [OF x(3)] Cons.prems(2) x(2) by simp
  then show ?case by (auto simp: p x(1) agrees_def split: prod.split)
qed

text \<open>
  C35: the cache cannot be seen. From an empty cache of any size, every sequence of session operations - creating within the
  quota, reading, updating, changing the state, deleting, listing, cleaning up - answers with the cache what it answers
  without one and leaves the same content in the engine.
\<close>

theorem session_cache_transparent:
  assumes "json_keeps_text lib" "sessions_ok lib kv" "\<forall>x \<in> set ops. session_op_ok lib x"
  shows "fst (run_steps (session_step lib cfg) ops \<lparr>sm_engine = kv, sm_cache = NewCache n\<rparr>) = fst (run_steps (plain_step lib cfg) ops kv) \<and>
    sm_engine (snd (run_steps (session_step lib cfg) ops \<lparr>sm_engine = kv, sm_cache = NewCache n\<rparr>)) = snd (run_steps (plain_step lib cfg) ops kv)"
  using run_agrees [OF assms(1) new_store_inv [OF assms(2)] assms(3), of cfg n] by (simp add: agrees_def)

section \<open>The state machine\<close>

definition stored_state :: "session_json \<Rightarrow> kv \<Rightarrow> bytes \<Rightarrow> bytes option" where
  "stored_state lib kv i = (case plain_Get lib i kv of Inl _ \<Rightarrow> None | Inr s \<Rightarrow> Some (se_State s))"

text \<open>The operations that check: they neither write a session as it comes nor create \<open>i\<close> anew.\<close>

fun checked_op :: "bytes \<Rightarrow> session_op \<Rightarrow> bool" where
  "checked_op i (OpCreate uuid now a m) \<longleftrightarrow> uuid \<noteq> i"
| "checked_op i (OpUpdate s) \<longleftrightarrow> False"
| "checked_op i (OpUpdateState j state) \<longleftrightarrow> False"
| "checked_op i x \<longleftrightarrow> True"

lemma transition_ascii: "json_keeps_text lib \<Longrightarrow> canTransition a b \<Longrightarrow> session_utf8 lib b = b"
  by (auto simp: json_keeps_text_def canTransition_def validTransitions_def SessionActive_def SessionPaused_def
      SessionCompleted_def SessionFailed_def split: if_splits)

lemma stored_state_other: "engine_get kv' (session_key i) = engine_get kv (session_key i) \<Longrightarrow> stored_state lib kv' i = stored_state lib kv i"
  by (simp add: stored_state_def plain_Get_def)

lemma stored_state_update:
  assumes "json_keeps_text lib" "stored_state lib (snd (plain_Update lib s kv)) i = Some b"
  shows "(se_ID s = i \<and> b = session_utf8 lib (se_State s)) \<or> stored_state lib kv i = Some b"
proof (cases "session_enc lib s")
  case None
  then show ?thesis using assms(2) by (simp add: plain_Update_def)
next
  case (Some d)
  then show ?thesis
    using assms by (auto simp: plain_Update_def stored_state_def plain_Get_def session_decode_def json_keeps_text_def kv_simps
        split: option.splits if_splits)
qed

lemma change_state:
  assumes keeps: "json_keeps_text lib" and ok: "sessions_ok lib kv" and j: "NUL \<notin> set j"
    and f: "\<And>s s'. f s = Inr s' \<Longrightarrow> se_ID s' = se_ID s \<and> (se_State s' = se_State s \<or> canTransition (se_State s) (se_State s'))"
    and b: "stored_state lib (snd (plain_change lib j f kv)) i = Some b"
  shows "\<exists>a. stored_state lib kv i = Some a \<and> (b = a \<or> (i = j \<and> canTransition a b \<and> (\<exists>s s'. f s = Inr s' \<and> b = se_State s')))"
proof (cases "\<exists>s s'. plain_Get lib j kv = Inr s \<and> f s = Inr s'")
  case False
  then have "snd (plain_change lib j f kv) = kv" by (auto simp: plain_change_def split: sum.split)
  then show ?thesis using b by simp
next
  case True
  then obtain s s' where s: "plain_Get lib j kv = Inr s" "f s = Inr s'" by blast
  have id: "se_ID s' = j" using f [OF s(2)] plain_Get_id [OF ok j s(1)] by simp
  have up: "stored_state lib (snd (plain_Update lib s' kv)) i = Some b" using b s by (simp add: plain_change_def)
  from stored_state_update [OF keeps up] show ?thesis
  proof
    assume *: "se_ID s' = i \<and> b = session_utf8 lib (se_State s')"
    have "b = se_State s'" using * f [OF s(2)] plain_Get_utf8 [OF keeps s(1)] transition_ascii [OF keeps] by metis
    moreover have "stored_state lib kv i = Some (se_State s)" using * id s(1) by (simp add: stored_state_def)
    ultimately show ?thesis using f [OF s(2)] * id s(2) by auto
  qed simp
qed

lemma change_ok:
  assumes keeps: "json_keeps_text lib" and ok: "sessions_ok lib kv" and j: "NUL \<notin> set j"
    and f: "\<And>s s'. f s = Inr s' \<Longrightarrow> se_ID s' = se_ID s"
  shows "sessions_ok lib (snd (plain_change lib j f kv))"
proof -
  have "sessions_ok lib (snd (plain_Update lib s' kv))" if "plain_Get lib j kv = Inr s" "f s = Inr s'" for s s'
  proof -
    have "id_ok lib (se_ID s')"
      using plain_Get_id [OF ok j that(1)] plain_Get_utf8 [OF keeps that(1)] f [OF that(2)] j by (simp add: id_ok_def)
    then show ?thesis using sessions_ok_write [OF keeps ok] ok by (auto simp: plain_Update_def split: option.split)
  qed
  then show ?thesis using ok by (auto simp: plain_change_def split: sum.split)
qed

lemma move_state_facts: "move_state t state s = Inr s' \<Longrightarrow> se_ID s' = se_ID s \<and> canTransition (se_State s) (se_State s') \<and> se_State s' = state"
  by (auto simp: move_state_def split: if_splits)

text \<open>The clean-up fails a session at most once.\<close>

lemma cleanup_state:
  assumes keeps: "json_keeps_text lib" and ok: "sessions_ok lib kv" and ids: "\<forall>s \<in> set ss. NUL \<notin> set (se_ID s)"
    and b: "stored_state lib (fold (\<lambda>s kv. snd (plain_change lib (se_ID s) (move_state (clock (se_ID s)) SessionFailed) kv)) ss kv) i = Some b"
  shows "\<exists>a. stored_state lib kv i = Some a \<and> (b = a \<or> (b = SessionFailed \<and> canTransition a SessionFailed))"
  using ok ids b
proof (induction ss arbitrary: kv)
  case (Cons s ss)
  let ?f = "move_state (clock (se_ID s)) SessionFailed"
  let ?kv = "snd (plain_change lib (se_ID s) ?f kv)"
  have s: "NUL \<notin> set (se_ID s)" using Cons.prems(2) by simp
  have kv: "sessions_ok lib ?kv" by (rule change_ok [OF keeps Cons.prems(1) s]) (simp add: move_state_facts)
  obtain c where c: "stored_state lib ?kv i = Some c" "b = c \<or> (b = SessionFailed \<and> canTransition c SessionFailed)"
    using Cons.IH [OF kv] Cons.prems(2,3) by auto
  obtain a where a: "stored_state lib kv i = Some a" "c = a \<or> (canTransition a c \<and> c = SessionFailed)"
    using change_state [OF keeps Cons.prems(1) s _ c(1)] move_state_facts by blast
  have "\<not> canTransition SessionFailed SessionFailed" by code_simp
  then show ?case using a c(2) by auto
qed simp

lemma plain_step_state:
  assumes keeps: "json_keeps_text lib" and ok: "sessions_ok lib kv" and x: "session_op_ok lib x" "checked_op i x" and i: "NUL \<notin> set i"
    and b: "stored_state lib (snd (plain_step lib cfg x kv)) i = Some b"
  shows "\<exists>a. stored_state lib kv i = Some a \<and> (a = b \<or> canTransition a b)"
proof (cases x)
  case (OpCreate uuid now a m)
  let ?s = "(NewSession now a m)\<lparr>se_ID := uuid\<rparr>"
  have "engine_get (snd (plain_Create lib uuid now a m kv)) (session_key i) = engine_get (snd (plain_Update lib ?s kv)) (session_key i)"
    using i by (simp add: plain_Create_def Let_def kv_simps split: prod.split option.split)
  then have "stored_state lib (snd (plain_Create lib uuid now a m kv)) i = stored_state lib (snd (plain_Update lib ?s kv)) i"
    by (rule stored_state_other)
  also have "\<dots> = stored_state lib kv i"
    using x(2) OpCreate by (intro stored_state_other) (simp add: plain_Update_def kv_simps split: option.split)
  finally show ?thesis using b OpCreate by (auto simp: Let_def split: if_splits)
next
  case (OpDeleteSession j)
  then show ?thesis
    using b i by (auto simp: plain_Delete_def stored_state_def plain_Get_def kv_simps split: sum.splits option.splits if_splits)
next
  case (OpTransition now j state)
  have "NUL \<notin> set j" using x(1) OpTransition by simp
  moreover have "stored_state lib (snd (plain_change lib j (move_state now state) kv)) i = Some b" using b OpTransition by simp
  ultimately show ?thesis using change_state [OF keeps ok, of j "move_state now state" i b] move_state_facts by metis
next
  case (OpHeartbeat now j)
  have "NUL \<notin> set j" using x(1) OpHeartbeat by simp
  moreover have "stored_state lib (snd (plain_change lib j (\<lambda>s. Inr (s\<lparr>se_UpdatedAt := now\<rparr>)) kv)) i = Some b" using b OpHeartbeat by simp
  ultimately show ?thesis using change_state [OF keeps ok, of j "\<lambda>s. Inr (s\<lparr>se_UpdatedAt := now\<rparr>)" i b] by fastforce
next
  case (OpCleanup now clock)
  have "\<forall>s \<in> set (filter (overdue cfg now) (plain_ListAll lib 0 kv)). NUL \<notin> set (se_ID s)" using ListAll_ids [OF ok] by auto
  from cleanup_state [OF keeps ok this, of clock i b] show ?thesis
    using b OpCleanup by (auto simp: plain_cleanup_def)
qed (use x b in auto)

lemma run_inv:
  assumes "json_keeps_text lib" "sessions_ok lib kv" "\<forall>x \<in> set ops. session_op_ok lib x"
  shows "session_inv lib (snd (run_steps (session_step lib cfg) ops \<lparr>sm_engine = kv, sm_cache = NewCache n\<rparr>))"
  using run_agrees [OF assms(1) new_store_inv [OF assms(2)] assms(3), of cfg n] by (simp add: agrees_def)


lemma cached_answer:
  "fst (cache_get (sm_cache st) (session_key i)) = Some d \<Longrightarrow> fst (session_Get lib i st) = session_decode lib d"
  by (cases "cache_get (sm_cache st) (session_key i)") (simp add: session_Get_def Let_def)

text \<open>
  What is written beside the cache is not seen. Once a session has been read, every change of the engine that does not
  go through the session manager - an SQL UPDATE or DELETE on the sessions, a change of another node - leaves the answer of
  the next read as it was.
\<close>

lemma change_beside_cache_unseen:
  assumes "cache_inv (sm_cache st)" "session_Get lib i st = (Inr s, st')"
  shows "fst (session_Get lib i (st'\<lparr>sm_engine := kv\<rparr>)) = Inr s"
proof -
  obtain h c where g: "cache_get (sm_cache st) (session_key i) = (h, c)" by force
  have c: "cache_inv c" "map_of (cache_abs c) = map_of (cache_abs (sm_cache st))" "h = map_of (cache_abs (sm_cache st)) (session_key i)"
    using lru.inv_get [OF assms(1), of "session_key i"] lru.look_get [OF assms(1), of "session_key i"]
      lru.get_look [OF assms(1), of "session_key i"] g by simp_all
  have again: "fst (session_Get lib i (st'\<lparr>sm_engine := kv\<rparr>)) = Inr s"
    if "fst (cache_get (sm_cache st') (session_key i)) = Some d" "session_decode lib d = Inr s" for d
    using cached_answer [of "st'\<lparr>sm_engine := kv\<rparr>" i d lib] that by simp
  show ?thesis
  proof (cases h)
    case None
    then obtain d where d: "session_decode lib d = Inr s" "sm_cache st' = cache_set c (session_key i) d"
      using assms(2) g by (auto simp: session_Get_def Let_def split: option.splits)
    then show ?thesis using again [OF _ d(1)] lru.stale [OF c(1)] by simp
  next
    case (Some d)
    then have d: "session_decode lib d = Inr s" "sm_cache st' = c"
      using assms(2) g by (auto simp: session_Get_def Let_def)
    then show ?thesis using again [OF _ d(1)] lru.get_look [OF c(1)] c(2,3) Some by simp
  qed
qed

end
