(* ===== verification/SessionExamples.thy ===== *)
theory SessionExamples
  imports SessionsProps DemoCodec
begin

text \<open>Small inputs for the properties of sessions.\<close>

definition demo_session_json :: session_json where
  "demo_session_json =
     \<lparr>session_enc = \<lambda>s.
        (let parts = [se_ID s, se_AgentID s, se_State s, unary (se_CreatedAt s), unary (se_UpdatedAt s)] in
         if se_Context s = [] \<and> se_Metadata s = None \<and> list_all (\<lambda>p. NUL \<notin> set p) parts then Some (nul_join parts) else None),
      session_dec = \<lambda>bs.
        (case nul_split [] bs of
           [i, a, state, c, u] \<Rightarrow> Some \<lparr>se_ID = i, se_AgentID = a, se_State = state, se_Context = [], se_Metadata = None,
             se_CreatedAt = of_unary c, se_UpdatedAt = of_unary u\<rparr>
         | _ \<Rightarrow> None),
      session_utf8 = \<lambda>t. t\<rparr>"

lemma demo_session_keeps: "json_keeps_text demo_session_json"
proof -
  have "nul_split [] (nul_join [i, a, st, c, u]) = [i, a, st, c, u]"
    if "list_all (\<lambda>p. NUL \<notin> set p) [i, a, st, c, u]" for i a st c u :: bytes
    using nul_split_join [of "[i, a, st, c, u]"] that by simp
  then show ?thesis
    by (auto simp: json_keeps_text_def demo_session_json_def Let_def split: if_splits)
qed

lemma demo_sessions_ok: "sessions_ok lib kv_empty"
  by (simp add: sessions_ok_def)

definition demo_quota :: session_config where
  "demo_quota = \<lparr>sc_Timeout = 5, sc_CleanupInterval = 1, sc_MaxSessionsPerAgent = 1\<rparr>"

text \<open>The second session is over the quota; the first is paused, cannot be completed, and is failed by the clean-up.\<close>

definition demo_session_ops :: "session_op list" where
  "demo_session_ops =
     [OpCreate ''s'' 1 ''a'' None, OpCreate ''t'' 1 ''a'' None, OpTransition 2 ''s'' SessionPaused,
      OpTransition 3 ''s'' SessionCompleted, OpGet ''t'', OpListActive ''a'']"

lemma demo_session_ops_ok: "\<forall>x \<in> set demo_session_ops. session_op_ok demo_session_json x"
  by (simp add: demo_session_ops_def id_ok_def demo_session_json_def)

lemma session_cache_transparent_witness:
  "map (\<lambda>r. case r of OneSession (Inr s) \<Rightarrow> se_State s | OneSession (Inl _) \<Rightarrow> ''refused'' | Outcome None \<Rightarrow> ''done''
        | Outcome (Some _) \<Rightarrow> ''error'' | Sessions ss \<Rightarrow> concat (map se_State ss))
     (fst (run_steps (session_step demo_session_json demo_quota) demo_session_ops \<lparr>sm_engine = kv_empty, sm_cache = NewCache 2\<rparr>)) =
   [''active'', ''refused'', ''done'', ''error'', ''refused'', ''paused'']"
  unfolding session_cache_transparent [OF demo_session_keeps demo_sessions_ok demo_session_ops_ok, THEN conjunct1]
  by code_simp


text \<open>The row of the session is deleted in the engine, as an SQL DELETE does; the session manager still returns it.\<close>

lemma change_beside_cache_unseen_witness:
  "fst (session_Get demo_session_json ''s'' ((snd (session_Get demo_session_json ''s''
     (snd (run_steps (session_step demo_session_json demo_quota) demo_session_ops \<lparr>sm_engine = kv_empty, sm_cache = NewCache 2\<rparr>))))\<lparr>sm_engine := kv_empty\<rparr>)) =
   Inr \<lparr>se_ID = ''s'', se_AgentID = ''a'', se_State = ''paused'', se_Context = [], se_Metadata = None, se_CreatedAt = 1, se_UpdatedAt = 2\<rparr>"
  (is "fst (session_Get _ _ ((snd (session_Get _ _ ?st))\<lparr>sm_engine := _\<rparr>)) = Inr ?s")
proof -
  have "cache_inv (sm_cache ?st)"
    using run_inv [OF demo_session_keeps demo_sessions_ok demo_session_ops_ok, of demo_quota 2]
    unfolding session_inv_def by (blast intro: lru.coherent_inv)
  moreover have "fst (session_Get demo_session_json ''s'' ?st) = Inr ?s" by code_simp
  ultimately show ?thesis
    using change_beside_cache_unseen [of ?st demo_session_json "''s''"] by (metis prod.collapse)
qed

end
