(* ===== verification/GoFloat32.thy ===== *)
theory GoFloat32
  imports GoFloat
begin

text \<open>
  Go's \<open>float32\<close> on bit patterns and the distances of \<^verbatim>\<open>internal/vector/distance.go\<close>. Sums, differences, products, quotients
  and roots of \<open>float32\<close> values are those of \<open>float64\<close> rounded once more, which for these operations is the nearest
  \<open>float32\<close>: the wider format has more than twice the digits. All NaNs are one pattern;
  products are not fused with sums (as on amd64).
\<close>

type_synonym f32 = u32

section \<open>The parts of a float\<close>

definition f32_neg :: "f32 \<Rightarrow> bool" where
  "f32_neg w \<longleftrightarrow> uint w \<ge> 0x80000000"

definition f32_abs :: "f32 \<Rightarrow> int" where
  "f32_abs w = uint w mod 0x80000000"

definition f32_is_nan :: "f32 \<Rightarrow> bool" where
  "f32_is_nan w \<longleftrightarrow> f32_abs w > 0x7F800000"

text \<open>Patterns are ordered like the values, zeros are equal.\<close>

definition f32_key :: "f32 \<Rightarrow> int" where
  "f32_key w = (if f32_neg w then - f32_abs w else f32_abs w)"

definition f32_less :: "f32 \<Rightarrow> f32 \<Rightarrow> bool" where
  "f32_less a b \<longleftrightarrow> \<not> f32_is_nan a \<and> \<not> f32_is_nan b \<and> f32_key a < f32_key b"

definition f32_eq :: "f32 \<Rightarrow> f32 \<Rightarrow> bool" where
  "f32_eq a b \<longleftrightarrow> \<not> f32_is_nan a \<and> \<not> f32_is_nan b \<and> f32_key a = f32_key b"

section \<open>Conversions\<close>

definition f32_mag :: "f32 \<Rightarrow> nat" where
  "f32_mag w =
     (let e = nat (f32_abs w div 2 ^ 23); m = nat (f32_abs w mod 2 ^ 23) in if e = 0 then m else (2 ^ 23 + m) * 2 ^ (e - 1))"

definition f32_to_64 :: "f32 \<Rightarrow> f64" where
  "f32_to_64 w =
     (if f32_is_nan w then f_nan
      else if f32_abs w = 0x7F800000 then f_inf (f32_neg w)
      else f_round (f32_neg w) (f32_mag w) (2 ^ 149))"

text \<open>
  The magnitude is a multiple of \<open>2 ^ -1074\<close>; the last place kept is that of 24 binary digits, or \<open>2 ^ -149\<close>.
\<close>

definition f32_round_bits :: "nat \<Rightarrow> nat" where
  "f32_round_bits mag =
     (let shift = max (bit_len mag - 24) 925 in min (round_div mag (2 ^ shift) + (shift - 925) * 2 ^ 23) 0x7F800000)"

definition f32_signed :: "bool \<Rightarrow> nat \<Rightarrow> f32" where
  "f32_signed neg b = word_of_nat (if neg then b + 2 ^ 31 else b)"

definition f64_to_32 :: "f64 \<Rightarrow> f32" where
  "f64_to_32 w =
     (if f_is_nan w then 0x7FC00000
      else if f_is_inf w then f32_signed (f_neg w) 0x7F800000
      else f32_signed (f_neg w) (f32_round_bits (f_mag w)))"

section \<open>Operations\<close>

definition f32_op :: "(f64 \<Rightarrow> f64 \<Rightarrow> f64) \<Rightarrow> f32 \<Rightarrow> f32 \<Rightarrow> f32" where
  "f32_op f a b = f64_to_32 (f (f32_to_64 a) (f32_to_64 b))"

definition f32_add :: "f32 \<Rightarrow> f32 \<Rightarrow> f32" where "f32_add = f32_op f_add"
definition f32_sub :: "f32 \<Rightarrow> f32 \<Rightarrow> f32" where "f32_sub = f32_op f_sub"
definition f32_mul :: "f32 \<Rightarrow> f32 \<Rightarrow> f32" where "f32_mul = f32_op f_mul"
definition f32_div :: "f32 \<Rightarrow> f32 \<Rightarrow> f32" where "f32_div = f32_op f_div"

definition f32_minus :: "f32 \<Rightarrow> f32" where
  "f32_minus w = (if f32_is_nan w then 0x7FC00000 else f32_signed (\<not> f32_neg w) (nat (f32_abs w)))"

text \<open>\<open>float32(math.Sqrt(float64(w)))\<close>\<close>

definition f32_sqrt :: "f32 \<Rightarrow> f32" where
  "f32_sqrt w = f64_to_32 (f_sqrt (f32_to_64 w))"

definition f32_zero :: f32 where "f32_zero = 0"
definition f32_one :: f32 where "f32_one = 0x3F800000"
definition MaxFloat32 :: f32 where "MaxFloat32 = 0x7F7FFFFF"

section \<open>Distances\<close>

text \<open>The loops over the two vectors.\<close>

fun dot_loop :: "f32 \<Rightarrow> f32 list \<Rightarrow> f32 list \<Rightarrow> f32" where
  "dot_loop dot (a # as) (b # bs) = dot_loop (f32_add dot (f32_mul a b)) as bs"
| "dot_loop dot _ _ = dot"

fun l2_loop :: "f32 \<Rightarrow> f32 list \<Rightarrow> f32 list \<Rightarrow> f32" where
  "l2_loop tot (a # as) (b # bs) = (let diff = f32_sub a b in l2_loop (f32_add tot (f32_mul diff diff)) as bs)"
| "l2_loop tot _ _ = tot"

definition CosineDistance :: "f32 list \<Rightarrow> f32 list \<Rightarrow> f32" where
  "CosineDistance a b =
     (if length a \<noteq> length b then f32_one
      else let dot = dot_loop f32_zero a b; normA = dot_loop f32_zero a a; normB = dot_loop f32_zero b b in
        if f32_eq normA f32_zero \<or> f32_eq normB f32_zero then f32_one
        else f32_sub f32_one (f32_div dot (f32_mul (f32_sqrt normA) (f32_sqrt normB))))"

definition L2Distance :: "f32 list \<Rightarrow> f32 list \<Rightarrow> f32" where
  "L2Distance a b = (if length a \<noteq> length b then MaxFloat32 else f32_sqrt (l2_loop f32_zero a b))"

definition DotDistance :: "f32 list \<Rightarrow> f32 list \<Rightarrow> f32" where
  "DotDistance a b = (if length a \<noteq> length b then f32_one else f32_minus (dot_loop f32_zero a b))"

definition GetDistanceFunc :: "bytes \<Rightarrow> f32 list \<Rightarrow> f32 list \<Rightarrow> f32" where
  "GetDistanceFunc name =
     (if name = ''l2'' \<or> name = ''euclidean'' then L2Distance
      else if name = ''dot'' \<or> name = ''dotproduct'' then DotDistance
      else if name = ''cosine'' \<or> name = [] then CosineDistance
      else CosineDistance)"

section \<open>The order of patterns\<close>

lemma f32_less_irrefl [simp]: "\<not> f32_less a a"
  by (simp add: f32_less_def)

lemma f32_not_less_trans:
  "\<not> f32_is_nan b \<Longrightarrow> \<not> f32_less b a \<Longrightarrow> \<not> f32_less c b \<Longrightarrow> \<not> f32_less c a"
  by (auto simp: f32_less_def)

lemma f32_less_or: "\<not> f32_is_nan a \<Longrightarrow> \<not> f32_is_nan b \<Longrightarrow> \<not> f32_less a b \<longleftrightarrow> f32_key b \<le> f32_key a"
  by (auto simp: f32_less_def)

end
