(* ===== verification/Hnsw.thy ===== *)
theory Hnsw
  imports GoFloat32 "HOL-Library.AList"
begin

text \<open>
  Model of \<^verbatim>\<open>internal/vector/hnsw.go\<close>: the layered graph of vectors, insertion, search, deletion. The nodes are a map
  from identifiers (an association list); the connections of a node on a layer are a Go map used as a set, here the list of
  its keys. Where the code ranges over a map, \<open>ro\<close> gives the order; the random level of a new node and \<open>sort.Slice\<close> are
  arguments too. A nil or out of range access is the result \<open>None\<close>.
\<close>

section \<open>State\<close>

record hnsw_node =
  hn_vector :: "f32 list"
  hn_level :: nat
  hn_connections :: "bytes list list"

record hnsw_index =
  hx_dim :: int
  hx_m :: int
  hx_mMax :: int
  hx_efSearch :: int
  hx_efConst :: int
  hx_distFn :: "f32 list \<Rightarrow> f32 list \<Rightarrow> f32"
  hx_nodes :: "(bytes \<times> hnsw_node) list"
  hx_entryID :: bytes
  hx_entryLevel :: nat

record hnsw_config =
  hc_Dim :: int
  hc_M :: int
  hc_EfConstruction :: int
  hc_EfSearch :: int
  hc_DistFn :: "(f32 list \<Rightarrow> f32 list \<Rightarrow> f32) option"

definition DefaultHNSWConfig :: "int \<Rightarrow> hnsw_config" where
  "DefaultHNSWConfig dim =
     \<lparr>hc_Dim = dim, hc_M = 16, hc_EfConstruction = 200, hc_EfSearch = 64, hc_DistFn = Some CosineDistance\<rparr>"

definition NewHNSWIndex :: "hnsw_config \<Rightarrow> hnsw_index" where
  "NewHNSWIndex cfg =
     (let m = (if hc_M cfg \<le> 0 then 16 else hc_M cfg);
          efc = (if hc_EfConstruction cfg \<le> 0 then 200 else hc_EfConstruction cfg);
          efs = (if hc_EfSearch cfg \<le> 0 then 64 else hc_EfSearch cfg);
          f = (case hc_DistFn cfg of None \<Rightarrow> CosineDistance | Some f \<Rightarrow> f)
      in \<lparr>hx_dim = hc_Dim cfg, hx_m = m, hx_mMax = m * 2, hx_efSearch = efs, hx_efConst = efc, hx_distFn = f,
          hx_nodes = [], hx_entryID = [], hx_entryLevel = 0\<rparr>)"

definition hnsw_node_of :: "hnsw_index \<Rightarrow> bytes \<Rightarrow> hnsw_node option" where
  "hnsw_node_of idx i = map_of (hx_nodes idx) i"

text \<open>The connections of a node on a layer it has.\<close>

definition layer_of :: "hnsw_index \<Rightarrow> bytes \<Rightarrow> nat \<Rightarrow> bytes list option" where
  "layer_of idx i l =
     (case hnsw_node_of idx i of None \<Rightarrow> None
      | Some n \<Rightarrow> if l < length (hn_connections n) then Some (hn_connections n ! l) else None)"

definition set_layer :: "nat \<Rightarrow> (bytes list \<Rightarrow> bytes list) \<Rightarrow> hnsw_node \<Rightarrow> hnsw_node" where
  "set_layer l f n = n\<lparr>hn_connections := (hn_connections n)[l := f (hn_connections n ! l)]\<rparr>"

text \<open>Change the connections of a node on a layer, if it is there and has the layer.\<close>

definition update_layer :: "bytes \<Rightarrow> nat \<Rightarrow> (bytes list \<Rightarrow> bytes list) \<Rightarrow> hnsw_index \<Rightarrow> hnsw_index" where
  "update_layer i l f idx =
     (case layer_of idx i l of None \<Rightarrow> idx
      | Some _ \<Rightarrow> idx\<lparr>hx_nodes := AList.map_entry i (set_layer l f) (hx_nodes idx)\<rparr>)"

section \<open>Candidates\<close>

type_synonym candidate = "bytes \<times> f32"

text \<open>\<open>sort.Search\<close>: binary search between \<open>i\<close> and \<open>j\<close>.\<close>

function sort_search :: "(nat \<Rightarrow> bool) \<Rightarrow> nat \<Rightarrow> nat \<Rightarrow> nat" where
  "sort_search f i j =
     (if i < j then let h = (i + j) div 2 in if \<not> f h then sort_search f (h + 1) j else sort_search f i h
      else i)"
  by pat_completeness auto
termination
  by (relation "measure (\<lambda>(f, i, j). j - i)") (auto simp: Let_def)

declare sort_search.simps [simp del]

definition insertSorted :: "candidate list \<Rightarrow> candidate \<Rightarrow> candidate list" where
  "insertSorted xs item =
     (let pos = sort_search (\<lambda>i. f32_less (snd item) (snd (xs ! i))) 0 (length xs) in take pos xs @ item # drop pos xs)"

definition selectNeighbors :: "candidate list \<Rightarrow> int \<Rightarrow> candidate list" where
  "selectNeighbors candidates m = (if int (length candidates) \<le> m then candidates else take (nat m) candidates)"

section \<open>Searching a layer\<close>

text \<open>The loop over the neighbours of a candidate: the visited nodes, the candidates and the results so far.\<close>

fun visit_neighbors ::
    "hnsw_index \<Rightarrow> f32 list \<Rightarrow> int \<Rightarrow> bytes list \<Rightarrow> bytes list \<times> candidate list \<times> candidate list \<Rightarrow>
       bytes list \<times> candidate list \<times> candidate list" where
  "visit_neighbors idx query ef [] st = st"
| "visit_neighbors idx query ef (nb # nbs) (visited, candidates, dyn) =
     (if nb \<in> set visited then visit_neighbors idx query ef nbs (visited, candidates, dyn)
      else let visited = nb # visited in
        case hnsw_node_of idx nb of
          None \<Rightarrow> visit_neighbors idx query ef nbs (visited, candidates, dyn)
        | Some n \<Rightarrow>
            let dist = hx_distFn idx query (hn_vector n) in
            if int (length dyn) < ef \<or> f32_less dist (snd (last dyn))
            then let candidates = insertSorted candidates (nb, dist); dyn = insertSorted dyn (nb, dist);
                     dyn = (if int (length dyn) > ef then take (nat ef) dyn else dyn)
                 in visit_neighbors idx query ef nbs (visited, candidates, dyn)
            else visit_neighbors idx query ef nbs (visited, candidates, dyn))"

definition unvisited :: "hnsw_index \<Rightarrow> bytes list \<Rightarrow> nat" where
  "unvisited idx visited = card (fst ` set (hx_nodes idx) - set visited)"

lemma length_insertSorted [simp]: "length (insertSorted xs item) = Suc (length xs)"
  by (simp add: insertSorted_def Let_def)

lemma unvisited_less:
  assumes "hnsw_node_of idx nb = Some n" "nb \<notin> set visited"
  shows "unvisited idx (nb # visited) < unvisited idx visited"
proof -
  have "nb \<in> fst ` set (hx_nodes idx)" using assms(1) map_of_SomeD unfolding hnsw_node_of_def by (metis fst_conv image_eqI)
  then show ?thesis using assms(2) unfolding unvisited_def by (intro psubset_card_mono) auto
qed

lemma unvisited_mono: "unvisited idx (nb # visited) \<le> unvisited idx visited"
  unfolding unvisited_def by (intro card_mono) auto

lemma visit_neighbors_measure:
  "(case visit_neighbors idx query ef nbs (visited, candidates, dyn) of
      (v, c, d) \<Rightarrow> unvisited idx v + length c) \<le> unvisited idx visited + length candidates"
proof (induction nbs arbitrary: visited candidates dyn)
  case (Cons nb nbs)
  have skip: "(case visit_neighbors idx query ef nbs (nb # visited, candidates, dyn) of (v, c, d) \<Rightarrow> unvisited idx v + length c)
      \<le> unvisited idx visited + length candidates"
    using Cons.IH [of "nb # visited" candidates dyn] unvisited_mono [of idx nb visited] by linarith
  have add: "(case visit_neighbors idx query ef nbs (nb # visited, insertSorted candidates x, d) of (v, c, d) \<Rightarrow> unvisited idx v + length c)
      \<le> unvisited idx visited + length candidates" if "hnsw_node_of idx nb = Some n" "nb \<notin> set visited" for n x d
    using Cons.IH [of "nb # visited" "insertSorted candidates x" d] unvisited_less [OF that] by simp
  show ?case using skip add Cons.IH by (simp add: Let_def split: option.split)
qed simp

text \<open>The loop over the candidates: each round takes one away, a candidate that is added has been unvisited before.\<close>

function search_loop ::
    "(bytes list \<Rightarrow> bytes list) \<Rightarrow> hnsw_index \<Rightarrow> f32 list \<Rightarrow> int \<Rightarrow> nat \<Rightarrow> bytes list \<Rightarrow> candidate list \<Rightarrow> candidate list \<Rightarrow> candidate list" where
  "search_loop ro idx query ef layer visited [] dyn = dyn"
| "search_loop ro idx query ef layer visited (c # cs) dyn =
     (if f32_less (snd (last dyn)) (snd c) \<and> int (length dyn) \<ge> ef then dyn
      else case layer_of idx (fst c) layer of
        None \<Rightarrow> search_loop ro idx query ef layer visited cs dyn
      | Some nbs \<Rightarrow>
          (case visit_neighbors idx query ef (ro nbs) (visited, cs, dyn) of
             (v, cs, dyn) \<Rightarrow> search_loop ro idx query ef layer v cs dyn))"
  by pat_completeness auto
termination
proof (relation "measure (\<lambda>(ro, idx, query, ef, layer, visited, cs, dyn). unvisited idx visited + length cs)", goal_cases)
  case (3 ro idx query ef layer visited c cs dyn nbs)
  then show ?case using visit_neighbors_measure [of idx query ef "ro nbs" visited cs dyn] by (auto split: prod.splits)
qed auto

definition searchLayer ::
    "(bytes list \<Rightarrow> bytes list) \<Rightarrow> hnsw_index \<Rightarrow> candidate \<Rightarrow> f32 list \<Rightarrow> int \<Rightarrow> nat \<Rightarrow> candidate list" where
  "searchLayer ro idx entry query ef layer = search_loop ro idx query ef layer [fst entry] [entry] [entry]"

text \<open>From the top layer down: the nearest node of each layer is the entry to the next.\<close>

definition descend :: "(bytes list \<Rightarrow> bytes list) \<Rightarrow> hnsw_index \<Rightarrow> f32 list \<Rightarrow> nat list \<Rightarrow> candidate \<Rightarrow> candidate" where
  "descend ro idx query layers entry =
     fold (\<lambda>l entry. case searchLayer ro idx entry query 1 l of [] \<Rightarrow> entry | c # _ \<Rightarrow> c) layers entry"

record search_result =
  sr_ID :: bytes
  sr_Distance :: f32

definition hnsw_Search :: "(bytes list \<Rightarrow> bytes list) \<Rightarrow> hnsw_index \<Rightarrow> f32 list \<Rightarrow> int \<Rightarrow> search_result list option" where
  "hnsw_Search ro idx query k =
     (if int (length query) \<noteq> hx_dim idx \<or> k \<le> 0 \<or> hx_nodes idx = [] then Some []
      else case hnsw_node_of idx (hx_entryID idx) of
        None \<Rightarrow> None
      | Some entryNode \<Rightarrow>
          let entry = (hx_entryID idx, hx_distFn idx query (hn_vector entryNode));
              entry = descend ro idx query (rev [1..<Suc (hx_entryLevel idx)]) entry;
              candidates = searchLayer ro idx entry query (max (hx_efSearch idx) k) 0;
              candidates = (if int (length candidates) > k then take (nat k) candidates else candidates)
          in Some (map (\<lambda>c. \<lparr>sr_ID = fst c, sr_Distance = snd c\<rparr>) candidates))"

section \<open>Connections\<close>

definition addConnection :: "bytes \<Rightarrow> bytes \<Rightarrow> nat \<Rightarrow> hnsw_index \<Rightarrow> hnsw_index" where
  "addConnection from to layer idx = update_layer from layer (\<lambda>cs. if to \<in> set cs then cs else cs @ [to]) idx"

definition pruneConnections ::
    "(bytes list \<Rightarrow> bytes list) \<Rightarrow> (candidate list \<Rightarrow> candidate list) \<Rightarrow> bytes \<Rightarrow> nat \<Rightarrow> hnsw_index \<Rightarrow> hnsw_index" where
  "pruneConnections ro sort_slice nodeID layer idx =
     (case hnsw_node_of idx nodeID of
        None \<Rightarrow> idx
      | Some n \<Rightarrow>
          if layer \<ge> length (hn_connections n) \<or> int (length (hn_connections n ! layer)) \<le> hx_mMax idx then idx
          else let candidates = List.map_filter
                     (\<lambda>nb. map_option (\<lambda>m. (nb, hx_distFn idx (hn_vector n) (hn_vector m))) (hnsw_node_of idx nb))
                     (ro (hn_connections n ! layer));
                   kept = map fst (take (nat (min (hx_mMax idx) (int (length candidates)))) (sort_slice candidates))
               in update_layer nodeID layer (\<lambda>_. kept) idx)"

text \<open>
  Connect a node with its neighbours on a layer. \<open>prune\<close> is what is done to a neighbour whose connections are counted;
  counting those of a neighbour without the layer is an access out of range.
\<close>

fun connect_all :: "(bytes \<Rightarrow> nat \<Rightarrow> hnsw_index \<Rightarrow> hnsw_index) \<Rightarrow> bytes \<Rightarrow> nat \<Rightarrow> candidate list \<Rightarrow> hnsw_index \<Rightarrow> hnsw_index option" where
  "connect_all prune i l [] idx = Some idx"
| "connect_all prune i l (nb # nbs) idx =
     (let idx = addConnection i (fst nb) l idx; idx = addConnection (fst nb) i l idx in
      case hnsw_node_of idx (fst nb) of
        None \<Rightarrow> connect_all prune i l nbs idx
      | Some _ \<Rightarrow>
          (case layer_of idx (fst nb) l of
             None \<Rightarrow> None
           | Some cs \<Rightarrow> connect_all prune i l nbs (if int (length cs) > hx_mMax idx then prune (fst nb) l idx else idx)))"

fun insert_layers ::
    "(bytes list \<Rightarrow> bytes list) \<Rightarrow> (candidate list \<Rightarrow> candidate list) \<Rightarrow> bytes \<Rightarrow> f32 list \<Rightarrow> nat list \<Rightarrow> candidate \<Rightarrow>
       hnsw_index \<Rightarrow> hnsw_index option" where
  "insert_layers ro sort_slice i vector [] entry idx = Some idx"
| "insert_layers ro sort_slice i vector (l # ls) entry idx =
     (let candidates = searchLayer ro idx entry vector (hx_efConst idx) l;
          neighbors = selectNeighbors candidates (if l = 0 then hx_mMax idx else hx_m idx)
      in case connect_all (pruneConnections ro sort_slice) i l neighbors idx of
           None \<Rightarrow> None
         | Some idx \<Rightarrow>
             insert_layers ro sort_slice i vector ls (case candidates of [] \<Rightarrow> entry | c # _ \<Rightarrow> c) idx)"

text \<open>Rebuilding adds connections without pruning.\<close>

fun rebuild_layers :: "(bytes list \<Rightarrow> bytes list) \<Rightarrow> bytes \<Rightarrow> f32 list \<Rightarrow> nat list \<Rightarrow> candidate \<Rightarrow> hnsw_index \<Rightarrow> hnsw_index" where
  "rebuild_layers ro i vector [] entry idx = idx"
| "rebuild_layers ro i vector (l # ls) entry idx =
     (let candidates = searchLayer ro idx entry vector (hx_efConst idx) l;
          neighbors = selectNeighbors candidates (if l = 0 then hx_mMax idx else hx_m idx);
          idx = fold (\<lambda>nb idx. addConnection (fst nb) i l (addConnection i (fst nb) l idx)) neighbors idx
      in rebuild_layers ro i vector ls (case candidates of [] \<Rightarrow> entry | c # _ \<Rightarrow> c) idx)"

definition rebuildConnections :: "(bytes list \<Rightarrow> bytes list) \<Rightarrow> bytes \<Rightarrow> nat \<Rightarrow> hnsw_index \<Rightarrow> hnsw_index" where
  "rebuildConnections ro nodeID level idx =
     (case hnsw_node_of idx nodeID of
        None \<Rightarrow> idx
      | Some n \<Rightarrow>
          if hx_entryID idx = [] \<or> hx_entryID idx = nodeID then idx
          else case hnsw_node_of idx (hx_entryID idx) of
            None \<Rightarrow> idx
          | Some entryNode \<Rightarrow>
              rebuild_layers ro nodeID (hn_vector n) (rev [0..<Suc (min level (hx_entryLevel idx))])
                (hx_entryID idx, hx_distFn idx (hn_vector n) (hn_vector entryNode)) idx)"

text \<open>Remove a node from the connections of its neighbours on a layer, as far as it knows them.\<close>

definition forget_neighbors :: "bytes \<Rightarrow> nat \<Rightarrow> bytes list \<Rightarrow> hnsw_index \<Rightarrow> hnsw_index" where
  "forget_neighbors i l nbs idx = fold (\<lambda>nb idx. update_layer nb l (\<lambda>cs. filter (\<lambda>j. j \<noteq> i) cs) idx) nbs idx"

definition disconnect_layer :: "(bytes list \<Rightarrow> bytes list) \<Rightarrow> bytes \<Rightarrow> nat \<Rightarrow> hnsw_index \<Rightarrow> hnsw_index" where
  "disconnect_layer ro i l idx =
     (case layer_of idx i l of None \<Rightarrow> idx
      | Some cs \<Rightarrow> update_layer i l (\<lambda>_. []) (forget_neighbors i l (ro cs) idx))"

section \<open>Insertion and deletion\<close>

definition hnsw_Insert ::
    "(bytes list \<Rightarrow> bytes list) \<Rightarrow> (candidate list \<Rightarrow> candidate list) \<Rightarrow> nat \<Rightarrow> bytes \<Rightarrow> f32 list \<Rightarrow> hnsw_index \<Rightarrow> hnsw_index option" where
  "hnsw_Insert ro sort_slice level i vector idx =
     (if int (length vector) \<noteq> hx_dim idx then Some idx
      else case hnsw_node_of idx i of
        Some existing \<Rightarrow>
          let idx = idx\<lparr>hx_nodes := AList.map_entry i (\<lambda>n. n\<lparr>hn_vector := vector\<rparr>) (hx_nodes idx)\<rparr>;
              idx = fold (disconnect_layer ro i) [0..<length (hn_connections existing)] idx
          in Some (rebuildConnections ro i (hn_level existing) idx)
      | None \<Rightarrow>
          let idx = idx\<lparr>hx_nodes := (i, \<lparr>hn_vector = vector, hn_level = level, hn_connections = replicate (Suc level) []\<rparr>) # hx_nodes idx\<rparr> in
          if hx_entryID idx = [] then Some (idx\<lparr>hx_entryID := i, hx_entryLevel := level\<rparr>)
          else case hnsw_node_of idx (hx_entryID idx) of
            None \<Rightarrow> None
          | Some entryNode \<Rightarrow>
              let entry = (hx_entryID idx, hx_distFn idx vector (hn_vector entryNode));
                  entry = descend ro idx vector (rev [Suc level..<Suc (hx_entryLevel idx)]) entry
              in map_option (\<lambda>idx. if level > hx_entryLevel idx then idx\<lparr>hx_entryID := i, hx_entryLevel := level\<rparr> else idx)
                   (insert_layers ro sort_slice i vector (rev [0..<Suc (min level (hx_entryLevel idx))]) entry idx))"

text \<open>The new entry: the first of the nodes of the highest level, in the order of the loop.\<close>

definition pick_entry :: "hnsw_index \<Rightarrow> bytes list \<Rightarrow> bytes \<times> nat" where
  "pick_entry idx ids =
     fold (\<lambda>i (entryID, entryLevel).
       case hnsw_node_of idx i of
         None \<Rightarrow> (entryID, entryLevel)
       | Some n \<Rightarrow> if entryID = [] \<or> hn_level n > entryLevel then (i, hn_level n) else (entryID, entryLevel)) ids ([], 0)"

text \<open>The deleted node's layers are read; \<open>level\<close> and the number of layers agree in every node that is built.\<close>

definition hnsw_Delete :: "(bytes list \<Rightarrow> bytes list) \<Rightarrow> bytes \<Rightarrow> hnsw_index \<Rightarrow> hnsw_index" where
  "hnsw_Delete ro i idx =
     (case hnsw_node_of idx i of
        None \<Rightarrow> idx
      | Some n \<Rightarrow>
          let idx = fold (\<lambda>l idx. case layer_of idx i l of None \<Rightarrow> idx | Some cs \<Rightarrow> forget_neighbors i l (ro cs) idx)
                      [0..<Suc (hn_level n)] idx;
              idx = idx\<lparr>hx_nodes := AList.delete i (hx_nodes idx)\<rparr>
          in if hx_entryID idx = i
             then case pick_entry idx (ro (map fst (hx_nodes idx))) of (e, l) \<Rightarrow> idx\<lparr>hx_entryID := e, hx_entryLevel := l\<rparr>
             else idx)"

definition hnsw_Len :: "hnsw_index \<Rightarrow> nat" where
  "hnsw_Len idx = length (hx_nodes idx)"

definition hnsw_Contains :: "hnsw_index \<Rightarrow> bytes \<Rightarrow> bool" where
  "hnsw_Contains idx i \<longleftrightarrow> hnsw_node_of idx i \<noteq> None"

definition GetVector :: "hnsw_index \<Rightarrow> bytes \<Rightarrow> f32 list option" where
  "GetVector idx i = map_option hn_vector (hnsw_node_of idx i)"

definition GetAllIDs :: "hnsw_index \<Rightarrow> bytes list" where
  "GetAllIDs idx = map fst (hx_nodes idx)"

text \<open>The random level: the numbers that the loop draws are below the probability or not; no more than 16 count.\<close>

definition randomLevel :: "bool list \<Rightarrow> nat" where
  "randomLevel draws = min 16 (length (takeWhile (\<lambda>b. b) draws))"

end
