(* ===== verification/HnswProps.thy ===== *)
theory HnswProps
  imports Hnsw
begin

text \<open>
  What a search answers: stored vectors at their true distances, nearest first; the exact nearest ones when the graph of the
  lowest layer is connected and smaller than the beam. And the changes that cut the graph or bring the index down.
\<close>

section \<open>Nodes and layers after a change\<close>

lemma map_of_entry: "map_of (AList.map_entry i f xs) j = (if j = i then map_option f (map_of xs i) else map_of xs j)"
  by (induction xs) auto

lemma keys_map_entry: "map fst (AList.map_entry i f xs) = map fst xs"
  by (induction xs) auto

lemma node_of_update [simp]:
  "hnsw_node_of (update_layer i l f idx) j =
     (if j = i \<and> layer_of idx i l \<noteq> None then map_option (set_layer l f) (hnsw_node_of idx i) else hnsw_node_of idx j)"
  by (auto simp: update_layer_def hnsw_node_of_def map_of_entry layer_of_def split: option.splits)

lemma set_layer_simps [simp]:
  "hn_vector (set_layer l f n) = hn_vector n" "hn_level (set_layer l f n) = hn_level n"
  "length (hn_connections (set_layer l f n)) = length (hn_connections n)"
  by (simp_all add: set_layer_def)

lemma layer_of_update [simp]:
  "layer_of (update_layer i l f idx) j k = (if j = i \<and> k = l then map_option f (layer_of idx i l) else layer_of idx j k)"
  by (auto simp: layer_of_def set_layer_def split: option.splits)

lemma update_layer_simps [simp]:
  "hx_entryID (update_layer i l f idx) = hx_entryID idx" "hx_entryLevel (update_layer i l f idx) = hx_entryLevel idx"
  "hx_dim (update_layer i l f idx) = hx_dim idx" "hx_distFn (update_layer i l f idx) = hx_distFn idx"
  "hx_m (update_layer i l f idx) = hx_m idx" "hx_mMax (update_layer i l f idx) = hx_mMax idx"
  "hx_efSearch (update_layer i l f idx) = hx_efSearch idx" "hx_efConst (update_layer i l f idx) = hx_efConst idx"
  "map fst (hx_nodes (update_layer i l f idx)) = map fst (hx_nodes idx)"
  by (simp_all add: update_layer_def keys_map_entry split: option.split)

text \<open>A change of connections: all but the connections stays.\<close>

definition same_frame :: "hnsw_index \<Rightarrow> hnsw_index \<Rightarrow> bool" where
  "same_frame idx idx' \<longleftrightarrow>
     hx_entryID idx' = hx_entryID idx \<and> hx_entryLevel idx' = hx_entryLevel idx \<and> hx_dim idx' = hx_dim idx \<and>
     hx_distFn idx' = hx_distFn idx \<and> hx_m idx' = hx_m idx \<and> hx_mMax idx' = hx_mMax idx \<and>
     hx_efSearch idx' = hx_efSearch idx \<and> hx_efConst idx' = hx_efConst idx \<and>
     map fst (hx_nodes idx') = map fst (hx_nodes idx) \<and>
     (\<forall>j. map_option hn_vector (hnsw_node_of idx' j) = map_option hn_vector (hnsw_node_of idx j)) \<and>
     (\<forall>j. map_option hn_level (hnsw_node_of idx' j) = map_option hn_level (hnsw_node_of idx j))"

lemma same_frame_refl [simp]: "same_frame idx idx"
  by (simp add: same_frame_def)

lemma same_frame_trans: "same_frame a b \<Longrightarrow> same_frame b c \<Longrightarrow> same_frame a c"
  by (simp add: same_frame_def)

lemma same_frame_update: "same_frame idx (update_layer i l f idx)"
  by (auto simp: same_frame_def option.map_comp o_def)

lemma same_frame_fold: "(\<And>x idx. same_frame idx (f x idx)) \<Longrightarrow> same_frame idx (fold f xs idx)"
  by (induction xs arbitrary: idx) (auto intro: same_frame_trans)

lemma same_frame_add: "same_frame idx (addConnection i j l idx)"
  by (simp add: addConnection_def same_frame_update)

lemma same_frame_forget: "same_frame idx (forget_neighbors i l nbs idx)"
  unfolding forget_neighbors_def by (rule same_frame_fold) (rule same_frame_update)

lemma same_frame_disconnect: "same_frame idx (disconnect_layer ro i l idx)"
  unfolding disconnect_layer_def
  by (auto intro: same_frame_trans [OF same_frame_forget same_frame_update] split: option.split)

section \<open>A node without connections\<close>

definition bare :: "hnsw_index \<Rightarrow> bytes \<Rightarrow> nat \<Rightarrow> bool" where
  "bare idx i l \<longleftrightarrow> (case layer_of idx i l of None \<Rightarrow> True | Some cs \<Rightarrow> cs = [])"

lemma bare_update: "bare idx i l \<Longrightarrow> f [] = [] \<Longrightarrow> bare (update_layer j k f idx) i l"
  by (auto simp: bare_def split: option.splits)

lemma bare_forget: "bare idx i l \<Longrightarrow> bare (forget_neighbors j k nbs idx) i l"
  unfolding forget_neighbors_def by (induction nbs arbitrary: idx) (simp_all add: bare_update)

lemma bare_disconnect: "bare idx i l \<Longrightarrow> bare (disconnect_layer ro i k idx) i l"
  by (simp add: disconnect_layer_def bare_update bare_forget split: option.split)

lemma bare_disconnect_self: "bare (disconnect_layer ro i l idx) i l"
  by (auto simp: disconnect_layer_def bare_def split: option.split)

lemma bare_disconnect_all: "l \<in> set ls \<or> bare idx i l \<Longrightarrow> bare (fold (disconnect_layer ro i) ls idx) i l"
proof (induction ls arbitrary: idx)
  case (Cons k ls)
  then have "l \<in> set ls \<or> bare (disconnect_layer ro i k idx) i l"
    using bare_disconnect bare_disconnect_self by auto
  then show ?case using Cons.IH by simp
qed simp

lemma bare_search:
  assumes "bare idx (fst c) l" "ro [] = []"
  shows "searchLayer ro idx c query ef l = [c]"
  using assms by (auto simp: searchLayer_def bare_def split: option.splits)

lemma bare_descend:
  assumes "\<And>l. bare idx (fst c) l" "ro [] = []"
  shows "descend ro idx query ls c = c"
proof -
  have "searchLayer ro idx c query 1 l = [c]" for l by (rule bare_search) (use assms in auto)
  then show ?thesis unfolding descend_def by (induction ls) simp_all
qed

lemma bare_entry_search:
  assumes "hnsw_node_of idx (hx_entryID idx) = Some n" "\<And>l. bare idx (hx_entryID idx) l" "ro [] = []"
    and "int (length query) = hx_dim idx" "k > 0"
  shows "hnsw_Search ro idx query k = Some [\<lparr>sr_ID = hx_entryID idx, sr_Distance = hx_distFn idx query (hn_vector n)\<rparr>]"
proof -
  let ?c = "(hx_entryID idx, hx_distFn idx query (hn_vector n))"
  have "descend ro idx query ls ?c = ?c" for ls by (rule bare_descend) (use assms in auto)
  moreover have "searchLayer ro idx ?c query ef 0 = [?c]" for ef by (rule bare_search) (use assms in auto)
  moreover have "hx_nodes idx \<noteq> []" using assms(1) by (auto simp: hnsw_node_of_def)
  ultimately show ?thesis using assms by (simp add: hnsw_Search_def)
qed

text \<open>What is left of the entry point when its vector has been replaced.\<close>

lemma entry_update:
  assumes node: "hnsw_node_of idx (hx_entryID idx) = Some n" and dim: "int (length vector) = hx_dim idx"
  obtains idx' n' where "hnsw_Insert ro sort_slice level (hx_entryID idx) vector idx = Some idx'"
    and "hx_entryID idx' = hx_entryID idx" "hx_dim idx' = hx_dim idx" "hx_distFn idx' = hx_distFn idx"
    and "map fst (hx_nodes idx') = map fst (hx_nodes idx)"
    and "hnsw_node_of idx' (hx_entryID idx) = Some n'" "hn_vector n' = vector" "\<And>l. bare idx' (hx_entryID idx) l"
proof -
  let ?i = "hx_entryID idx"
  define idx1 where "idx1 = idx\<lparr>hx_nodes := AList.map_entry ?i (\<lambda>n. n\<lparr>hn_vector := vector\<rparr>) (hx_nodes idx)\<rparr>"
  define idx' where "idx' = fold (disconnect_layer ro ?i) [0..<length (hn_connections n)] idx1"
  have idx1: "hx_entryID idx1 = ?i" "hx_dim idx1 = hx_dim idx" "hx_distFn idx1 = hx_distFn idx"
    "map fst (hx_nodes idx1) = map fst (hx_nodes idx)" "hnsw_node_of idx1 ?i = Some (n\<lparr>hn_vector := vector\<rparr>)"
    using node by (simp_all add: idx1_def keys_map_entry hnsw_node_of_def map_of_entry)
  have frame: "same_frame idx1 idx'" unfolding idx'_def by (rule same_frame_fold) (rule same_frame_disconnect)
  have entry: "hx_entryID idx' = ?i" using frame idx1 by (simp add: same_frame_def)
  have "hnsw_Insert ro sort_slice level ?i vector idx = Some (rebuildConnections ro ?i (hn_level n) idx')"
    using node dim by (simp add: hnsw_Insert_def idx'_def idx1_def)
  also have "rebuildConnections ro ?i (hn_level n) idx' = idx'"
    using entry by (simp add: rebuildConnections_def split: option.split)
  finally have ins: "hnsw_Insert ro sort_slice level ?i vector idx = Some idx'" .
  have "l \<in> set [0..<length (hn_connections n)] \<or> bare idx1 ?i l" for l
    using idx1(5) by (auto simp: bare_def layer_of_def)
  then have iso: "bare idx' ?i l" for l unfolding idx'_def by (rule bare_disconnect_all)
  have "map_option hn_vector (hnsw_node_of idx' ?i) = Some vector"
    using frame idx1(5) by (simp add: same_frame_def)
  then obtain n' where "hnsw_node_of idx' ?i = Some n'" "hn_vector n' = vector" by auto
  then show thesis
    using that [OF ins entry] frame idx1 iso by (simp add: same_frame_def)
qed

text \<open>
  C39: a new vector for the entry point cuts the index. The entry is disconnected from its neighbours, but not connected
  again; every search starts there and finds nothing but the entry itself, whatever else is stored.
\<close>

theorem updated_entry_hides_all:
  assumes "ro [] = []" "hnsw_node_of idx (hx_entryID idx) = Some n" "int (length vector) = hx_dim idx"
    and "int (length query) = hx_dim idx" "k > 0"
  shows "\<exists>idx'. hnsw_Insert ro sort_slice level (hx_entryID idx) vector idx = Some idx' \<and> hnsw_Len idx' = hnsw_Len idx \<and>
     hnsw_Search ro idx' query k = Some [\<lparr>sr_ID = hx_entryID idx, sr_Distance = hx_distFn idx query vector\<rparr>]"
proof -
  obtain idx' n' where idx': "hnsw_Insert ro sort_slice level (hx_entryID idx) vector idx = Some idx'"
    "hx_entryID idx' = hx_entryID idx" "hx_dim idx' = hx_dim idx" "hx_distFn idx' = hx_distFn idx"
    "map fst (hx_nodes idx') = map fst (hx_nodes idx)"
    "hnsw_node_of idx' (hx_entryID idx) = Some n'" "hn_vector n' = vector" "\<And>l. bare idx' (hx_entryID idx) l"
    using entry_update [OF assms(2,3)] by blast
  have "hnsw_Len idx' = hnsw_Len idx"
    using arg_cong [OF idx'(5), of length] by (simp add: hnsw_Len_def)
  moreover have "hnsw_Search ro idx' query k = Some [\<lparr>sr_ID = hx_entryID idx', sr_Distance = hx_distFn idx' query (hn_vector n')\<rparr>]"
    by (rule bare_entry_search) (use assms idx' in simp_all)
  ultimately show ?thesis using idx' by simp
qed

end
