(* ===== verification/HnswSearch.thy ===== *)
theory HnswSearch
  imports HnswProps "HOL-Library.Multiset"
begin

text \<open>Searches of the index: what every search answers, and when it is the search through all vectors.\<close>

section \<open>Lists of candidates\<close>

abbreviation key_of :: "candidate \<Rightarrow> int" where
  "key_of c \<equiv> f32_key (snd c)"

abbreviation by_distance :: "candidate list \<Rightarrow> bool" where
  "by_distance cs \<equiv> sorted (map key_of cs)"

definition splits_at :: "(nat \<Rightarrow> bool) \<Rightarrow> nat \<Rightarrow> nat \<Rightarrow> nat \<Rightarrow> bool" where
  "splits_at f i j p \<longleftrightarrow> i \<le> p \<and> p \<le> j \<and> (\<forall>k \<in> {i..<p}. \<not> f k) \<and> (\<forall>k \<in> {p..<j}. f k)"

lemma splits_right: "splits_at f (Suc h) j p \<Longrightarrow> i \<le> h \<Longrightarrow> (\<And>k. k \<le> h \<Longrightarrow> \<not> f k) \<Longrightarrow> splits_at f i j p"
  unfolding splits_at_def by (metis Suc_leD atLeastLessThan_iff le_trans not_less_eq_eq)

lemma splits_left: "splits_at f i h p \<Longrightarrow> h < j \<Longrightarrow> (\<And>k. h \<le> k \<Longrightarrow> k < j \<Longrightarrow> f k) \<Longrightarrow> splits_at f i j p"
  unfolding splits_at_def by (metis atLeastLessThan_iff le_trans less_imp_le not_less)

lemma sort_search_spec:
  assumes "i \<le> j" "\<And>a b. a \<le> b \<Longrightarrow> b < j \<Longrightarrow> f a \<Longrightarrow> f b"
  shows "splits_at f i j (sort_search f i j)"
  using assms
proof (induction f i j rule: sort_search.induct)
  case (1 f i j)
  show ?case
  proof (cases "i < j")
    case False
    then have "i = j" using "1.prems"(1) by simp
    then have "sort_search f i j = i" by (subst sort_search.simps) simp
    then show ?thesis using \<open>i = j\<close> by (simp add: splits_at_def)
  next
    case True
    define h where "h = (i + j) div 2"
    have h: "i \<le> h" "h < j" using True by (auto simp: h_def)
    show ?thesis
    proof (cases "f h")
      case False
      have eq: "sort_search f i j = sort_search f (Suc h) j"
        using True False by (subst sort_search.simps) (simp add: h_def Let_def)
      have "splits_at f (Suc h) j (sort_search f (Suc h) j)"
        using "1.IH"(1) [OF True h_def False] h(2) "1.prems"(2) by simp
      then show ?thesis unfolding eq by (rule splits_right [OF _ h(1)]) (use False "1.prems"(2) h(2) in blast)
    next
      case f: True
      have eq: "sort_search f i j = sort_search f i h"
        using True f by (subst sort_search.simps) (simp add: h_def Let_def)
      have "splits_at f i h (sort_search f i h)"
        using "1.IH"(2) [OF True h_def] f h "1.prems"(2) by simp
      then show ?thesis unfolding eq by (rule splits_left [OF _ h(2)]) (use f "1.prems"(2) in blast)
    qed
  qed
qed

lemma set_insertSorted [simp]: "set (insertSorted xs item) = insert item (set xs)"
proof -
  have "set xs = set (take n xs) \<union> set (drop n xs)" for n by (metis append_take_drop_id set_append)
  then show ?thesis by (auto simp: insertSorted_def Let_def)
qed

lemma mset_insertSorted: "mset (insertSorted xs item) = add_mset item (mset xs)"
proof -
  have "mset xs = mset (take n xs) + mset (drop n xs)" for n by (metis append_take_drop_id mset_append)
  then show ?thesis by (simp add: insertSorted_def Let_def)
qed

lemma sorted_insert_at:
  assumes "sorted ks" "\<And>k. k < p \<Longrightarrow> k < length ks \<Longrightarrow> ks ! k \<le> x" "\<And>k. p \<le> k \<Longrightarrow> k < length ks \<Longrightarrow> x \<le> ks ! k"
  shows "sorted (take p ks @ x # drop p ks)"
proof -
  have le: "y \<le> x" if "y \<in> set (take p ks)" for y
  proof -
    obtain k where "k < length (take p ks)" "y = take p ks ! k" using \<open>y \<in> set (take p ks)\<close> by (metis in_set_conv_nth)
    then show ?thesis using assms(2) [of k] by simp
  qed
  have ge: "x \<le> y" if "y \<in> set (drop p ks)" for y
  proof -
    obtain k where "k < length (drop p ks)" "y = drop p ks ! k" using \<open>y \<in> set (drop p ks)\<close> by (metis in_set_conv_nth)
    then show ?thesis using assms(3) [of "p + k"] by simp
  qed
  have "sorted (x # drop p ks)" using ge assms(1) by (simp add: sorted_wrt_drop)
  moreover have "\<forall>y \<in> set (take p ks). \<forall>z \<in> set (x # drop p ks). y \<le> z" using le ge by (auto intro: order_trans)
  ultimately show ?thesis using assms(1) unfolding sorted_append by (simp add: sorted_wrt_take)
qed

lemma insertSorted_by_distance:
  assumes "by_distance xs" "\<forall>c \<in> set xs. \<not> f32_is_nan (snd c)" "\<not> f32_is_nan (snd item)"
  shows "by_distance (insertSorted xs item)"
proof -
  define f where "f = (\<lambda>i. f32_less (snd item) (snd (xs ! i)))"
  define p where "p = sort_search f 0 (length xs)"
  have f: "f i \<longleftrightarrow> key_of item < map key_of xs ! i" if "i < length xs" for i
    using assms that by (simp add: f32_less_def f_def)
  have "f a \<Longrightarrow> f b" if "a \<le> b" "b < length xs" for a b
    using f [of a] f [of b] sorted_nth_mono [OF assms(1), of a b] that by simp
  then have "splits_at f 0 (length xs) p" unfolding p_def by (intro sort_search_spec) auto
  then have "map key_of xs ! k \<le> key_of item" if "k < p" "k < length xs" for k
    using f [of k] that by (simp add: splits_at_def)
  moreover have "key_of item \<le> map key_of xs ! k" if "p \<le> k" "k < length xs" for k
    using \<open>splits_at f 0 (length xs) p\<close> f [of k] that by (simp add: splits_at_def)
  ultimately have "sorted (take p (map key_of xs) @ key_of item # drop p (map key_of xs))"
    by (intro sorted_insert_at [OF assms(1)]) simp_all
  moreover have "map key_of (insertSorted xs item) = take p (map key_of xs) @ key_of item # drop p (map key_of xs)"
    by (simp add: insertSorted_def p_def f_def take_map drop_map Let_def)
  ultimately show ?thesis by simp
qed

section \<open>Results\<close>

text \<open>A candidate that is a stored node at its distance.\<close>

definition true_at :: "hnsw_index \<Rightarrow> f32 list \<Rightarrow> candidate \<Rightarrow> bool" where
  "true_at idx query c \<longleftrightarrow> (\<exists>n. hnsw_node_of idx (fst c) = Some n \<and> snd c = hx_distFn idx query (hn_vector n))"

definition no_nan :: "hnsw_index \<Rightarrow> f32 list \<Rightarrow> bool" where
  "no_nan idx query \<longleftrightarrow> (\<forall>i n. hnsw_node_of idx i = Some n \<longrightarrow> \<not> f32_is_nan (hx_distFn idx query (hn_vector n)))"

definition results_ok :: "hnsw_index \<Rightarrow> f32 list \<Rightarrow> int \<Rightarrow> bytes list \<Rightarrow> candidate list \<Rightarrow> bool" where
  "results_ok idx query ef visited dyn \<longleftrightarrow>
     dyn \<noteq> [] \<and> (\<forall>c \<in> set dyn. true_at idx query c) \<and> by_distance dyn \<and> distinct (map fst dyn) \<and>
     fst ` set dyn \<subseteq> set visited \<and> int (length dyn) \<le> ef"

lemma true_no_nan: "no_nan idx query \<Longrightarrow> true_at idx query c \<Longrightarrow> \<not> f32_is_nan (snd c)"
  by (auto simp: no_nan_def true_at_def)

lemma results_skip: "results_ok idx query ef visited dyn \<Longrightarrow> results_ok idx query ef (nb # visited) dyn"
  by (auto simp: results_ok_def)

lemma results_add:
  assumes "no_nan idx query" "ef \<ge> 1" "results_ok idx query ef visited dyn" "true_at idx query (nb, d)" "nb \<notin> set visited"
  shows "results_ok idx query ef (nb # visited)
    (let dyn = insertSorted dyn (nb, d) in if int (length dyn) > ef then take (nat ef) dyn else dyn)"
proof -
  let ?dyn = "insertSorted dyn (nb, d)"
  have sorted: "by_distance ?dyn"
    using assms true_no_nan by (intro insertSorted_by_distance) (auto simp: results_ok_def)
  have "distinct (map fst (insertSorted dyn (nb, d)))"
  proof -
    have "mset (map fst ?dyn) = mset (nb # map fst dyn)" by (simp only: mset_map mset_insertSorted mset.simps image_mset_add_mset fst_conv)
    moreover have "distinct (nb # map fst dyn)" using assms(3,5) by (auto simp: results_ok_def)
    ultimately show ?thesis by (metis mset_eq_imp_distinct_iff)
  qed
  moreover have "\<forall>c \<in> set ?dyn. true_at idx query c" "fst ` set ?dyn \<subseteq> set (nb # visited)" "?dyn \<noteq> []"
    using assms by (auto simp: results_ok_def simp flip: length_greater_0_conv)
  ultimately have ok: "results_ok idx query (int (length ?dyn)) (nb # visited) ?dyn"
    using sorted by (simp add: results_ok_def)
  have "fst ` set (take (nat ef) ?dyn) \<subseteq> fst ` set ?dyn" by (intro image_mono set_take_subset)
  then have "results_ok idx query ef (nb # visited) (take (nat ef) ?dyn)"
    using ok assms(2) sorted_wrt_take [of "(\<le>)" "map key_of ?dyn" "nat ef"] distinct_take [of "map fst ?dyn" "nat ef"]
    by (auto simp only: results_ok_def take_map length_take nat_le_iff take_eq_Nil dest: in_set_takeD)
  then show ?thesis using ok by (auto simp: Let_def results_ok_def)
qed

lemma visit_sound:
  assumes "no_nan idx query" "ef \<ge> 1"
    and "\<forall>c \<in> set cs. true_at idx query c" "results_ok idx query ef visited dyn"
    and "visit_neighbors idx query ef nbs (visited, cs, dyn) = (v, cs', dyn')"
  shows "(\<forall>c \<in> set cs'. true_at idx query c) \<and> results_ok idx query ef v dyn'"
  using assms(3-)
proof (induction nbs arbitrary: visited cs dyn)
  case (Cons nb nbs)
  consider "nb \<in> set visited" | "nb \<notin> set visited" "hnsw_node_of idx nb = None"
    | n where "nb \<notin> set visited" "hnsw_node_of idx nb = Some n" by (cases "hnsw_node_of idx nb") auto
  then show ?case
  proof cases
    case 1
    then show ?thesis using Cons by simp
  next
    case 2
    then show ?thesis using Cons.IH [OF Cons.prems(1) results_skip [OF Cons.prems(2)]] Cons.prems(3) by (simp add: Let_def)
  next
    case (3 n)
    let ?d = "hx_distFn idx query (hn_vector n)"
    have t: "true_at idx query (nb, ?d)" using 3 by (simp add: true_at_def)
    note add = results_add [OF assms(1,2) Cons.prems(2) t 3(1)]
    show ?thesis
    proof (cases "int (length dyn) < ef \<or> f32_less ?d (snd (last dyn))")
      case True
      have "\<forall>c \<in> set (insertSorted cs (nb, ?d)). true_at idx query c" using t Cons.prems(1) by simp
      moreover have "visit_neighbors idx query ef nbs (nb # visited, insertSorted cs (nb, ?d),
          let dyn = insertSorted dyn (nb, ?d) in if int (length dyn) > ef then take (nat ef) dyn else dyn) = (v, cs', dyn')"
        using Cons.prems(3) 3 True by (simp only: visit_neighbors.simps Let_def if_False if_True option.case)
      ultimately show ?thesis using Cons.IH [OF _ add] by blast
    next
      case False
      then show ?thesis using Cons.IH [OF Cons.prems(1) results_skip [OF Cons.prems(2)]] Cons.prems(3) 3 by (simp add: Let_def)
    qed
  qed
qed simp

lemma search_loop_sound:
  assumes "no_nan idx query" "ef \<ge> 1"
    and "\<forall>c \<in> set cs. true_at idx query c" "results_ok idx query ef visited dyn"
  shows "\<exists>v. results_ok idx query ef v (search_loop ro idx query ef layer visited cs dyn)"
  using assms
proof (induction ro idx query ef layer visited cs dyn rule: search_loop.induct)
  case (2 ro idx query ef layer visited c cs dyn)
  show ?case
  proof (cases "f32_less (snd (last dyn)) (snd c) \<and> int (length dyn) \<ge> ef")
    case True
    then show ?thesis using "2.prems" by auto
  next
    case False
    show ?thesis
    proof (cases "layer_of idx (fst c) layer")
      case None
      have "search_loop ro idx query ef layer visited (c # cs) dyn = search_loop ro idx query ef layer visited cs dyn"
        by (simp only: search_loop.simps False if_False None option.case)
      then show ?thesis using "2.IH"(1) [OF False None "2.prems"(1,2) _ "2.prems"(4)] "2.prems"(3) by simp
    next
      case (Some nbs)
      obtain v cs' dyn' where v: "visit_neighbors idx query ef (ro nbs) (visited, cs, dyn) = (v, cs', dyn')"
        by (metis prod_cases3)
      have visit: "(\<forall>c \<in> set cs'. true_at idx query c) \<and> results_ok idx query ef v dyn'"
        using visit_sound [OF "2.prems"(1,2) _ "2.prems"(4) v] "2.prems"(3) by simp
      have "\<exists>w. results_ok idx query ef w (search_loop ro idx query ef layer v cs' dyn')"
        using "2.IH"(2) [OF False Some v [symmetric] refl "2.prems"(1,2)] visit by blast
      moreover have "search_loop ro idx query ef layer visited (c # cs) dyn = search_loop ro idx query ef layer v cs' dyn'"
        by (simp only: search_loop.simps False if_False Some option.case v prod.case)
      ultimately show ?thesis by simp
    qed
  qed
qed auto

lemma searchLayer_sound:
  assumes "no_nan idx query" "ef \<ge> 1" "true_at idx query entry"
  shows "\<exists>v. results_ok idx query ef v (searchLayer ro idx entry query ef layer)"
  unfolding searchLayer_def using assms by (intro search_loop_sound) (auto simp: results_ok_def)

lemma descend_sound:
  assumes "no_nan idx query" "true_at idx query entry"
  shows "true_at idx query (descend ro idx query ls entry)"
  using assms(2) unfolding descend_def
proof (induction ls arbitrary: entry)
  case (Cons l ls)
  obtain v where v: "results_ok idx query 1 v (searchLayer ro idx entry query 1 l)"
    using searchLayer_sound [OF assms(1) _ Cons.prems] by fastforce
  then obtain c cs where "searchLayer ro idx entry query 1 l = c # cs" by (auto simp: results_ok_def neq_Nil_conv)
  then show ?case using Cons.IH [of c] v by (simp add: results_ok_def)
qed simp


section \<open>The invariant of an index\<close>

text \<open>The entry point is stored, and the beams are not empty.\<close>

definition hnsw_inv :: "hnsw_index \<Rightarrow> bool" where
  "hnsw_inv idx \<longleftrightarrow>
     (hx_nodes idx \<noteq> [] \<longrightarrow> hnsw_node_of idx (hx_entryID idx) \<noteq> None) \<and> distinct (map fst (hx_nodes idx)) \<and>
     hx_efSearch idx \<ge> 1 \<and> hx_efConst idx \<ge> 1"

lemma same_frame_inv: "same_frame idx idx' \<Longrightarrow> hnsw_inv idx \<Longrightarrow> hnsw_inv idx'"
  unfolding same_frame_def hnsw_inv_def by (metis list.map_disc_iff map_is_Nil_conv option.map_disc_iff)

lemma hnsw_inv_new: "hnsw_inv (NewHNSWIndex cfg)"
  by (simp add: hnsw_inv_def NewHNSWIndex_def Let_def)

lemma frame_prune: "same_frame idx (pruneConnections ro srt i l idx)"
  by (simp add: pruneConnections_def Let_def same_frame_update split: option.split)

lemma frame_connect_all: "connect_all (pruneConnections ro srt) i l nbs idx = Some idx' \<Longrightarrow> same_frame idx idx'"
proof (induction nbs arbitrary: idx)
  case (Cons nb nbs)
  define idx1 where "idx1 = addConnection (fst nb) i l (addConnection i (fst nb) l idx)"
  have f: "same_frame idx idx1" unfolding idx1_def by (rule same_frame_trans [OF same_frame_add same_frame_add])
  have run: "connect_all (pruneConnections ro srt) i l (nb # nbs) idx =
     (case hnsw_node_of idx1 (fst nb) of
        None \<Rightarrow> connect_all (pruneConnections ro srt) i l nbs idx1
      | Some _ \<Rightarrow>
          (case layer_of idx1 (fst nb) l of
             None \<Rightarrow> None
           | Some cs \<Rightarrow> connect_all (pruneConnections ro srt) i l nbs
               (if int (length cs) > hx_mMax idx1 then pruneConnections ro srt (fst nb) l idx1 else idx1)))"
    unfolding connect_all.simps Let_def idx1_def ..
  obtain idx2 where idx2: "connect_all (pruneConnections ro srt) i l nbs idx2 = Some idx'"
    and "idx2 = idx1 \<or> idx2 = pruneConnections ro srt (fst nb) l idx1"
    using Cons.prems unfolding run by (simp split: option.splits if_splits)
  then have "same_frame idx1 idx2" using frame_prune by auto
  then show ?case using Cons.IH [OF idx2] f same_frame_trans by blast
qed simp

lemma frame_insert_layers: "insert_layers ro srt i v ls e idx = Some idx' \<Longrightarrow> same_frame idx idx'"
proof (induction ls arbitrary: idx e)
  case (Cons l ls)
  then obtain idx2 e2 nbs where "connect_all (pruneConnections ro srt) i l nbs idx = Some idx2" "insert_layers ro srt i v ls e2 idx2 = Some idx'"
    by (auto simp: Let_def split: option.splits)
  then show ?case using Cons.IH frame_connect_all same_frame_trans by metis
qed simp

lemma frame_rebuild_layers: "same_frame idx (rebuild_layers ro i v ls e idx)"
proof (induction ls arbitrary: idx e)
  case (Cons l ls)
  have "same_frame idx (fold (\<lambda>nb idx. addConnection (fst nb) i l (addConnection i (fst nb) l idx)) nbs idx)" for nbs
    by (rule same_frame_fold) (rule same_frame_trans [OF same_frame_add same_frame_add])
  then show ?case using Cons.IH same_frame_trans unfolding rebuild_layers.simps Let_def by blast
qed simp

lemma frame_rebuild: "same_frame idx (rebuildConnections ro i l idx)"
  by (auto simp only: rebuildConnections_def frame_rebuild_layers same_frame_refl split: option.split if_split)

text \<open>Up to connections and the entry point, an insertion replaces a vector or adds a node.\<close>

definition with_vector :: "bytes \<Rightarrow> f32 list \<Rightarrow> hnsw_index \<Rightarrow> hnsw_index" where
  "with_vector i v idx = idx\<lparr>hx_nodes := AList.map_entry i (\<lambda>n. n\<lparr>hn_vector := v\<rparr>) (hx_nodes idx)\<rparr>"

definition with_node :: "bytes \<Rightarrow> f32 list \<Rightarrow> nat \<Rightarrow> hnsw_index \<Rightarrow> hnsw_index" where
  "with_node i v level idx =
     idx\<lparr>hx_nodes := (i, \<lparr>hn_vector = v, hn_level = level, hn_connections = replicate (Suc level) []\<rparr>) # hx_nodes idx\<rparr>"

lemma Insert_existing:
  assumes "int (length v) = hx_dim idx" "hnsw_node_of idx i = Some n" "hnsw_Insert ro srt level i v idx = Some idx'"
  shows "same_frame (with_vector i v idx) idx'"
proof -
  have "idx' = rebuildConnections ro i (hn_level n) (fold (disconnect_layer ro i) [0..<length (hn_connections n)] (with_vector i v idx))"
    using assms by (simp add: hnsw_Insert_def Let_def with_vector_def)
  moreover have "same_frame (with_vector i v idx) (fold (disconnect_layer ro i) [0..<length (hn_connections n)] (with_vector i v idx))"
    by (rule same_frame_fold) (rule same_frame_disconnect)
  ultimately show ?thesis using frame_rebuild same_frame_trans by blast
qed

lemma Insert_new:
  assumes "int (length v) = hx_dim idx" "hnsw_node_of idx i = None" "hnsw_Insert ro srt level i v idx = Some idx'"
  obtains idx2 where "same_frame (with_node i v level idx) idx2"
    and "idx' = idx2\<lparr>hx_entryID := i, hx_entryLevel := level\<rparr> \<or>
         (idx' = idx2 \<and> hnsw_node_of (with_node i v level idx) (hx_entryID idx) \<noteq> None)"
proof -
  define idx0 where "idx0 = with_node i v level idx"
  have e0: "hx_entryID idx0 = hx_entryID idx" unfolding idx0_def with_node_def by simp
  show thesis
  proof (cases "hx_entryID idx = []")
    case True
    then have "idx' = idx0\<lparr>hx_entryID := i, hx_entryLevel := level\<rparr>"
      using assms by (simp add: hnsw_Insert_def Let_def idx0_def with_node_def)
    then show thesis using that [OF same_frame_refl] idx0_def by blast
  next
    case False
    obtain ls e where "map_option (\<lambda>idx. if level > hx_entryLevel idx then idx\<lparr>hx_entryID := i, hx_entryLevel := level\<rparr> else idx)
        (insert_layers ro srt i v ls e idx0) = Some idx'" and stored: "hnsw_node_of idx0 (hx_entryID idx) \<noteq> None"
      using assms False
      by (simp add: hnsw_Insert_def Let_def e0 flip: with_node_def idx0_def del: insert_layers.simps upt.simps replicate_Suc map_option_eq_Some split: option.splits)
    then obtain idx2 where "insert_layers ro srt i v ls e idx0 = Some idx2"
      and "idx' = (if level > hx_entryLevel idx2 then idx2\<lparr>hx_entryID := i, hx_entryLevel := level\<rparr> else idx2)"
      by (auto simp only: map_option_eq_Some)
    then show thesis using that frame_insert_layers stored unfolding idx0_def by (metis (full_types))
  qed
qed

lemma hnsw_Insert_inv:
  assumes inv: "hnsw_inv idx" and ins: "hnsw_Insert ro srt level i v idx = Some idx'"
  shows "hnsw_inv idx'"
proof (cases "int (length v) = hx_dim idx")
  case False
  then show ?thesis using inv ins by (simp add: hnsw_Insert_def)
next
  case dim: True
  show ?thesis
  proof (cases "hnsw_node_of idx i")
    case (Some n)
    have ne: "AList.map_entry i f xs = [] \<longleftrightarrow> xs = []" for f :: "hnsw_node \<Rightarrow> hnsw_node" and xs
      by (metis keys_map_entry map_is_Nil_conv)
    have "hnsw_inv (with_vector i v idx)"
      using inv by (auto simp: with_vector_def hnsw_inv_def hnsw_node_of_def map_of_entry keys_map_entry ne simp del: map_of_eq_Some_iff)
    then show ?thesis using same_frame_inv [OF Insert_existing [OF dim Some ins]] by blast
  next
    case None
    obtain idx2 where frame: "same_frame (with_node i v level idx) idx2"
      and idx': "idx' = idx2\<lparr>hx_entryID := i, hx_entryLevel := level\<rparr> \<or>
         (idx' = idx2 \<and> hnsw_node_of (with_node i v level idx) (hx_entryID idx) \<noteq> None)"
      using Insert_new [OF dim None ins] by blast
    have new: "i \<notin> fst ` set (hx_nodes idx)" using None by (simp add: hnsw_node_of_def map_of_eq_None_iff)
    have "map_option hn_vector (hnsw_node_of idx2 i) = map_option hn_vector (hnsw_node_of (with_node i v level idx) i)"
      using frame unfolding same_frame_def by blast
    then have "hnsw_node_of idx2 i \<noteq> None" by (auto simp: hnsw_node_of_def with_node_def)
    moreover have "distinct (map fst (hx_nodes idx2))" "hx_efSearch idx2 \<ge> 1" "hx_efConst idx2 \<ge> 1"
      using frame new inv by (simp_all add: same_frame_def hnsw_inv_def with_node_def)
    ultimately have "hnsw_inv (idx2\<lparr>hx_entryID := i, hx_entryLevel := level\<rparr>)" by (simp add: hnsw_inv_def hnsw_node_of_def)
    moreover have "hnsw_inv idx2" if "hnsw_node_of (with_node i v level idx) (hx_entryID idx) \<noteq> None"
      using same_frame_inv [OF frame] inv new that by (simp add: hnsw_inv_def with_node_def)
    ultimately show ?thesis using idx' by blast
  qed
qed

text \<open>The vectors after an insertion.\<close>

lemma Insert_vectors:
  assumes "hnsw_Insert ro srt level i v idx = Some idx'"
  shows "GetVector idx' j = (if j = i \<and> int (length v) = hx_dim idx then Some v else GetVector idx j) \<and> hx_dim idx' = hx_dim idx"
proof (cases "int (length v) = hx_dim idx")
  case False
  then show ?thesis using assms by (auto simp: hnsw_Insert_def)
next
  case dim: True
  show ?thesis
  proof (cases "hnsw_node_of idx i")
    case (Some n)
    have "same_frame (with_vector i v idx) idx'" by (rule Insert_existing [OF dim Some assms])
    then have "GetVector idx' j = GetVector (with_vector i v idx) j" "hx_dim idx' = hx_dim (with_vector i v idx)"
      by (simp_all add: same_frame_def GetVector_def)
    then show ?thesis
      using dim Some by (simp add: with_vector_def GetVector_def hnsw_node_of_def map_of_entry option.map_comp o_def)
  next
    case None
    obtain idx2 where frame: "same_frame (with_node i v level idx) idx2"
      and idx': "idx' = idx2\<lparr>hx_entryID := i, hx_entryLevel := level\<rparr> \<or> idx' = idx2"
      using Insert_new [OF dim None assms] by blast
    have "GetVector idx2 j = GetVector (with_node i v level idx) j" "hx_dim idx2 = hx_dim (with_node i v level idx)"
      using frame by (simp_all add: same_frame_def GetVector_def)
    moreover have "GetVector idx' j = GetVector idx2 j" "hx_dim idx' = hx_dim idx2"
      using idx' by (auto simp: GetVector_def hnsw_node_of_def)
    ultimately show ?thesis using dim by (simp add: with_node_def GetVector_def hnsw_node_of_def)
  qed
qed

lemma pick_entry_loop:
  assumes "\<forall>i \<in> set ids. hnsw_node_of idx i \<noteq> None"
  shows "fst (fold (\<lambda>i (e, l). case hnsw_node_of idx i of None \<Rightarrow> (e, l)
       | Some n \<Rightarrow> if e = [] \<or> hn_level n > l then (i, hn_level n) else (e, l)) ids (e0, l0)) \<in> insert e0 (set ids)"
  using assms
proof (induction ids arbitrary: e0 l0)
  case (Cons i ids)
  then obtain n where "hnsw_node_of idx i = Some n" by auto
  then show ?case using Cons.IH [of e0 l0] Cons.IH [of i "hn_level n"] Cons.prems by auto
qed simp

lemma pick_entry_stored:
  assumes "\<forall>i \<in> set ids. hnsw_node_of idx i \<noteq> None" "ids \<noteq> []"
  shows "fst (pick_entry idx ids) \<in> set ids"
proof -
  obtain i rest where ids: "ids = i # rest" using assms(2) by (cases ids) auto
  then obtain n where n: "hnsw_node_of idx i = Some n" using assms(1) by auto
  then show ?thesis using pick_entry_loop [of rest idx i "hn_level n"] assms(1) by (simp add: pick_entry_def ids)
qed

lemma hnsw_Delete_inv:
  assumes inv: "hnsw_inv idx" and ro: "\<And>xs. set (ro xs) = set xs"
  shows "hnsw_inv (hnsw_Delete ro i idx)"
proof (cases "hnsw_node_of idx i")
  case None
  then show ?thesis using inv by (simp add: hnsw_Delete_def)
next
  case (Some n)
  define idx1 where "idx1 = fold (\<lambda>l idx. case layer_of idx i l of None \<Rightarrow> idx | Some cs \<Rightarrow> forget_neighbors i l (ro cs) idx) [0..<Suc (hn_level n)] idx"
  define idx2 where "idx2 = idx1\<lparr>hx_nodes := AList.delete i (hx_nodes idx1)\<rparr>"
  have frame: "same_frame idx idx1"
    unfolding idx1_def by (rule same_frame_fold) (simp add: same_frame_forget split: option.split)
  have inv1: "hnsw_inv idx1" using same_frame_inv [OF frame inv] .
  have entry1: "hx_entryID idx1 = hx_entryID idx" using frame by (simp add: same_frame_def)
  have node2: "hnsw_node_of idx2 j = (if j = i then None else hnsw_node_of idx1 j)" for j
    by (auto simp: idx2_def hnsw_node_of_def delete_conv)
  have base: "distinct (map fst (hx_nodes idx2))" "hx_efSearch idx2 \<ge> 1" "hx_efConst idx2 \<ge> 1" "hx_entryID idx2 = hx_entryID idx"
    using inv1 entry1 by (simp_all add: idx2_def hnsw_inv_def distinct_delete)
  have run: "hnsw_Delete ro i idx = (if hx_entryID idx2 = i
      then case pick_entry idx2 (ro (map fst (hx_nodes idx2))) of (e, l) \<Rightarrow> idx2\<lparr>hx_entryID := e, hx_entryLevel := l\<rparr> else idx2)"
    using Some by (simp add: hnsw_Delete_def idx2_def idx1_def Let_def)
  show ?thesis
  proof (cases "hx_entryID idx2 = i")
    case False
    have "hx_nodes idx2 \<noteq> [] \<longrightarrow> hnsw_node_of idx2 (hx_entryID idx2) \<noteq> None"
      using False inv1 node2 base(4) entry1 by (auto simp: hnsw_inv_def idx2_def)
    then show ?thesis using run False base by (simp add: hnsw_inv_def)
  next
    case True
    let ?ids = "ro (map fst (hx_nodes idx2))"
    have ids: "set ?ids = fst ` set (hx_nodes idx2)" using ro [of "map fst (hx_nodes idx2)"] by simp
    have stored: "hnsw_node_of idx2 j \<noteq> None \<longleftrightarrow> j \<in> fst ` set (hx_nodes idx2)" for j
      by (auto simp: hnsw_node_of_def map_of_eq_None_iff)
    have "hnsw_node_of idx2 (fst (pick_entry idx2 ?ids)) \<noteq> None" if "hx_nodes idx2 \<noteq> []"
    proof -
      have "?ids \<noteq> []" using ids that by auto
      then show ?thesis using pick_entry_stored [of ?ids idx2] ids stored by blast
    qed
    then show ?thesis using run True base
      by (auto simp: hnsw_inv_def hnsw_node_of_def split: prod.split)
  qed
qed

inductive hnsw_reachable :: "(bytes list \<Rightarrow> bytes list) \<Rightarrow> (candidate list \<Rightarrow> candidate list) \<Rightarrow> hnsw_index \<Rightarrow> bool" for ro srt where
  created: "hnsw_reachable ro srt (NewHNSWIndex cfg)"
| inserted: "hnsw_reachable ro srt idx \<Longrightarrow> hnsw_Insert ro srt level i v idx = Some idx' \<Longrightarrow> hnsw_reachable ro srt idx'"
| deleted: "hnsw_reachable ro srt idx \<Longrightarrow> hnsw_reachable ro srt (hnsw_Delete ro i idx)"

lemma hnsw_reachable_inv:
  assumes "hnsw_reachable ro srt idx" "\<And>xs. set (ro xs) = set xs"
  shows "hnsw_inv idx"
  using assms(1) by induction (auto intro: hnsw_inv_new hnsw_Insert_inv hnsw_Delete_inv [OF _ assms(2)])


section \<open>What a search answers\<close>

lemma reachable_entry:
  assumes "hnsw_reachable ro srt idx" "\<And>xs. set (ro xs) = set xs" "hx_nodes idx \<noteq> []"
  obtains n where "hnsw_node_of idx (hx_entryID idx) = Some n"
  using hnsw_reachable_inv [OF assms(1,2)] assms(3) by (auto simp: hnsw_inv_def)

text \<open>The search of the lowest layer that an answer is taken from.\<close>

lemma Search_run:
  assumes "hnsw_reachable ro srt idx" "\<And>xs. set (ro xs) = set xs" "no_nan idx query"
    and "int (length query) = hx_dim idx" "k > 0" "hx_nodes idx \<noteq> []"
  obtains entry where "true_at idx query entry"
    and "hnsw_Search ro idx query k = Some (map (\<lambda>c. \<lparr>sr_ID = fst c, sr_Distance = snd c\<rparr>)
        (take (nat k) (searchLayer ro idx entry query (max (hx_efSearch idx) k) 0)))"
proof -
  obtain n where n: "hnsw_node_of idx (hx_entryID idx) = Some n" using reachable_entry [OF assms(1,2,6)] .
  define e where "e = descend ro idx query (rev [1..<Suc (hx_entryLevel idx)]) (hx_entryID idx, hx_distFn idx query (hn_vector n))"
  have "true_at idx query e"
    unfolding e_def by (rule descend_sound [OF assms(3)]) (simp add: true_at_def n)
  moreover have "hnsw_Search ro idx query k = Some (map (\<lambda>c. \<lparr>sr_ID = fst c, sr_Distance = snd c\<rparr>)
        (take (nat k) (searchLayer ro idx e query (max (hx_efSearch idx) k) 0)))"
    using assms(4-6) n by (auto simp: hnsw_Search_def e_def Let_def simp del: upt.simps)
  ultimately show thesis by (rule that)
qed

text \<open>
  C37: a search of an index that was built by insertions and deletions never fails. It answers with at most \<open>k\<close> different
  vectors that are stored, each at its true distance from the query, the nearest first, and with at least one when any is
  stored.
\<close>

theorem search_sound:
  assumes "hnsw_reachable ro srt idx" "\<And>xs. set (ro xs) = set xs" "no_nan idx query"
  shows "\<exists>rs. hnsw_Search ro idx query k = Some rs \<and> int (length rs) \<le> max 0 k \<and> distinct (map sr_ID rs) \<and>
    sorted (map (\<lambda>r. f32_key (sr_Distance r)) rs) \<and>
    (\<forall>r \<in> set rs. \<exists>n. hnsw_node_of idx (sr_ID r) = Some n \<and> sr_Distance r = hx_distFn idx query (hn_vector n)) \<and>
    (rs = [] \<longleftrightarrow> int (length query) \<noteq> hx_dim idx \<or> k \<le> 0 \<or> hnsw_Len idx = 0)"
proof (cases "int (length query) = hx_dim idx \<and> k > 0 \<and> hx_nodes idx \<noteq> []")
  case False
  then show ?thesis by (auto simp: hnsw_Search_def hnsw_Len_def)
next
  case True
  obtain entry where t: "true_at idx query entry"
    and run: "hnsw_Search ro idx query k = Some (map (\<lambda>c. \<lparr>sr_ID = fst c, sr_Distance = snd c\<rparr>)
        (take (nat k) (searchLayer ro idx entry query (max (hx_efSearch idx) k) 0)))"
    using Search_run [OF assms] True by blast
  let ?cs = "searchLayer ro idx entry query (max (hx_efSearch idx) k) 0"
  obtain v where ok: "results_ok idx query (max (hx_efSearch idx) k) v ?cs"
    using searchLayer_sound [OF assms(3) _ t] True by (metis max.cobounded2 order_trans zless_imp_add1_zle add_0)
  let ?rs = "map (\<lambda>c. \<lparr>sr_ID = fst c, sr_Distance = snd c\<rparr>) (take (nat k) ?cs)"
  have "int (length ?rs) \<le> max 0 k" by auto
  moreover have "distinct (map sr_ID ?rs)" "sorted (map (\<lambda>r. f32_key (sr_Distance r)) ?rs)"
    using ok distinct_take [of "map fst ?cs" "nat k"] sorted_wrt_take [of "(\<le>)" "map key_of ?cs" "nat k"]
    by (simp_all add: results_ok_def o_def take_map)
  moreover have "\<forall>r \<in> set ?rs. \<exists>n. hnsw_node_of idx (sr_ID r) = Some n \<and> sr_Distance r = hx_distFn idx query (hn_vector n)"
    using ok by (auto simp: results_ok_def true_at_def dest!: in_set_takeD)
  moreover have "?rs \<noteq> []" using ok True by (auto simp: results_ok_def)
  ultimately show ?thesis using run True by (intro exI [of _ ?rs]) (simp add: hnsw_Len_def)
qed

section \<open>When a search is exact\<close>

text \<open>Connected on the lowest layer; links to nodes that have been deleted do not count.\<close>

definition linked0 :: "hnsw_index \<Rightarrow> bytes \<Rightarrow> bytes \<Rightarrow> bool" where
  "linked0 idx i j \<longleftrightarrow> (\<exists>cs. layer_of idx i 0 = Some cs \<and> j \<in> set cs) \<and> hnsw_node_of idx j \<noteq> None"

definition connected0 :: "hnsw_index \<Rightarrow> bool" where
  "connected0 idx \<longleftrightarrow> (\<forall>i j. hnsw_node_of idx i \<noteq> None \<and> hnsw_node_of idx j \<noteq> None \<longrightarrow> (linked0 idx)\<^sup>*\<^sup>* i j)"

definition found_all :: "hnsw_index \<Rightarrow> bytes list \<Rightarrow> candidate list \<Rightarrow> bool" where
  "found_all idx visited dyn \<longleftrightarrow> (\<forall>i \<in> set visited. hnsw_node_of idx i \<noteq> None \<longrightarrow> i \<in> fst ` set dyn)"

lemma stored_key: "hnsw_node_of idx i \<noteq> None \<longleftrightarrow> i \<in> fst ` set (hx_nodes idx)"
  by (auto simp: hnsw_node_of_def map_of_eq_None_iff)

lemma results_stored: "results_ok idx query ef visited dyn \<Longrightarrow> fst ` set dyn \<subseteq> fst ` set (hx_nodes idx)"
  unfolding results_ok_def true_at_def using stored_key by (metis (no_types, lifting) image_subsetI option.distinct(1))

lemma results_length: "results_ok idx query ef visited dyn \<Longrightarrow> length dyn = card (fst ` set dyn)"
  using distinct_card [of "map fst dyn"] by (simp add: results_ok_def)

lemma results_room:
  assumes "results_ok idx query ef visited dyn" "hnsw_node_of idx nb \<noteq> None" "nb \<notin> fst ` set dyn"
  shows "length dyn < length (hx_nodes idx)"
proof -
  have "nb \<in> fst ` set (hx_nodes idx)" using assms(2) stored_key by blast
  then have "fst ` set dyn \<subset> fst ` set (hx_nodes idx)" using results_stored [OF assms(1)] assms(3) by blast
  then have "length dyn < card (fst ` set (hx_nodes idx))"
    unfolding results_length [OF assms(1)] by (intro psubset_card_mono) auto
  also have "\<dots> \<le> length (hx_nodes idx)" using card_length [of "map fst (hx_nodes idx)"] by simp
  finally show ?thesis .
qed

lemma visit_full:
  assumes "no_nan idx query" "ef \<ge> 1" "int (length (hx_nodes idx)) \<le> ef"
    and "results_ok idx query ef visited dyn" "found_all idx visited dyn"
    and "visit_neighbors idx query ef nbs (visited, cs, dyn) = (v, cs', dyn')"
  shows "set v = set visited \<union> set nbs \<and> found_all idx v dyn' \<and> set dyn' \<subseteq> set dyn \<union> set cs' \<and> set cs \<subseteq> set cs'"
  using assms(4-)
proof (induction nbs arbitrary: visited cs dyn)
  case (Cons nb nbs)
  consider "nb \<in> set visited" | "nb \<notin> set visited" "hnsw_node_of idx nb = None"
    | n where "nb \<notin> set visited" "hnsw_node_of idx nb = Some n" by (cases "hnsw_node_of idx nb") auto
  then show ?case
  proof cases
    case 1
    then show ?thesis using Cons.IH [OF Cons.prems(1,2)] Cons.prems(3) by auto
  next
    case 2
    have "found_all idx (nb # visited) dyn" using Cons.prems(2) 2 by (auto simp: found_all_def)
    then show ?thesis using Cons.IH [OF results_skip [OF Cons.prems(1)]] Cons.prems(3) 2 by (simp add: Let_def)
  next
    case (3 n)
    let ?d = "hx_distFn idx query (hn_vector n)"
    have t: "true_at idx query (nb, ?d)" using 3 by (simp add: true_at_def)
    have "nb \<notin> fst ` set dyn" using Cons.prems(1) 3(1) by (auto simp: results_ok_def)
    then have room: "int (length dyn) < ef" using results_room [OF Cons.prems(1)] 3(2) assms(3) by fastforce
    then have keep: "(let dyn = insertSorted dyn (nb, ?d) in if int (length dyn) > ef then take (nat ef) dyn else dyn) = insertSorted dyn (nb, ?d)"
      by simp
    have ok: "results_ok idx query ef (nb # visited) (insertSorted dyn (nb, ?d))"
      using results_add [OF assms(1,2) Cons.prems(1) t 3(1)] unfolding keep .
    have all: "found_all idx (nb # visited) (insertSorted dyn (nb, ?d))" using Cons.prems(2) by (auto simp: found_all_def)
    have "visit_neighbors idx query ef nbs (nb # visited, insertSorted cs (nb, ?d), insertSorted dyn (nb, ?d)) = (v, cs', dyn')"
      using Cons.prems(3) 3 room by (simp add: Let_def)
    from Cons.IH [OF ok all this] show ?thesis by auto
  qed
qed simp

definition closed_at :: "hnsw_index \<Rightarrow> bytes list \<Rightarrow> bytes \<Rightarrow> bool" where
  "closed_at idx visited i \<longleftrightarrow> (\<forall>cs. layer_of idx i 0 = Some cs \<longrightarrow> set cs \<subseteq> set visited)"

lemma search_loop_full:
  assumes "no_nan idx query" "ef \<ge> 1" "int (length (hx_nodes idx)) \<le> ef" "connected0 idx" "\<And>xs. set (ro xs) = set xs"
    and "\<forall>c \<in> set cs. true_at idx query c" "results_ok idx query ef visited dyn" "found_all idx visited dyn"
    and "\<forall>i \<in> fst ` set dyn. i \<in> fst ` set cs \<or> closed_at idx visited i"
  shows "fst ` set (search_loop ro idx query ef 0 visited cs dyn) = fst ` set (hx_nodes idx)"
  using assms(6-)
proof (induction "unvisited idx visited + length cs" arbitrary: visited cs dyn rule: less_induct)
  case less
  show ?case
  proof (cases cs)
    case Nil
    have all: "\<forall>i \<in> fst ` set dyn. closed_at idx visited i" using less.prems(4) Nil by simp
    have step: "j \<in> fst ` set dyn" if "i \<in> fst ` set dyn" "(linked0 idx)\<^sup>*\<^sup>* i j" for i j
      using that(2,1)
    proof induction
      case (step j k)
      then have "closed_at idx visited j" using all by blast
      then have "k \<in> set visited" "hnsw_node_of idx k \<noteq> None" using step.hyps(2) unfolding linked0_def closed_at_def by blast+
      then show ?case using less.prems(3) unfolding found_all_def by blast
    qed
    have "dyn \<noteq> []" using less.prems(2) by (simp add: results_ok_def)
    then obtain i where i: "i \<in> fst ` set dyn" using list.set_sel(1) by blast
    have "fst ` set (hx_nodes idx) \<subseteq> fst ` set dyn"
    proof
      fix j assume "j \<in> fst ` set (hx_nodes idx)"
      moreover have "i \<in> fst ` set (hx_nodes idx)" using i results_stored [OF less.prems(2)] by (rule subsetD [rotated])
      ultimately have "(linked0 idx)\<^sup>*\<^sup>* i j" using assms(4) unfolding connected0_def stored_key by simp
      then show "j \<in> fst ` set dyn" using step i by blast
    qed
    then show ?thesis using results_stored [OF less.prems(2)] Nil by simp
  next
    case (Cons c cs2)
    show ?thesis
    proof (cases "f32_less (snd (last dyn)) (snd c) \<and> int (length dyn) \<ge> ef")
      case True
      have "length dyn \<ge> length (hx_nodes idx)" using True assms(3) by linarith
      then have "nb \<in> fst ` set dyn" if "nb \<in> fst ` set (hx_nodes idx)" for nb
        using results_room [OF less.prems(2), of nb] that unfolding stored_key by linarith
      then have "fst ` set dyn = fst ` set (hx_nodes idx)"
        using results_stored [OF less.prems(2)] by blast
      moreover have "search_loop ro idx query ef 0 visited cs dyn = dyn" using Cons True by simp
      ultimately show ?thesis by simp
    next
      case False
      show ?thesis
      proof (cases "layer_of idx (fst c) 0")
        case None
        have "search_loop ro idx query ef 0 visited cs dyn = search_loop ro idx query ef 0 visited cs2 dyn"
          unfolding Cons by (simp only: search_loop.simps False if_False None option.case)
        moreover have "closed_at idx visited (fst c)" using None by (simp add: closed_at_def)
        then have "\<forall>i \<in> fst ` set dyn. i \<in> fst ` set cs2 \<or> closed_at idx visited i" using less.prems(4) Cons by auto
        moreover have "\<forall>c \<in> set cs2. true_at idx query c" using less.prems(1) Cons by simp
        ultimately show ?thesis using less.hyps [OF _ _ less.prems(2,3), of cs2] Cons by simp
      next
        case (Some nbs)
        obtain v cs' dyn' where v: "visit_neighbors idx query ef (ro nbs) (visited, cs2, dyn) = (v, cs', dyn')"
          by (metis prod_cases3)
        have eq: "search_loop ro idx query ef 0 visited cs dyn = search_loop ro idx query ef 0 v cs' dyn'"
          unfolding Cons by (simp only: search_loop.simps False if_False Some option.case v prod.case)
        have sound: "\<forall>c \<in> set cs'. true_at idx query c" "results_ok idx query ef v dyn'"
          using visit_sound [OF assms(1,2) _ less.prems(2) v] less.prems(1) Cons by simp_all
        have full: "set v = set visited \<union> set nbs" "found_all idx v dyn'" "set dyn' \<subseteq> set dyn \<union> set cs'" "set cs2 \<subseteq> set cs'"
          using visit_full [OF assms(1-3) less.prems(2,3) v] assms(5) by simp_all
        have mono: "closed_at idx visited i \<Longrightarrow> closed_at idx v i" for i using full(1) by (auto simp: closed_at_def)
        have c: "closed_at idx v (fst c)" using Some full(1) by (simp add: closed_at_def)
        have later: "i \<in> fst ` set cs2 \<Longrightarrow> i \<in> fst ` set cs'" for i using image_mono [OF full(4), of fst] by (rule subsetD)
        have known: "\<forall>i \<in> fst ` set dyn. i = fst c \<or> i \<in> fst ` set cs2 \<or> closed_at idx visited i"
          using less.prems(4) by (simp only: Cons list.set image_insert insert_iff disj_assoc)
        have "i \<in> fst ` set cs' \<or> closed_at idx v i" if "i \<in> fst ` set dyn" for i
          using bspec [OF known that] c later [of i] mono [of i] by metis
        then have "\<forall>i \<in> fst ` set dyn. i \<in> fst ` set cs' \<or> closed_at idx v i" by (rule ballI)
        then have B: "\<forall>i \<in> fst ` set dyn'. i \<in> fst ` set cs' \<or> closed_at idx v i"
          using image_mono [OF full(3), of fst] unfolding image_Un by blast
        have dec: "unvisited idx v + length cs' < unvisited idx visited + length cs"
          using visit_neighbors_measure [of idx query ef "ro nbs" visited cs2 dyn] unfolding v Cons by simp
        show ?thesis unfolding eq by (rule less.hyps [OF dec sound full(2) B])
      qed
    qed
  qed
qed

lemma sort_by_keys:
  assumes "distinct (map fst cs)" "by_distance cs" "fst ` set cs = fst ` set (hx_nodes idx)" "distinct (map fst (hx_nodes idx))"
    and "\<forall>c \<in> set cs. true_at idx query c"
  shows "map key_of cs = sort (map (\<lambda>(i, n). f32_key (hx_distFn idx query (hn_vector n))) (hx_nodes idx))"
proof -
  let ?g = "\<lambda>i. f32_key (hx_distFn idx query (hn_vector (the (hnsw_node_of idx i))))"
  have "map key_of cs = map ?g (map fst cs)" using assms(5) by (auto simp: true_at_def)
  moreover have "map (\<lambda>(i, n). f32_key (hx_distFn idx query (hn_vector n))) (hx_nodes idx) = map ?g (map fst (hx_nodes idx))"
    using assms(4) by (auto simp: hnsw_node_of_def)
  moreover have "mset (map fst cs) = mset (map fst (hx_nodes idx))"
    using assms(1,3,4) by (metis list.set_map set_eq_iff_mset_eq_distinct)
  ultimately have "mset (map key_of cs) = mset (map (\<lambda>(i, n). f32_key (hx_distFn idx query (hn_vector n))) (hx_nodes idx))"
    by (metis mset_map)
  then show ?thesis using assms(2) by (intro properties_for_sort [symmetric]) auto
qed

text \<open>
  C38: while the index holds no more vectors than the beam is wide and its lowest layer is connected, a search is exact: its
  distances are the \<open>k\<close> smallest of all, in order, those of the search through all vectors.
\<close>

theorem search_exact:
  assumes "hnsw_reachable ro srt idx" "\<And>xs. set (ro xs) = set xs" "no_nan idx query"
    and "int (length query) = hx_dim idx" "k > 0" "int (hnsw_Len idx) \<le> hx_efSearch idx" "connected0 idx"
  shows "map_option (map (\<lambda>r. f32_key (sr_Distance r))) (hnsw_Search ro idx query k) =
    Some (take (nat k) (sort (map (\<lambda>(i, n). f32_key (hx_distFn idx query (hn_vector n))) (hx_nodes idx))))"
proof (cases "hx_nodes idx = []")
  case True
  then show ?thesis by (simp add: hnsw_Search_def)
next
  case False
  let ?ef = "max (hx_efSearch idx) k"
  obtain entry where t: "true_at idx query entry"
    and run: "hnsw_Search ro idx query k = Some (map (\<lambda>c. \<lparr>sr_ID = fst c, sr_Distance = snd c\<rparr>)
        (take (nat k) (searchLayer ro idx entry query ?ef 0)))"
    using Search_run [OF assms(1-5) False] by blast
  let ?cs = "searchLayer ro idx entry query ?ef 0"
  have ef: "?ef \<ge> 1" "int (length (hx_nodes idx)) \<le> ?ef" using assms(5,6) by (auto simp: hnsw_Len_def)
  obtain v where ok: "results_ok idx query ?ef v ?cs" using searchLayer_sound [OF assms(3) ef(1) t] by blast
  have all: "fst ` set ?cs = fst ` set (hx_nodes idx)"
    unfolding searchLayer_def
    by (rule search_loop_full [OF assms(3) ef assms(7,2)]) (use t ef(1) in \<open>auto simp: results_ok_def found_all_def\<close>)
  have "distinct (map fst (hx_nodes idx))" using hnsw_reachable_inv [OF assms(1,2)] by (simp add: hnsw_inv_def)
  then have "map key_of ?cs = sort (map (\<lambda>(i, n). f32_key (hx_distFn idx query (hn_vector n))) (hx_nodes idx))"
    using ok all by (intro sort_by_keys) (auto simp: results_ok_def)
  then show ?thesis unfolding run by (simp add: o_def flip: take_map)
qed

end
