(* ===== verification/VectorStore.thy ===== *)
theory VectorStore
  imports HnswSearch Engine
begin

text \<open>
  Model of \<^verbatim>\<open>internal/vector/store.go\<close>: named indexes over vectors and payloads that are stored in the engine. The levels of
  new nodes are an argument; an insertion that reads out of range is the result \<open>None\<close>.
\<close>

section \<open>State and errors\<close>

record vector_store =
  vs_engine :: kv
  vs_indexes :: "(bytes \<times> hnsw_index) list"
  vs_dims :: "(bytes \<times> int) list"

datatype vector_error = IndexExists bytes | IndexNotFound bytes | VectorDim int int | QueryDim int int

record vector_search_result =
  vr_ID :: bytes
  vr_Distance :: f32
  vr_Vector :: "f32 list option"
  vr_Payload :: "bytes option"

definition NewVectorStore :: "kv \<Rightarrow> vector_store" where
  "NewVectorStore kv = \<lparr>vs_engine = kv, vs_indexes = [], vs_dims = []\<rparr>"

section \<open>Loading an index\<close>

definition extractVectorID :: "bytes \<Rightarrow> bytes \<Rightarrow> bytes" where
  "extractVectorID key indexName = (let n = 1 + length indexName + 1 in if length key \<le> n then [] else drop n key)"

fun load_items ::
    "(bytes list \<Rightarrow> bytes list) \<Rightarrow> (candidate list \<Rightarrow> candidate list) \<Rightarrow> (bytes \<Rightarrow> nat) \<Rightarrow> bytes \<Rightarrow> (bytes \<times> bytes) list \<Rightarrow>
       hnsw_index \<Rightarrow> hnsw_index option" where
  "load_items ro srt level name [] idx = Some idx"
| "load_items ro srt level name ((key, val) # items) idx =
     (let i = extractVectorID key name; vector = BytesToFloat32s val in
      if i = [] \<or> vector = [] then load_items ro srt level name items idx
      else Option.bind (hnsw_Insert ro srt (level i) i vector idx) (load_items ro srt level name items))"

definition loadFromStorage ::
    "(bytes list \<Rightarrow> bytes list) \<Rightarrow> (candidate list \<Rightarrow> candidate list) \<Rightarrow> (bytes \<Rightarrow> nat) \<Rightarrow> bytes \<Rightarrow> kv \<Rightarrow> hnsw_index \<Rightarrow> hnsw_index option" where
  "loadFromStorage ro srt level name kv idx =
     load_items ro srt level name (iter_collect (engine_prefix_scan kv (EncodeVectorKey name []) no_options)) idx"

section \<open>Operations\<close>

definition CreateVectorIndex ::
    "(bytes list \<Rightarrow> bytes list) \<Rightarrow> (candidate list \<Rightarrow> candidate list) \<Rightarrow> (bytes \<Rightarrow> nat) \<Rightarrow> bytes \<Rightarrow> int \<Rightarrow> bytes \<Rightarrow> vector_store \<Rightarrow>
       (vector_error option \<times> vector_store) option" where
  "CreateVectorIndex ro srt level name dim metric vs =
     (if map_of (vs_indexes vs) name \<noteq> None then Some (Some (IndexExists name), vs)
      else let idx = NewHNSWIndex \<lparr>hc_Dim = dim, hc_M = 16, hc_EfConstruction = 200, hc_EfSearch = 64, hc_DistFn = Some (GetDistanceFunc metric)\<rparr> in
        map_option (\<lambda>idx. (None, vs\<lparr>vs_indexes := AList.update name idx (vs_indexes vs), vs_dims := AList.update name dim (vs_dims vs)\<rparr>))
          (loadFromStorage ro srt level name (vs_engine vs) idx))"

definition vector_Dim :: "vector_store \<Rightarrow> bytes \<Rightarrow> int" where
  "vector_Dim vs name = (case map_of (vs_dims vs) name of None \<Rightarrow> 0 | Some d \<Rightarrow> d)"

definition InsertWithPayload ::
    "(bytes list \<Rightarrow> bytes list) \<Rightarrow> (candidate list \<Rightarrow> candidate list) \<Rightarrow> nat \<Rightarrow> bytes \<Rightarrow> bytes \<Rightarrow> f32 list \<Rightarrow> bytes \<Rightarrow> vector_store \<Rightarrow>
       (vector_error option \<times> vector_store) option" where
  "InsertWithPayload ro srt level name i vector payload vs =
     (case map_of (vs_indexes vs) name of
        None \<Rightarrow> Some (Some (IndexNotFound name), vs)
      | Some idx \<Rightarrow>
          if int (length vector) \<noteq> vector_Dim vs name then Some (Some (VectorDim (vector_Dim vs name) (int (length vector))), vs)
          else let kv = engine_set (vs_engine vs) (EncodeVectorKey name i) (Float32sToBytes vector);
                   kv = (if payload \<noteq> [] then engine_set kv (EncodeVectorPayloadKey name i) payload else kv)
               in map_option (\<lambda>idx. (None, vs\<lparr>vs_engine := kv, vs_indexes := AList.update name idx (vs_indexes vs)\<rparr>))
                    (hnsw_Insert ro srt level i vector idx))"

definition vector_Insert ::
    "(bytes list \<Rightarrow> bytes list) \<Rightarrow> (candidate list \<Rightarrow> candidate list) \<Rightarrow> nat \<Rightarrow> bytes \<Rightarrow> bytes \<Rightarrow> f32 list \<Rightarrow> vector_store \<Rightarrow>
       (vector_error option \<times> vector_store) option" where
  "vector_Insert ro srt level name i vector vs = InsertWithPayload ro srt level name i vector [] vs"

definition GetPayload :: "vector_store \<Rightarrow> bytes \<Rightarrow> bytes \<Rightarrow> bytes option" where
  "GetPayload vs name i = engine_get (vs_engine vs) (EncodeVectorPayloadKey name i)"

definition vector_Search ::
    "(bytes list \<Rightarrow> bytes list) \<Rightarrow> vector_store \<Rightarrow> bytes \<Rightarrow> f32 list \<Rightarrow> int \<Rightarrow> (vector_error + search_result list) option" where
  "vector_Search ro vs name query topK =
     (case map_of (vs_indexes vs) name of
        None \<Rightarrow> Some (Inl (IndexNotFound name))
      | Some idx \<Rightarrow>
          if int (length query) \<noteq> vector_Dim vs name then Some (Inl (QueryDim (vector_Dim vs name) (int (length query))))
          else map_option Inr (hnsw_Search ro idx query topK))"

definition vector_Delete :: "(bytes list \<Rightarrow> bytes list) \<Rightarrow> bytes \<Rightarrow> bytes \<Rightarrow> vector_store \<Rightarrow> vector_error option \<times> vector_store" where
  "vector_Delete ro name i vs =
     (case map_of (vs_indexes vs) name of
        None \<Rightarrow> (Some (IndexNotFound name), vs)
      | Some idx \<Rightarrow>
          let kv = engine_batch_write (vs_engine vs)
                [\<lparr>op_type = OpDelete, op_key = EncodeVectorKey name i, op_value = []\<rparr>,
                 \<lparr>op_type = OpDelete, op_key = EncodeVectorPayloadKey name i, op_value = []\<rparr>]
          in (None, vs\<lparr>vs_engine := kv, vs_indexes := AList.update name (hnsw_Delete ro i idx) (vs_indexes vs)\<rparr>))"

definition vector_Len :: "vector_store \<Rightarrow> bytes \<Rightarrow> nat" where
  "vector_Len vs name = (case map_of (vs_indexes vs) name of None \<Rightarrow> 0 | Some idx \<Rightarrow> hnsw_Len idx)"

definition SearchWithVectors ::
    "(bytes list \<Rightarrow> bytes list) \<Rightarrow> vector_store \<Rightarrow> bytes \<Rightarrow> f32 list \<Rightarrow> int \<Rightarrow> bool \<Rightarrow> (vector_error + vector_search_result list) option" where
  "SearchWithVectors ro vs name query topK withPayload =
     map_option (map_sum (\<lambda>e. e) (map (\<lambda>r.
       \<lparr>vr_ID = sr_ID r, vr_Distance = sr_Distance r,
        vr_Vector = map_option BytesToFloat32s (engine_get (vs_engine vs) (EncodeVectorKey name (sr_ID r))),
        vr_Payload = (if withPayload then GetPayload vs name (sr_ID r) else None)\<rparr>)))
       (vector_Search ro vs name query topK)"

definition SearchWithPayloads ::
    "(bytes list \<Rightarrow> bytes list) \<Rightarrow> vector_store \<Rightarrow> bytes \<Rightarrow> f32 list \<Rightarrow> int \<Rightarrow> (vector_error + vector_search_result list) option" where
  "SearchWithPayloads ro vs name query topK = SearchWithVectors ro vs name query topK True"

definition ListIndexes :: "vector_store \<Rightarrow> bytes list" where
  "ListIndexes vs = sort (map fst (vs_indexes vs))"

definition HasIndex :: "vector_store \<Rightarrow> bytes \<Rightarrow> bool" where
  "HasIndex vs name \<longleftrightarrow> map_of (vs_indexes vs) name \<noteq> None"

section \<open>A restart\<close>

text \<open>What is stored for an index: the vectors of its dimension under identifiers that are not empty.\<close>

definition stored_vector :: "kv \<Rightarrow> bytes \<Rightarrow> int \<Rightarrow> bytes \<Rightarrow> f32 list option" where
  "stored_vector kv name dim i =
     (case engine_get kv (EncodeVectorKey name i) of
        None \<Rightarrow> None
      | Some val \<Rightarrow>
          let v = BytesToFloat32s val in if i = [] \<or> v = [] \<or> int (length v) \<noteq> dim then None else Some v)"

lemma extract_key [simp]: "extractVectorID (EncodeVectorKey name i) name = i"
  by (simp add: extractVectorID_def EncodeVectorKey_def EncodeIndexKey_def)

lemma load_items_vectors:
  assumes "load_items ro srt level name items idx = Some idx'"
    and "distinct (map fst items)" "\<forall>(k, v) \<in> set items. \<exists>i. k = EncodeVectorKey name i"
  shows "GetVector idx' j =
    (case map_of items (EncodeVectorKey name j) of
       None \<Rightarrow> GetVector idx j
     | Some val \<Rightarrow> let v = BytesToFloat32s val in if j = [] \<or> v = [] \<or> int (length v) \<noteq> hx_dim idx then GetVector idx j else Some v)"
  using assms
proof (induction items arbitrary: idx)
  case (Cons x items)
  obtain i val where x: "x = (EncodeVectorKey name i, val)" using Cons.prems(3) by (cases x) auto
  let ?v = "BytesToFloat32s val"
  have inj: "EncodeVectorKey name i = EncodeVectorKey name j \<longleftrightarrow> i = j" for i j
    by (metis extract_key)
  have items: "distinct (map fst items)" "\<forall>(k, v) \<in> set items. \<exists>i. k = EncodeVectorKey name i"
    "map_of items (EncodeVectorKey name i) = None"
    using Cons.prems(2,3) by (auto simp: x map_of_eq_None_iff)
  show ?case
  proof (cases "i = [] \<or> ?v = []")
    case True
    then have "load_items ro srt level name items idx = Some idx'" using Cons.prems(1) by (auto simp: x Let_def)
    from Cons.IH [OF this items(1,2)] show ?thesis using True items(3) by (auto simp: x inj)
  next
    case False
    then obtain idx1 where ins: "hnsw_Insert ro srt (level i) i ?v idx = Some idx1" and load: "load_items ro srt level name items idx1 = Some idx'"
      using Cons.prems(1) by (auto simp: x Let_def split: bind_splits)
    have "GetVector idx1 k = (if k = i \<and> int (length ?v) = hx_dim idx then Some ?v else GetVector idx k)" "hx_dim idx1 = hx_dim idx" for k
      using Insert_vectors [OF ins] by blast+
    then show ?thesis using Cons.IH [OF load items(1,2)] items(3) False by (auto simp: x inj Let_def split: option.split)
  qed
qed simp


end
