(* ===== verification/HnswExamples.thy ===== *)
theory HnswExamples
  imports VectorStore
begin

text \<open>Small indexes for the properties of the vector search, with the difference of two numbers as the distance.\<close>

fun demo_distance :: "f32 list \<Rightarrow> f32 list \<Rightarrow> f32" where
  "demo_distance [a] [b] = (if a < b then b - a else a - b)"
| "demo_distance _ _ = 0"

definition demo_by_distance :: "candidate list \<Rightarrow> candidate list" where
  "demo_by_distance = sort_key (\<lambda>c. f32_key (snd c))"

definition demo_hnsw :: "int \<Rightarrow> hnsw_index" where
  "demo_hnsw m = NewHNSWIndex \<lparr>hc_Dim = 1, hc_M = m, hc_EfConstruction = 8, hc_EfSearch = 8, hc_DistFn = Some demo_distance\<rparr>"

text \<open>Insert an identifier on a level, or delete it.\<close>

datatype demo_change = Put nat bytes f32 | Drop bytes

fun demo_changes :: "demo_change list \<Rightarrow> hnsw_index \<Rightarrow> hnsw_index option" where
  "demo_changes [] idx = Some idx"
| "demo_changes (Put l i x # cs) idx = Option.bind (hnsw_Insert (\<lambda>xs. xs) demo_by_distance l i [x] idx) (demo_changes cs)"
| "demo_changes (Drop i # cs) idx = demo_changes cs (hnsw_Delete (\<lambda>xs. xs) i idx)"

lemma demo_changes_reachable:
  "hnsw_reachable (\<lambda>xs. xs) demo_by_distance idx \<Longrightarrow> demo_changes cs idx = Some idx' \<Longrightarrow>
     hnsw_reachable (\<lambda>xs. xs) demo_by_distance idx'"
  by (induction cs idx rule: demo_changes.induct)
    (auto split: bind_splits intro: hnsw_reachable.intros)

definition demo_vectors :: hnsw_index where
  "demo_vectors = the (demo_changes [Put 1 ''a'' 10, Put 0 ''b'' 40, Put 0 ''c'' 20] (demo_hnsw 2))"

lemma demo_vectors_reachable: "hnsw_reachable (\<lambda>xs. xs) demo_by_distance demo_vectors"
proof -
  have "demo_changes [Put 1 ''a'' 10, Put 0 ''b'' 40, Put 0 ''c'' 20] (demo_hnsw 2) = Some demo_vectors"
    unfolding demo_vectors_def by (rule option.collapse [symmetric]) code_simp
  then show ?thesis
    by (rule demo_changes_reachable [rotated]) (simp add: demo_hnsw_def hnsw_reachable.created)
qed

lemma no_nan_list:
  "list_all (\<lambda>(i, n). \<not> f32_is_nan (hx_distFn idx query (hn_vector n))) (hx_nodes idx) \<Longrightarrow> no_nan idx query"
  by (auto simp: no_nan_def hnsw_node_of_def list_all_iff dest!: map_of_SomeD)

lemma demo_no_nan: "no_nan demo_vectors [26]"
  by (rule no_nan_list) code_simp

lemma search_sound_witness:
  "\<exists>rs. hnsw_Search (\<lambda>xs. xs) demo_vectors [26] 2 = Some rs \<and> map sr_ID rs = [''c'', ''b''] \<and>
     (\<forall>r \<in> set rs. \<exists>n. hnsw_node_of demo_vectors (sr_ID r) = Some n \<and> sr_Distance r = hx_distFn demo_vectors [26] (hn_vector n))"
proof -
  obtain rs where rs: "hnsw_Search (\<lambda>xs. xs) demo_vectors [26] 2 = Some rs"
    "\<forall>r \<in> set rs. \<exists>n. hnsw_node_of demo_vectors (sr_ID r) = Some n \<and> sr_Distance r = hx_distFn demo_vectors [26] (hn_vector n)"
    using search_sound [OF demo_vectors_reachable refl demo_no_nan, of 2] by blast
  have "map_option (map sr_ID) (hnsw_Search (\<lambda>xs. xs) demo_vectors [26] 2) = Some [''c'', ''b'']" by code_simp
  then show ?thesis using rs by simp
qed

lemma linked0_iff:
  "linked0 idx i j \<longleftrightarrow> (case layer_of idx i 0 of None \<Rightarrow> False | Some cs \<Rightarrow> j \<in> set cs) \<and> hnsw_node_of idx j \<noteq> None"
  by (auto simp: linked0_def split: option.split)

text \<open>Connected through one node.\<close>

lemma connected0_hub:
  assumes "\<forall>i \<in> set (map fst (hx_nodes idx)). i = h \<or> (linked0 idx i h \<and> linked0 idx h i)"
  shows "connected0 idx"
  unfolding connected0_def stored_key
proof (intro allI impI, elim conjE)
  fix i j assume ij: "i \<in> fst ` set (hx_nodes idx)" "j \<in> fst ` set (hx_nodes idx)"
  have "(linked0 idx)\<^sup>*\<^sup>* i h" "(linked0 idx)\<^sup>*\<^sup>* h j" using assms ij by fastforce+
  then show "(linked0 idx)\<^sup>*\<^sup>* i j" by (rule rtranclp_trans)
qed

lemma demo_connected: "connected0 demo_vectors"
proof (rule connected0_hub)
  show "\<forall>i \<in> set (map fst (hx_nodes demo_vectors)). i = ''a'' \<or> (linked0 demo_vectors i ''a'' \<and> linked0 demo_vectors ''a'' i)"
    unfolding linked0_iff by code_simp
qed

lemma search_exact_witness:
  "map_option (map (\<lambda>r. f32_key (sr_Distance r))) (hnsw_Search (\<lambda>xs. xs) demo_vectors [26] 2) = Some [6, 14]"
proof -
  have size: "int (hnsw_Len demo_vectors) \<le> hx_efSearch demo_vectors" and dim: "int (length [26 :: f32]) = hx_dim demo_vectors"
    by code_simp+
  have "take (nat 2) (sort (map (\<lambda>(i, n). f32_key (hx_distFn demo_vectors [26] (hn_vector n))) (hx_nodes demo_vectors))) = [6, 14]"
    by code_simp
  then show ?thesis
    using search_exact [OF demo_vectors_reachable refl demo_no_nan dim _ size demo_connected, of 2] by simp
qed

lemma updated_entry_hides_all_witness:
  "\<exists>idx'. hnsw_Insert (\<lambda>xs. xs) demo_by_distance 0 ''a'' [11] demo_vectors = Some idx' \<and> hnsw_Len idx' = 3 \<and>
     hnsw_Search (\<lambda>xs. xs) idx' [40] 3 = Some [\<lparr>sr_ID = ''a'', sr_Distance = 29\<rparr>]"
proof -
  have entry: "hx_entryID demo_vectors = ''a''" and dim: "hx_dim demo_vectors = 1" and len: "hnsw_Len demo_vectors = 3"
    and dist: "hx_distFn demo_vectors [40] [11] = 29"
    by code_simp+
  have "hnsw_node_of demo_vectors (hx_entryID demo_vectors) \<noteq> None" by code_simp
  then obtain n where "hnsw_node_of demo_vectors (hx_entryID demo_vectors) = Some n" by blast
  then show ?thesis
    using updated_entry_hides_all [of "\<lambda>xs. xs" demo_vectors n "[11]" "[40]" 3 demo_by_distance 0]
    by (simp add: entry dim len dist)
qed

section \<open>A link that outlives its node\<close>

text \<open>
  Pruning removes a link on one side only. When the other end is deleted the link stays, and when that identifier comes back
  on a lower level the link leads, on its layer, to a node without that layer; the next insertion that takes it for a
  neighbour reads out of range.
\<close>

definition demo_stale :: "demo_change list" where
  "demo_stale = [Put 1 ''a'' 100, Put 1 ''b'' 110, Put 1 ''c'' 112, Put 1 ''d'' 109, Drop ''b'', Put 0 ''b'' 110]"

lemma stale_link_crashes_insert:
  "\<exists>idx. hnsw_reachable (\<lambda>xs. xs) demo_by_distance idx \<and> hnsw_Insert (\<lambda>xs. xs) demo_by_distance 1 ''e'' [110] idx = None"
proof -
  have ok: "demo_changes demo_stale (demo_hnsw 1) \<noteq> None" by code_simp
  then obtain idx where idx: "demo_changes demo_stale (demo_hnsw 1) = Some idx" by blast
  have "Option.bind (demo_changes demo_stale (demo_hnsw 1)) (hnsw_Insert (\<lambda>xs. xs) demo_by_distance 1 ''e'' [110]) = None"
    by code_simp
  then have "hnsw_Insert (\<lambda>xs. xs) demo_by_distance 1 ''e'' [110] idx = None" by (simp add: idx)
  moreover have "hnsw_reachable (\<lambda>xs. xs) demo_by_distance idx"
    using demo_changes_reachable [OF _ idx] by (simp add: demo_hnsw_def hnsw_reachable.created)
  ultimately show ?thesis by blast
qed


section \<open>A stored index\<close>

definition demo_stored :: kv where
  "demo_stored = fold (\<lambda>(i, v) kv. engine_set kv (EncodeVectorKey ''v'' i) (Float32sToBytes v)) [(''x'', [1, 2]), (''y'', [3])] kv_empty"


end
