(* ===== verification/Spec2Isabelle.thy ===== *)
theory Spec2Isabelle
  imports Cache TableManager RaftEngine SqlRoundTrip SqlExecExamples GraphExamples
    TaskExamples PermissionExamples ServiceExamples
    SessionExamples HnswExamples
begin

text \<open>
  AgentNativeDB: a database for software agents in Go. Agents reach it over HTTP, MCP or an SDK; sessions,
  memories, decisions, lineage and a graph are stored as JSON rows under one-byte key prefixes in an
  ordered key-value engine (Badger), optionally replicated by Raft; a SQL dialect queries and changes
  the same rows. This development models the storage layer, the replication, the SQL engine, the graph store and
  services for agents, and proves what makes each part correct, or where it is not.

  \<^bold>\<open>Parts and theories.\<close>
  \<^item> \<^verbatim>\<open>Prelude\<close>: byte strings and their order, machine words, big-endian codecs, letter case, the dynamic
    values \<open>val\<close>, and the lemma collections the components share.
  \<^item> \<^verbatim>\<open>KeyEncode\<close> (\<^verbatim>\<open>internal/storage/keyencode.go\<close>): keys, the range of a prefix scan, vectors as bytes.
  \<^item> \<^verbatim>\<open>Engine\<close> (\<^verbatim>\<open>internal/storage/engine.go\<close>, \<^verbatim>\<open>badger/store.go\<close>, \<^verbatim>\<open>badger/iterator.go\<close>): the content of an
    engine as a sorted association list \<open>kv\<close>; get, set, delete, scans forwards and backwards, batches, the
    registry of engines. The locale \<open>kv_engine\<close> states the laws the other parts use; the operations interpret it.
  \<^item> \<^verbatim>\<open>Cache\<close> (\<^verbatim>\<open>internal/storage/cache.go\<close>): the LRU cache as a heap of list elements with an index, and its
    refinement of the plain recency list.
  \<^item> \<^verbatim>\<open>TableManager\<close> (\<^verbatim>\<open>internal/storage/table_manager.go\<close>): the catalogue of SQL tables, in memory and stored;
    its invariant over every sequence of DDL calls, and that a restart reloads it.
  \<^item> \<^verbatim>\<open>RaftStorage\<close> (\<^verbatim>\<open>internal/raft/storage.go\<close>): log and stable state over \<open>kv\<close>; the locale \<open>raft_log\<close>.
  \<^item> \<^verbatim>\<open>RaftNode\<close>, \<^verbatim>\<open>RaftAppend\<close> (\<^verbatim>\<open>internal/raft/node.go\<close>, \<^verbatim>\<open>transport.go\<close>): one node as a record, its start, the vote
    and append handlers; the callback \<open>cfg.Apply\<close> is an argument under the locale \<open>apply_callback\<close>.
  \<^item> \<^verbatim>\<open>RaftRun\<close> (\<^verbatim>\<open>internal/raft/run.go\<close>): elections, leadership, replication and commit as the step relation
    \<open>node_step\<close>; a remote call is split at the network, replies come in any order and may come late.
  \<^item> \<^verbatim>\<open>RaftEngine\<close> (\<^verbatim>\<open>internal/raft/engine.go\<close>): commands, their encoding, their application, write transactions.
  \<^item> \<^verbatim>\<open>SqlLexer\<close>, \<^verbatim>\<open>GoStrconv\<close>, \<^verbatim>\<open>SqlAst\<close>, \<^verbatim>\<open>SqlParser\<close> (\<^verbatim>\<open>internal/query/sql/lexer.go\<close>, \<^verbatim>\<open>ast.go\<close>,
    \<^verbatim>\<open>parser.go\<close>): lexer record and step, number parsing, syntax trees, the recursive descent parser.
  \<^item> \<^verbatim>\<open>SqlParserProps\<close>, \<^verbatim>\<open>SqlRoundTrip\<close>: the parser returns on every input and takes tokens only from the front;
    printed expressions parse back.
  \<^item> \<^verbatim>\<open>SqlPlanner\<close> (\<^verbatim>\<open>internal/query/sql/planner.go\<close>): plan nodes, index choice, the plan of every statement; the
    locale \<open>condition_semantics\<close> is what the planner needs of an evaluator.
  \<^item> \<^verbatim>\<open>GoFloat\<close>, \<^verbatim>\<open>SqlEval\<close> (\<^verbatim>\<open>internal/query/sql/executor.go\<close>, the evaluation functions): float64 on bit patterns,
    expressions on rows, comparison of values; it interprets \<open>condition_semantics\<close> for every row.
  \<^item> \<^verbatim>\<open>SqlTokenize\<close>, \<^verbatim>\<open>SqlIndex\<close>, \<^verbatim>\<open>SqlIndexProps\<close> (\<^verbatim>\<open>internal/query/sql/index\<close>): text as terms, values as ordered
    bytes, the index metadata, entries and lookups; entries follow the rows, lookups are exact.
  \<^item> \<^verbatim>\<open>SqlExec\<close>, \<^verbatim>\<open>SqlWrite\<close> (\<^verbatim>\<open>internal/query/sql/executor.go\<close>, \<open>handleQuery\<close> of \<^verbatim>\<open>api/http/router.go\<close>): the
    record \<open>executor\<close> (engine content, catalogue, index manager), the operators of queries, the statements that
    change the state, \<open>Execute\<close> on every plan node. Every operation returns the executor it leaves.
  \<^item> \<^verbatim>\<open>SqlExecProps\<close>, \<^verbatim>\<open>SqlExecBugs\<close>, \<^verbatim>\<open>SqlQueryProps\<close>, \<^verbatim>\<open>SqlExecExamples\<close>: the invariant \<open>table_inv\<close> of a table (its
    rows and index entries agree) through \<open>INSERT\<close>, \<open>UPDATE\<close>, \<open>DELETE\<close>; the statements that break it; queries with and
    without indexes, sorting, grouping; a small database the properties are applied to.

  \<^item> \<^verbatim>\<open>GraphStore\<close>, \<^verbatim>\<open>GraphPaths\<close>, \<^verbatim>\<open>GraphProps\<close>, \<^verbatim>\<open>GraphRun\<close>, \<^verbatim>\<open>GraphQueries\<close>, \<^verbatim>\<open>GraphExamples\<close>
    (\<^verbatim>\<open>internal/graph/store.go\<close>): nodes, edges and their index entries over \<open>kv\<close>; breadth-first search on any
    adjacency; the invariant that entries are those of the stored graph; runs of the operations
    (\<open>graph_reachable\<close>); neighbours, hops and shortest paths as facts about stored edges; a small graph.

  \<^item> \<^verbatim>\<open>GoHeap\<close>, \<^verbatim>\<open>TaskQueue\<close>, \<^verbatim>\<open>TaskQueueProps\<close>, \<^verbatim>\<open>TaskExamples\<close> (\<^verbatim>\<open>internal/agent/taskqueue.go\<close>): the binary heap of
    \<^verbatim>\<open>container/heap\<close>; tasks as stored and as queued; the heap order and the index by agent as invariants of every run
    (\<open>queue_reachable\<close>), restarts included.
  \<^item> \<^verbatim>\<open>AuditLog\<close>, \<^verbatim>\<open>Permission\<close>, \<^verbatim>\<open>PermissionProps\<close>, \<^verbatim>\<open>PermissionExamples\<close> (\<^verbatim>\<open>internal/agent/audit.go\<close>, \<^verbatim>\<open>permission.go\<close>):
    audit events; roles and assignments, cached and stored; that the caches are what is stored (\<open>perm_inv\<close>), what a restart
    keeps, and which rights come back.
  \<^item> \<^verbatim>\<open>Lineage\<close> (\<^verbatim>\<open>internal/knowledge/lineage.go\<close>): where data come from, traces down to a depth as steps of a relation.
  \<^item> \<^verbatim>\<open>QueryStats\<close> (\<^verbatim>\<open>internal/query/sql/stats.go\<close>): the window of the latest queries, patterns, summary.
  \<^item> \<^verbatim>\<open>DemoCodec\<close>, \<^verbatim>\<open>ServiceExamples\<close>: codecs for the examples; the examples of the last two.
  \<^item> \<^verbatim>\<open>CachedStore\<close>, \<^verbatim>\<open>Sessions\<close>, \<^verbatim>\<open>SessionsProps\<close>, \<^verbatim>\<open>SessionExamples\<close> (\<^verbatim>\<open>internal/agent/session.go\<close>,
    \<^verbatim>\<open>session_enhanced.go\<close>, \<^verbatim>\<open>internal/model/session.go\<close>): the contract of a cache in front of an engine
    (locale \<open>cache_contract\<close>, met by \<open>Cache\<close>); sessions, quotas, state transitions, expiry; the operations against their
    forms without a cache, and the state machine of the sessions.

  \<^item> \<^verbatim>\<open>GoFloat32\<close>, \<^verbatim>\<open>Hnsw\<close>, \<^verbatim>\<open>HnswProps\<close>, \<^verbatim>\<open>HnswSearch\<close>, \<^verbatim>\<open>VectorStore\<close>, \<^verbatim>\<open>HnswExamples\<close>
    (\<^verbatim>\<open>internal/vector/distance.go\<close>, \<^verbatim>\<open>hnsw.go\<close>, \<^verbatim>\<open>store.go\<close>): float32 on bit patterns and the distances; the layered graph of
    vectors, its search, insertion and deletion; the changes that cut it; what searches answer and when they are exact
    (\<open>hnsw_reachable\<close>); named indexes over the engine and their rebuilding.

  \<^bold>\<open>How they interact.\<close> The table manager, the Raft log and the Raft engine all act on the ordered map of
  \<open>Engine\<close> with the keys of \<open>KeyEncode\<close>. A write of the Raft engine is a proposal of \<open>RaftRun\<close>, becomes a log
  entry of \<open>RaftStorage\<close> and, once committed, is applied through the callback of \<open>RaftNode\<close>. A query runs through
  \<open>Tokenize\<close>, \<open>Parse\<close>, \<open>Plan\<close> and \<open>Execute\<close>, composed by \<open>handleQuery\<close>; the planner's index catalogue is an
  interface, an argument of its functions, which \<open>handleQuery\<close> takes from the index manager of the executor.
  The services keep their data on the same map under the system, graph and lineage prefixes; every permission check
  writes an audit event. Rows live under the prefix the table manager gave their table, index entries under the index prefix; one
  batch changes a row and its entries.

  \<^bold>\<open>Conventions.\<close> Go structs are records, interfaces with node types datatypes, \<open>uint64\<close> and \<open>byte\<close> words,
  \<open>int\<close> and \<open>int64\<close> unbounded integers where the code keeps them in range by construction (positions,
  lengths) or checks the range (\<open>ParseInt\<close>). Errors are sums or options, a panic or a call that does
  not return is \<open>None\<close> or a constructor of its own. A method that holds the mutex is one step. Third-party
  and encoding code (\<^verbatim>\<open>encoding/json\<close>, Badger, the network, the text of \<open>%v\<close> and \<open>%g\<close>) is an argument of the
  definitions, with documented behaviour as named hypotheses where a property needs it.

  \<^bold>\<open>Bounds and fuel.\<close> Loops whose end is not structural are \<open>function\<close>s with a measure (the lexer's
  progress, log truncation) or \<open>partial_function (option)\<close> (the index loops of Raft, whose counters may wrap, and the breadth-first search,
  which \<open>shortest_path_correct\<close> shows to end). The
  parser is structurally recursive on the nesting depth and counts the tokens left in its loops; one more
  than the number of tokens is enough for both, since every nested call and every round takes a token:
  \<open>parser_always_returns\<close>.

  \<^bold>\<open>What the lemma groups show.\<close> Storage: scans return exactly their range, batches are their last writes, key
  codecs are injective where they are. Cache and catalogue: invariants of every run and refinement. Raft: what a
  vote and an append promise, commit only by majority in the term, a single node applies what it accepts; and the
  runs in which late replies or conflicting entries break these promises. SQL: tokens describe the input, parsing
  is total and inverts printing, planning without indexes is the reference pipeline and index choice keeps the
  condition; written rows and their index entries stay in step, queries change nothing, an index does not
  change the answer on numbers, sorting is stable, groups are a partition; and the inputs on which conditions,
  columns, whole clauses, index entries or unique violations are lost. Graph: index entries follow nodes and
  edges, deleting a node detaches it, paths are shortest, hops are distances. Services: tasks leave the queue by
  priority (cancelled ones too), permissions survive a restart, traces end on cycles, summaries add up, the cache in
  front of the sessions cannot be seen by their manager (but hides what is written past it) and sessions follow their
  state machine. Vectors: searches are sound, exact while the beam holds the connected index, indexes are rebuilt from
  what is stored; a new vector for the entry point, or a link that outlives its node, breaks an index.

  \<^bold>\<open>Not modelled.\<close> I/O errors of the storage under the executor and the services. The agent services for memory,
  decisions, rooms and retrieval (\<^verbatim>\<open>internal/agent\<close>): bookkeeping over the same stores. The HTTP and MCP servers, the SDK, the commands and the
  configuration (network and process I/O) are left out, as are generated identifiers, and the opening and closing of databases. Values
  handed to a service are values: a caller that changes a task or a role through its own pointer afterwards is outside the model.
\<close>

end
